(* ===== verification/Prelude.thy ===== *)
theory Prelude
  imports Main "HOL-Library.Word" "HOL-Library.Monad_Syntax" "HOL-Library.Signed_Division"
begin

unbundle bit_operations_syntax

text \<open>
  Shared vocabulary of the development: the C integer helpers and macros of
  \<^verbatim>\<open>lib/common.h\<close>, the error numbers, checked array access, and the generic lemmas on
  lists, words and least indices that the component theories use.

  Conventions used throughout. A C function that can only read valid memory is a HOL
  function; one that indexes an array, follows a pointer, divides or loops over a linked
  structure returns an \<open>option\<close>, where \<open>None\<close> stands for a call that does not return
  normally (an access outside the object, a NULL or dangling pointer, a division by zero,
  an endless loop, a lock that is already held by the caller). \<open>unsigned long\<close> values
  whose bits matter are \<open>64 word\<close>; \<open>int\<close> values that hold counts, CPU numbers and error
  codes are \<open>int\<close>.
\<close>

section \<open>Types and collections\<close>

type_synonym ulong = "64 word"
type_synonym addr = nat

named_theorems c_arith \<open>the arithmetic macros of common.h\<close>
named_theorems bit_scan \<open>characterisations of the bit searches\<close>
named_theorems cset \<open>CPU set operations seen as operations on sets of CPU numbers\<close>

section \<open>Error numbers\<close>

text \<open>The values of \<^verbatim>\<open>errno.h\<close> on Linux.\<close>

abbreviation (input) ENOENT :: int where "ENOENT \<equiv> 2"
abbreviation (input) EIO :: int where "EIO \<equiv> 5"
abbreviation (input) EAGAIN :: int where "EAGAIN \<equiv> 11"
abbreviation (input) ENOMEM :: int where "ENOMEM \<equiv> 12"
abbreviation (input) EBUSY :: int where "EBUSY \<equiv> 16"
abbreviation (input) EINVAL :: int where "EINVAL \<equiv> 22"
abbreviation (input) ERANGE :: int where "ERANGE \<equiv> 34"
abbreviation (input) ENODATA :: int where "ENODATA \<equiv> 61"

section \<open>Arithmetic macros\<close>

definition div_round_up :: "int \<Rightarrow> int \<Rightarrow> int" where
  "div_round_up x y = (x + y - 1) sdiv y"

definition round_down :: "ulong \<Rightarrow> ulong \<Rightarrow> ulong" where
  "round_down x y = x AND NOT (y - 1)"

definition ALIGN :: "ulong \<Rightarrow> ulong \<Rightarrow> ulong" where
  "ALIGN x a = (x + a - 1) AND NOT (a - 1)"

text \<open>C's remainder: it has the sign of the dividend, and a zero divisor traps.\<close>

definition c_mod :: "int \<Rightarrow> int \<Rightarrow> int option" where
  "c_mod a b = (if b = 0 then None else Some (a smod b))"

definition c_div :: "int \<Rightarrow> int \<Rightarrow> int option" where
  "c_div a b = (if b = 0 then None else Some (a sdiv b))"

section \<open>Checked array access\<close>

definition rd :: "'a list \<Rightarrow> nat \<Rightarrow> 'a option" where
  "rd xs i = (if i < length xs then Some (xs ! i) else None)"

definition wr :: "'a list \<Rightarrow> nat \<Rightarrow> 'a \<Rightarrow> 'a list option" where
  "wr xs i x = (if i < length xs then Some (xs[i := x]) else None)"

text \<open>An access with a signed index, as in \<^verbatim>\<open>wayca_cpu_loads[pos]\<close>.\<close>

definition rdi :: "'a list \<Rightarrow> int \<Rightarrow> 'a option" where
  "rdi xs i = (if 0 \<le> i then rd xs (nat i) else None)"

definition wri :: "'a list \<Rightarrow> int \<Rightarrow> 'a \<Rightarrow> 'a list option" where
  "wri xs i x = (if 0 \<le> i then wr xs (nat i) x else None)"

lemma rd_Some [simp]: "i < length xs \<Longrightarrow> rd xs i = Some (xs ! i)"
  by (simp add: rd_def)

lemma rd_None [simp]: "length xs \<le> i \<Longrightarrow> rd xs i = None"
  by (simp add: rd_def)

lemma rd_eq_Some: "rd xs i = Some x \<longleftrightarrow> i < length xs \<and> xs ! i = x"
  by (auto simp: rd_def)

lemma wr_Some [simp]: "i < length xs \<Longrightarrow> wr xs i x = Some (xs[i := x])"
  by (simp add: wr_def)

lemma rdi_of_nat [simp]: "rdi xs (int i) = rd xs i"
  by (simp add: rdi_def)

lemma wri_of_nat [simp]: "wri xs (int i) x = wr xs i x"
  by (simp add: wri_def)

lemma rdi_neg [simp]: "i < 0 \<Longrightarrow> rdi xs i = None"
  by (simp add: rdi_def)

section \<open>C arithmetic on non-negative values\<close>

lemma smod_nonneg [c_arith]: "0 \<le> a \<Longrightarrow> 0 < b \<Longrightarrow> (a :: int) smod b = a mod b"
  by (cases "a = 0") (simp_all add: signed_modulo_int_def)

lemma sdiv_nonneg [c_arith]: "0 \<le> a \<Longrightarrow> 0 < b \<Longrightarrow> (a :: int) sdiv b = a div b"
  by (cases "a = 0") (simp_all add: signed_divide_int_def)

lemma div_round_up_pos [c_arith]:
  "0 \<le> x \<Longrightarrow> 0 < y \<Longrightarrow> div_round_up x y = (x + y - 1) div y"
  by (simp add: div_round_up_def sdiv_nonneg)

lemma div_round_up_bounds:
  assumes "0 < x" "0 < y"
  shows "0 < div_round_up x y" and "x \<le> div_round_up x y * y" and "div_round_up x y \<le> x"
proof -
  have eq: "div_round_up x y = (x + y - 1) div y"
    using assms by (simp add: div_round_up_pos)
  have "y \<le> x + y - 1"
    using assms by simp
  then show "0 < div_round_up x y"
    using assms by (simp add: eq pos_imp_zdiv_pos_iff)
  have "(x + y - 1) mod y < y"
    using assms by simp
  moreover have "(x + y - 1) div y * y + (x + y - 1) mod y = x + y - 1"
    by simp
  ultimately show "x \<le> div_round_up x y * y"
    unfolding eq by linarith
  have "(x - 1) div y \<le> x - 1"
    using assms zdiv_mono2 [of "x - 1" 1 y] by simp
  moreover have "(x + y - 1) div y = (x - 1) div y + 1"
    using assms div_add_self2 [of y "x - 1"] by (simp add: algebra_simps)
  ultimately show "div_round_up x y \<le> x"
    by (simp add: eq)
qed

section \<open>The first index that satisfies a predicate\<close>

text \<open>
  \<open>first_from P lo n r\<close>: scanning the indices \<open>lo, \<dots>, n - 1\<close> upwards stops at \<open>r\<close>, the
  first one with \<open>P\<close>, and \<open>r = n\<close> when there is none. \<open>last_below P n r\<close>: scanning
  downwards from \<open>n - 1\<close> stops at \<open>r\<close>, and \<open>r = n\<close> when there is none.
\<close>

definition first_from :: "(nat \<Rightarrow> bool) \<Rightarrow> nat \<Rightarrow> nat \<Rightarrow> nat \<Rightarrow> bool" where
  "first_from P lo n r \<longleftrightarrow>
     r \<le> n \<and> (\<forall>i. lo \<le> i \<and> i < r \<longrightarrow> \<not> P i) \<and> (r < n \<longrightarrow> lo \<le> r \<and> P r)"

definition last_below :: "(nat \<Rightarrow> bool) \<Rightarrow> nat \<Rightarrow> nat \<Rightarrow> bool" where
  "last_below P n r \<longleftrightarrow>
     r < n \<and> P r \<and> (\<forall>i. r < i \<and> i < n \<longrightarrow> \<not> P i) \<or> r = n \<and> (\<forall>i < n. \<not> P i)"

lemma first_from_unique:
  assumes "first_from P lo n r" "first_from P lo n r'" "lo \<le> n"
  shows "r = r'"
proof (rule linorder_cases [of r r'])
  assume "r < r'"
  then show ?thesis using assms by (auto simp: first_from_def)
next
  assume "r' < r"
  then show ?thesis using assms by (auto simp: first_from_def)
qed

lemma last_below_unique: "last_below P n r \<Longrightarrow> last_below P n r' \<Longrightarrow> r = r'"
  unfolding last_below_def by (metis linorder_neqE_nat)

lemma first_from_none [simp]: "first_from P lo n n \<longleftrightarrow> (\<forall>i. lo \<le> i \<and> i < n \<longrightarrow> \<not> P i)"
  by (auto simp: first_from_def)

lemma first_from_cong:
  "(\<And>i. i < n \<Longrightarrow> P i = Q i) \<Longrightarrow> first_from P lo n r = first_from Q lo n r"
  by (auto simp: first_from_def)

lemma last_below_cong:
  "(\<And>i. i < n \<Longrightarrow> P i = Q i) \<Longrightarrow> last_below P n r = last_below Q n r"
  unfolding last_below_def by (cases "r < n") auto

text \<open>A scan that found nothing below \<open>m\<close> continues from \<open>m\<close>.\<close>

lemma first_from_skip:
  "\<forall>i. lo \<le> i \<and> i < m \<longrightarrow> \<not> P i \<Longrightarrow> lo \<le> m \<Longrightarrow> first_from P m n r \<Longrightarrow> first_from P lo n r"
  by (auto simp: first_from_def) (metis not_less)+

text \<open>A scan over a longer range, cut off at \<open>n\<close> as by \<^verbatim>\<open>min(ffs, nbits)\<close>.\<close>

lemma first_from_min:
  "first_from P lo m r \<Longrightarrow> r < m \<Longrightarrow> n \<le> m \<Longrightarrow> lo \<le> n \<Longrightarrow> first_from P lo n (min r n)"
  by (auto simp: first_from_def)

section \<open>Finding in an interval of natural numbers\<close>

lemma find_upt_Some:
  assumes "find P [lo..<n] = Some r"
  shows "lo \<le> r \<and> r < n \<and> P r \<and> (\<forall>i. lo \<le> i \<and> i < r \<longrightarrow> \<not> P i)"
proof -
  obtain k where k: "k < n - lo" "P (lo + k)" "r = lo + k" "\<forall>j<k. \<not> P (lo + j)"
    using assms by (auto simp: find_Some_iff)
  have "\<not> P i" if "lo \<le> i" "i < r" for i
    using that k(3,4) by (auto dest!: spec [of _ "i - lo"])
  with k show ?thesis by auto
qed

lemma find_upt_None: "find P [lo..<n] = None \<longleftrightarrow> (\<forall>i. lo \<le> i \<and> i < n \<longrightarrow> \<not> P i)"
  by (auto simp: find_None_iff)

end
