(* ===== verification/Bitops.thy ===== *)
theory Bitops
  imports Prelude
begin

text \<open>
  The bit searches of \<^verbatim>\<open>lib/bitops.h\<close> over an array of \<^verbatim>\<open>unsigned long\<close>. The array is a
  list of 64-bit words, a read outside it is \<open>None\<close>. The flag \<open>constp\<close> is
  \<^verbatim>\<open>__builtin_constant_p(size)\<close>: when it holds and the size fits in one word the code takes
  a masked single-word path. The lemmas show that every search returns the first (or last)
  index whose bit is set (or clear), whichever path is taken, and that no search reads outside
  an array of at least \<open>size\<close> bits.
\<close>

section \<open>Words\<close>

abbreviation (input) BITS_PER_LONG :: nat where "BITS_PER_LONG \<equiv> 64"

text \<open>\<^verbatim>\<open>~0UL\<close>\<close>

abbreviation all_ones :: ulong where "all_ones \<equiv> - 1"

definition small_const_nbits :: "bool \<Rightarrow> nat \<Rightarrow> bool" where
  "small_const_nbits constp nbits \<longleftrightarrow> constp \<and> nbits \<le> BITS_PER_LONG \<and> 0 < nbits"

definition GENMASK :: "nat \<Rightarrow> nat \<Rightarrow> ulong" where
  "GENMASK h l = (all_ones - push_bit l 1 + 1) AND drop_bit (BITS_PER_LONG - 1 - h) all_ones"

text \<open>\<^verbatim>\<open>tolower\<close> of the C locale and \<^verbatim>\<open>hex_to_bin\<close>.\<close>

definition tolower :: "char \<Rightarrow> char" where
  "tolower c = (if 65 \<le> (of_char c :: nat) \<and> (of_char c :: nat) \<le> 90
                then char_of ((of_char c :: nat) + 32) else c)"

definition hex_to_bin :: "char \<Rightarrow> int" where
  "hex_to_bin ch =
     (if 48 \<le> (of_char ch :: int) \<and> (of_char ch :: int) \<le> 57 then of_char ch - 48
      else let c = of_char (tolower ch) :: int in
        if 97 \<le> c \<and> c \<le> 102 then c - 97 + 10 else -1)"

text \<open>The compiler builtins: one plus the index of the lowest set bit (0 for 0), and the
  number of leading zeros.\<close>

definition builtin_ffsl :: "ulong \<Rightarrow> nat" where
  "builtin_ffsl w = (case find (bit w) [0..<64] of None \<Rightarrow> 0 | Some i \<Rightarrow> Suc i)"

definition builtin_clzl :: "ulong \<Rightarrow> nat" where
  "builtin_clzl w = (case find (\<lambda>i. bit w (63 - i)) [0..<64] of None \<Rightarrow> 64 | Some i \<Rightarrow> i)"

definition ffs :: "ulong \<Rightarrow> nat" where
  "ffs w = (if w \<noteq> 0 then builtin_ffsl w - 1 else BITS_PER_LONG)"

definition ffz :: "ulong \<Rightarrow> nat" where
  "ffz w = ffs (NOT w)"

definition fls :: "ulong \<Rightarrow> nat" where
  "fls w = (if w \<noteq> 0 then BITS_PER_LONG - builtin_clzl w - 1 else BITS_PER_LONG)"

section \<open>Searches\<close>

text \<open>The loop of \<^verbatim>\<open>_find_next_bit\<close>: \<open>tmp\<close> is the current word after \<^verbatim>\<open>invert\<close> and \<^verbatim>\<open>mask\<close>.\<close>

function next_bit_loop :: "ulong list \<Rightarrow> nat \<Rightarrow> ulong \<Rightarrow> nat \<Rightarrow> ulong \<Rightarrow> nat option" where
  "next_bit_loop addr nbits invert start tmp =
     (if tmp = 0 then
        let start' = start + BITS_PER_LONG in
        if nbits \<le> start' then Some nbits
        else (case rd addr (start' div BITS_PER_LONG) of
                None \<Rightarrow> None
              | Some w \<Rightarrow> next_bit_loop addr nbits invert start' (w XOR invert))
      else Some (min (start + ffs tmp) nbits))"
  by pat_completeness auto
termination
  by (relation "measure (\<lambda>(addr, nbits, invert, start, tmp). nbits - start)") auto

declare next_bit_loop.simps [simp del]

definition do_find_next_bit :: "ulong list \<Rightarrow> nat \<Rightarrow> nat \<Rightarrow> ulong \<Rightarrow> nat option" where
  "do_find_next_bit addr nbits start invert = do {
     w \<leftarrow> rd addr (start div BITS_PER_LONG);
     let tmp = w XOR invert;
     let mask = push_bit (start mod BITS_PER_LONG) all_ones;
     let tmp = tmp AND mask;
     let start = start div BITS_PER_LONG * BITS_PER_LONG;
     next_bit_loop addr nbits invert start tmp
   }"

definition find_next_bit :: "bool \<Rightarrow> ulong list \<Rightarrow> nat \<Rightarrow> nat \<Rightarrow> nat option" where
  "find_next_bit constp addr sz offset =
     (if sz \<le> offset then Some sz
      else if small_const_nbits constp sz then do {
        w \<leftarrow> rd addr 0;
        let val = w AND GENMASK (sz - 1) offset;
        Some (if val \<noteq> 0 then ffs val else sz)
      } else do_find_next_bit addr sz offset 0)"

definition find_next_zero_bit :: "bool \<Rightarrow> ulong list \<Rightarrow> nat \<Rightarrow> nat \<Rightarrow> nat option" where
  "find_next_zero_bit constp addr sz offset =
     (if sz \<le> offset then Some sz
      else if small_const_nbits constp sz then do {
        w \<leftarrow> rd addr 0;
        let val = w OR NOT (GENMASK (sz - 1) offset);
        Some (if val = all_ones then sz else ffz val)
      } else do_find_next_bit addr sz offset all_ones)"

function first_bit_loop :: "ulong list \<Rightarrow> nat \<Rightarrow> nat \<Rightarrow> nat option" where
  "first_bit_loop addr sz idx =
     (if idx * BITS_PER_LONG < sz then
        (case rd addr idx of
           None \<Rightarrow> None
         | Some w \<Rightarrow> if w \<noteq> 0 then Some (min (idx * BITS_PER_LONG + ffs w) sz)
                     else first_bit_loop addr sz (idx + 1))
      else Some sz)"
  by pat_completeness auto
termination
  by (relation "measure (\<lambda>(addr, sz, idx). sz - idx * 64)") auto

declare first_bit_loop.simps [simp del]

definition find_first_bit :: "bool \<Rightarrow> ulong list \<Rightarrow> nat \<Rightarrow> nat option" where
  "find_first_bit constp addr sz =
     (if small_const_nbits constp sz then do {
        w \<leftarrow> rd addr 0;
        let val = w AND GENMASK (sz - 1) 0;
        Some (if val \<noteq> 0 then ffs val else sz)
      } else first_bit_loop addr sz 0)"

text \<open>The loop of \<^verbatim>\<open>find_last_bit\<close>: \<open>val\<close> masks the word at \<open>idx\<close>, which counts down to 0.\<close>

fun last_bit_loop :: "ulong list \<Rightarrow> nat \<Rightarrow> nat \<Rightarrow> ulong \<Rightarrow> nat option" where
  "last_bit_loop addr sz idx val = do {
     w \<leftarrow> rd addr idx;
     let val = val AND w;
     if val \<noteq> 0 then Some (idx * BITS_PER_LONG + fls val)
     else (case idx of 0 \<Rightarrow> Some sz | Suc idx' \<Rightarrow> last_bit_loop addr sz idx' all_ones)
   }"

declare last_bit_loop.simps [simp del]

text \<open>With a size of 0 the index \<^verbatim>\<open>(size - 1) / BITS_PER_LONG\<close> wraps to the largest word
  index of the address space, which no array has.\<close>

definition find_last_bit :: "bool \<Rightarrow> ulong list \<Rightarrow> nat \<Rightarrow> nat option" where
  "find_last_bit constp addr sz =
     (if small_const_nbits constp sz then do {
        w \<leftarrow> rd addr 0;
        let val = w AND GENMASK (sz - 1) 0;
        Some (if val \<noteq> 0 then fls val else sz)
      } else if sz = 0 then None
      else
        let val = drop_bit (unat (- (of_nat sz :: ulong) AND 63)) all_ones;
            idx = (sz - 1) div BITS_PER_LONG
        in last_bit_loop addr sz idx val)"

function first_zero_bit_loop :: "ulong list \<Rightarrow> nat \<Rightarrow> nat \<Rightarrow> nat option" where
  "first_zero_bit_loop addr sz idx =
     (if idx * BITS_PER_LONG < sz then
        (case rd addr idx of
           None \<Rightarrow> None
         | Some w \<Rightarrow> if w \<noteq> all_ones then Some (min (idx * BITS_PER_LONG + ffz w) sz)
                     else first_zero_bit_loop addr sz (idx + 1))
      else Some sz)"
  by pat_completeness auto
termination
  by (relation "measure (\<lambda>(addr, sz, idx). sz - idx * 64)") auto

declare first_zero_bit_loop.simps [simp del]

definition find_first_zero_bit :: "bool \<Rightarrow> ulong list \<Rightarrow> nat \<Rightarrow> nat option" where
  "find_first_zero_bit constp addr sz =
     (if small_const_nbits constp sz then do {
        w \<leftarrow> rd addr 0;
        let val = w OR NOT (GENMASK (sz - 1) 0);
        Some (if val = all_ones then sz else ffz val)
      } else first_zero_bit_loop addr sz 0)"

section \<open>One word\<close>

definition abit :: "ulong list \<Rightarrow> nat \<Rightarrow> bool" where
  "abit ws i \<longleftrightarrow> bit (ws ! (i div 64)) (i mod 64)"

lemma word_nonzero_bit: "(w :: ulong) \<noteq> 0 \<longleftrightarrow> (\<exists>i < 64. bit w i)"
  by (auto simp: bit_eq_iff dest: bit_imp_le_length)

lemma word_not_ones_bit: "(w :: ulong) \<noteq> all_ones \<longleftrightarrow> (\<exists>i < 64. \<not> bit w i)"
  by (auto simp: bit_eq_iff bit_not_iff dest: bit_imp_le_length)

lemma ffs_first: "w \<noteq> 0 \<Longrightarrow> ffs w < 64 \<and> first_from (bit w) 0 64 (ffs w)"
  by (auto simp: ffs_def builtin_ffsl_def first_from_def find_upt_None word_nonzero_bit
      dest!: find_upt_Some split: option.split)

lemma ffz_first: "w \<noteq> all_ones \<Longrightarrow> ffz w < 64 \<and> first_from (\<lambda>i. \<not> bit w i) 0 64 (ffz w)"
  using ffs_first [of "NOT w"]
  by (auto simp: ffz_def first_from_def bit_not_iff word_nonzero_bit word_not_ones_bit)

lemma fls_last: "w \<noteq> 0 \<Longrightarrow> fls w < 64 \<and> last_below (bit w) 64 (fls w)"
proof -
  assume w: "w \<noteq> 0"
  then obtain i where i: "i < 64" "bit w i"
    by (auto simp: word_nonzero_bit)
  then have "bit w (63 - (63 - i))"
    by simp
  then have "find (\<lambda>i. bit w (63 - i)) [0..<64] \<noteq> None"
    using i by (auto simp: find_upt_None intro!: exI [of _ "63 - i"])
  then obtain r where r: "find (\<lambda>i. bit w (63 - i)) [0..<64] = Some r"
    by blast
  have "\<not> bit w k" if "63 - r < k" "k < 64" for k
    using find_upt_Some [OF r] that by (auto dest!: spec [of _ "63 - k"])
  then show ?thesis
    using find_upt_Some [OF r] w by (auto simp: fls_def builtin_clzl_def r last_below_def)
qed

lemma bit_ones: "bit (- 1 :: ulong) i \<longleftrightarrow> i < 64"
  by simp

lemma bit_low_mask: "bit (drop_bit n all_ones :: ulong) i \<longleftrightarrow> i + n < 64"
  by (simp only: bit_drop_bit_eq comp_def bit_ones add.commute)

lemma bit_GENMASK:
  assumes "h < 64" "l < 64"
  shows "bit (GENMASK h l) i \<longleftrightarrow> l \<le> i \<and> i \<le> h"
proof -
  have "(all_ones :: ulong) - push_bit l 1 + 1 = NOT (mask l)"
    by (simp add: mask_eq_exp_minus_1 push_bit_eq_mult not_eq_complement)
  then show ?thesis
    using assms by (auto simp: GENMASK_def bit_and_iff bit_low_mask bit_not_iff bit_mask_iff)
qed

lemma minus_mod_64: "unat (- (of_nat n :: ulong) AND 63) = (64 - n mod 64) mod 64"
proof -
  have "- (of_nat n :: ulong) AND 63 = take_bit 6 (- of_nat n)"
    by (simp add: take_bit_eq_mask mask_eq_exp_minus_1)
  also have "\<dots> = word_of_int (take_bit 6 (- int n))"
    by transfer (simp add: take_bit_minus)
  finally have "uint (- (of_nat n :: ulong) AND 63) = take_bit 6 (- int n)"
    by (simp add: uint_word_of_int_eq)
  then have "uint (- (of_nat n :: ulong) AND 63) = (- int n) mod 64"
    by (simp add: take_bit_eq_mod)
  also have "\<dots> = int ((64 - n mod 64) mod 64)"
    by (simp add: zmod_zminus1_eq_if of_nat_diff zmod_int)
  finally show ?thesis
    by (simp only: unat_eq_nat_uint nat_int)
qed

section \<open>Correctness of the searches\<close>

text \<open>
  \<open>wanted addr iv i\<close>: the search stops at this bit of the array, set bits with
  \<^verbatim>\<open>invert\<close> 0 and clear bits with \<^verbatim>\<open>invert\<close> \<^verbatim>\<open>~0UL\<close>.
\<close>

abbreviation wanted :: "ulong list \<Rightarrow> ulong \<Rightarrow> nat \<Rightarrow> bool" where
  "wanted addr iv i \<equiv> abit addr i \<noteq> (iv = all_ones)"

lemma bit_xor_invert:
  "iv = 0 \<or> iv = all_ones \<Longrightarrow> i < 64 \<Longrightarrow> bit (w XOR iv) i \<longleftrightarrow> bit w i \<noteq> (iv = all_ones)"
  by (auto simp: bit_xor_iff bit_ones)

lemma abit_word: "i < 64 \<Longrightarrow> abit ws (k * 64 + i) = bit (ws ! k) i"
  by (simp add: abit_def)

text \<open>A word found at bit position \<open>k * 64\<close> decides the scan from there.\<close>

lemma first_from_word:
  assumes "first_from (bit w) 0 64 r" "r < 64" "k * 64 < n"
    and "\<And>i. i < 64 \<Longrightarrow> bit w i \<Longrightarrow> lo \<le> k * 64 + i \<and> P (k * 64 + i)"
    and "\<And>i. i < 64 \<Longrightarrow> lo \<le> k * 64 + i \<Longrightarrow> P (k * 64 + i) \<Longrightarrow> bit w i"
    and "\<And>i. lo \<le> i \<Longrightarrow> i < k * 64 \<Longrightarrow> \<not> P i"
  shows "first_from P lo n (min (k * 64 + r) n)"
proof -
  have "\<not> P i" if i: "lo \<le> i" "i < k * 64 + r" for i
  proof (cases "i < k * 64")
    case False
    then have "\<not> bit w (i - k * 64)" and "i - k * 64 < 64"
      using assms(1,2) i by (auto simp: first_from_def)
    then show ?thesis
      using assms(5) [of "i - k * 64"] False i by auto
  qed (use assms(6) i in auto)
  then show ?thesis
    using assms(1,2) assms(4) [of r] by (auto simp: first_from_def min_def)
qed

lemma next_bit_loop_first:
  assumes "n \<le> 64 * length addr" "iv = 0 \<or> iv = all_ones" "k * 64 < n"
    and "\<forall>i < 64. bit tmp i \<longleftrightarrow> lo \<le> k * 64 + i \<and> wanted addr iv (k * 64 + i)"
    and "\<forall>i. lo \<le> i \<and> i < k * 64 \<longrightarrow> \<not> wanted addr iv i" "lo < k * 64 + 64"
    and "start = k * 64"
  shows "\<exists>r. next_bit_loop addr n iv start tmp = Some r \<and> first_from (wanted addr iv) lo n r"
  using assms
proof (induction addr n iv start tmp arbitrary: k rule: next_bit_loop.induct)
  case (1 addr n iv start tmp)
  show ?case
  proof (cases "tmp = 0")
    case False
    then have "first_from (wanted addr iv) lo n (min (k * 64 + ffs tmp) n)"
      using ffs_first [of tmp] "1.prems" by (intro first_from_word [of tmp]) auto
    then show ?thesis
      using False "1.prems"(7) by (subst next_bit_loop.simps) auto
  next
    case True
    have none: "\<not> wanted addr iv i" if "lo \<le> i" "i < Suc k * 64" for i
    proof (cases "i < k * 64")
      case False
      then have "i - k * 64 < 64" "k * 64 + (i - k * 64) = i"
        using that by auto
      then show ?thesis
        using "1.prems"(4) True that by (metis bit_0_eq bot_apply bot_bool_def)
    qed (use "1.prems"(5) that in blast)
    show ?thesis
    proof (cases "n \<le> start + 64")
      case True
      then have "first_from (wanted addr iv) lo n n"
        using none "1.prems"(7) by (auto simp: first_from_def)
      with \<open>tmp = 0\<close> True show ?thesis
        by (subst next_bit_loop.simps) auto
    next
      case False
      then have k': "Suc k < length addr" "(start + 64) div 64 = Suc k" "Suc k * 64 < n"
        using "1.prems"(1,3,7) by auto
      define w where "w = addr ! Suc k XOR iv"
      have "\<forall>i < 64. bit w i \<longleftrightarrow> lo \<le> Suc k * 64 + i \<and> wanted addr iv (Suc k * 64 + i)"
        using "1.prems"(2,6) abit_word [of _ addr "Suc k"]
        by (auto simp: w_def bit_xor_invert)
      then have "\<exists>r. next_bit_loop addr n iv (start + 64) w = Some r
          \<and> first_from (wanted addr iv) lo n r"
        using True False k' none "1.prems"(1,2,6,7)
        by (intro "1.IH" [of "start + 64" "addr ! Suc k" "Suc k", folded w_def]) auto
      then show ?thesis
        using True False k' by (subst next_bit_loop.simps) (simp add: w_def Let_def)
    qed
  qed
qed

lemma bit_start_mask: "m < 64 \<Longrightarrow> i < 64 \<Longrightarrow> bit (push_bit m (- 1 :: ulong)) i \<longleftrightarrow> m \<le> i"
  by (simp only: bit_push_bit_iff bit_ones possible_bit_word) auto

lemma do_find_next_bit_first:
  assumes "n \<le> 64 * length addr" "lo < n" "iv = 0 \<or> iv = all_ones"
  shows "\<exists>r. do_find_next_bit addr n lo iv = Some r \<and> first_from (wanted addr iv) lo n r"
proof -
  obtain k m where lo: "lo = k * 64 + m" "m < 64"
    using div_mod_decomp [of lo 64] by (metis mod_less_divisor zero_less_numeral)
  then have k: "k < length addr" "k * 64 < n" "lo < k * 64 + 64"
    using assms(1,2) by auto
  define tmp where "tmp = (addr ! k XOR iv) AND push_bit m all_ones"
  have "bit tmp i \<longleftrightarrow> lo \<le> k * 64 + i \<and> wanted addr iv (k * 64 + i)" if "i < 64" for i
    unfolding tmp_def bit_and_iff bit_xor_invert [OF assms(3) that] bit_start_mask [OF lo(2) that]
      abit_word [OF that] lo(1) by auto
  then have "\<exists>r. next_bit_loop addr n iv (k * 64) tmp = Some r \<and> first_from (wanted addr iv) lo n r"
    using assms k lo by (intro next_bit_loop_first [of n addr iv k]) auto
  moreover have "do_find_next_bit addr n lo iv = next_bit_loop addr n iv (k * 64) tmp"
    using k(1) lo(2) unfolding do_find_next_bit_def Let_def tmp_def lo(1) by simp
  ultimately show ?thesis by simp
qed

text \<open>The single-word paths.\<close>

lemma masked_word_first:
  assumes "0 < n" "n \<le> 64" "lo < n"
    and "\<And>i. i < 64 \<Longrightarrow> bit val i \<longleftrightarrow> lo \<le> i \<and> i < n \<and> P i"
  shows "first_from P lo n (if val \<noteq> 0 then ffs val else n)"
proof (cases "val = 0")
  case True
  then have "\<not> P i" if "lo \<le> i" "i < n" for i
    using assms(2) assms(4) [of i] that by auto
  with True show ?thesis by simp
next
  case False
  then show ?thesis
    using ffs_first [OF False] assms by (auto simp: first_from_def)
qed

lemma find_next_bit_first:
  assumes "n \<le> 64 * length addr"
  shows "\<exists>r. find_next_bit constp addr n lo = Some r \<and> first_from (abit addr) lo n r"
proof -
  consider "n \<le> lo" | "lo < n" "small_const_nbits constp n" | "lo < n" "\<not> small_const_nbits constp n"
    by linarith
  then show ?thesis
  proof cases
    case 2
    then have n: "0 < n" "n \<le> 64" "0 < length addr"
      using assms by (auto simp: small_const_nbits_def)
    define val where "val = addr ! 0 AND GENMASK (n - 1) lo"
    have "bit val i \<longleftrightarrow> lo \<le> i \<and> i < n \<and> abit addr i" if "i < 64" for i
      using n 2(1) that by (auto simp: val_def bit_and_iff bit_GENMASK abit_def)
    then have "first_from (abit addr) lo n (if val \<noteq> 0 then ffs val else n)"
      using n 2 by (intro masked_word_first) auto
    moreover have "find_next_bit constp addr n lo = Some (if val \<noteq> 0 then ffs val else n)"
      using n 2 by (simp add: find_next_bit_def val_def Let_def)
    ultimately show ?thesis by blast
  next
    case 3
    then show ?thesis
      using do_find_next_bit_first [of n addr lo 0] assms by (simp add: find_next_bit_def)
  qed (auto simp: find_next_bit_def)
qed

lemma find_next_zero_bit_first:
  assumes "n \<le> 64 * length addr"
  shows "\<exists>r. find_next_zero_bit constp addr n lo = Some r
    \<and> first_from (\<lambda>i. \<not> abit addr i) lo n r"
proof -
  consider "n \<le> lo" | "lo < n" "small_const_nbits constp n" | "lo < n" "\<not> small_const_nbits constp n"
    by linarith
  then show ?thesis
  proof cases
    case 2
    then have n: "0 < n" "n \<le> 64" "0 < length addr"
      using assms by (auto simp: small_const_nbits_def)
    define val where "val = addr ! 0 OR NOT (GENMASK (n - 1) lo)"
    have "bit (NOT val) i \<longleftrightarrow> lo \<le> i \<and> i < n \<and> \<not> abit addr i" if "i < 64" for i
      using n 2(1) that by (auto simp: val_def bit_or_iff bit_and_iff bit_not_iff bit_GENMASK abit_def)
    moreover have "NOT val \<noteq> 0 \<longleftrightarrow> val \<noteq> all_ones"
      by (auto simp: word_nonzero_bit word_not_ones_bit bit_not_iff)
    ultimately have "first_from (\<lambda>i. \<not> abit addr i) lo n (if val = all_ones then n else ffz val)"
      using masked_word_first [of n lo "NOT val" "\<lambda>i. \<not> abit addr i"] n 2
      by (auto simp: ffz_def split: if_splits)
    moreover have "find_next_zero_bit constp addr n lo = Some (if val = all_ones then n else ffz val)"
      using n 2 by (simp add: find_next_zero_bit_def val_def Let_def)
    ultimately show ?thesis by blast
  next
    case 3
    then show ?thesis
      using do_find_next_bit_first [of n addr lo all_ones] assms
      by (simp add: find_next_zero_bit_def)
  qed (auto simp: find_next_zero_bit_def)
qed

lemma first_bit_loop_first:
  assumes "n \<le> 64 * length addr" "\<forall>i < k * 64. \<not> abit addr i"
  shows "\<exists>r. first_bit_loop addr n k = Some r \<and> first_from (abit addr) 0 n r"
  using assms
proof (induction addr n k rule: first_bit_loop.induct)
  case (1 addr n k)
  show ?case
  proof (cases "k * 64 < n")
    case False
    then show ?thesis
      using "1.prems"(2) by (subst first_bit_loop.simps) auto
  next
    case True
    then have k: "k < length addr"
      using "1.prems"(1) by simp
    show ?thesis
    proof (cases "addr ! k = 0")
      case False
      then have "first_from (abit addr) 0 n (min (k * 64 + ffs (addr ! k)) n)"
        using ffs_first [OF False] True "1.prems"(2) abit_word [of _ addr k]
        by (intro first_from_word [of "addr ! k"]) auto
      with False True k show ?thesis
        by (subst first_bit_loop.simps) auto
    next
      case zero: True
      have "\<not> abit addr i" if "i < (k + 1) * 64" for i
        using "1.prems"(2) zero that abit_word [of "i - k * 64" addr k]
        by (cases "i < k * 64") auto
      then show ?thesis
        using "1.IH" [of "addr ! k"] True k zero "1.prems"(1)
        by (subst first_bit_loop.simps) auto
    qed
  qed
qed

text \<open>\<^verbatim>\<open>find_first_bit\<close> is \<^verbatim>\<open>find_next_bit\<close> from offset 0.\<close>

lemma find_first_bit_first:
  assumes "n \<le> 64 * length addr"
  shows "\<exists>r. find_first_bit constp addr n = Some r \<and> first_from (abit addr) 0 n r"
proof (cases "small_const_nbits constp n")
  case True
  then have "find_first_bit constp addr n = find_next_bit constp addr n 0"
    by (simp add: find_first_bit_def find_next_bit_def small_const_nbits_def)
  then show ?thesis
    using find_next_bit_first [OF assms] by simp
next
  case False
  then show ?thesis
    using first_bit_loop_first [of n addr 0] assms by (simp add: find_first_bit_def)
qed

lemma first_zero_bit_loop_first:
  assumes "n \<le> 64 * length addr" "\<forall>i < k * 64. abit addr i"
  shows "\<exists>r. first_zero_bit_loop addr n k = Some r \<and> first_from (\<lambda>i. \<not> abit addr i) 0 n r"
  using assms
proof (induction addr n k rule: first_zero_bit_loop.induct)
  case (1 addr n k)
  show ?case
  proof (cases "k * 64 < n")
    case False
    then show ?thesis
      using "1.prems"(2) by (subst first_zero_bit_loop.simps) auto
  next
    case True
    then have k: "k < length addr"
      using "1.prems"(1) by simp
    show ?thesis
    proof (cases "addr ! k = all_ones")
      case False
      then have nz: "NOT (addr ! k) \<noteq> 0"
        by (auto simp: word_nonzero_bit word_not_ones_bit bit_not_iff)
      have "first_from (\<lambda>i. \<not> abit addr i) 0 n (min (k * 64 + ffz (addr ! k)) n)"
        unfolding ffz_def using ffs_first [OF nz] True "1.prems"(2) abit_word [of _ addr k]
        by (intro first_from_word [of "NOT (addr ! k)"]) (auto simp: bit_not_iff)
      with False True k show ?thesis
        by (subst first_zero_bit_loop.simps) auto
    next
      case ones: True
      have "abit addr i" if "i < (k + 1) * 64" for i
        using "1.prems"(2) ones that abit_word [of "i - k * 64" addr k]
        by (cases "i < k * 64") (auto simp: bit_ones)
      then show ?thesis
        using "1.IH" [of "addr ! k"] True k ones "1.prems"(1)
        by (subst first_zero_bit_loop.simps) auto
    qed
  qed
qed

lemma find_first_zero_bit_first:
  assumes "n \<le> 64 * length addr"
  shows "\<exists>r. find_first_zero_bit constp addr n = Some r
    \<and> first_from (\<lambda>i. \<not> abit addr i) 0 n r"
proof (cases "small_const_nbits constp n")
  case True
  then have "find_first_zero_bit constp addr n = find_next_zero_bit constp addr n 0"
    by (simp add: find_first_zero_bit_def find_next_zero_bit_def small_const_nbits_def)
  then show ?thesis
    using find_next_zero_bit_first [OF assms] by simp
next
  case False
  then show ?thesis
    using first_zero_bit_loop_first [of n addr 0] assms by (simp add: find_first_zero_bit_def)
qed

text \<open>One word of the downward scan: the masked word \<open>v\<close> at bit position \<open>k * 64\<close>.\<close>

lemma last_below_word:
  assumes "\<And>i. i < 64 \<Longrightarrow> bit v i \<longleftrightarrow> k * 64 + i < n \<and> P (k * 64 + i)"
    and "\<And>i. k * 64 + 64 \<le> i \<Longrightarrow> i < n \<Longrightarrow> \<not> P i"
  shows "v \<noteq> 0 \<Longrightarrow> last_below P n (k * 64 + fls v)"
    and "v = 0 \<Longrightarrow> k * 64 \<le> i \<Longrightarrow> i < n \<Longrightarrow> \<not> P i"
proof -
  have word: "bit v (i - k * 64)" if "k * 64 \<le> i" "i < n" "P i" for i
    using assms(1) [of "i - k * 64"] assms(2) [of i] that by (cases "k * 64 + 64 \<le> i") auto
  show "\<not> P i" if "v = 0" "k * 64 \<le> i" "i < n" for i
    using word [of i] that by auto
  assume "v \<noteq> 0"
  then have fls: "fls v < 64" "bit v (fls v)" "\<And>i. fls v < i \<Longrightarrow> i < 64 \<Longrightarrow> \<not> bit v i"
    using fls_last [of v] by (auto simp: last_below_def)
  have "\<not> P i" if "k * 64 + fls v < i" "i < n" for i
    using word [of i] fls(3) [of "i - k * 64"] assms(2) [of i] that by fastforce
  then show "last_below P n (k * 64 + fls v)"
    using fls(1,2) assms(1) [of "fls v"] by (auto simp: last_below_def)
qed

lemma last_bit_loop_last:
  assumes "k < length addr"
    and "\<forall>i < 64. bit val i \<longleftrightarrow> k * 64 + i < n"
    and "\<forall>i. k * 64 + 64 \<le> i \<and> i < n \<longrightarrow> \<not> abit addr i"
    and "k * 64 \<le> n"
  shows "\<exists>r. last_bit_loop addr n k val = Some r \<and> last_below (abit addr) n r"
  using assms
proof (induction k arbitrary: val)
  case (0 val)
  then have "\<And>i. i < 64 \<Longrightarrow> bit (val AND addr ! 0) i \<longleftrightarrow> 0 * 64 + i < n \<and> abit addr (0 * 64 + i)"
    using abit_word [of _ addr 0] by (auto simp: bit_and_iff)
  note word = last_below_word [of "val AND addr ! 0" 0 n "abit addr", OF this]
  show ?case
    using 0 word by (subst last_bit_loop.simps) (auto simp: Let_def last_below_def)
next
  case (Suc k)
  then have "\<And>i. i < 64 \<Longrightarrow> bit (val AND addr ! Suc k) i
      \<longleftrightarrow> Suc k * 64 + i < n \<and> abit addr (Suc k * 64 + i)"
    using abit_word [of _ addr "Suc k"] by (auto simp: bit_and_iff)
  note word = last_below_word [of "val AND addr ! Suc k" "Suc k" n "abit addr", OF this]
  show ?case
  proof (cases "val AND addr ! Suc k = 0")
    case True
    then have "\<exists>r. last_bit_loop addr n k all_ones = Some r \<and> last_below (abit addr) n r"
      using Suc.prems word(2) by (intro Suc.IH) (auto simp: bit_ones)
    with True Suc.prems(1) show ?thesis
      by (subst last_bit_loop.simps) (simp add: Let_def)
  next
    case False
    with word(1) Suc.prems show ?thesis
      by (subst last_bit_loop.simps) (auto simp: Let_def)
  qed
qed

lemma find_last_bit_last:
  assumes "n \<le> 64 * length addr" "0 < n"
  shows "\<exists>r. find_last_bit constp addr n = Some r \<and> last_below (abit addr) n r"
proof (cases "small_const_nbits constp n")
  case True
  then have n: "0 < n" "n \<le> 64" "0 < length addr"
    using assms by (auto simp: small_const_nbits_def)
  define val where "val = addr ! 0 AND GENMASK (n - 1) 0"
  have "bit val i \<longleftrightarrow> 0 * 64 + i < n \<and> abit addr (0 * 64 + i)" if "i < 64" for i
    using n that by (auto simp: val_def bit_and_iff bit_GENMASK abit_def)
  note word = last_below_word [of val 0 n "abit addr", OF this]
  have "last_below (abit addr) n (if val \<noteq> 0 then fls val else n)"
  proof (cases "val = 0")
    case True
    then show ?thesis using word(2) n(2) by (simp add: last_below_def)
  next
    case False
    then show ?thesis using word(1) n(2) by simp
  qed
  moreover have "find_last_bit constp addr n = Some (if val \<noteq> 0 then fls val else n)"
    using n True by (simp add: find_last_bit_def val_def Let_def)
  ultimately show ?thesis by blast
next
  case False
  define k where "k = (n - 1) div 64"
  have k: "k < length addr" "k * 64 < n" "n \<le> k * 64 + 64"
    using assms unfolding k_def by linarith+
  define val where "val = drop_bit (unat (- (of_nat n :: ulong) AND 63)) all_ones"
  obtain m where m: "n = m + k * 64" "0 < m" "m \<le> 64"
    using k(2,3) by (intro that [of "n - k * 64"]) auto
  then have shift: "(64 - n mod 64) mod 64 = k * 64 + 64 - n"
    by (cases "m = 64") auto
  have "bit val i \<longleftrightarrow> k * 64 + i < n" for i
    unfolding val_def minus_mod_64 bit_low_mask shift using k(3) by linarith
  moreover have "\<not> (k * 64 + 64 \<le> i \<and> i < n)" for i
    using k(3) by linarith
  ultimately have "\<exists>r. last_bit_loop addr n k val = Some r \<and> last_below (abit addr) n r"
    using k(1,2) by (intro last_bit_loop_last) (simp_all only: simp_thms less_imp_le)
  moreover have "find_last_bit constp addr n = last_bit_loop addr n k val"
    using False assms(2) unfolding find_last_bit_def Let_def k_def val_def
    by (simp only: if_False less_not_refl2)
  ultimately show ?thesis by simp
qed

lemmas bit_search_first [bit_scan] =
  find_next_bit_first find_next_zero_bit_first find_first_bit_first
  find_first_zero_bit_first find_last_bit_last

section \<open>Properties\<close>

text \<open>C14. The single-word fast paths taken for small compile-time sizes compute the same
  result as the general loops, for all five searches, on any array that has that many bits.\<close>

theorem small_const_paths_agree:
  assumes "n \<le> 64 * length addr" "0 < n"
  shows "find_next_bit True addr n lo = find_next_bit False addr n lo
    \<and> find_next_zero_bit True addr n lo = find_next_zero_bit False addr n lo
    \<and> find_first_bit True addr n = find_first_bit False addr n
    \<and> find_first_zero_bit True addr n = find_first_zero_bit False addr n
    \<and> find_last_bit True addr n = find_last_bit False addr n"
proof -
  have next_agree: "r = r'" if "first_from P lo n r" "first_from P lo n r'" "lo < n" for P r r'
    using that first_from_unique by (metis less_imp_le)
  have "find_next_bit True addr n lo = find_next_bit False addr n lo"
    using find_next_bit_first [OF assms(1), of True lo] find_next_bit_first [OF assms(1), of False lo]
      next_agree by (cases "lo < n") (auto simp: find_next_bit_def [of _ addr n lo])
  moreover have "find_next_zero_bit True addr n lo = find_next_zero_bit False addr n lo"
    using find_next_zero_bit_first [OF assms(1), of True lo]
      find_next_zero_bit_first [OF assms(1), of False lo] next_agree
    by (cases "lo < n") (auto simp: find_next_zero_bit_def [of _ addr n lo])
  moreover have "find_first_bit True addr n = find_first_bit False addr n"
    using find_first_bit_first [OF assms(1), of True] find_first_bit_first [OF assms(1), of False]
      first_from_unique by fastforce
  moreover have "find_first_zero_bit True addr n = find_first_zero_bit False addr n"
    using find_first_zero_bit_first [OF assms(1), of True]
      find_first_zero_bit_first [OF assms(1), of False] first_from_unique by fastforce
  moreover have "find_last_bit True addr n = find_last_bit False addr n"
    using find_last_bit_last [OF assms, of True] find_last_bit_last [OF assms, of False]
      last_below_unique by fastforce
  ultimately show ?thesis by blast
qed

theorem small_const_paths_agree_witness:
  "find_last_bit True [40] 6 = find_last_bit False [40] 6 \<and> find_last_bit True [40] 6 = Some 5"
proof -
  have "find_last_bit True [40] 6 = Some 5" by code_simp
  then show ?thesis
    using small_const_paths_agree [of 6 "[40]" 0] by simp
qed

end
