(* ===== verification/Cpuset.thy ===== *)
theory Cpuset
  imports Bitops
begin

text \<open>
  CPU sets. The C library's \<^verbatim>\<open>cpu_set_t\<close> is a bitmap of \<^verbatim>\<open>CPU_SETSIZE\<close> = 1024 bits in 16
  \<^verbatim>\<open>unsigned long\<close> words; a set from \<^verbatim>\<open>CPU_ALLOC\<close> has as many words as its size needs. Both
  are lists of words here, and the \<^verbatim>\<open>CPU_*\<close> macros are functions on them. \<open>cpus s\<close> is the
  set of CPU numbers a bitmap stands for. The locale \<open>cpu_bitset\<close> states what the clients
  (\<^verbatim>\<open>lib/group.c\<close>, \<^verbatim>\<open>lib/threads.c\<close>) rely on, in terms of \<open>cpus\<close>; it is interpreted below on
  the bitmap operations and the searches \<^verbatim>\<open>cpuset_find_*\<close> of \<^verbatim>\<open>lib/bitops.h\<close>.
\<close>

type_synonym cpu_set_t = "ulong list"

abbreviation (input) CPU_SETSIZE :: nat where "CPU_SETSIZE \<equiv> 1024"

section \<open>The macros of the C library\<close>

definition CPU_ZERO :: cpu_set_t where
  "CPU_ZERO = replicate 16 0"

text \<open>\<^verbatim>\<open>memset(&set, -1, sizeof(cpu_set_t))\<close>\<close>

definition CPU_FULL :: cpu_set_t where
  "CPU_FULL = replicate 16 (- 1)"

definition in_set_range :: "int \<Rightarrow> cpu_set_t \<Rightarrow> bool" where
  "in_set_range cpu s \<longleftrightarrow> 0 \<le> cpu \<and> nat cpu < 64 * length s"

definition CPU_ISSET :: "int \<Rightarrow> cpu_set_t \<Rightarrow> bool" where
  "CPU_ISSET cpu s \<longleftrightarrow> in_set_range cpu s \<and> abit s (nat cpu)"

definition CPU_SET :: "int \<Rightarrow> cpu_set_t \<Rightarrow> cpu_set_t" where
  "CPU_SET cpu s =
     (if in_set_range cpu s
      then s[nat cpu div 64 := s ! (nat cpu div 64) OR push_bit (nat cpu mod 64) 1] else s)"

definition CPU_CLR :: "int \<Rightarrow> cpu_set_t \<Rightarrow> cpu_set_t" where
  "CPU_CLR cpu s =
     (if in_set_range cpu s
      then s[nat cpu div 64 := s ! (nat cpu div 64) AND NOT (push_bit (nat cpu mod 64) 1)] else s)"

definition CPU_AND :: "cpu_set_t \<Rightarrow> cpu_set_t \<Rightarrow> cpu_set_t" where
  "CPU_AND = map2 (AND)"

definition CPU_OR :: "cpu_set_t \<Rightarrow> cpu_set_t \<Rightarrow> cpu_set_t" where
  "CPU_OR = map2 (OR)"

definition CPU_XOR :: "cpu_set_t \<Rightarrow> cpu_set_t \<Rightarrow> cpu_set_t" where
  "CPU_XOR = map2 (XOR)"

definition CPU_EQUAL :: "cpu_set_t \<Rightarrow> cpu_set_t \<Rightarrow> bool" where
  "CPU_EQUAL a b \<longleftrightarrow> a = b"

definition popcountl :: "ulong \<Rightarrow> nat" where
  "popcountl w = (if w = 0 then 0 else length (filter (bit w) [0..<64]))"

definition CPU_COUNT :: "cpu_set_t \<Rightarrow> int" where
  "CPU_COUNT s = int (sum_list (map popcountl s))"

text \<open>The bytes of as many words as \<open>n\<close> CPUs need; the count is converted to \<^verbatim>\<open>size_t\<close>.\<close>

definition CPU_ALLOC_SIZE :: "int \<Rightarrow> ulong" where
  "CPU_ALLOC_SIZE n = (word_of_int n + 63) div 64 * 8"

section \<open>Searches in a CPU set\<close>

text \<open>\<^verbatim>\<open>int pos = find_*(...); return pos == CPU_SETSIZE ? -1 : pos;\<close>\<close>

abbreviation pos_or_minus1 :: "nat \<Rightarrow> int" where
  "pos_or_minus1 pos \<equiv> (if pos = 1024 then - 1 else int pos)"

definition cpuset_find_first_unset :: "cpu_set_t \<Rightarrow> int option" where
  "cpuset_find_first_unset s = do {
     pos \<leftarrow> find_first_zero_bit True s CPU_SETSIZE;
     Some (pos_or_minus1 pos)
   }"

definition cpuset_find_first_set :: "cpu_set_t \<Rightarrow> int option" where
  "cpuset_find_first_set s = do {
     pos \<leftarrow> find_first_bit True s CPU_SETSIZE;
     Some (pos_or_minus1 pos)
   }"

definition cpuset_find_last_set :: "cpu_set_t \<Rightarrow> int option" where
  "cpuset_find_last_set s = do {
     pos \<leftarrow> find_last_bit True s CPU_SETSIZE;
     Some (pos_or_minus1 pos)
   }"

text \<open>\<^verbatim>\<open>begin + 1\<close> is an \<^verbatim>\<open>int\<close> passed as \<^verbatim>\<open>unsigned long\<close>.\<close>

definition cpuset_find_next_set :: "cpu_set_t \<Rightarrow> int \<Rightarrow> int option" where
  "cpuset_find_next_set s begin = do {
     pos \<leftarrow> find_next_bit True s CPU_SETSIZE (unat (word_of_int (begin + 1) :: ulong));
     Some (pos_or_minus1 pos)
   }"

section \<open>CPU sets as sets of numbers\<close>

definition cpus :: "cpu_set_t \<Rightarrow> nat set" where
  "cpus s = {i. i < 64 * length s \<and> abit s i}"

definition cs_ok :: "cpu_set_t \<Rightarrow> bool" where
  "cs_ok s \<longleftrightarrow> length s = 16"

text \<open>The searches on sets: the least and greatest element and the least one above \<open>b\<close>,
  \<open>-1\<close> when there is none.\<close>

definition first_of :: "nat set \<Rightarrow> int" where
  "first_of S = (if S = {} then - 1 else int (Min S))"

definition last_of :: "nat set \<Rightarrow> int" where
  "last_of S = (if S = {} then - 1 else int (Max S))"

definition next_of :: "nat set \<Rightarrow> int \<Rightarrow> int" where
  "next_of S b = first_of {i \<in> S. b < int i}"

lemma finite_cpus [simp, intro]: "finite (cpus s)"
  by (simp add: cpus_def)

lemma first_of_mem: "finite S \<Longrightarrow> S \<noteq> {} \<Longrightarrow> nat (first_of S) \<in> S \<and> 0 \<le> first_of S"
  by (simp add: first_of_def)

lemma first_of_ge0 [simp]: "0 \<le> first_of S \<longleftrightarrow> S \<noteq> {}"
  by (simp add: first_of_def)

lemma last_of_ge0 [simp]: "0 \<le> last_of S \<longleftrightarrow> S \<noteq> {}"
  by (simp add: last_of_def)

lemma first_of_first_from:
  assumes "first_from (\<lambda>i. i \<in> S) lo n r" "S \<subseteq> {..<n}" "finite S"
  shows "(if r = n then - 1 else int r) = first_of {i \<in> S. lo \<le> i}"
proof (cases "r = n")
  case True
  then have "{i \<in> S. lo \<le> i} = {}"
    using assms by auto
  with True show ?thesis by (simp add: first_of_def)
next
  case False
  then have "Min {i \<in> S. lo \<le> i} = r" and "r \<in> {i \<in> S. lo \<le> i}"
    using assms by (auto simp: first_from_def not_less [symmetric] intro!: Min_eqI)
  with False show ?thesis by (auto simp: first_of_def)
qed

lemma last_of_last_below:
  assumes "last_below (\<lambda>i. i \<in> S) n r" "S \<subseteq> {..<n}" "finite S"
  shows "(if r = n then - 1 else int r) = last_of S"
proof (cases "r = n")
  case True
  then have "S = {}"
    using assms by (auto simp: last_below_def)
  with True show ?thesis by (simp add: last_of_def)
next
  case False
  then have "Max S = r" and "r \<in> S"
    using assms by (auto simp: last_below_def intro!: Max_eqI) (meson leI lessThan_iff subsetD)
  with False show ?thesis by (auto simp: last_of_def)
qed

section \<open>The interface\<close>

locale cpu_bitset =
  fixes elems :: "'s \<Rightarrow> nat set"
    and ok :: "'s \<Rightarrow> bool"
    and zero :: 's
    and full :: 's
    and isset :: "int \<Rightarrow> 's \<Rightarrow> bool"
    and set1 :: "int \<Rightarrow> 's \<Rightarrow> 's"
    and clr :: "int \<Rightarrow> 's \<Rightarrow> 's"
    and conj :: "'s \<Rightarrow> 's \<Rightarrow> 's"
    and disj :: "'s \<Rightarrow> 's \<Rightarrow> 's"
    and xor :: "'s \<Rightarrow> 's \<Rightarrow> 's"
    and equal_set :: "'s \<Rightarrow> 's \<Rightarrow> bool"
    and count :: "'s \<Rightarrow> int"
    and first :: "'s \<Rightarrow> int option"
    and last :: "'s \<Rightarrow> int option"
    and nxt :: "'s \<Rightarrow> int \<Rightarrow> int option"
  assumes ok_zero: "ok zero"
    and ok_full: "ok full"
    and ok_set1: "ok s \<Longrightarrow> ok (set1 c s)"
    and ok_clr: "ok s \<Longrightarrow> ok (clr c s)"
    and ok_conj: "ok a \<Longrightarrow> ok b \<Longrightarrow> ok (conj a b)"
    and ok_disj: "ok a \<Longrightarrow> ok b \<Longrightarrow> ok (disj a b)"
    and ok_xor: "ok a \<Longrightarrow> ok b \<Longrightarrow> ok (xor a b)"
    and elems_bound: "ok s \<Longrightarrow> elems s \<subseteq> {..<1024}"
    and elems_zero: "elems zero = {}"
    and elems_full: "elems full = {..<1024}"
    and isset_elems: "ok s \<Longrightarrow> isset c s \<longleftrightarrow> 0 \<le> c \<and> nat c \<in> elems s"
    and elems_set1: "ok s \<Longrightarrow>
      elems (set1 c s) = (if 0 \<le> c \<and> nat c < 1024 then insert (nat c) (elems s) else elems s)"
    and elems_clr: "ok s \<Longrightarrow> elems (clr c s) = (if 0 \<le> c then elems s - {nat c} else elems s)"
    and elems_conj: "ok a \<Longrightarrow> ok b \<Longrightarrow> elems (conj a b) = elems a \<inter> elems b"
    and elems_disj: "ok a \<Longrightarrow> ok b \<Longrightarrow> elems (disj a b) = elems a \<union> elems b"
    and elems_xor: "ok a \<Longrightarrow> ok b \<Longrightarrow>
      elems (xor a b) = (elems a - elems b) \<union> (elems b - elems a)"
    and equal_elems: "ok a \<Longrightarrow> ok b \<Longrightarrow> equal_set a b \<longleftrightarrow> elems a = elems b"
    and count_card: "ok s \<Longrightarrow> count s = int (card (elems s))"
    and first_first_of: "ok s \<Longrightarrow> first s = Some (first_of (elems s))"
    and last_last_of: "ok s \<Longrightarrow> last s = Some (last_of (elems s))"
    and nxt_next_of: "ok s \<Longrightarrow> - 1 \<le> p \<Longrightarrow> p < 1024 \<Longrightarrow> nxt s p = Some (next_of (elems s) p)"
begin

lemmas ok_simps = ok_zero ok_full ok_set1 ok_clr ok_conj ok_disj ok_xor

lemmas elems_simps = elems_zero elems_full isset_elems elems_set1 elems_clr elems_conj elems_disj
  elems_xor equal_elems count_card first_first_of last_last_of

lemma finite_elems: "ok s \<Longrightarrow> finite (elems s)"
  using elems_bound finite_subset by blast

text \<open>The idiom \<^verbatim>\<open>memset(&a, -1, ...); CPU_XOR(&a, &a, used); CPU_AND(&a, &a, total)\<close> computes
  the CPUs of \<^verbatim>\<open>total\<close> that are not in \<^verbatim>\<open>used\<close>.\<close>

lemma available:
  assumes "ok u" "ok t"
  shows "ok (conj (xor full u) t)" and "elems (conj (xor full u) t) = elems t - elems u"
proof -
  show "ok (conj (xor full u) t)"
    using assms by (simp add: ok_simps)
  have "elems t \<subseteq> {..<1024}"
    using assms(2) by (rule elems_bound)
  then show "elems (conj (xor full u) t) = elems t - elems u"
    using assms by (auto simp: elems_simps ok_simps)
qed

text \<open>\<^verbatim>\<open>for (i = a; i < b; i++) CPU_SET(i, set)\<close>\<close>

lemma set1_range:
  assumes "ok s" "0 \<le> a" "b \<le> 1024"
  shows "ok (fold set1 [a..b - 1] s)
    \<and> elems (fold set1 [a..b - 1] s) = elems s \<union> {nat a..<nat b}"
  using assms
proof (induction "nat (b - a)" arbitrary: a s)
  case 0
  then show ?case by simp
next
  case (Suc n)
  then have "[a..b - 1] = a # [a + 1..b - 1]"
    by (simp add: upto_rec1)
  moreover have "insert (nat a) {nat (a + 1)..<nat b} = {nat a..<nat b}"
    using Suc.hyps(2) Suc.prems(2) by auto
  ultimately show ?case
    using Suc.hyps(1) [of "a + 1" "set1 a s"] Suc.hyps(2) Suc.prems
    by (auto simp: elems_simps ok_simps)
qed

text \<open>Induction over the scan \<^verbatim>\<open>pos = first(s); while (pos >= 0) { ...; pos = next(s, pos); }\<close>:
  a property of the position \<open>-1\<close>, kept from the next position to the current one, holds of
  the first position.\<close>

lemma scan_induct:
  assumes "ok s" "P (- 1)"
    and "\<And>p. p \<in> elems s \<Longrightarrow> P (next_of (elems s) (int p)) \<Longrightarrow> P (int p)"
  shows "P (first_of (elems s))"
proof -
  have all: "P (int p)" if "p \<in> elems s" for p
    using that
  proof (induction "1024 - p" arbitrary: p rule: less_induct)
    case (less p)
    let ?T = "{i \<in> elems s. int p < int i}"
    have fin: "finite ?T"
      using finite_elems [OF assms(1)] by simp
    have "P (next_of (elems s) (int p))"
    proof (cases "?T = {}")
      case True
      then show ?thesis using assms(2) by (simp add: next_of_def first_of_def)
    next
      case False
      then have q: "Min ?T \<in> elems s" "p < Min ?T" "Min ?T < 1024"
        using Min_in [OF fin False] elems_bound [OF assms(1)] by auto
      then show ?thesis
        using less.hyps [of "Min ?T"] False by (auto simp: next_of_def first_of_def)
    qed
    with less.prems show ?case by (rule assms(3))
  qed
  show ?thesis
    using all assms(2) finite_elems [OF assms(1)] by (auto simp: first_of_def)
qed

end

section \<open>The bitmaps implement the interface\<close>

lemma abit_Cons:
  "abit (w # ws) i = (if i < 64 then bit w i else abit ws (i - 64))"
  by (auto simp: abit_def le_div_geq nth_Cons' le_mod_geq not_less)

lemma cpus_Cons:
  "cpus (w # ws) = {i. i < 64 \<and> bit w i} \<union> (\<lambda>i. i + 64) ` cpus ws"
proof -
  have "i \<in> (\<lambda>i. i + 64) ` cpus ws" if "64 \<le> i" "i < 64 + 64 * length ws" "abit ws (i - 64)" for i
    using that by (intro image_eqI [of _ _ "i - 64"]) (auto simp: cpus_def)
  then have "i \<in> cpus (w # ws) \<longleftrightarrow> i \<in> {i. i < 64 \<and> bit w i} \<union> (\<lambda>i. i + 64) ` cpus ws" for i
    by (cases "i < 64") (auto simp: cpus_def abit_Cons)
  then show ?thesis by blast
qed

lemma popcountl_card: "popcountl w = card {i. i < 64 \<and> bit w i}"
proof -
  have "set (filter (bit w) [0..<64]) = {i. i < 64 \<and> bit w i}"
    by auto
  then have "card {i. i < 64 \<and> bit w i} = length (filter (bit w) [0..<64])"
    by (metis distinct_card distinct_filter distinct_upt)
  then show ?thesis by (simp add: popcountl_def)
qed

lemma CPU_COUNT_card: "CPU_COUNT s = int (card (cpus s))"
proof -
  have "sum_list (map popcountl s) = card (cpus s)"
  proof (induction s)
    case Nil
    then show ?case by (simp add: cpus_def)
  next
    case (Cons w ws)
    have "card (cpus (w # ws)) = card {i. i < 64 \<and> bit w i} + card ((\<lambda>i. i + 64) ` cpus ws)"
      unfolding cpus_Cons by (rule card_Un_disjoint) auto
    also have "card ((\<lambda>i. i + 64) ` cpus ws) = card (cpus ws)"
      by (simp add: card_image)
    finally show ?case
      using Cons.IH by (simp add: popcountl_card)
  qed
  then show ?thesis by (simp add: CPU_COUNT_def)
qed

lemma abit_update:
  assumes "i < 64 * length s" "c < 64 * length s"
  shows "abit (s[c div 64 := w]) i = (if i div 64 = c div 64 then bit w (i mod 64) else abit s i)"
  using assms by (simp add: abit_def nth_list_update less_mult_imp_div_less mult.commute)

lemma div_mod_64_eq: "i div 64 = c div 64 \<Longrightarrow> i mod 64 = c mod 64 \<Longrightarrow> i = (c :: nat)"
  by (metis div_mult_mod_eq)

lemma bit_single: "i < 64 \<Longrightarrow> c < 64 \<Longrightarrow> bit (2 ^ c :: ulong) i \<longleftrightarrow> i = c"
  by (auto simp: bit_exp_iff)

lemma in_set_range_ok: "cs_ok s \<Longrightarrow> in_set_range c s \<longleftrightarrow> 0 \<le> c \<and> nat c < 1024"
  by (simp add: in_set_range_def cs_ok_def)

lemma cpus_CPU_SET:
  assumes "in_set_range c s"
  shows "cpus (CPU_SET c s) = insert (nat c) (cpus s)"
proof -
  have c: "nat c < 64 * length s"
    using assms by (simp add: in_set_range_def)
  have "abit (CPU_SET c s) i \<longleftrightarrow> abit s i \<or> i = nat c" if "i < 64 * length s" for i
  proof (cases "i div 64 = nat c div 64")
    case True
    then show ?thesis
      using assms c that div_mod_64_eq [OF True]
      by (auto simp: CPU_SET_def abit_update bit_or_iff bit_single) (auto simp: abit_def)
  qed (use assms c that in \<open>auto simp: CPU_SET_def abit_update\<close>)
  then show ?thesis
    using assms c by (auto simp: cpus_def) (auto simp: CPU_SET_def)
qed

lemma cpus_CPU_CLR:
  assumes "in_set_range c s"
  shows "cpus (CPU_CLR c s) = cpus s - {nat c}"
proof -
  have c: "nat c < 64 * length s"
    using assms by (simp add: in_set_range_def)
  have "abit (CPU_CLR c s) i \<longleftrightarrow> abit s i \<and> i \<noteq> nat c" if "i < 64 * length s" for i
  proof (cases "i div 64 = nat c div 64")
    case True
    then show ?thesis
      using assms c that div_mod_64_eq [OF True]
      by (auto simp: CPU_CLR_def abit_update bit_and_iff bit_not_iff bit_single)
        (auto simp: abit_def)
  qed (use assms c that in \<open>auto simp: CPU_CLR_def abit_update\<close>)
  then show ?thesis
    using assms c by (auto simp: cpus_def) (auto simp: CPU_CLR_def)
qed

lemma abit_map2:
  assumes "length a = length b" "i < 64 * length a"
  shows "abit (map2 f a b) i = bit (f (a ! (i div 64)) (b ! (i div 64))) (i mod 64)"
  using assms by (simp add: abit_def less_mult_imp_div_less mult.commute)

lemma cpus_bitwise:
  assumes "length a = length b"
  shows "cpus (CPU_AND a b) = cpus a \<inter> cpus b"
    and "cpus (CPU_OR a b) = cpus a \<union> cpus b"
    and "cpus (CPU_XOR a b) = (cpus a - cpus b) \<union> (cpus b - cpus a)"
  using assms abit_map2 [OF assms]
  by (auto simp: cpus_def CPU_AND_def CPU_OR_def CPU_XOR_def abit_def bit_and_iff bit_or_iff
      bit_xor_iff)

lemma cpus_inj:
  assumes "length a = length b" "cpus a = cpus b"
  shows "a = b"
proof (rule nth_equalityI [OF assms(1)], rule bit_word_eqI)
  fix k n
  assume k: "k < length a" and n: "n < LENGTH(64)"
  have "k * 64 + n < 64 * length a"
    using k n by simp
  then have "k * 64 + n \<in> cpus a \<longleftrightarrow> bit (a ! k) n" "k * 64 + n \<in> cpus b \<longleftrightarrow> bit (b ! k) n"
    using assms(1) n by (auto simp: cpus_def abit_word)
  then show "bit (a ! k) n \<longleftrightarrow> bit (b ! k) n"
    using assms(2) by simp
qed

lemma cs_ok_ops [cset]:
  "cs_ok CPU_ZERO" "cs_ok CPU_FULL"
  "cs_ok s \<Longrightarrow> cs_ok (CPU_SET c s)" "cs_ok s \<Longrightarrow> cs_ok (CPU_CLR c s)"
  "cs_ok a \<Longrightarrow> cs_ok b \<Longrightarrow> cs_ok (CPU_AND a b)"
  "cs_ok a \<Longrightarrow> cs_ok b \<Longrightarrow> cs_ok (CPU_OR a b)"
  "cs_ok a \<Longrightarrow> cs_ok b \<Longrightarrow> cs_ok (CPU_XOR a b)"
  by (auto simp: cs_ok_def CPU_ZERO_def CPU_FULL_def CPU_SET_def CPU_CLR_def CPU_AND_def
      CPU_OR_def CPU_XOR_def)

lemma cpus_const: "cpus CPU_ZERO = {}" "cpus CPU_FULL = {..<1024}"
  by (auto simp: cpus_def CPU_ZERO_def CPU_FULL_def abit_def bit_ones)

lemma cs_ok_cpus: "cs_ok s \<Longrightarrow> i \<in> cpus s \<longleftrightarrow> i < 1024 \<and> abit s i"
  by (simp add: cs_ok_def cpus_def)

lemma unat_pos:
  assumes "- 1 \<le> p" "p < 1024"
  shows "unat (word_of_int (p + 1) :: ulong) = nat (p + 1)"
proof -
  have "uint (word_of_int (p + 1) :: ulong) = p + 1"
    using assms by (intro word_of_int_inverse [OF refl]) simp_all
  then show ?thesis
    by (simp only: unat_eq_nat_uint)
qed

lemma cpuset_searches:
  assumes "cs_ok s"
  shows "cpuset_find_first_set s = Some (first_of (cpus s))"
    and "cpuset_find_last_set s = Some (last_of (cpus s))"
    and "- 1 \<le> p \<Longrightarrow> p < 1024 \<Longrightarrow> cpuset_find_next_set s p = Some (next_of (cpus s) p)"
    and "cpuset_find_first_unset s = Some (first_of ({..<1024} - cpus s))"
proof -
  have len: "1024 \<le> 64 * length s" and sub: "cpus s \<subseteq> {..<1024}"
    using assms by (auto simp: cs_ok_def cpus_def)
  have mem: "first_from (abit s) lo 1024 r = first_from (\<lambda>i. i \<in> cpus s) lo 1024 r"
    "last_below (abit s) 1024 r = last_below (\<lambda>i. i \<in> cpus s) 1024 r" for lo r
    using assms by (auto simp: cs_ok_cpus intro!: first_from_cong last_below_cong)
  have mem': "first_from (\<lambda>i. \<not> abit s i) 0 1024 r
      = first_from (\<lambda>i. i \<in> {..<1024} - cpus s) 0 1024 r" for r
    using assms by (intro first_from_cong) (auto simp: cs_ok_cpus)
  obtain r where r: "find_first_bit True s 1024 = Some r"
      "first_from (\<lambda>i. i \<in> cpus s) 0 1024 r"
    using find_first_bit_first [OF len, of True] mem by auto
  show "cpuset_find_first_set s = Some (first_of (cpus s))"
    using first_of_first_from [OF r(2) sub] by (simp add: cpuset_find_first_set_def r(1))
  obtain r where r: "find_last_bit True s 1024 = Some r"
      "last_below (\<lambda>i. i \<in> cpus s) 1024 r"
    using find_last_bit_last [OF len, of True] mem by auto
  show "cpuset_find_last_set s = Some (last_of (cpus s))"
    using last_of_last_below [OF r(2) sub] by (simp add: cpuset_find_last_set_def r(1))
  obtain r where r: "find_first_zero_bit True s 1024 = Some r"
      "first_from (\<lambda>i. i \<in> {..<1024} - cpus s) 0 1024 r"
    using find_first_zero_bit_first [OF len, of True] mem' by auto
  have all: "{i \<in> S. 0 \<le> i} = S" for S :: "nat set"
    by simp
  show "cpuset_find_first_unset s = Some (first_of ({..<1024} - cpus s))"
    using first_of_first_from [OF r(2) Diff_subset finite_Diff [OF finite_lessThan]]
    unfolding cpuset_find_first_unset_def r(1) all Option.bind.simps by (rule arg_cong)
  show "cpuset_find_next_set s p = Some (next_of (cpus s) p)" if "- 1 \<le> p" "p < 1024" for p
  proof -
    obtain r where r: "find_next_bit True s 1024 (nat (p + 1)) = Some r"
        "first_from (\<lambda>i. i \<in> cpus s) (nat (p + 1)) 1024 r"
      using find_next_bit_first [OF len, of True "nat (p + 1)"] mem by blast
    have "{i \<in> cpus s. nat (p + 1) \<le> i} = {i \<in> cpus s. p < int i}"
      by auto
    then show ?thesis
      using first_of_first_from [OF r(2) sub finite_cpus]
      unfolding cpuset_find_next_set_def next_of_def unat_pos [OF that] r(1) Option.bind.simps
      by simp
  qed
qed

interpretation cs: cpu_bitset cpus cs_ok CPU_ZERO CPU_FULL CPU_ISSET CPU_SET CPU_CLR
  CPU_AND CPU_OR CPU_XOR CPU_EQUAL CPU_COUNT
  cpuset_find_first_set cpuset_find_last_set cpuset_find_next_set
proof (unfold_locales, goal_cases)
  case (8 s)
  then show ?case by (auto simp: cs_ok_cpus)
next
  case (11 s c)
  then show ?case by (auto simp: CPU_ISSET_def in_set_range_ok cs_ok_cpus)
next
  case (12 s c)
  then show ?case by (auto simp: cpus_CPU_SET in_set_range_ok) (auto simp: CPU_SET_def in_set_range_ok)
next
  case (13 s c)
  then show ?case
  proof (cases "in_set_range c s")
    case False
    with 13 show ?thesis
      by (auto simp: CPU_CLR_def in_set_range_ok cs_ok_cpus)
  qed (use 13 in \<open>auto simp: cpus_CPU_CLR in_set_range_ok\<close>)
next
  case (17 a b)
  then show ?case by (auto simp: CPU_EQUAL_def cs_ok_def intro: cpus_inj)
qed (auto simp: cset cpus_const CPU_COUNT_card cpuset_searches cs_ok_def
    intro: cs_ok_ops [unfolded cs_ok_def] simp: cpus_bitwise)

lemmas cpuset_simps [cset] = cs.ok_simps cs.elems_simps

section \<open>Properties\<close>

text \<open>C13. Each of the four searches over a CPU set returns (it never reads outside the 16
  words): the first, next and last set CPU and the first clear one are the minimum, the
  minimum above the given position, the maximum and the minimum of the complement of the set of
  CPUs, and \<open>-1\<close> when there is none.\<close>

theorem cpuset_find_correct:
  assumes "cs_ok s" "- 1 \<le> b" "b < 1024"
  shows "cpuset_find_first_set s = Some (first_of (cpus s))
    \<and> cpuset_find_next_set s b = Some (next_of (cpus s) b)
    \<and> cpuset_find_last_set s = Some (last_of (cpus s))
    \<and> cpuset_find_first_unset s = Some (first_of ({..<1024} - cpus s))"
  using cpuset_searches [OF assms(1)] assms(2,3) by blast

theorem cpuset_find_correct_witness:
  "cpuset_find_next_set (CPU_SET 70 (CPU_SET 3 CPU_ZERO)) 3 = Some 70"
proof -
  let ?s = "CPU_SET 70 (CPU_SET 3 CPU_ZERO)"
  have ok: "cs_ok ?s" by (simp add: cset)
  have "cpus ?s = {3, 70}" by (auto simp: cset)
  moreover have "{i \<in> {3, 70}. (3 :: int) < int i} = {70 :: nat}" by auto
  ultimately have "next_of (cpus ?s) 3 = 70" by (simp add: next_of_def first_of_def)
  with cpuset_find_correct [OF ok, of 3] show ?thesis by simp
qed

lemma length_CPU_SET: "length (CPU_SET c s) = length s"
  by (simp add: CPU_SET_def)

lemma cpus_CPU_SET_gen:
  "cpus (CPU_SET c s) = (if 0 \<le> c \<and> nat c < 64 * length s then insert (nat c) (cpus s) else cpus s)"
  by (simp add: cpus_CPU_SET in_set_range_def) (simp add: CPU_SET_def in_set_range_def)

lemma unat_CPU_ALLOC_SIZE:
  assumes "n \<le> 2 ^ 32"
  shows "unat (CPU_ALLOC_SIZE (int n)) = (n + 63) div 64 * 8"
proof -
  have "unat (word_of_int (int n) + 63 :: ulong) = n + 63"
    using assms by (simp add: unat_word_ariths unat_of_nat)
  then have "unat ((word_of_int (int n) + 63 :: ulong) div 64) = (n + 63) div 64"
    by (simp add: unat_div)
  moreover have "(n + 63) div 64 * 8 < 2 ^ 64"
    using assms by simp
  ultimately show ?thesis
    by (simp add: CPU_ALLOC_SIZE_def unat_word_ariths)
qed

end
