(* ===== verification/Topo.thy ===== *)
theory Topo
  imports Cpuset
begin

text \<open>
  The topology data base of \<^verbatim>\<open>lib/topo.h\<close> and the queries on it of \<^verbatim>\<open>lib/topo.c\<close> that
  count CPUs, cores, clusters, nodes and packages. The pointers of a CPU or core to its
  cluster, node and package are indices into the corresponding array (\<open>None\<close> for NULL), an
  array with its length field is a list. \<open>topo_state\<close> is the file's static data: the
  structure \<^verbatim>\<open>topo\<close> and the two counters \<^verbatim>\<open>max_cores\<close> and \<^verbatim>\<open>max_ccls\<close> that the queries
  recompute.
\<close>

section \<open>Data of topo.h\<close>

record wayca_cache =
  cache_id :: int
  level :: int
  cache_type :: string
  allocation_policy :: string
  write_policy :: string
  cache_size :: string
  ways_of_associativity :: int
  physical_line_partition :: int
  number_of_sets :: int
  coherency_line_size :: int
  shared_cpu_map :: cpu_set_t

record wayca_cpu =
  cpu_id :: int
  cpu_core_id :: int
  cpu_p_cluster :: "nat option"
  cpu_p_numa_node :: "nat option"
  cpu_p_package :: "nat option"
  cpu_core_cpus_map :: "cpu_set_t option"
  cpu_caches :: "wayca_cache list"

record wayca_core =
  core_id :: int
  core_n_cpus :: nat
  core_cpus_map :: "cpu_set_t option"
  core_p_cluster :: "nat option"
  core_p_numa_node :: "nat option"
  core_p_package :: "nat option"
  core_caches :: "wayca_cache list"

record wayca_cluster =
  cluster_id :: int
  ccl_n_cpus :: nat
  ccl_cpu_map :: cpu_set_t
  ccl_core_map :: cpu_set_t

record wayca_smmu =
  smmu_idx :: int
  smmu_numa_node :: int
  base_addr :: ulong
  smmu_name :: string
  modalias :: string

record wayca_pci_device =
  pci_numa_node :: int
  pci_smmu_idx :: int
  pci_enable :: int
  absolute_path :: string
  slot_name :: string
  local_cpu_map :: cpu_set_t
  pci_class :: "32 word"
  pci_vendor :: "16 word"
  pci_device :: "16 word"
  irq_numbers :: "32 word list"

record wayca_node =
  node_idx :: int
  node_n_cpus :: nat
  node_cpu_map :: cpu_set_t
  node_core_map :: cpu_set_t
  node_cluster_map :: cpu_set_t
  distance :: "int list"
  p_meminfo :: "ulong option"
  pcidevs :: "wayca_pci_device list"
  smmus :: "wayca_smmu list"

record wayca_package =
  physical_package_id :: int
  pkg_n_cpus :: nat
  pkg_cpu_map :: cpu_set_t
  numa_map :: cpu_set_t

record wayca_topo =
  kernel_max_cpus :: int
  setsize :: nat
  n_cpus :: nat
  cpu_map :: cpu_set_t
  online_cpu_map :: cpu_set_t
  cpu_array :: "wayca_cpu list"
  cores :: "wayca_core list"
  ccls :: "wayca_cluster list"
  node_map :: cpu_set_t
  nodes :: "wayca_node list"
  packages :: "wayca_package list"

abbreviation n_cores :: "wayca_topo \<Rightarrow> nat" where "n_cores t \<equiv> length (cores t)"
abbreviation n_clusters :: "wayca_topo \<Rightarrow> nat" where "n_clusters t \<equiv> length (ccls t)"
abbreviation n_nodes :: "wayca_topo \<Rightarrow> nat" where "n_nodes t \<equiv> length (nodes t)"
abbreviation n_packages :: "wayca_topo \<Rightarrow> nat" where "n_packages t \<equiv> length (packages t)"

record topo_state =
  topo :: wayca_topo
  max_cores :: nat
  max_ccls :: nat

section \<open>Counting queries\<close>

text \<open>The loop \<^verbatim>\<open>if (x[i]->n_cpus > m) m = x[i]->n_cpus;\<close>\<close>

definition max_n_cpus :: "nat list \<Rightarrow> nat" where
  "max_n_cpus xs = foldl (\<lambda>m x. if m < x then x else m) 0 xs"

definition wayca_sc_cores_in_total :: "topo_state \<Rightarrow> int \<times> topo_state" where
  "wayca_sc_cores_in_total s =
     (if n_cores (topo s) < 1 then (- ENODATA, s)
      else
        let cpu_in_core = max_n_cpus (map core_n_cpus (cores (topo s))) in
        if 0 < cpu_in_core then
          let mc = n_cpus (topo s) div cpu_in_core in (int mc, s\<lparr>max_cores := mc\<rparr>)
        else (- ENODATA, s))"

definition wayca_sc_ccls_in_total :: "topo_state \<Rightarrow> int \<times> topo_state" where
  "wayca_sc_ccls_in_total s =
     (if n_clusters (topo s) < 1 then (- ENODATA, s)
      else
        let cpu_in_ccl = max_n_cpus (map ccl_n_cpus (ccls (topo s))) in
        if 0 < cpu_in_ccl then
          let mc = n_cpus (topo s) div cpu_in_ccl in (int mc, s\<lparr>max_ccls := mc\<rparr>)
        else (- ENODATA, s))"

definition wayca_sc_cpus_in_core :: "topo_state \<Rightarrow> int \<times> topo_state" where
  "wayca_sc_cpus_in_core s =
     (if n_cores (topo s) < 1 then (- ENODATA, s)
      else let s = snd (wayca_sc_cores_in_total s) in
        (if 0 < max_cores s then int (n_cpus (topo s) div max_cores s) else - ENODATA, s))"

definition wayca_sc_cpus_in_ccl :: "topo_state \<Rightarrow> int \<times> topo_state" where
  "wayca_sc_cpus_in_ccl s =
     (if n_clusters (topo s) < 1 then (- ENODATA, s)
      else let s = snd (wayca_sc_ccls_in_total s) in
        (if 0 < max_ccls s then int (n_cpus (topo s) div max_ccls s) else - ENODATA, s))"

definition wayca_sc_cpus_in_node :: "topo_state \<Rightarrow> int" where
  "wayca_sc_cpus_in_node s =
     (if n_nodes (topo s) < 1 then - ENODATA else int (n_cpus (topo s) div n_nodes (topo s)))"

definition wayca_sc_cpus_in_package :: "topo_state \<Rightarrow> int" where
  "wayca_sc_cpus_in_package s =
     (if n_packages (topo s) < 1 then - ENODATA
      else int (n_cpus (topo s) div n_packages (topo s)))"

definition wayca_sc_cpus_in_total :: "topo_state \<Rightarrow> int" where
  "wayca_sc_cpus_in_total s = (if n_cpus (topo s) < 1 then - ENODATA else int (n_cpus (topo s)))"

definition wayca_sc_cores_in_ccl :: "topo_state \<Rightarrow> int \<times> topo_state" where
  "wayca_sc_cores_in_ccl s =
     (if n_clusters (topo s) < 1 then (- ENODATA, s)
      else if n_cores (topo s) < 1 then (- ENODATA, s)
      else
        let s = snd (wayca_sc_cores_in_total s);
            s = snd (wayca_sc_ccls_in_total s)
        in (if 0 < max_ccls s \<and> 0 < max_cores s then int (max_cores s div max_ccls s)
            else - ENODATA, s))"

definition wayca_sc_cores_in_node :: "topo_state \<Rightarrow> int \<times> topo_state" where
  "wayca_sc_cores_in_node s =
     (if n_cores (topo s) < 1 \<or> n_nodes (topo s) < 1 then (- ENODATA, s)
      else let s = snd (wayca_sc_cores_in_total s) in
        (if 0 < max_cores s then int (max_cores s div n_nodes (topo s)) else - ENODATA, s))"

definition wayca_sc_cores_in_package :: "topo_state \<Rightarrow> int \<times> topo_state" where
  "wayca_sc_cores_in_package s =
     (if n_cores (topo s) < 1 \<or> n_packages (topo s) < 1 then (- ENODATA, s)
      else let s = snd (wayca_sc_cores_in_total s) in
        (if 0 < max_cores s then int (max_cores s div n_packages (topo s)) else - ENODATA, s))"

definition wayca_sc_ccls_in_package :: "topo_state \<Rightarrow> int \<times> topo_state" where
  "wayca_sc_ccls_in_package s =
     (if n_clusters (topo s) < 1 \<or> n_packages (topo s) < 1 then (- ENODATA, s)
      else let s = snd (wayca_sc_ccls_in_total s) in
        (if 0 < max_ccls s then int (max_ccls s div n_packages (topo s)) else - ENODATA, s))"

definition wayca_sc_ccls_in_node :: "topo_state \<Rightarrow> int \<times> topo_state" where
  "wayca_sc_ccls_in_node s =
     (if n_clusters (topo s) < 1 \<or> n_nodes (topo s) < 1 then (- ENODATA, s)
      else let s = snd (wayca_sc_ccls_in_total s) in
        (if 0 < max_ccls s then int (max_ccls s div n_nodes (topo s)) else - ENODATA, s))"

definition wayca_sc_nodes_in_package :: "topo_state \<Rightarrow> int" where
  "wayca_sc_nodes_in_package s =
     (if n_packages (topo s) < 1 then - ENODATA
      else int (n_nodes (topo s) div n_packages (topo s)))"

definition wayca_sc_nodes_in_total :: "topo_state \<Rightarrow> int" where
  "wayca_sc_nodes_in_total s =
     (if n_nodes (topo s) < 1 then - ENODATA else int (n_nodes (topo s)))"

definition wayca_sc_packages_in_total :: "topo_state \<Rightarrow> int" where
  "wayca_sc_packages_in_total s =
     (if n_packages (topo s) < 1 then - ENODATA else int (n_packages (topo s)))"

section \<open>The counters\<close>

lemma max_n_cpus_Max: "max_n_cpus xs = fold max xs 0"
proof -
  have "foldl (\<lambda>m x. if m < x then x else m) a xs = fold max xs a" for a :: nat
    by (induction xs arbitrary: a) (auto simp: max_def)
  then show ?thesis by (simp add: max_n_cpus_def)
qed

lemma max_n_cpus_uniform:
  assumes "xs \<noteq> []" "\<forall>x \<in> set xs. x = c"
  shows "max_n_cpus xs = c"
proof -
  have "fold max xs a = max a c" if "xs \<noteq> []" "\<forall>x \<in> set xs. x = c" for a :: nat and xs
    using that
  proof (induction xs arbitrary: a)
    case (Cons x xs)
    then show ?case by (cases "xs = []") auto
  qed simp
  then show ?thesis
    using assms by (simp add: max_n_cpus_Max)
qed

lemma in_total_frame [simp]:
  "topo (snd (wayca_sc_cores_in_total s)) = topo s"
  "topo (snd (wayca_sc_ccls_in_total s)) = topo s"
  "topo (snd (wayca_sc_cpus_in_core s)) = topo s"
  "topo (snd (wayca_sc_cpus_in_ccl s)) = topo s"
  by (auto simp: wayca_sc_cores_in_total_def wayca_sc_ccls_in_total_def
      wayca_sc_cpus_in_core_def wayca_sc_cpus_in_ccl_def Let_def)

text \<open>The counts of a topology in which every cluster (core) has the same number of CPUs.\<close>

definition uniform_ccls :: "wayca_topo \<Rightarrow> nat \<Rightarrow> bool" where
  "uniform_ccls t c \<longleftrightarrow> ccls t \<noteq> [] \<and> 0 < c \<and> (\<forall>x \<in> set (ccls t). ccl_n_cpus x = c)
     \<and> n_cpus t = n_clusters t * c"

definition uniform_cores :: "wayca_topo \<Rightarrow> nat \<Rightarrow> bool" where
  "uniform_cores t c \<longleftrightarrow> cores t \<noteq> [] \<and> 0 < c \<and> (\<forall>x \<in> set (cores t). core_n_cpus x = c)
     \<and> n_cpus t = n_cores t * c"

lemma ccls_in_total_uniform:
  assumes "uniform_ccls (topo s) c"
  shows "wayca_sc_ccls_in_total s = (int (n_clusters (topo s)), s\<lparr>max_ccls := n_clusters (topo s)\<rparr>)"
proof -
  have "max_n_cpus (map ccl_n_cpus (ccls (topo s))) = c"
    using assms by (intro max_n_cpus_uniform) (auto simp: uniform_ccls_def)
  then show ?thesis
    using assms by (simp add: wayca_sc_ccls_in_total_def uniform_ccls_def Let_def)
qed

lemma cores_in_total_uniform:
  assumes "uniform_cores (topo s) c"
  shows "wayca_sc_cores_in_total s = (int (n_cores (topo s)), s\<lparr>max_cores := n_cores (topo s)\<rparr>)"
proof -
  have "max_n_cpus (map core_n_cpus (cores (topo s))) = c"
    using assms by (intro max_n_cpus_uniform) (auto simp: uniform_cores_def)
  then show ?thesis
    using assms by (simp add: wayca_sc_cores_in_total_def uniform_cores_def Let_def)
qed

text \<open>A level of the topology either does not exist (a negative answer) or has at least one
  CPU, provided no level has more members than there are CPUs.\<close>

lemma cpus_in_ccl_pos: "fst (wayca_sc_cpus_in_ccl s) < 0 \<or> 0 < fst (wayca_sc_cpus_in_ccl s)"
  if "max_ccls s \<le> n_cpus (topo s)"
proof -
  have "max_ccls (snd (wayca_sc_ccls_in_total s)) \<le> n_cpus (topo s)"
    using that by (auto simp: wayca_sc_ccls_in_total_def Let_def)
  then show ?thesis
    by (auto simp: wayca_sc_cpus_in_ccl_def Let_def div_greater_zero_iff)
qed

end
