(* ===== verification/Group.thy ===== *)
theory Group
  imports Topo
begin

text \<open>
  The data structures of \<^verbatim>\<open>lib/wayca_thread.h\<close> and the operations of \<^verbatim>\<open>lib/group.c\<close>: the load
  of the CPUs, the choice of CPUs for a thread or a child group, the sibling lists of a group's
  threads and child groups, and adding, deleting and rearranging them.

  \<^verbatim>\<open>struct wayca_thread\<close> and \<^verbatim>\<open>struct wayca_sc_group\<close> objects live in two heaps indexed by
  addresses; a pointer is an \<open>addr option\<close>, \<open>None\<close> for NULL. \<open>sched\<close> is the global state these
  files share. \<^verbatim>\<open>WAYCA_SC_ASSERT\<close> expands to nothing (the build without \<^verbatim>\<open>WAYCA_SC_DEBUG\<close>); that the
  asserted conditions hold is proved instead. The mutex of a group is the flag \<open>g_locked\<close>. The
  mutex of the load array protects straight-line code without calls out of the file and is left
  out. Calls of \<^verbatim>\<open>thread_sched_setaffinity\<close> whose result is dropped are recorded in \<open>affinity\<close>.
\<close>

section \<open>Data of wayca\_thread.h\<close>

record wayca_thread =
  t_id :: nat
  t_pid :: int
  t_attribute :: ulong
  t_target_pos :: int
  t_cur_set :: cpu_set_t
  t_allowed_set :: cpu_set_t
  t_siblings :: "addr option"
  t_group :: "addr option"
  t_start_routine :: "addr option"
  t_arg :: addr
  t_start :: bool

record wayca_sc_group =
  g_id :: nat
  g_threads :: "addr option"
  g_nr_threads :: int
  g_siblings :: "addr option"
  g_father :: "addr option"
  g_groups :: "addr option"
  g_nr_groups :: int
  g_used :: cpu_set_t
  g_total :: cpu_set_t
  g_attribute :: ulong
  g_locked :: bool
  g_stride :: int
  g_nr_cpus_per_topo :: int
  g_topo_hint :: int
  g_roll_over_cnts :: int

record sched =
  theap :: "addr \<Rightarrow> wayca_thread option"
  gheap :: "addr \<Rightarrow> wayca_sc_group option"
  threads_array :: "addr option list"
  groups_array :: "addr option list"
  cpu_loads :: "int list"
  total_cpu_set :: cpu_set_t
  tstate :: topo_state
  affinity :: "(int \<times> cpu_set_t) list"

text \<open>\<^verbatim>\<open>memset(p, 0, sizeof(*p))\<close>\<close>

definition zero_thread :: wayca_thread where
  "zero_thread = \<lparr>t_id = 0, t_pid = 0, t_attribute = 0, t_target_pos = 0, t_cur_set = CPU_ZERO,
     t_allowed_set = CPU_ZERO, t_siblings = None, t_group = None, t_start_routine = None,
     t_arg = 0, t_start = False\<rparr>"

definition zero_group :: wayca_sc_group where
  "zero_group = \<lparr>g_id = 0, g_threads = None, g_nr_threads = 0, g_siblings = None, g_father = None,
     g_groups = None, g_nr_groups = 0, g_used = CPU_ZERO, g_total = CPU_ZERO, g_attribute = 0,
     g_locked = False, g_stride = 0, g_nr_cpus_per_topo = 0, g_topo_hint = 0,
     g_roll_over_cnts = 0\<rparr>"

definition upd_t :: "addr \<Rightarrow> (wayca_thread \<Rightarrow> wayca_thread) \<Rightarrow> sched \<Rightarrow> sched option" where
  "upd_t t f s = map_option (\<lambda>x. s\<lparr>theap := (theap s)(t \<mapsto> f x)\<rparr>) (theap s t)"

definition upd_g :: "addr \<Rightarrow> (wayca_sc_group \<Rightarrow> wayca_sc_group) \<Rightarrow> sched \<Rightarrow> sched option" where
  "upd_g g f s = map_option (\<lambda>x. s\<lparr>gheap := (gheap s)(g \<mapsto> f x)\<rparr>) (gheap s g)"

text \<open>The attribute flags of \<^verbatim>\<open>include/wayca-scheduler.h\<close>.\<close>

abbreviation (input) WT_GF_CPU :: ulong where "WT_GF_CPU \<equiv> 0x1"
abbreviation (input) WT_GF_CCL :: ulong where "WT_GF_CCL \<equiv> 0x4"
abbreviation (input) WT_GF_NUMA :: ulong where "WT_GF_NUMA \<equiv> 0x20"
abbreviation (input) WT_GF_PACKAGE :: ulong where "WT_GF_PACKAGE \<equiv> 0x40"
abbreviation (input) WT_GF_ALL :: ulong where "WT_GF_ALL \<equiv> 0x400"
abbreviation (input) WT_GF_PERCPU :: ulong where "WT_GF_PERCPU \<equiv> 0x10000"
abbreviation (input) WT_GF_COMPACT :: ulong where "WT_GF_COMPACT \<equiv> 0x100000"

definition is_compact :: "wayca_sc_group \<Rightarrow> bool" where
  "is_compact G \<longleftrightarrow> g_attribute G AND WT_GF_COMPACT \<noteq> 0"

definition is_percpu :: "wayca_sc_group \<Rightarrow> bool" where
  "is_percpu G \<longleftrightarrow> g_attribute G AND WT_GF_PERCPU \<noteq> 0"

section \<open>CPU loads\<close>

text \<open>\<^verbatim>\<open>while (pos >= 0) { wayca_cpu_loads[pos] += load; pos = next; }\<close>\<close>

partial_function (option) update_load_loop :: "cpu_set_t \<Rightarrow> int \<Rightarrow> int \<Rightarrow> int list \<Rightarrow> int list option"
  where
  "update_load_loop cur load pos ls =
     (if 0 \<le> pos then do {
        l \<leftarrow> rdi ls pos;
        ls' \<leftarrow> wri ls pos (l + load);
        pos' \<leftarrow> cpuset_find_next_set cur pos;
        update_load_loop cur load pos' ls'
      } else Some ls)"

declare update_load_loop.simps [code]

definition thread_load :: "topo_state \<Rightarrow> cpu_set_t \<Rightarrow> int" where
  "thread_load ts cur = div_round_up (wayca_sc_cpus_in_total ts) (CPU_COUNT cur)"

definition wayca_thread_update_load :: "sched \<Rightarrow> addr \<Rightarrow> bool \<Rightarrow> sched option" where
  "wayca_thread_update_load s thread add = do {
     T \<leftarrow> theap s thread;
     let cnt = CPU_COUNT (t_cur_set T);
     if cnt = 0 then Some s
     else do {
       let load = thread_load (tstate s) (t_cur_set T);
       let load = (if add then load else - load);
       pos \<leftarrow> cpuset_find_first_set (t_cur_set T);
       ls \<leftarrow> update_load_loop (t_cur_set T) load pos (cpu_loads s);
       Some (s\<lparr>cpu_loads := ls\<rparr>)
     }
   }"

partial_function (option) idlest_core_loop ::
    "cpu_set_t \<Rightarrow> int list \<Rightarrow> int \<Rightarrow> int \<Rightarrow> int \<Rightarrow> int option" where
  "idlest_core_loop cpuset ls pos idlest load = do {
     last \<leftarrow> cpuset_find_last_set cpuset;
     if pos \<le> last \<and> 0 \<le> pos then do {
       l \<leftarrow> rdi ls pos;
       pos' \<leftarrow> cpuset_find_next_set cpuset pos;
       if l < load then idlest_core_loop cpuset ls pos' pos l
       else idlest_core_loop cpuset ls pos' idlest load
     } else Some idlest
   }"

declare idlest_core_loop.simps [code]

definition find_idlest_core :: "int list \<Rightarrow> cpu_set_t \<Rightarrow> int option" where
  "find_idlest_core ls cpuset = do {
     pos \<leftarrow> cpuset_find_first_set cpuset;
     load \<leftarrow> rdi ls pos;
     idlest_core_loop cpuset ls pos pos load
   }"

text \<open>\<^verbatim>\<open>for (i = 0; i < stride; i++) tload += wayca_cpu_loads[pos + i];\<close>\<close>

fun block_load :: "int list \<Rightarrow> int \<Rightarrow> nat \<Rightarrow> int option" where
  "block_load ls pos 0 = Some 0"
| "block_load ls pos (Suc n) = do {
     l \<leftarrow> rdi ls pos;
     r \<leftarrow> block_load ls (pos + 1) n;
     Some (l + r)
   }"

abbreviation (input) INT_MAX :: int where "INT_MAX \<equiv> 2147483647"

partial_function (option) idlest_set_loop ::
    "cpu_set_t \<Rightarrow> int \<Rightarrow> int list \<Rightarrow> int \<Rightarrow> int \<Rightarrow> int \<Rightarrow> int option" where
  "idlest_set_loop cpuset stride ls pos idlest load = do {
     last \<leftarrow> cpuset_find_last_set cpuset;
     if pos \<le> last then
       if \<not> CPU_ISSET pos cpuset then idlest_set_loop cpuset stride ls (pos + stride) idlest load
       else do {
         tload \<leftarrow> block_load ls pos (nat stride);
         if tload < load then idlest_set_loop cpuset stride ls (pos + stride) pos tload
         else idlest_set_loop cpuset stride ls (pos + stride) idlest load
       }
     else Some idlest
   }"

declare idlest_set_loop.simps [code]

text \<open>\<^verbatim>\<open>for (i = a; i < b; i++) CPU_SET(i, set)\<close>\<close>

abbreviation set_range :: "int \<Rightarrow> int \<Rightarrow> cpu_set_t \<Rightarrow> cpu_set_t" where
  "set_range a b s \<equiv> fold CPU_SET [a..b - 1] s"

definition find_idlest_set :: "int list \<Rightarrow> wayca_sc_group \<Rightarrow> cpu_set_t \<Rightarrow> cpu_set_t option" where
  "find_idlest_set ls G cpuset = do {
     let stride = g_nr_cpus_per_topo G;
     pos \<leftarrow> cpuset_find_first_set cpuset;
     m \<leftarrow> c_mod pos stride;
     let pos = pos - m;
     idlest_pos \<leftarrow> idlest_set_loop cpuset stride ls pos pos INT_MAX;
     Some (set_range idlest_pos (idlest_pos + stride) CPU_ZERO)
   }"

partial_function (option) incomplete_set_loop ::
    "cpu_set_t \<Rightarrow> cpu_set_t \<Rightarrow> int \<Rightarrow> int \<Rightarrow> int option" where
  "incomplete_set_loop tot cpuset stride pos = do {
     last \<leftarrow> cpuset_find_last_set tot;
     if pos \<le> last then
       let tset = CPU_AND (set_range pos (pos + stride) CPU_ZERO) cpuset in
       if CPU_COUNT tset \<noteq> stride \<and> CPU_COUNT tset \<noteq> 0 then Some pos
       else incomplete_set_loop tot cpuset stride (pos + stride)
     else Some (- ENODATA)
   }"

declare incomplete_set_loop.simps [code]

definition find_incomplete_set :: "wayca_sc_group \<Rightarrow> cpu_set_t \<Rightarrow> int option" where
  "find_incomplete_set G cpuset = do {
     pos \<leftarrow> cpuset_find_first_set (g_total G);
     incomplete_set_loop (g_total G) cpuset (g_nr_cpus_per_topo G) pos
   }"

section \<open>Membership and sibling lists\<close>

partial_function (option) thread_member_loop ::
    "(addr \<Rightarrow> wayca_thread option) \<Rightarrow> addr option \<Rightarrow> addr \<Rightarrow> bool option" where
  "thread_member_loop h member thread = (case member of
       None \<Rightarrow> Some False
     | Some m \<Rightarrow> if m = thread then Some True
                 else do { M \<leftarrow> h m; thread_member_loop h (t_siblings M) thread })"

partial_function (option) group_member_loop ::
    "(addr \<Rightarrow> wayca_sc_group option) \<Rightarrow> addr option \<Rightarrow> addr \<Rightarrow> bool option" where
  "group_member_loop h member grp = (case member of
       None \<Rightarrow> Some False
     | Some m \<Rightarrow> if m = grp then Some True
                 else do { M \<leftarrow> h m; group_member_loop h (g_siblings M) grp })"

declare thread_member_loop.simps [code] group_member_loop.simps [code]

definition is_thread_in_group :: "sched \<Rightarrow> addr option \<Rightarrow> addr option \<Rightarrow> bool option" where
  "is_thread_in_group s grp thread = (case (grp, thread) of
       (Some g, Some t) \<Rightarrow> do { G \<leftarrow> gheap s g; thread_member_loop (theap s) (g_threads G) t }
     | _ \<Rightarrow> Some False)"

partial_function (option) max_topo_loop ::
    "(addr \<Rightarrow> wayca_sc_group option) \<Rightarrow> addr option \<Rightarrow> int \<Rightarrow> int option" where
  "max_topo_loop h child m = (case child of
       None \<Rightarrow> Some m
     | Some c \<Rightarrow> do {
         C \<leftarrow> h c;
         max_topo_loop h (g_siblings C)
           (if m > g_nr_cpus_per_topo C then m else g_nr_cpus_per_topo C)
       })"

declare max_topo_loop.simps [code]

definition max_topo_cpus_in_child_groups :: "sched \<Rightarrow> addr option \<Rightarrow> int option" where
  "max_topo_cpus_in_child_groups s grp = (case grp of
       None \<Rightarrow> Some (- EINVAL)
     | Some g \<Rightarrow> do {
         G \<leftarrow> gheap s g;
         if g_nr_groups G = 0 then Some 0 else max_topo_loop (gheap s) (g_groups G) 0
       })"

definition is_group_in_father :: "sched \<Rightarrow> addr \<Rightarrow> addr \<Rightarrow> bool option" where
  "is_group_in_father s grp father = do {
     F \<leftarrow> gheap s father;
     group_member_loop (gheap s) (g_groups F) grp
   }"

text \<open>\<^verbatim>\<open>while (tail->siblings) tail = tail->siblings;\<close>\<close>

partial_function (option) thread_tail_loop ::
    "(addr \<Rightarrow> wayca_thread option) \<Rightarrow> addr \<Rightarrow> addr option" where
  "thread_tail_loop h tail = do {
     T \<leftarrow> h tail;
     case t_siblings T of None \<Rightarrow> Some tail | Some n \<Rightarrow> thread_tail_loop h n
   }"

partial_function (option) group_tail_loop ::
    "(addr \<Rightarrow> wayca_sc_group option) \<Rightarrow> addr \<Rightarrow> addr option" where
  "group_tail_loop h tail = do {
     T \<leftarrow> h tail;
     case g_siblings T of None \<Rightarrow> Some tail | Some n \<Rightarrow> group_tail_loop h n
   }"

declare thread_tail_loop.simps [code] group_tail_loop.simps [code]

definition group_thread_add_to_tail :: "sched \<Rightarrow> addr \<Rightarrow> addr \<Rightarrow> sched option" where
  "group_thread_add_to_tail s grp thread = do {
     G \<leftarrow> gheap s grp;
     case g_threads G of
       None \<Rightarrow> upd_g grp (\<lambda>G. G\<lparr>g_threads := Some thread\<rparr>) s
     | Some first \<Rightarrow> do {
         tail \<leftarrow> thread_tail_loop (theap s) first;
         upd_t tail (\<lambda>T. T\<lparr>t_siblings := Some thread\<rparr>) s
       }
   }"

definition group_group_add_to_tail :: "sched \<Rightarrow> addr \<Rightarrow> addr \<Rightarrow> sched option" where
  "group_group_add_to_tail s grp father = do {
     F \<leftarrow> gheap s father;
     case g_groups F of
       None \<Rightarrow> upd_g father (\<lambda>F. F\<lparr>g_groups := Some grp\<rparr>) s
     | Some first \<Rightarrow> do {
         tail \<leftarrow> group_tail_loop (gheap s) first;
         upd_g tail (\<lambda>T. T\<lparr>g_siblings := Some grp\<rparr>) s
       }
   }"

text \<open>The loops that unlink a member from its predecessor; the first member is handled by the
  callers.\<close>

partial_function (option) thread_unlink_loop ::
    "(addr \<Rightarrow> wayca_thread option) \<Rightarrow> addr option \<Rightarrow> addr \<Rightarrow> (addr \<Rightarrow> wayca_thread option) option"
  where
  "thread_unlink_loop h member thread = (case member of
       None \<Rightarrow> Some h
     | Some m \<Rightarrow> do {
         M \<leftarrow> h m;
         if t_siblings M = Some thread then do {
           N \<leftarrow> h thread;
           let h = h(m \<mapsto> M\<lparr>t_siblings := t_siblings N\<rparr>);
           N \<leftarrow> h thread;
           Some (h(thread \<mapsto> N\<lparr>t_siblings := None\<rparr>))
         } else thread_unlink_loop h (t_siblings M) thread
       })"

partial_function (option) group_unlink_loop ::
    "(addr \<Rightarrow> wayca_sc_group option) \<Rightarrow> addr option \<Rightarrow> addr \<Rightarrow> (addr \<Rightarrow> wayca_sc_group option) option"
  where
  "group_unlink_loop h member grp = (case member of
       None \<Rightarrow> Some h
     | Some m \<Rightarrow> do {
         M \<leftarrow> h m;
         if g_siblings M = Some grp then do {
           N \<leftarrow> h grp;
           let h = h(m \<mapsto> M\<lparr>g_siblings := g_siblings N\<rparr>);
           N \<leftarrow> h grp;
           Some (h(grp \<mapsto> N\<lparr>g_siblings := None\<rparr>))
         } else group_unlink_loop h (g_siblings M) grp
       })"

declare thread_unlink_loop.simps [code] group_unlink_loop.simps [code]

definition group_thread_delete_thread :: "sched \<Rightarrow> addr \<Rightarrow> addr \<Rightarrow> sched option" where
  "group_thread_delete_thread s grp thread = do {
     G \<leftarrow> gheap s grp;
     if g_threads G = Some thread then do {
       T \<leftarrow> theap s thread;
       s \<leftarrow> upd_g grp (\<lambda>G. G\<lparr>g_threads := t_siblings T\<rparr>) s;
       upd_t thread (\<lambda>T. T\<lparr>t_siblings := None\<rparr>) s
     } else do {
       h \<leftarrow> thread_unlink_loop (theap s) (g_threads G) thread;
       Some (s\<lparr>theap := h\<rparr>)
     }
   }"

definition group_group_delete_group :: "sched \<Rightarrow> addr \<Rightarrow> addr \<Rightarrow> sched option" where
  "group_group_delete_group s grp father = do {
     F \<leftarrow> gheap s father;
     if g_groups F = Some grp then do {
       G \<leftarrow> gheap s grp;
       s \<leftarrow> upd_g father (\<lambda>F. F\<lparr>g_groups := g_siblings G\<rparr>) s;
       upd_g grp (\<lambda>G. G\<lparr>g_siblings := None\<rparr>) s
     } else do {
       h \<leftarrow> group_unlink_loop (gheap s) (g_groups F) grp;
       Some (s\<lparr>gheap := h\<rparr>)
     }
   }"

section \<open>Resources of a group\<close>

text \<open>\<^verbatim>\<open>memset(&available_set, -1, ...); CPU_XOR(..., used); CPU_AND(..., total);\<close>\<close>

definition available_set :: "wayca_sc_group \<Rightarrow> cpu_set_t" where
  "available_set G = CPU_AND (CPU_XOR CPU_FULL (g_used G)) (g_total G)"

text \<open>\<^verbatim>\<open>if (CPU_EQUAL(&used, &total)) { CPU_ZERO(&used); roll_over_cnts++; }\<close>\<close>

definition roll_over :: "wayca_sc_group \<Rightarrow> wayca_sc_group" where
  "roll_over G =
     (if CPU_EQUAL (g_used G) (g_total G)
      then G\<lparr>g_used := CPU_ZERO, g_roll_over_cnts := g_roll_over_cnts G + 1\<rparr> else G)"

definition wayca_group_request_resource_from_father ::
    "sched \<Rightarrow> addr \<Rightarrow> cpu_set_t \<Rightarrow> (cpu_set_t \<times> sched) option" where
  "wayca_group_request_resource_from_father s grp cpuset = do {
     let cnts = CPU_COUNT cpuset;
     G \<leftarrow> gheap s grp;
     father \<leftarrow> g_father G;
     F \<leftarrow> gheap s father;
     _ \<leftarrow> c_div (cnts + g_nr_cpus_per_topo F - 1) (g_nr_cpus_per_topo F);
     let cpuset = CPU_ZERO;
     avail \<leftarrow> find_idlest_set (cpu_loads s) F (available_set F);
     let F = F\<lparr>g_used := CPU_OR (g_used F) avail\<rparr>;
     let cpuset = CPU_OR cpuset avail;
     s \<leftarrow> upd_g father (\<lambda>_. roll_over F) s;
     Some (cpuset, s)
   }"

definition wayca_group_request_resource :: "sched \<Rightarrow> addr \<Rightarrow> (int \<times> sched) option" where
  "wayca_group_request_resource s grp = do {
     G \<leftarrow> gheap s grp;
     let nr_threads = (if g_nr_threads G \<noteq> 0 then g_nr_threads G else 4);
     if g_father G = None then do {
       s \<leftarrow> upd_g grp (\<lambda>G. G\<lparr>g_total := total_cpu_set s\<rparr>) s;
       Some (0, s)
     } else do {
       let required = fold (\<lambda>pos. CPU_SET (pos * g_stride G)) [0..nr_threads - 1] CPU_ZERO;
       (required, s) \<leftarrow> wayca_group_request_resource_from_father s grp required;
       s \<leftarrow> upd_g grp (\<lambda>G. G\<lparr>g_total := required\<rparr>) s;
       Some (0, s)
     }
   }"

text \<open>The \<^verbatim>\<open>switch\<close> of \<^verbatim>\<open>wayca_group_arrange\<close>: the number of CPUs of the topology level, negative
  when the level does not exist, \<open>None\<close> for the default label.\<close>

definition topo_level_cpus :: "topo_state \<Rightarrow> ulong \<Rightarrow> int option \<times> topo_state" where
  "topo_level_cpus ts attr =
     (if attr = WT_GF_CPU then (Some 1, ts)
      else if attr = WT_GF_CCL then map_prod Some id (wayca_sc_cpus_in_ccl ts)
      else if attr = WT_GF_NUMA then (Some (wayca_sc_cpus_in_node ts), ts)
      else if attr = WT_GF_PACKAGE then (Some (wayca_sc_cpus_in_package ts), ts)
      else if attr = WT_GF_ALL then (Some (wayca_sc_cpus_in_total ts), ts)
      else (None, ts))"

definition wayca_group_arrange :: "sched \<Rightarrow> addr \<Rightarrow> (int \<times> sched) option" where
  "wayca_group_arrange s grp = do {
     G \<leftarrow> gheap s grp;
     let (lvl, ts) = topo_level_cpus (tstate s) (g_attribute G AND 0xffff);
     let s = s\<lparr>tstate := ts\<rparr>;
     case lvl of
       None \<Rightarrow> Some (- EINVAL, s)
     | Some n \<Rightarrow> do {
         let G = G\<lparr>g_nr_cpus_per_topo := n\<rparr>;
         let G = (if g_nr_cpus_per_topo G < 0
                  then G\<lparr>g_nr_cpus_per_topo := 1,
                         g_attribute := (g_attribute G AND NOT 0xffff) OR WT_GF_CPU\<rparr> else G);
         let G = (if is_compact G then G\<lparr>g_stride := 1\<rparr>
                  else G\<lparr>g_stride := g_nr_cpus_per_topo G\<rparr>);
         s \<leftarrow> upd_g grp (\<lambda>_. G) s;
         wayca_group_request_resource s grp
       }
   }"

definition wayca_group_init :: "sched \<Rightarrow> addr option \<Rightarrow> (int \<times> sched) option" where
  "wayca_group_init s grp = (case grp of
       None \<Rightarrow> Some (- EINVAL, s)
     | Some g \<Rightarrow> do {
         s \<leftarrow> upd_g g (\<lambda>G. G\<lparr>g_threads := None, g_nr_threads := 0, g_siblings := None,
                g_father := None, g_topo_hint := - 1, g_roll_over_cnts := 0, g_used := CPU_ZERO,
                g_locked := False,
                g_attribute := WT_GF_CPU OR WT_GF_COMPACT OR WT_GF_PERCPU\<rparr>) s;
         wayca_group_arrange s g
       })"

section \<open>Resources of a thread\<close>

text \<open>\<^verbatim>\<open>while (target_pos < limit && !CPU_ISSET(target_pos, &available_set)) target_pos += 1;\<close>\<close>

function scan_set :: "cpu_set_t \<Rightarrow> int \<Rightarrow> int \<Rightarrow> int" where
  "scan_set avail limit pos =
     (if pos < limit \<and> \<not> CPU_ISSET pos avail then scan_set avail limit (pos + 1) else pos)"
  by pat_completeness auto
termination
  by (relation "measure (\<lambda>(avail, limit, pos). nat (limit - pos))") auto

declare scan_set.simps [simp del]

text \<open>The choice of \<^verbatim>\<open>target_pos\<close>, the first half of \<^verbatim>\<open>wayca_group_assign_thread_resource\<close>.\<close>

definition choose_target :: "int list \<Rightarrow> wayca_sc_group \<Rightarrow> int option" where
  "choose_target ls G = do {
     let avail = available_set G;
     m \<leftarrow> c_mod (CPU_COUNT avail) (g_nr_cpus_per_topo G);
     if m \<noteq> 0 \<and> is_compact G then do {
       anchor \<leftarrow> find_incomplete_set G avail;
       Some (scan_set avail (anchor + g_nr_cpus_per_topo G) anchor)
     } else do {
       avail \<leftarrow> find_idlest_set ls G avail;
       find_idlest_core ls avail
     }
   }"

definition assign_resource ::
    "int list \<Rightarrow> wayca_sc_group \<Rightarrow> wayca_thread \<Rightarrow> (wayca_sc_group \<times> wayca_thread) option" where
  "assign_resource ls G T = do {
     target \<leftarrow> choose_target ls G;
     m \<leftarrow> c_mod target (g_nr_cpus_per_topo G);
     let anchor = target - m;
     let blk = set_range anchor (anchor + g_nr_cpus_per_topo G);
     let mine = (if is_percpu G then CPU_SET target CPU_ZERO else blk CPU_ZERO);
     let T = T\<lparr>t_target_pos := target, t_cur_set := mine, t_allowed_set := mine\<rparr>;
     let used = (if is_compact G then CPU_SET target (g_used G)
                 else if is_percpu G then blk (g_used G)
                 else CPU_OR (g_used G) (t_allowed_set T));
     Some (roll_over (G\<lparr>g_used := used\<rparr>), T)
   }"

definition wayca_group_assign_thread_resource :: "sched \<Rightarrow> addr \<Rightarrow> addr \<Rightarrow> sched option" where
  "wayca_group_assign_thread_resource s grp thread = do {
     G \<leftarrow> gheap s grp;
     T \<leftarrow> theap s thread;
     (G, T) \<leftarrow> assign_resource (cpu_loads s) G T;
     s \<leftarrow> upd_g grp (\<lambda>_. G) s;
     upd_t thread (\<lambda>_. T) s
   }"

section \<open>Members of a group\<close>

definition wayca_group_add_thread :: "sched \<Rightarrow> addr \<Rightarrow> addr \<Rightarrow> (int \<times> sched) option" where
  "wayca_group_add_thread s grp thread = do {
     mem \<leftarrow> is_thread_in_group s (Some grp) (Some thread);
     if mem then Some (- EINVAL, s)
     else do {
       G \<leftarrow> gheap s grp;
       if g_nr_groups G \<noteq> 0 then Some (- EINVAL, s)
       else do {
         s \<leftarrow> upd_g grp (\<lambda>G. G\<lparr>g_nr_threads := g_nr_threads G + 1\<rparr>) s;
         s \<leftarrow> group_thread_add_to_tail s grp thread;
         s \<leftarrow> upd_t thread (\<lambda>T. T\<lparr>t_group := Some grp\<rparr>) s;
         s \<leftarrow> wayca_group_assign_thread_resource s grp thread;
         Some (0, s)
       }
     }
   }"

text \<open>Giving CPUs back: \<^verbatim>\<open>if (CPU_COUNT(&used) == 0) { roll_over_cnts--; used |= total; }\<close>\<close>

definition undo_roll_over :: "wayca_sc_group \<Rightarrow> wayca_sc_group" where
  "undo_roll_over G =
     (if CPU_COUNT (g_used G) = 0
      then G\<lparr>g_roll_over_cnts := g_roll_over_cnts G - 1, g_used := CPU_OR (g_used G) (g_total G)\<rparr>
      else G)"

definition release_resource :: "wayca_sc_group \<Rightarrow> wayca_thread \<Rightarrow> wayca_sc_group" where
  "release_resource G T =
     (let G = undo_roll_over G in
      if is_compact G \<and> \<not> is_percpu G then G\<lparr>g_used := CPU_CLR (t_target_pos T) (g_used G)\<rparr>
      else G\<lparr>g_used := CPU_XOR (g_used G) (t_allowed_set T)\<rparr>)"

definition wayca_group_delete_thread :: "sched \<Rightarrow> addr \<Rightarrow> addr \<Rightarrow> (int \<times> sched) option" where
  "wayca_group_delete_thread s grp thread = do {
     mem \<leftarrow> is_thread_in_group s (Some grp) (Some thread);
     if \<not> mem then Some (- EINVAL, s)
     else do {
       T \<leftarrow> theap s thread;
       s \<leftarrow> upd_g grp (\<lambda>G. release_resource G T) s;
       s \<leftarrow> group_thread_delete_thread s grp thread;
       s \<leftarrow> upd_t thread (\<lambda>T. T\<lparr>t_group := None\<rparr>) s;
       s \<leftarrow> upd_g grp (\<lambda>G. G\<lparr>g_nr_threads := g_nr_threads G - 1\<rparr>) s;
       Some (0, s)
     }
   }"

definition wayca_group_rearrange_thread :: "sched \<Rightarrow> addr \<Rightarrow> (int \<times> sched) option" where
  "wayca_group_rearrange_thread s thread = do {
     T \<leftarrow> theap s thread;
     let s = s\<lparr>affinity := affinity s @ [(t_pid T, t_cur_set T)]\<rparr>;
     s \<leftarrow> wayca_thread_update_load s thread True;
     Some (0, s)
   }"

text \<open>The loop \<^verbatim>\<open>group_for_each_threads\<close> of \<^verbatim>\<open>wayca_group_rearrange_group\<close>.\<close>

partial_function (option) rearrange_threads_loop :: "sched \<Rightarrow> addr \<Rightarrow> addr option \<Rightarrow> sched option"
  where
  "rearrange_threads_loop s grp thread = (case thread of
       None \<Rightarrow> Some s
     | Some t \<Rightarrow> do {
         s \<leftarrow> wayca_thread_update_load s t False;
         s \<leftarrow> wayca_group_assign_thread_resource s grp t;
         (_, s) \<leftarrow> wayca_group_rearrange_thread s t;
         T \<leftarrow> theap s t;
         rearrange_threads_loop s grp (t_siblings T)
       })"

declare rearrange_threads_loop.simps [code]

text \<open>\<^verbatim>\<open>wayca_group_rearrange_group\<close> and its loop \<^verbatim>\<open>group_for_each_groups\<close> call each other; the
  two are one recursive function on the work that is left: a group, or the rest of a list of
  children.\<close>

datatype rearrange_work = Rearrange addr | Children "addr option"

definition rearrange_check :: "sched \<Rightarrow> addr \<Rightarrow> bool option" where
  "rearrange_check s grp = do {
     G \<leftarrow> gheap s grp;
     above \<leftarrow> (case g_father G of
                  None \<Rightarrow> Some False
                | Some f \<Rightarrow> do { F \<leftarrow> gheap s f; Some (g_nr_cpus_per_topo F \<le> g_nr_cpus_per_topo G) });
     if above then Some False
     else do {
       m \<leftarrow> max_topo_cpus_in_child_groups s (Some grp);
       Some (\<not> g_nr_cpus_per_topo G \<le> m)
     }
   }"

partial_function (option) rearrange :: "rearrange_work \<Rightarrow> sched \<Rightarrow> (int \<times> sched) option" where
  "rearrange w s = (case w of
       Rearrange grp \<Rightarrow> do {
         ok \<leftarrow> rearrange_check s grp;
         if \<not> ok then Some (- ERANGE, s)
         else do {
           (ret, s) \<leftarrow> wayca_group_arrange s grp;
           if ret \<noteq> 0 then Some (ret, s)
           else do {
             s \<leftarrow> upd_g grp (\<lambda>G. G\<lparr>g_used := CPU_ZERO, g_roll_over_cnts := 0\<rparr>) s;
             G \<leftarrow> gheap s grp;
             if g_nr_threads G \<noteq> 0 then do {
               s \<leftarrow> rearrange_threads_loop s grp (g_threads G);
               Some (0, s)
             } else if g_nr_groups G \<noteq> 0 then rearrange (Children (g_groups G)) s
             else Some (0, s)
           }
         }
       }
     | Children None \<Rightarrow> Some (0, s)
     | Children (Some child) \<Rightarrow> do {
         (_, s) \<leftarrow> rearrange (Rearrange child) s;
         C \<leftarrow> gheap s child;
         rearrange (Children (g_siblings C)) s
       })"

declare rearrange.simps [code]

definition wayca_group_rearrange_group :: "sched \<Rightarrow> addr \<Rightarrow> (int \<times> sched) option" where
  "wayca_group_rearrange_group s grp = rearrange (Rearrange grp) s"

definition wayca_group_add_group :: "sched \<Rightarrow> addr \<Rightarrow> addr \<Rightarrow> (int \<times> sched) option" where
  "wayca_group_add_group s grp father = do {
     mem \<leftarrow> is_group_in_father s grp father;
     if mem then Some (- EINVAL, s)
     else do {
       F \<leftarrow> gheap s father;
       if g_nr_threads F \<noteq> 0 then Some (- EINVAL, s)
       else do {
         s \<leftarrow> upd_g father (\<lambda>F. F\<lparr>g_nr_groups := g_nr_groups F + 1\<rparr>) s;
         s \<leftarrow> group_group_add_to_tail s grp father;
         s \<leftarrow> upd_g grp (\<lambda>G. G\<lparr>g_father := Some father\<rparr>) s;
         (ret, s) \<leftarrow> wayca_group_rearrange_group s grp;
         if ret < 0 then do {
           s \<leftarrow> group_group_delete_group s grp father;
           s \<leftarrow> upd_g father (\<lambda>F. F\<lparr>g_nr_groups := g_nr_groups F - 1\<rparr>) s;
           s \<leftarrow> upd_g grp (\<lambda>G. G\<lparr>g_father := None\<rparr>) s;
           Some (ret, s)
         } else Some (0, s)
       }
     }
   }"

definition wayca_group_delete_group :: "sched \<Rightarrow> addr \<Rightarrow> addr \<Rightarrow> (int \<times> sched) option" where
  "wayca_group_delete_group s grp father = do {
     mem \<leftarrow> is_group_in_father s grp father;
     if \<not> mem then Some (- EINVAL, s)
     else do {
       s \<leftarrow> upd_g father undo_roll_over s;
       G \<leftarrow> gheap s grp;
       s \<leftarrow> upd_g father (\<lambda>F. F\<lparr>g_used := CPU_XOR (g_used F) (g_total G)\<rparr>) s;
       s \<leftarrow> group_group_delete_group s grp father;
       s \<leftarrow> upd_g father (\<lambda>F. F\<lparr>g_nr_groups := g_nr_groups F - 1\<rparr>) s;
       s \<leftarrow> upd_g grp (\<lambda>G. G\<lparr>g_father := None\<rparr>) s;
       Some (0, s)
     }
   }"

section \<open>A sample machine\<close>

text \<open>A machine with four CPUs, the library just initialised, for concrete instances of the theorems.\<close>

definition sample_topo :: wayca_topo where
  "sample_topo = \<lparr>kernel_max_cpus = 4, setsize = 8, n_cpus = 4, cpu_map = [15], online_cpu_map = [15],
     cpu_array = [], cores = [], ccls = [], node_map = [1], nodes = [], packages = []\<rparr>"

definition sample_cpus :: cpu_set_t where
  "sample_cpus = CPU_SET 3 (CPU_SET 2 (CPU_SET 1 (CPU_SET 0 CPU_ZERO)))"

definition sample_sched :: sched where
  "sample_sched = \<lparr>theap = (\<lambda>_. None), gheap = (\<lambda>_. None), threads_array = [None, None],
     groups_array = [None, None], cpu_loads = [0, 0, 0, 0], total_cpu_set = sample_cpus,
     tstate = \<lparr>topo = sample_topo, max_cores = 0, max_ccls = 0\<rparr>, affinity = []\<rparr>"

lemma sample_cpus: "cs_ok sample_cpus" "cpus sample_cpus = {..<4}"
proof -
  show "cs_ok sample_cpus"
    by (simp add: sample_cpus_def cs_ok_def CPU_SET_def CPU_ZERO_def)
  have "cpus sample_cpus = {3, 2, Suc 0, 0}"
    by (simp add: sample_cpus_def cpus_CPU_SET_gen length_CPU_SET CPU_ZERO_def [THEN arg_cong, of length]
        cpus_const)
  also have "\<dots> = {..<4}"
    by (simp add: lessThan_nat_numeral lessThan_Suc)
  finally show "cpus sample_cpus = {..<4}" .
qed

end
