(* ===== verification/GroupAssign.thy ===== *)
theory GroupAssign
  imports Group
begin

text \<open>
  Correctness of the choice of CPUs in \<^verbatim>\<open>lib/group.c\<close>. The loops over CPU sets are characterised
  on sets of CPU numbers: the load update adds to exactly the CPUs of the set,
  \<^verbatim>\<open>find_idlest_core\<close> and \<^verbatim>\<open>find_idlest_set\<close> return the first CPU or block of CPUs with the least
  load, \<^verbatim>\<open>find_incomplete_set\<close> the first block that is partly available.
\<close>

section \<open>Blocks of CPUs\<close>

text \<open>The topology level of a group cuts the CPU numbers into blocks of \<open>n\<close>: \<open>blk n p\<close> is the
  block of CPU \<open>p\<close>; \<open>aligned n S\<close> says that \<open>S\<close> consists of complete blocks.\<close>

definition blk :: "nat \<Rightarrow> nat \<Rightarrow> nat set" where
  "blk n p = {p - p mod n..<p - p mod n + n}"

definition aligned :: "nat \<Rightarrow> nat set \<Rightarrow> bool" where
  "aligned n S \<longleftrightarrow> (\<forall>p \<in> S. blk n p \<subseteq> S)"

lemma blk_iff: "0 < n \<Longrightarrow> q \<in> blk n p \<longleftrightarrow> q div n = p div n"
proof -
  assume n: "0 < n"
  have p: "p - p mod n = p div n * n"
    by (simp add: minus_mod_eq_div_mult)
  show ?thesis
  proof
    assume "q \<in> blk n p"
    then have "p div n * n \<le> q" "q < (p div n + 1) * n"
      by (auto simp: blk_def p)
    then show "q div n = p div n"
      using n by (metis Suc_eq_plus1 div_nat_eqI mult.commute)
  next
    assume "q div n = p div n"
    then show "q \<in> blk n p"
      using n div_mult_mod_eq [of q n] mod_less_divisor [OF n, of q]
      by (auto simp: blk_def p)
  qed
qed

lemma blk_self [simp]: "0 < n \<Longrightarrow> p \<in> blk n p"
  by (simp add: blk_iff)

lemma blk_cong: "0 < n \<Longrightarrow> q \<in> blk n p \<Longrightarrow> blk n q = blk n p"
  by (auto simp: blk_iff)

lemma blk_card [simp]: "card (blk n p) = n"
  by (simp add: blk_def)

lemma finite_blk [simp, intro]: "finite (blk n p)"
  by (simp add: blk_def)

lemma blk_start: "n dvd p \<Longrightarrow> blk n p = {p..<p + n}"
  by (simp add: blk_def dvd_eq_mod_eq_0)

lemma blk_one [simp]: "blk 1 p = {p}" "blk (Suc 0) p = {p}"
  by (auto simp: blk_def)

lemma alignedD: "aligned n S \<Longrightarrow> p \<in> S \<Longrightarrow> q \<in> blk n p \<Longrightarrow> q \<in> S"
  by (auto simp: aligned_def)

lemma aligned_one [simp]: "aligned 1 S" "aligned (Suc 0) S"
  by (auto simp: aligned_def)

lemma aligned_empty [simp]: "aligned n {}"
  by (simp add: aligned_def)

lemma aligned_Un: "aligned n S \<Longrightarrow> aligned n T \<Longrightarrow> aligned n (S \<union> T)"
  by (auto simp: aligned_def)

lemma aligned_blk: "0 < n \<Longrightarrow> aligned n (blk n p)"
  by (simp add: aligned_def blk_cong)

lemma aligned_Diff: "0 < n \<Longrightarrow> aligned n S \<Longrightarrow> aligned n T \<Longrightarrow> aligned n (S - T)"
  by (auto simp: aligned_def) (metis blk_cong blk_self subsetD)

lemma aligned_start:
  assumes "aligned n S" "0 < n" "p \<in> S"
  shows "p - p mod n \<in> S" and "n dvd p - p mod n"
proof -
  show "p - p mod n \<in> S"
    using alignedD [OF assms(1,3)] assms(2) unfolding blk_def atLeastLessThan_iff
    by (meson add_strict_increasing2 le_add_same_cancel1 less_add_same_cancel1 order_refl)
  show "n dvd p - p mod n"
    by (simp add: minus_mod_eq_div_mult)
qed

lemma aligned_Min:
  assumes "aligned n S" "0 < n" "finite S" "S \<noteq> {}"
  shows "n dvd Min S"
proof -
  have "Min S - Min S mod n \<in> S"
    using assms by (intro aligned_start) auto
  then have "Min S \<le> Min S - Min S mod n"
    using assms(3) by simp
  then have "Min S mod n = 0 \<or> Min S = 0"
    by linarith
  then show ?thesis by auto
qed

text \<open>An aligned finite set has a multiple of \<open>n\<close> elements.\<close>

lemma aligned_card:
  assumes "aligned n S" "0 < n" "finite S"
  shows "n dvd card S"
  using assms(3,1)
proof (induction "card S" arbitrary: S rule: less_induct)
  case less
  show ?case
  proof (cases "S = {}")
    case False
    then obtain p where p: "p \<in> S" by auto
    then have sub: "blk n p \<subseteq> S"
      using less.prems by (simp add: aligned_def)
    have "card S = card (S - blk n p) + n"
      using card_Diff_subset [OF finite_blk sub] card_mono [OF less.prems(1) sub] by simp
    moreover have "n dvd card (S - blk n p)"
      using less.prems assms(2) calculation
      by (intro less.hyps) (auto intro: aligned_Diff aligned_blk)
    ultimately show ?thesis by simp
  qed simp
qed

section \<open>The first least element\<close>

definition first_min :: "(nat \<Rightarrow> int) \<Rightarrow> nat set \<Rightarrow> int" where
  "first_min f S = first_of {r \<in> S. \<forall>q \<in> S. f r \<le> f q}"

lemma first_min_mem:
  assumes "finite S" "S \<noteq> {}"
  shows "0 \<le> first_min f S" and "nat (first_min f S) \<in> S"
    and "q \<in> S \<Longrightarrow> f (nat (first_min f S)) \<le> f q"
    and "q \<in> S \<Longrightarrow> q < nat (first_min f S) \<Longrightarrow> f (nat (first_min f S)) < f q"
proof -
  let ?M = "{r \<in> S. \<forall>q \<in> S. f r \<le> f q}"
  have "Min (f ` S) \<in> f ` S"
    using assms by (intro Min_in) auto
  then obtain m where "m \<in> S" "f m = Min (f ` S)"
    by auto
  then have "m \<in> ?M"
    using assms(1) by auto
  then have ne: "?M \<noteq> {}" and fin: "finite ?M"
    using assms(1) by auto
  have eq: "first_min f S = int (Min ?M)"
    using ne by (auto simp: first_min_def first_of_def)
  have M: "Min ?M \<in> ?M"
    using Min_in [OF fin ne] .
  then show "0 \<le> first_min f S" "nat (first_min f S) \<in> S"
    and "q \<in> S \<Longrightarrow> f (nat (first_min f S)) \<le> f q"
    by (auto simp: eq)
  assume q: "q \<in> S" "q < nat (first_min f S)"
  show "f (nat (first_min f S)) < f q"
  proof (rule ccontr)
    assume "\<not> ?thesis"
    then have "q \<in> ?M"
      using M q(1) by (auto simp: eq not_less)
    then have "Min ?M \<le> q"
      using fin by simp
    then show False
      using q(2) by (simp add: eq)
  qed
qed

lemma first_minI:
  assumes "finite S" "r \<in> S" "\<And>q. q \<in> S \<Longrightarrow> f r \<le> f q" "\<And>q. q \<in> S \<Longrightarrow> q < r \<Longrightarrow> f r < f q"
  shows "first_min f S = int r"
proof -
  have "S \<noteq> {}"
    using assms(2) by auto
  note m = first_min_mem [OF assms(1) this, where f = f]
  have "nat (first_min f S) = r"
    using m(2) m(3) [OF assms(2)] m(4) [OF assms(2)] assms(3,4) [OF m(2)]
    by (metis linorder_neqE_nat not_less)
  then show ?thesis
    using m(1) by simp
qed

text \<open>The loops keep the best element of what they have scanned.\<close>

definition best :: "(nat \<Rightarrow> int) \<Rightarrow> nat set \<Rightarrow> nat \<Rightarrow> bool" where
  "best f B i \<longleftrightarrow> (\<forall>q \<in> B. f i \<le> f q \<and> (q < i \<longrightarrow> f i < f q))"

lemma best_empty [simp]: "best f {} i"
  by (simp add: best_def)

lemma best_take: "best f B i \<Longrightarrow> f p < f i \<Longrightarrow> best f (insert p B) p"
  by (fastforce simp: best_def)

lemma best_first: "best f {p} p"
  by (simp add: best_def)

lemma best_keep: "best f B i \<Longrightarrow> f i \<le> f p \<Longrightarrow> i \<le> p \<Longrightarrow> best f (insert p B) i"
  by (simp add: best_def)

lemma best_first_min: "best f S i \<Longrightarrow> i \<in> S \<Longrightarrow> finite S \<Longrightarrow> first_min f S = int i"
  by (rule first_minI) (auto simp: best_def)

section \<open>The load update\<close>

definition add_load :: "nat set \<Rightarrow> int \<Rightarrow> int list \<Rightarrow> int list" where
  "add_load S l ls = map (\<lambda>i. ls ! i + (if i \<in> S then l else 0)) [0..<length ls]"

lemma length_add_load [simp]: "length (add_load S l ls) = length ls"
  by (simp add: add_load_def)

lemma nth_add_load [simp]:
  "i < length ls \<Longrightarrow> add_load S l ls ! i = ls ! i + (if i \<in> S then l else 0)"
  by (simp add: add_load_def)

lemma add_load_empty [simp]: "add_load {} l ls = ls"
  by (rule nth_equalityI) simp_all

lemma add_load_insert:
  "p < length ls \<Longrightarrow> p \<notin> S \<Longrightarrow> add_load S l (ls[p := ls ! p + l]) = add_load (insert p S) l ls"
  by (rule nth_equalityI) (auto simp: nth_list_update)

text \<open>What is left to scan from position \<open>p\<close>.\<close>

definition from_pos :: "nat set \<Rightarrow> int \<Rightarrow> nat set" where
  "from_pos S p = {i \<in> S. 0 \<le> p \<and> p \<le> int i}"

lemma from_pos_neg [simp]: "p < 0 \<Longrightarrow> from_pos S p = {}"
  by (auto simp: from_pos_def)

lemma from_pos_first [simp]: "finite S \<Longrightarrow> from_pos S (first_of S) = S"
  by (cases "S = {}") (auto simp: from_pos_def first_of_def)

lemma from_pos_next:
  assumes "finite S" "p \<in> S"
  shows "from_pos S (int p) = insert p (from_pos S (next_of S (int p)))"
    and "p \<notin> from_pos S (next_of S (int p))"
proof -
  let ?T = "{i \<in> S. int p < int i}"
  have fin: "finite ?T" using assms by simp
  have eq: "from_pos S (next_of S (int p)) = ?T"
  proof (cases "?T = {}")
    case True
    then show ?thesis by (simp add: next_of_def first_of_def)
  next
    case False
    then have "Min ?T \<in> ?T" using fin by (intro Min_in)
    then have "p < Min ?T" by simp
    moreover have "Min ?T \<le> i" if "i \<in> ?T" for i
      using fin that by (rule Min_le)
    moreover have "next_of S (int p) = int (Min ?T)"
      using False by (simp add: next_of_def first_of_def)
    ultimately show ?thesis
      by (auto simp: from_pos_def)
  qed
  show "from_pos S (int p) = insert p (from_pos S (next_of S (int p)))"
    unfolding eq using assms by (auto simp: from_pos_def)
  show "p \<notin> from_pos S (next_of S (int p))"
    unfolding eq by simp
qed

lemma next_of_gt: "0 \<le> next_of S b \<Longrightarrow> finite S \<Longrightarrow> b < next_of S b"
proof -
  assume *: "0 \<le> next_of S b" "finite S"
  then have "{i \<in> S. b < int i} \<noteq> {}"
    by (auto simp: next_of_def)
  then show ?thesis
    using first_of_mem [of "{i \<in> S. b < int i}"] *(2) by (auto simp: next_of_def)
qed

lemma cs_ok_lt: "cs_ok c \<Longrightarrow> p \<in> cpus c \<Longrightarrow> p < 1024"
  using cs.elems_bound by blast

lemma next_set_of: "cs_ok c \<Longrightarrow> p \<in> cpus c \<Longrightarrow>
    cpuset_find_next_set c (int p) = Some (next_of (cpus c) (int p))"
  using cs_ok_lt by (simp add: cpuset_searches)

lemma update_load_loop_scan:
  assumes "cs_ok c" "cpus c \<subseteq> {..<n}"
  shows "\<forall>ls. length ls = n \<longrightarrow>
    update_load_loop c l (first_of (cpus c)) ls = Some (add_load (from_pos (cpus c) (first_of (cpus c))) l ls)"
proof (rule cs.scan_induct [OF assms(1)])
  show "\<forall>ls. length ls = n \<longrightarrow>
      update_load_loop c l (- 1) ls = Some (add_load (from_pos (cpus c) (- 1)) l ls)"
    by (simp add: update_load_loop.simps)
next
  fix p
  assume p: "p \<in> cpus c" and IH: "\<forall>ls. length ls = n \<longrightarrow>
    update_load_loop c l (next_of (cpus c) (int p)) ls
      = Some (add_load (from_pos (cpus c) (next_of (cpus c) (int p))) l ls)"
  have "p < n"
    using p assms(2) by auto
  then show "\<forall>ls. length ls = n \<longrightarrow>
      update_load_loop c l (int p) ls = Some (add_load (from_pos (cpus c) (int p)) l ls)"
    using IH p assms(1) from_pos_next [OF finite_cpus p]
    by (subst update_load_loop.simps) (simp add: next_set_of add_load_insert)
qed

lemma update_load_loop_add:
  assumes "cs_ok c" "cpus c \<subseteq> {..<length ls}"
  shows "update_load_loop c l (first_of (cpus c)) ls = Some (add_load (cpus c) l ls)"
  using update_load_loop_scan [OF assms] by simp

lemma thread_update_load:
  assumes "theap s t = Some T" "cs_ok (t_cur_set T)" "cpus (t_cur_set T) \<subseteq> {..<length (cpu_loads s)}"
  shows "wayca_thread_update_load s t add = Some (s\<lparr>cpu_loads :=
    add_load (cpus (t_cur_set T)) ((if add then 1 else - 1) * thread_load (tstate s) (t_cur_set T))
      (cpu_loads s)\<rparr>)"
proof (cases "CPU_COUNT (t_cur_set T) = 0")
  case True
  then have "cpus (t_cur_set T) = {}"
    using assms(2) by (simp add: cset)
  with True assms(1) show ?thesis
    by (simp add: wayca_thread_update_load_def)
next
  case False
  then show ?thesis
    using assms by (simp add: wayca_thread_update_load_def cpuset_searches update_load_loop_add)
qed

section \<open>The idlest CPU\<close>

lemma idlest_core_scan:
  assumes "cs_ok c" "cpus c \<subseteq> {..<length ls}"
  shows "\<forall>i. i \<in> cpus c \<and> (0 \<le> first_of (cpus c) \<longrightarrow> int i \<le> first_of (cpus c))
    \<and> best ((!) ls) (cpus c - from_pos (cpus c) (first_of (cpus c))) i \<longrightarrow>
    idlest_core_loop c ls (first_of (cpus c)) (int i) (ls ! i) = Some (first_min ((!) ls) (cpus c))"
  (is "?P (first_of (cpus c))")
proof (rule cs.scan_induct [OF assms(1), of ?P])
  show "?P (- 1)"
    using assms(1)
    by (subst idlest_core_loop.simps) (auto simp: cpuset_searches best_first_min [symmetric])
next
  fix p
  assume p: "p \<in> cpus c" and IH: "?P (next_of (cpus c) (int p))"
  have last: "int p \<le> last_of (cpus c)"
    using p by (auto simp: last_of_def)
  have pn: "p < length ls"
    using p assms(2) by auto
  have D: "cpus c - from_pos (cpus c) (next_of (cpus c) (int p))
      = insert p (cpus c - from_pos (cpus c) (int p))"
    using from_pos_next [OF finite_cpus p] p by auto
  have gt: "0 \<le> next_of (cpus c) (int p) \<longrightarrow> int q \<le> next_of (cpus c) (int p)" if "q \<le> p" for q
    using next_of_gt [of "cpus c" "int p"] that by auto
  show "?P (int p)"
  proof (intro allI impI)
    fix i
    let ?D = "cpus c - from_pos (cpus c) (int p)"
    assume i: "i \<in> cpus c \<and> (0 \<le> int p \<longrightarrow> int i \<le> int p) \<and> best ((!) ls) ?D i"
    have "idlest_core_loop c ls (next_of (cpus c) (int p)) (int j) (ls ! j)
        = Some (first_min ((!) ls) (cpus c))"
      if "j \<in> cpus c" "j \<le> p" "best ((!) ls) (insert p ?D) j" for j
      using IH that gt [OF that(2)] unfolding D by blast
    then have "ls ! p < ls ! i \<Longrightarrow> idlest_core_loop c ls (next_of (cpus c) (int p)) (int p) (ls ! p)
          = Some (first_min ((!) ls) (cpus c))"
      and "\<not> ls ! p < ls ! i \<Longrightarrow> idlest_core_loop c ls (next_of (cpus c) (int p)) (int i) (ls ! i)
          = Some (first_min ((!) ls) (cpus c))"
      using i p best_take [of "(!) ls" ?D i p] best_keep [of "(!) ls" ?D i p] by auto
    then show "idlest_core_loop c ls (int p) (int i) (ls ! i) = Some (first_min ((!) ls) (cpus c))"
      using assms(1) last p pn
      by (subst idlest_core_loop.simps) (simp add: cpuset_searches next_set_of)
  qed
qed

lemma find_idlest_core_min:
  assumes "cs_ok c" "cpus c \<subseteq> {..<length ls}" "cpus c \<noteq> {}"
  shows "find_idlest_core ls c = Some (first_min ((!) ls) (cpus c))"
proof -
  have m: "Min (cpus c) \<in> cpus c" "first_of (cpus c) = int (Min (cpus c))"
    using assms(3) by (simp_all add: first_of_def)
  have "idlest_core_loop c ls (first_of (cpus c)) (first_of (cpus c)) (ls ! Min (cpus c))
      = Some (first_min ((!) ls) (cpus c))"
    using spec [OF idlest_core_scan [OF assms(1,2)], of "Min (cpus c)"] m(1)
    unfolding m(2) [symmetric] by (simp add: m(2) [symmetric])
  moreover have "Min (cpus c) < length ls"
    using m(1) assms(2) by auto
  ultimately show ?thesis
    using assms(1) m(2) by (simp add: find_idlest_core_def cpuset_searches)
qed

section \<open>The idlest block\<close>

definition block_sum :: "int list \<Rightarrow> nat \<Rightarrow> nat \<Rightarrow> int" where
  "block_sum ls n p = (\<Sum>i \<in> {p..<p + n}. ls ! i)"

text \<open>The comparison starts from \<^verbatim>\<open>INT_MAX\<close>, which cuts off larger loads.\<close>

definition block_weight :: "int list \<Rightarrow> nat \<Rightarrow> nat \<Rightarrow> int" where
  "block_weight ls n p = min INT_MAX (block_sum ls n p)"

lemma block_load_sum: "p + n \<le> length ls \<Longrightarrow> block_load ls (int p) n = Some (block_sum ls n p)"
proof (induction n arbitrary: p)
  case 0
  then show ?case by (simp add: block_sum_def)
next
  case (Suc n)
  have "block_load ls (int p + 1) n = Some (block_sum ls n (Suc p))"
    using Suc.IH [of "Suc p"] Suc.prems by (simp add: add.commute)
  moreover have "block_sum ls (Suc n) p = ls ! p + block_sum ls n (Suc p)"
    by (simp add: block_sum_def sum.atLeast_Suc_lessThan)
  ultimately show ?case
    using Suc.prems by simp
qed

definition starts :: "nat \<Rightarrow> nat set \<Rightarrow> nat set" where
  "starts n S = {p \<in> S. n dvd p}"

lemma finite_starts [simp]: "finite S \<Longrightarrow> finite (starts n S)"
  by (simp add: starts_def)

lemma dvd_block_eq:
  assumes "n dvd p" "n dvd q" "p \<le> q" "q < p + n"
  shows "q = (p :: nat)"
proof -
  have "n dvd q - p"
    using assms by (simp add: dvd_diff_nat)
  then show ?thesis
    using assms(3,4) by (auto dest: dvd_imp_le)
qed

lemma starts_below_step:
  assumes "n dvd p"
  shows "{q \<in> starts n S. q < p + n} \<subseteq> insert p {q \<in> starts n S. q < p}"
proof
  fix q assume "q \<in> {q \<in> starts n S. q < p + n}"
  then show "q \<in> insert p {q \<in> starts n S. q < p}"
    using dvd_block_eq [OF assms, of q] by (cases "q < p") (simp_all add: starts_def)
qed

lemma best_mono: "best f B i \<Longrightarrow> A \<subseteq> B \<Longrightarrow> best f A i"
  by (auto simp: best_def)

text \<open>One round at a position \<open>p\<close> in the set: the result is the better of \<open>i\<close> and \<open>p\<close>.\<close>

lemma block_round:
  assumes "load = block_weight ls n i \<and> best (block_weight ls n) B i \<and> i \<le> p
      \<or> B = {} \<and> i = p \<and> load = INT_MAX"
  shows "block_sum ls n p < load \<Longrightarrow>
      block_sum ls n p = block_weight ls n p \<and> best (block_weight ls n) (insert p B) p"
    and "\<not> block_sum ls n p < load \<Longrightarrow>
      load = block_weight ls n i \<and> best (block_weight ls n) (insert p B) i \<and> i \<le> p"
proof -
  have load: "load \<le> INT_MAX"
    using assms by (auto simp: block_weight_def)
  {
    assume lt: "block_sum ls n p < load"
    then have w: "block_sum ls n p = block_weight ls n p"
      using load by (simp add: block_weight_def)
    with lt assms show "block_sum ls n p = block_weight ls n p \<and> best (block_weight ls n) (insert p B) p"
      using best_take [of "block_weight ls n" B i p] by (auto simp: best_first)
  next
    assume ge: "\<not> block_sum ls n p < load"
    then have "load \<le> block_weight ls n p"
      using load by (simp add: block_weight_def)
    moreover have "block_weight ls n p \<le> INT_MAX"
      by (simp add: block_weight_def)
    ultimately show "load = block_weight ls n i \<and> best (block_weight ls n) (insert p B) i \<and> i \<le> p"
      using assms best_keep [of "block_weight ls n" B i p] by (auto simp: best_first)
  }
qed

lemma idlest_set_scan:
  assumes "cs_ok c" "0 < n" "cpus c \<noteq> {}" "n dvd p"
    and "\<And>q. q \<in> starts n (cpus c) \<Longrightarrow> q + n \<le> length ls"
    and "i \<in> starts n (cpus c)"
    and "load = block_weight ls n i
        \<and> best (block_weight ls n) {q \<in> starts n (cpus c). q < p} i \<and> i \<le> p
      \<or> {q \<in> starts n (cpus c). q < p} = {} \<and> i = p \<and> load = INT_MAX"
  shows "idlest_set_loop c (int n) ls (int p) (int i) load
    = Some (first_min (block_weight ls n) (starts n (cpus c)))"
  using assms(4,6,7)
proof (induction "Max (cpus c) + n - p" arbitrary: p i load rule: less_induct)
  case less
  let ?S = "starts n (cpus c)" and ?w = "block_weight ls n"
  let ?B = "{q \<in> ?S. q < p}"
  have last: "last_of (cpus c) = int (Max (cpus c))"
    using assms(3) by (simp add: last_of_def)
  note step = starts_below_step [OF less.prems(1), of "cpus c"]
  show ?case
  proof (cases "p \<le> Max (cpus c)")
    case False
    have "q < p" if "q \<in> cpus c" for q
      using False Max_ge [OF finite_cpus that] by linarith
    then have all: "?B = ?S"
      by (auto simp: starts_def)
    have "first_min ?w ?S = int i"
      using less.prems(2,3) unfolding all by (intro best_first_min) auto
    then show ?thesis
      using False assms(1) by (subst idlest_set_loop.simps) (simp add: cpuset_searches last)
  next
    case True
    have IH: "idlest_set_loop c (int n) ls (int p + int n) (int j) (?w j) = Some (first_min ?w ?S)"
      if "j \<in> ?S" "best ?w (insert p ?B) j" "j \<le> p" for j
      using less.hyps [of "p + n" j "?w j"] that less.prems(1) True assms(2) best_mono [OF that(2) step]
      by simp
    show ?thesis
    proof (cases "p \<in> cpus c")
      case unset: False
      then have i: "load = ?w i" "best ?w ?B i" "i \<le> p" "i \<noteq> p"
        using less.prems(2,3) by (auto simp: starts_def)
      have "{q \<in> ?S. q < p + n} \<subseteq> ?B"
        using step unset by (auto simp: starts_def)
      then have "idlest_set_loop c (int n) ls (int p + int n) (int i) load = Some (first_min ?w ?S)"
        using less.hyps [of "p + n" i load] less.prems(1,2) True assms(2) i best_mono [OF i(2)] by simp
      with True unset assms(1) show ?thesis
        by (subst idlest_set_loop.simps) (simp add: cpuset_searches last cset)
    next
      case set: True
      then have pS: "p \<in> ?S"
        using less.prems(1) by (simp add: starts_def)
      then have sum: "block_load ls (int p) n = Some (block_sum ls n p)"
        using assms(5) by (simp add: block_load_sum)
      note round = block_round [OF less.prems(3)]
      have "block_sum ls n p < load \<Longrightarrow> idlest_set_loop c (int n) ls (int p + int n) (int p)
          (block_sum ls n p) = Some (first_min ?w ?S)"
        using round(1) IH [OF pS] by simp
      moreover have "\<not> block_sum ls n p < load \<Longrightarrow>
          idlest_set_loop c (int n) ls (int p + int n) (int i) load = Some (first_min ?w ?S)"
        using round(2) IH [OF less.prems(2)] by simp
      ultimately show ?thesis
        using True set assms(1) sum
        by (subst idlest_set_loop.simps) (simp add: cpuset_searches last cset)
    qed
  qed
qed

lemma set_range_blk:
  assumes "n dvd r" "r + n \<le> 1024"
  shows "cs_ok (set_range (int r) (int r + int n) CPU_ZERO)"
    and "cpus (set_range (int r) (int r + int n) CPU_ZERO) = blk n r"
proof -
  have b: "int r + int n \<le> 1024"
    using assms(2) by linarith
  have "{nat (int r)..<nat (int r + int n)} = blk n r"
    using blk_start [OF assms(1)] by (simp add: nat_add_distrib)
  then show "cs_ok (set_range (int r) (int r + int n) CPU_ZERO)"
    and "cpus (set_range (int r) (int r + int n) CPU_ZERO) = blk n r"
    using cs.set1_range [OF cs.ok_zero of_nat_0_le_iff b] by (simp_all only: cs.elems_zero Un_empty_left)
qed

lemma set_range_upto:
  "cs_ok (set_range (int r) (int r + int n) CPU_ZERO)"
  "cpus (set_range (int r) (int r + int n) CPU_ZERO) = {r..<r + n} \<inter> {..<1024}"
proof -
  have "cs_ok (fold CPU_SET xs c) \<and> cpus (fold CPU_SET xs c)
      = cpus c \<union> {nat x |x. x \<in> set xs \<and> 0 \<le> x \<and> nat x < 1024}" if "cs_ok c" for xs c
    using that by (induction xs arbitrary: c) (auto simp: cset)
  from this [OF cs.ok_zero, of "[int r..int r + int n - 1]"]
  show "cs_ok (set_range (int r) (int r + int n) CPU_ZERO)"
    and "cpus (set_range (int r) (int r + int n) CPU_ZERO) = {r..<r + n} \<inter> {..<1024}"
    by (auto simp: cset intro!: exI [of _ "int _"])
qed

lemma c_mod_nat: "0 < n \<Longrightarrow> c_mod (int m) (int n) = Some (int (m mod n))"
  by (simp add: c_mod_def smod_nonneg zmod_int)

lemma aligned_block_end:
  assumes "aligned n S" "0 < n" "q \<in> starts n S" "S \<subseteq> {..<m}"
  shows "q + n \<le> m"
proof -
  have "q + n - 1 \<in> blk n q"
    using assms(2,3) by (simp add: starts_def blk_start)
  then have "q + n - 1 < m"
    using alignedD [OF assms(1)] assms(3,4) by (auto simp: starts_def)
  then show ?thesis
    using assms(2) by linarith
qed

lemma find_idlest_set_min:
  assumes "cs_ok c" "0 < n" "g_nr_cpus_per_topo G = int n" "aligned n (cpus c)" "cpus c \<noteq> {}"
    and "cpus c \<subseteq> {..<length ls}" "length ls \<le> 1024"
    and r: "r = nat (first_min (block_weight ls n) (starts n (cpus c)))"
  shows "\<exists>c'. find_idlest_set ls G c = Some c' \<and> cs_ok c' \<and> cpus c' = blk n r \<and> r \<in> cpus c"
proof -
  let ?m = "Min (cpus c)" and ?S = "starts n (cpus c)"
  have m: "n dvd ?m" "?m \<in> cpus c" "first_of (cpus c) = int ?m"
    using assms(2,4,5) by (simp_all add: first_of_def aligned_Min)
  then have mS: "?m \<in> ?S"
    by (simp add: starts_def)
  have below: "{q \<in> ?S. q < ?m} = {}"
    by (auto simp: starts_def not_less)
  note len = aligned_block_end [OF assms(4,2) _ assms(6)]
  have loop: "idlest_set_loop c (int n) ls (int ?m) (int ?m) INT_MAX
      = Some (first_min (block_weight ls n) ?S)"
    using idlest_set_scan [OF assms(1,2,5) m(1) len mS] below by blast
  have "?S \<noteq> {}"
    using mS by blast
  then have rS: "first_min (block_weight ls n) ?S = int r" "r \<in> ?S"
    using first_min_mem(1,2) [of ?S "block_weight ls n"] unfolding r by simp_all
  have r1024: "n dvd r" "r + n \<le> 1024"
    using len [OF rS(2)] assms(7) rS(2) by (simp_all add: starts_def)
  have "find_idlest_set ls G c = Some (set_range (int r) (int r + int n) CPU_ZERO)"
    using m(1) loop unfolding find_idlest_set_def assms(3) cpuset_searches(1) [OF assms(1)] m(3)
    by (simp add: c_mod_nat [OF assms(2)] rS(1))
  then show ?thesis
    using set_range_blk [OF r1024] rS(2) by (simp add: starts_def)
qed

section \<open>The first incomplete block\<close>

definition incomplete :: "nat \<Rightarrow> nat set \<Rightarrow> nat \<Rightarrow> bool" where
  "incomplete n A p \<longleftrightarrow> blk n p \<inter> A \<noteq> {} \<and> \<not> blk n p \<subseteq> A"

lemma incomplete_count:
  assumes "0 < n"
  shows "incomplete n A p \<longleftrightarrow> card (blk n p \<inter> A) \<noteq> n \<and> card (blk n p \<inter> A) \<noteq> 0"
proof -
  have "card (blk n p \<inter> A) = n \<longleftrightarrow> blk n p \<subseteq> A"
    by (metis blk_card card_subset_eq finite_blk inf.absorb_iff1 inf_le1)
  moreover have "card (blk n p \<inter> A) = 0 \<longleftrightarrow> blk n p \<inter> A = {}"
    by simp
  ultimately show ?thesis
    by (auto simp: incomplete_def)
qed

lemma incomplete_set_scan:
  assumes "cs_ok t" "cs_ok a" "0 < n" "aligned n (cpus t)" "cpus a \<subseteq> cpus t" "cpus t \<noteq> {}"
    and "n dvd p" "\<And>q. q < p \<Longrightarrow> \<not> incomplete n (cpus a) q"
    and "\<exists>q. incomplete n (cpus a) q"
  shows "\<exists>r. incomplete_set_loop t a (int n) (int p) = Some (int r) \<and> n dvd r
    \<and> incomplete n (cpus a) r \<and> r + n \<le> 1024 \<and> (\<forall>q < r. \<not> incomplete n (cpus a) q)"
  using assms(7,8)
proof (induction "Max (cpus t) + n - p" arbitrary: p rule: less_induct)
  case less
  have last: "last_of (cpus t) = int (Max (cpus t))"
    using assms(6) by (simp add: last_of_def)
  have "p \<le> Max (cpus t)"
  proof (rule ccontr)
    assume "\<not> ?thesis"
    moreover obtain q x where q: "incomplete n (cpus a) q" "x \<in> blk n q" "x \<in> cpus a"
      using assms(9) by (auto simp: incomplete_def)
    moreover have "x \<le> Max (cpus t)"
      using q(3) assms(5) by (intro Max_ge) auto
    moreover have "incomplete n (cpus a) x"
      using q(1,2) assms(3) by (simp add: incomplete_def blk_cong)
    ultimately show False
      using less.prems(2) [of x] by simp
  qed
  define t' where "t' = set_range (int p) (int p + int n) CPU_ZERO"
  have tset: "cs_ok t'" "cpus t' \<inter> cpus a = blk n p \<inter> cpus a"
    using set_range_upto [of p n] less.prems(1) cs.elems_bound [OF assms(2)]
    by (auto simp: t'_def blk_start)
  have cnt: "CPU_COUNT (CPU_AND t' a) = int (card (blk n p \<inter> cpus a))"
    using tset assms(2) by (simp add: cset)
  have unfold: "incomplete_set_loop t a (int n) (int p) =
      (if incomplete n (cpus a) p then Some (int p)
       else incomplete_set_loop t a (int n) (int (p + n)))"
    using \<open>p \<le> Max (cpus t)\<close> assms(1) cnt
    by (subst incomplete_set_loop.simps)
      (simp add: cpuset_searches last incomplete_count [OF assms(3)] t'_def [symmetric])
  show ?case
  proof (cases "incomplete n (cpus a) p")
    case True
    then obtain x where "x \<in> blk n p" "x \<in> cpus t"
      using assms(5) by (auto simp: incomplete_def)
    then have "p \<in> cpus t"
      using alignedD [OF assms(4), of x p] blk_cong [OF assms(3), of x p] blk_self [OF assms(3), of p]
      by simp
    then have "p + n \<le> 1024"
      using aligned_block_end [OF assms(4,3) _ cs.elems_bound [OF assms(1)], of p] less.prems(1)
      by (simp add: starts_def)
    with True less.prems show ?thesis
      by (auto simp: unfold)
  next
    case False
    have none: "\<not> incomplete n (cpus a) q" if "q < p + n" for q
    proof (cases "q < p")
      case False
      then have "q \<in> blk n p"
        using that less.prems(1) by (simp add: blk_start)
      then show ?thesis
        using \<open>\<not> incomplete n (cpus a) p\<close> assms(3) by (simp add: incomplete_def blk_cong)
    qed (use less.prems in blast)
    show ?thesis
      using less.hyps [of "p + n", OF _ _ none] \<open>p \<le> Max (cpus t)\<close> less.prems(1) assms(3) False
      by (simp add: unfold)
  qed
qed

lemma find_incomplete_set_first:
  assumes "cs_ok (g_total G)" "cs_ok a" "0 < n" "g_nr_cpus_per_topo G = int n"
    and "aligned n (cpus (g_total G))" "cpus a \<subseteq> cpus (g_total G)"
    and "\<exists>q. incomplete n (cpus a) q"
  obtains r where "find_incomplete_set G a = Some (int r)" "n dvd r" "incomplete n (cpus a) r"
    "r + n \<le> 1024" "\<forall>q < r. \<not> incomplete n (cpus a) q"
proof -
  let ?t = "cpus (g_total G)"
  have ne: "?t \<noteq> {}"
    using assms(6,7) by (auto simp: incomplete_def)
  have m: "n dvd Min ?t" "first_of ?t = int (Min ?t)"
    using assms(3,5) ne by (simp_all add: first_of_def aligned_Min)
  have none: "\<not> incomplete n (cpus a) q" if "q < Min ?t" for q
  proof
    assume "incomplete n (cpus a) q"
    then obtain x where "x \<in> blk n q" "x \<in> ?t"
      using assms(6) by (auto simp: incomplete_def)
    then have "q \<in> ?t"
      using alignedD [OF assms(5), of x q] blk_cong [OF assms(3), of x q] blk_self [OF assms(3), of q]
      by simp
    then show False
      using that Min_le [OF finite_cpus, of q "g_total G"] by linarith
  qed
  have "find_incomplete_set G a = incomplete_set_loop (g_total G) a (int n) (int (Min ?t))"
    using assms(1,4) m(2) by (simp add: find_incomplete_set_def cpuset_searches)
  then show ?thesis
    using incomplete_set_scan [OF assms(1,2,3,5,6) ne m(1) none assms(7)] that by auto
qed

lemma scan_set_first:
  assumes "cs_ok a" "r \<le> x" "x < r + n" "x \<in> cpus a"
  shows "\<exists>q. scan_set a (int (r + n)) (int r) = int q \<and> q \<in> cpus a \<and> r \<le> q \<and> q < r + n"
  using assms(2,3)
proof (induction "x - r" arbitrary: r n)
  case 0
  then have "r = x" by simp
  then show ?case
    using assms(1,4) 0 by (subst scan_set.simps) (auto simp: cset)
next
  case (Suc d)
  show ?case
  proof (cases "r \<in> cpus a")
    case True
    then show ?thesis
      using assms(1) Suc.prems by (subst scan_set.simps) (auto simp: cset)
  next
    case False
    have "scan_set a (int (r + n)) (int r) = scan_set a (int (Suc r + (n - 1))) (int (Suc r))"
      using False assms(1) Suc.prems
      by (subst scan_set.simps) (auto simp: cset of_nat_diff add.commute)
    moreover have "d = x - Suc r" "Suc r \<le> x" "x < Suc r + (n - 1)"
      using Suc.hyps(2) Suc.prems by linarith+
    from Suc.hyps(1) [OF this] obtain q where "scan_set a (int (Suc r + (n - 1))) (int (Suc r)) = int q"
        "q \<in> cpus a" "Suc r \<le> q" "q < Suc r + (n - 1)"
      by blast
    ultimately show ?thesis
      by (intro exI [of _ q]) auto
  qed
qed

section \<open>The choice of a CPU for a thread\<close>

text \<open>
  The resource invariant of a group on a machine with \<open>N\<close> CPUs: its \<^verbatim>\<open>total\<close> set is not empty and
  consists of complete blocks of its topology level, and its \<^verbatim>\<open>used\<close> set is a proper subset (the
  sets are reset when they become equal). With a compact arrangement at most one block is partly
  used, otherwise none.
\<close>

definition tidy :: "nat \<Rightarrow> nat set \<Rightarrow> bool" where
  "tidy n U \<longleftrightarrow> (\<exists>b. aligned n (U - blk n b))"

abbreviation lvl :: "wayca_sc_group \<Rightarrow> nat" where
  "lvl G \<equiv> nat (g_nr_cpus_per_topo G)"

abbreviation "usedS G \<equiv> cpus (g_used G)"
abbreviation "totalS G \<equiv> cpus (g_total G)"

definition res_ok :: "nat \<Rightarrow> wayca_sc_group \<Rightarrow> bool" where
  "res_ok N G \<longleftrightarrow> N \<le> 1024 \<and> cs_ok (g_used G) \<and> cs_ok (g_total G) \<and> totalS G \<subseteq> {..<N}
     \<and> usedS G \<subset> totalS G \<and> 0 < g_nr_cpus_per_topo G \<and> aligned (lvl G) (totalS G)"

definition arr_ok :: "wayca_sc_group \<Rightarrow> bool" where
  "arr_ok G \<longleftrightarrow> (if is_compact G then tidy (lvl G) (usedS G) else aligned (lvl G) (usedS G))"

lemma available_cpus:
  assumes "cs_ok (g_used G)" "cs_ok (g_total G)"
  shows "cs_ok (available_set G)" and "cpus (available_set G) = totalS G - usedS G"
  using cs.available [OF assms] by (simp_all add: available_set_def)

text \<open>A set with at most one incomplete block and a multiple of \<open>n\<close> elements has none.\<close>

lemma tidy_aligned:
  assumes "0 < n" "finite U" "tidy n U" "n dvd card U"
  shows "aligned n U"
proof -
  obtain b where b: "aligned n (U - blk n b)"
    using assms(3) by (auto simp: tidy_def)
  have "card U = card (U - blk n b) + card (U \<inter> blk n b)"
    using card_Int_Diff [OF assms(2), of "blk n b"] by simp
  then have dvd: "n dvd card (U \<inter> blk n b)"
    using assms(4) aligned_card [OF b assms(1) finite_Diff [OF assms(2)]]
    by (simp add: dvd_add_right_iff)
  have le: "card (U \<inter> blk n b) \<le> n"
    using card_mono [OF finite_blk inf_le2, of U n b] by simp
  have "card (U \<inter> blk n b) = 0 \<or> card (U \<inter> blk n b) = n"
    using dvd_imp_le [OF dvd] le by linarith
  then consider "U \<inter> blk n b = {}" | "U \<inter> blk n b = blk n b"
    using card_subset_eq [OF finite_blk inf_le2, of U n b] assms(2) by auto
  then show ?thesis
  proof cases
    case 1
    then have "U - blk n b = U" by auto
    then show ?thesis using b by simp
  next
    case 2
    then have "U = (U - blk n b) \<union> blk n b" by auto
    then show ?thesis using b aligned_Un aligned_blk [OF assms(1)] by metis
  qed
qed

lemma not_aligned_incomplete: "0 < n \<Longrightarrow> \<not> aligned n A \<Longrightarrow> \<exists>q. incomplete n A q"
  unfolding aligned_def incomplete_def using blk_self by blast

lemma complement_aligned:
  assumes "res_ok N G"
  shows "aligned (lvl G) (totalS G - usedS G) \<longleftrightarrow> aligned (lvl G) (usedS G)"
proof -
  have n: "0 < lvl G" and T: "aligned (lvl G) (totalS G)" and U: "usedS G \<subseteq> totalS G"
    using assms by (auto simp: res_ok_def)
  have "totalS G - (totalS G - usedS G) = usedS G"
    using U by auto
  then show ?thesis
    using aligned_Diff [OF n T, of "usedS G"] aligned_Diff [OF n T, of "totalS G - usedS G"] by auto
qed

lemma choose_target_unfold:
  assumes "cs_ok (g_used G)" "cs_ok (g_total G)" "0 < n" "g_nr_cpus_per_topo G = int n"
  shows "choose_target ls G =
    (if card (totalS G - usedS G) mod n \<noteq> 0 \<and> is_compact G
     then do { a \<leftarrow> find_incomplete_set G (available_set G);
               Some (scan_set (available_set G) (a + int n) a) }
     else do { c \<leftarrow> find_idlest_set ls G (available_set G); find_idlest_core ls c })"
  using available_cpus [OF assms(1,2)] assms(3,4) by (simp add: choose_target_def cset c_mod_nat Let_def)

lemma choose_incomplete:
  assumes "cs_ok (g_used G)" "cs_ok (g_total G)" "0 < n" "g_nr_cpus_per_topo G = int n"
    and "aligned n (totalS G)" "card (totalS G - usedS G) mod n \<noteq> 0"
  obtains a q where "find_incomplete_set G (available_set G) = Some (int a)"
    "scan_set (available_set G) (int a + int n) (int a) = int q"
    "q \<in> totalS G - usedS G" "incomplete n (totalS G - usedS G) q"
proof -
  let ?A = "totalS G - usedS G"
  note av = available_cpus [OF assms(1,2)]
  have "\<not> aligned n ?A"
    using aligned_card [OF _ assms(3), of ?A] assms(6) by auto
  then have ex: "\<exists>q. incomplete n (cpus (available_set G)) q"
    unfolding av(2) by (rule not_aligned_incomplete [OF assms(3)])
  have sub: "cpus (available_set G) \<subseteq> totalS G"
    unfolding av(2) by (rule Diff_subset)
  obtain r where r: "find_incomplete_set G (available_set G) = Some (int r)" "n dvd r"
      "incomplete n ?A r"
    using find_incomplete_set_first [OF assms(2) av(1) assms(3,4,5) sub ex] unfolding av(2) .
  obtain x where "x \<in> blk n r" and xA: "x \<in> cpus (available_set G)"
    using r(3) unfolding incomplete_def av(2) by blast
  then have x: "r \<le> x" "x < r + n"
    using blk_start [OF r(2)] by simp_all
  obtain q where q: "scan_set (available_set G) (int (r + n)) (int r) = int q"
      "q \<in> cpus (available_set G)" "r \<le> q" "q < r + n"
    using scan_set_first [OF av(1) x xA] by blast
  have "q \<in> blk n r"
    using q(3,4) blk_start [OF r(2)] by simp
  then have "incomplete n ?A q"
    using r(3) blk_cong [OF assms(3)] unfolding incomplete_def by simp
  then show ?thesis
    using that r(1) q(1,2) unfolding av(2) of_nat_add by blast
qed

lemma choose_idlest:
  assumes "cs_ok (g_used G)" "cs_ok (g_total G)" "0 < n" "g_nr_cpus_per_topo G = int n"
    and "aligned n (totalS G - usedS G)" "totalS G \<subseteq> {..<length ls}" "length ls \<le> 1024"
    and "usedS G \<subset> totalS G"
  obtains c q where "find_idlest_set ls G (available_set G) = Some c"
    "find_idlest_core ls c = Some (int q)" "q \<in> totalS G - usedS G"
proof -
  let ?A = "totalS G - usedS G"
  note av = available_cpus [OF assms(1,2)]
  have A: "aligned n (cpus (available_set G))" "cpus (available_set G) \<noteq> {}"
      "cpus (available_set G) \<subseteq> {..<length ls}"
    unfolding av(2) using assms(5,6,8) by auto
  obtain c r where c: "find_idlest_set ls G (available_set G) = Some c" "cs_ok c" "cpus c = blk n r"
      "r \<in> ?A"
    using find_idlest_set_min [OF av(1) assms(3,4) A assms(7) refl] unfolding av(2) by blast
  have sub: "cpus c \<subseteq> ?A"
    using alignedD [OF assms(5) c(4)] unfolding c(3) by blast
  have lt: "cpus c \<subseteq> {..<length ls}"
    using sub assms(6) by blast
  have ne: "cpus c \<noteq> {}"
    using blk_self [OF assms(3)] unfolding c(3) by blast
  note m = first_min_mem(1,2) [OF finite_cpus ne, of "(!) ls"]
  show ?thesis
    using that [OF c(1), of "nat (first_min ((!) ls) (cpus c))"] find_idlest_core_min [OF c(2) lt ne]
      m(1) subsetD [OF sub m(2)] by simp
qed

text \<open>The CPU chosen for the next thread is available. With a compact arrangement and a partly used
  block it lies in such a block; otherwise all blocks are complete.\<close>

lemma choose_target_available:
  assumes "res_ok N G" "arr_ok G" "length ls = N"
  obtains t where "choose_target ls G = Some (int t)" "t \<in> totalS G - usedS G"
    "is_compact G \<longrightarrow> aligned (lvl G) (usedS G) \<or> incomplete (lvl G) (totalS G - usedS G) t"
proof -
  define n where "n = lvl G"
  let ?A = "totalS G - usedS G"
  have n: "0 < n" "g_nr_cpus_per_topo G = int n" and ok: "cs_ok (g_used G)" "cs_ok (g_total G)"
    and T: "aligned n (totalS G)" "totalS G \<subseteq> {..<length ls}" "length ls \<le> 1024"
    and U: "usedS G \<subset> totalS G"
    using assms(1,3) by (auto simp: res_ok_def n_def)
  note unf = choose_target_unfold [OF ok n, of ls]
  show ?thesis
  proof (cases "card ?A mod n \<noteq> 0 \<and> is_compact G")
    case True
    then obtain a q where "find_incomplete_set G (available_set G) = Some (int a)"
        "scan_set (available_set G) (int a + int n) (int a) = int q" "q \<in> ?A" "incomplete n ?A q"
      using choose_incomplete [OF ok n T(1)] by blast
    then show ?thesis
      using that [of q] True unfolding unf n_def by simp
  next
    case False
    have "card (totalS G) = card ?A + card (usedS G)"
      using U card_Int_Diff [OF finite_cpus, of "g_total G" "usedS G"]
      by (simp add: Int_absorb1 psubset_eq)
    then have "n dvd card ?A \<Longrightarrow> n dvd card (usedS G)"
      using aligned_card [OF T(1) n(1)] by (simp add: dvd_add_right_iff)
    then have al: "aligned n (usedS G)"
      using tidy_aligned [OF n(1)] assms(2) False
      by (cases "is_compact G") (auto simp: arr_ok_def n_def dvd_eq_mod_eq_0)
    then have "aligned n ?A"
      using complement_aligned [OF assms(1)] by (simp add: n_def)
    then obtain c q where "find_idlest_set ls G (available_set G) = Some c"
        "find_idlest_core ls c = Some (int q)" "q \<in> ?A"
      using choose_idlest [OF ok n _ T(2,3) U] by blast
    then show ?thesis
      using that [of q] False al unfolding unf n_def by auto
  qed
qed

section \<open>Assigning CPUs to a thread\<close>

text \<open>The CPUs marked as used for a thread on CPU \<open>t\<close>, and the CPUs the thread is bound to.\<close>

definition taken :: "wayca_sc_group \<Rightarrow> nat \<Rightarrow> nat set" where
  "taken G t = (if is_compact G then {t} else blk (lvl G) t)"

definition bound :: "wayca_sc_group \<Rightarrow> nat \<Rightarrow> nat set" where
  "bound G t = (if is_percpu G then {t} else blk (lvl G) t)"

lemma set_range_union:
  assumes "cs_ok c" "n dvd r" "r + n \<le> 1024"
  shows "cs_ok (set_range (int r) (int r + int n) c)"
    and "cpus (set_range (int r) (int r + int n) c) = cpus c \<union> blk n r"
proof -
  have b: "int r + int n \<le> 1024"
    using assms(3) by linarith
  have "{nat (int r)..<nat (int r + int n)} = blk n r"
    using blk_start [OF assms(2)] by (simp add: nat_add_distrib)
  then show "cs_ok (set_range (int r) (int r + int n) c)"
    and "cpus (set_range (int r) (int r + int n) c) = cpus c \<union> blk n r"
    using cs.set1_range [OF assms(1) of_nat_0_le_iff b] by (simp_all only:)
qed

lemma tidy_insert:
  assumes "0 < n" "tidy n U" "t \<notin> U" "aligned n U \<or> incomplete n (S - U) t" "aligned n S" "U \<subseteq> S"
  shows "tidy n (insert t U)"
proof -
  have al: "aligned n (U - blk n t)"
  proof (cases "aligned n U")
    case False
    obtain b where b: "aligned n (U - blk n b)"
      using assms(2) by (auto simp: tidy_def)
    obtain x where x: "x \<in> blk n t" "x \<notin> S - U"
      using assms(4) False by (auto simp: incomplete_def)
    obtain y where y: "y \<in> blk n t" "y \<in> S" "y \<notin> U"
      using assms(4) False by (auto simp: incomplete_def)
    have "x \<in> S"
      using alignedD [OF assms(5) y(2)] x(1) blk_cong [OF assms(1) y(1)] by simp
    then have xU: "x \<in> U" using x by simp
    have "x \<in> blk n b"
    proof (rule ccontr)
      assume "x \<notin> blk n b"
      then have "y \<in> U - blk n b"
        using alignedD [OF b, of x y] xU x(1) y(1) blk_cong [OF assms(1)] by auto
      then show False using y by simp
    qed
    then have "blk n t = blk n b"
      using blk_cong [OF assms(1)] x(1) by metis
    then show ?thesis using b by simp
  qed (use assms(1) in \<open>simp add: aligned_Diff aligned_blk\<close>)
  have "insert t U - blk n t = U - blk n t"
    using assms(1) by auto
  then show ?thesis
    using al unfolding tidy_def by metis
qed

text \<open>What \<^verbatim>\<open>wayca_group_assign_thread_resource\<close> promises: \<open>t\<close> is the chosen CPU.\<close>

definition assigned ::
    "wayca_sc_group \<Rightarrow> wayca_thread \<Rightarrow> nat \<Rightarrow> wayca_sc_group \<Rightarrow> wayca_thread \<Rightarrow> bool" where
  "assigned G T t G' T' \<longleftrightarrow>
     t \<in> totalS G - usedS G
     \<and> (\<exists>m. cs_ok m \<and> cpus m = bound G t
          \<and> T' = T\<lparr>t_target_pos := int t, t_cur_set := m, t_allowed_set := m\<rparr>)
     \<and> (\<exists>u. cs_ok u \<and>
          (if usedS G \<union> taken G t = totalS G
           then cpus u = {} \<and> G' = G\<lparr>g_used := u, g_roll_over_cnts := g_roll_over_cnts G + 1\<rparr>
           else cpus u = usedS G \<union> taken G t \<and> G' = G\<lparr>g_used := u\<rparr>))"

lemma aligned_lt:
  assumes "res_ok N G" "t \<in> totalS G"
  shows "lvl G dvd t - t mod lvl G" "t - t mod lvl G + lvl G \<le> 1024"
    "blk (lvl G) (t - t mod lvl G) = blk (lvl G) t" "blk (lvl G) t \<subseteq> totalS G"
proof -
  have n: "0 < lvl G" and T: "aligned (lvl G) (totalS G)" "totalS G \<subseteq> {..<1024}"
    using assms(1) by (auto simp: res_ok_def)
  show dvd: "lvl G dvd t - t mod lvl G"
    by (simp add: minus_mod_eq_div_mult)
  have mem: "t - t mod lvl G \<in> totalS G"
    using aligned_start(1) [OF T(1) n assms(2)] .
  show "t - t mod lvl G + lvl G \<le> 1024"
    using aligned_block_end [OF T(1) n _ T(2)] mem dvd unfolding starts_def by blast
  show "blk (lvl G) (t - t mod lvl G) = blk (lvl G) t"
    by (simp add: blk_def)
  show "blk (lvl G) t \<subseteq> totalS G"
    using T(1) assms(2) by (simp add: aligned_def)
qed

lemma assign_resource_assigned:
  assumes "res_ok N G" "arr_ok G" "length ls = N"
  obtains t G' T' where "assign_resource ls G T = Some (G', T')" "assigned G T t G' T'"
    "is_compact G \<longrightarrow> aligned (lvl G) (usedS G) \<or> incomplete (lvl G) (totalS G - usedS G) t"
proof -
  obtain t where t: "choose_target ls G = Some (int t)" "t \<in> totalS G - usedS G"
      "is_compact G \<longrightarrow> aligned (lvl G) (usedS G) \<or> incomplete (lvl G) (totalS G - usedS G) t"
    using choose_target_available [OF assms] .
  have ok: "cs_ok (g_used G)" "cs_ok (g_total G)" and n: "0 < g_nr_cpus_per_topo G"
    using assms(1) by (auto simp: res_ok_def)
  define a where "a = t - t mod lvl G"
  note al = aligned_lt [OF assms(1), of t, folded a_def]
  have n': "g_nr_cpus_per_topo G = int (lvl G)" "0 < lvl G"
    using n by simp_all
  have m: "c_mod (int t) (g_nr_cpus_per_topo G) = Some (int (t mod lvl G))"
    using c_mod_nat [OF n'(2), of t] n'(1) by simp
  have anchor: "int t - int (t mod lvl G) = int a"
    by (simp add: a_def of_nat_diff)
  let ?r = "set_range (int a) (int a + int (lvl G))"
  have r: "cs_ok (?r c)" "cpus (?r c) = cpus c \<union> blk (lvl G) t" if "cs_ok c" for c
    using set_range_union [OF that al(1,2)] al(3) t(2) by simp_all
  have t1024: "t < 1024"
    using t(2) cs_ok_lt [OF ok(2)] by simp
  define mine where "mine = (if is_percpu G then CPU_SET (int t) CPU_ZERO else ?r CPU_ZERO)"
  have mine: "cs_ok mine" "cpus mine = bound G t"
    using t1024 r [OF cs.ok_zero] by (auto simp: mine_def bound_def cset)
  define u where "u = (if is_compact G then CPU_SET (int t) (g_used G)
    else if is_percpu G then ?r (g_used G) else CPU_OR (g_used G) mine)"
  have u: "cs_ok u" "cpus u = usedS G \<union> taken G t"
    using t1024 r [OF ok(1)] mine ok(1) by (auto simp: u_def taken_def bound_def cset)
  have "assign_resource ls G T = Some (roll_over (G\<lparr>g_used := u\<rparr>),
      T\<lparr>t_target_pos := int t, t_cur_set := mine, t_allowed_set := mine\<rparr>)"
    unfolding assign_resource_def t(1) Option.bind.simps m Let_def anchor
    by (simp add: mine_def u_def n'(1)[symmetric])
  moreover have "assigned G T t (roll_over (G\<lparr>g_used := u\<rparr>))
      (T\<lparr>t_target_pos := int t, t_cur_set := mine, t_allowed_set := mine\<rparr>)"
    unfolding assigned_def using t(2) mine u ok cs.equal_elems [OF u(1) ok(2)] cs.ok_zero cs.elems_zero
    by (auto simp: roll_over_def)
  ultimately show ?thesis
    using that t(3) by blast
qed

lemma taken_sub:
  assumes "res_ok N G" "t \<in> totalS G"
  shows "taken G t \<subseteq> totalS G" "bound G t \<subseteq> totalS G" "t \<in> taken G t"
  using aligned_lt(4) [OF assms] assms by (auto simp: taken_def bound_def res_ok_def)

lemma assigned_frame:
  assumes "assigned G T t G' T'"
  shows "g_total G' = g_total G" "g_attribute G' = g_attribute G" "is_compact G' = is_compact G"
    "is_percpu G' = is_percpu G" "g_nr_cpus_per_topo G' = g_nr_cpus_per_topo G" "taken G' = taken G"
    "cs_ok (g_used G')" "t_target_pos T' = int t" "cpus (t_cur_set T') = bound G t"
    "cs_ok (t_cur_set T')" "t_allowed_set T' = t_cur_set T'"
    "usedS G' = (if usedS G \<union> taken G t = totalS G then {} else usedS G \<union> taken G t)"
    "g_roll_over_cnts G' = g_roll_over_cnts G + of_bool (usedS G \<union> taken G t = totalS G)"
proof -
  let ?full = "usedS G \<union> taken G t = totalS G"
  obtain m where m: "cs_ok m" "cpus m = bound G t"
      "T' = T\<lparr>t_target_pos := int t, t_cur_set := m, t_allowed_set := m\<rparr>"
    using assms unfolding assigned_def by blast
  obtain u where u: "cs_ok u" "cpus u = (if ?full then {} else usedS G \<union> taken G t)"
      "G' = G\<lparr>g_used := u, g_roll_over_cnts := g_roll_over_cnts G + of_bool ?full\<rparr>"
    using assms unfolding assigned_def by (cases ?full) auto
  show "g_total G' = g_total G" "g_attribute G' = g_attribute G" "is_compact G' = is_compact G"
    "is_percpu G' = is_percpu G" "g_nr_cpus_per_topo G' = g_nr_cpus_per_topo G" "taken G' = taken G"
    "cs_ok (g_used G')" "t_target_pos T' = int t" "cpus (t_cur_set T') = bound G t"
    "cs_ok (t_cur_set T')" "t_allowed_set T' = t_cur_set T'"
    "usedS G' = (if ?full then {} else usedS G \<union> taken G t)"
    "g_roll_over_cnts G' = g_roll_over_cnts G + of_bool ?full"
    using m(1,2) u(1,2) by (simp_all add: u(3) m(3) is_compact_def is_percpu_def taken_def fun_eq_iff)
qed

lemma assigned_inv:
  assumes "res_ok N G" "arr_ok G" "assigned G T t G' T'"
    and "is_compact G \<longrightarrow> aligned (lvl G) (usedS G) \<or> incomplete (lvl G) (totalS G - usedS G) t"
  shows "res_ok N G'" and "arr_ok G'"
proof -
  have t: "t \<in> totalS G" "t \<notin> usedS G" and n: "0 < lvl G" and T: "aligned (lvl G) (totalS G)"
    and U: "usedS G \<subseteq> totalS G"
    using assms(1,3) by (auto simp: assigned_def res_ok_def)
  note fr = assigned_frame [OF assms(3)]
  have "usedS G' \<subset> totalS G"
    using fr(12) taken_sub(1) [OF assms(1) t(1)] U t(1) by (auto split: if_splits)
  then show "res_ok N G'"
    using assms(1) fr by (simp add: res_ok_def)
  have "tidy (lvl G) {}"
    by (simp add: tidy_def)
  moreover have "tidy (lvl G) (usedS G \<union> taken G t)" if "is_compact G"
    using tidy_insert [OF n _ t(2) _ T U] that assms(2,4) by (simp add: arr_ok_def taken_def)
  moreover have "aligned (lvl G) (usedS G \<union> taken G t)" if "\<not> is_compact G"
    using that assms(2) aligned_Un aligned_blk [OF n] by (simp add: arr_ok_def taken_def)
  ultimately show "arr_ok G'"
    using fr(3,5,12) by (simp add: arr_ok_def)
qed

section \<open>Placing a sequence of threads\<close>

text \<open>Threads placed one after the other, each with the loads the CPUs have at that moment.\<close>

fun assign_all ::
    "wayca_sc_group \<Rightarrow> (int list \<times> wayca_thread) list \<Rightarrow> (wayca_sc_group \<times> wayca_thread list) option"
  where
  "assign_all G [] = Some (G, [])"
| "assign_all G ((ls, T) # xs) = do {
     (G, T) \<leftarrow> assign_resource ls G T;
     (G, Ts) \<leftarrow> assign_all G xs;
     Some (G, T # Ts)
   }"

text \<open>The threads whose CPU makes \<open>b\<close> used: those on \<open>b\<close> itself in a compact group, those on the
  block of \<open>b\<close> otherwise.\<close>

definition hosted :: "wayca_sc_group \<Rightarrow> wayca_thread list \<Rightarrow> nat \<Rightarrow> int" where
  "hosted G Ts b = int (length (filter (\<lambda>T. nat (t_target_pos T) \<in> taken G b) Ts))"

lemma taken_sym: "0 < lvl G \<Longrightarrow> t \<in> taken G b \<longleftrightarrow> b \<in> taken G t"
  by (auto simp: taken_def blk_iff)

lemma taken_unused:
  assumes "arr_ok G" "t \<notin> usedS G" "b \<in> taken G t" "0 < lvl G"
  shows "b \<notin> usedS G"
proof (cases "is_compact G")
  case False
  then have al: "aligned (lvl G) (usedS G)" and b: "t \<in> blk (lvl G) b"
    using assms by (auto simp: arr_ok_def taken_def blk_iff)
  show ?thesis
    using alignedD [OF al _ b] assms(2) by blast
qed (use assms in \<open>auto simp: taken_def\<close>)

lemma assign_all_balance:
  assumes "res_ok N G" "arr_ok G" "\<forall>x \<in> set xs. length (fst x) = N"
  shows "\<exists>G' Ts. assign_all G xs = Some (G', Ts) \<and> res_ok N G' \<and> arr_ok G'
    \<and> length Ts = length xs \<and> totalS G' = totalS G
    \<and> (\<forall>b \<in> totalS G. g_roll_over_cnts G + of_bool (b \<in> usedS G) + hosted G Ts b
         = g_roll_over_cnts G' + of_bool (b \<in> usedS G'))"
  using assms
proof (induction xs arbitrary: G)
  case Nil
  then show ?case by (simp add: hosted_def)
next
  case (Cons x xs)
  obtain ls T where x: "x = (ls, T)" by (cases x)
  have n: "0 < lvl G"
    using Cons.prems(1) by (simp add: res_ok_def)
  obtain t G1 T1 where a: "assign_resource ls G T = Some (G1, T1)" "assigned G T t G1 T1"
      "is_compact G \<longrightarrow> aligned (lvl G) (usedS G) \<or> incomplete (lvl G) (totalS G - usedS G) t"
    using assign_resource_assigned [OF Cons.prems(1,2)] Cons.prems(3) x
    by (metis fst_conv list.set_intros(1))
  note inv = assigned_inv [OF Cons.prems(1,2) a(2,3)] and fr = assigned_frame [OF a(2)]
  obtain G' Ts where r: "assign_all G1 xs = Some (G', Ts)" "res_ok N G'" "arr_ok G'"
      "length Ts = length xs" "totalS G' = totalS G"
    and bal: "\<And>b. b \<in> totalS G \<Longrightarrow> g_roll_over_cnts G1 + of_bool (b \<in> usedS G1) + hosted G Ts b
         = g_roll_over_cnts G' + of_bool (b \<in> usedS G')"
    using Cons.IH [OF inv] Cons.prems(3) fr(1,6) unfolding hosted_def by auto
  have t: "t \<notin> usedS G"
    using a(2) by (simp add: assigned_def)
  have step: "g_roll_over_cnts G + of_bool (b \<in> usedS G) + of_bool (t \<in> taken G b)
      = g_roll_over_cnts G1 + of_bool (b \<in> usedS G1)" if "b \<in> totalS G" for b
    using taken_unused [OF Cons.prems(2) t, of b] n that fr(12,13) taken_sym [OF n, of t b] by auto
  have host: "hosted G (T1 # Ts) b = of_bool (t \<in> taken G b) + hosted G Ts b" for b
    using fr(8) by (simp add: hosted_def)
  have "g_roll_over_cnts G + of_bool (b \<in> usedS G) + hosted G (T1 # Ts) b
      = g_roll_over_cnts G' + of_bool (b \<in> usedS G')" if "b \<in> totalS G" for b
    using step [OF that] host [of b] bal [OF that] by linarith
  with r show ?case
    by (intro exI [of _ G'] exI [of _ "T1 # Ts"]) (simp add: x a(1))
qed

section \<open>Properties\<close>

text \<open>C5. Assigning CPUs to a thread always succeeds on a group that satisfies the resource
  invariant: the thread's CPU is one of the group's CPUs that is not in use, the thread is bound to
  that CPU or to its block, which lies inside the group's CPUs, the CPU is recorded as used (and
  the used set is cleared and the roll-over counter incremented when all CPUs are used up),
  and the invariant is kept.\<close>

theorem assign_thread_resource_correct:
  assumes "gheap s g = Some G" "theap s th = Some T"
    and "res_ok (length (cpu_loads s)) G" "arr_ok G"
  shows "\<exists>c G' T'. wayca_group_assign_thread_resource s g th
      = Some (s\<lparr>gheap := (gheap s)(g \<mapsto> G'), theap := (theap s)(th \<mapsto> T')\<rparr>)
    \<and> c \<in> totalS G - usedS G \<and> t_target_pos T' = int c
    \<and> cpus (t_cur_set T') = (if is_percpu G then {c} else blk (lvl G) c)
    \<and> cpus (t_cur_set T') \<subseteq> totalS G \<and> t_allowed_set T' = t_cur_set T'
    \<and> (if usedS G \<union> taken G c = totalS G
       then usedS G' = {} \<and> g_roll_over_cnts G' = g_roll_over_cnts G + 1
       else usedS G' = usedS G \<union> taken G c \<and> g_roll_over_cnts G' = g_roll_over_cnts G)
    \<and> res_ok (length (cpu_loads s)) G' \<and> arr_ok G'"
proof -
  obtain c G' T' where a: "assign_resource (cpu_loads s) G T = Some (G', T')" "assigned G T c G' T'"
      "is_compact G \<longrightarrow> aligned (lvl G) (usedS G) \<or> incomplete (lvl G) (totalS G - usedS G) c"
    using assign_resource_assigned [OF assms(3,4) refl] .
  note fr = assigned_frame [OF a(2)] and inv = assigned_inv [OF assms(3,4) a(2,3)]
  have c: "c \<in> totalS G - usedS G"
    using a(2) by (simp add: assigned_def)
  have "wayca_group_assign_thread_resource s g th
      = Some (s\<lparr>gheap := (gheap s)(g \<mapsto> G'), theap := (theap s)(th \<mapsto> T')\<rparr>)"
    using assms(1,2) a(1) by (simp add: wayca_group_assign_thread_resource_def upd_g_def upd_t_def)
  moreover have "cpus (t_cur_set T') \<subseteq> totalS G"
    using taken_sub(2) [OF assms(3)] c fr(9) by simp
  ultimately show ?thesis
    using c fr inv by (intro exI [of _ c] exI [of _ G'] exI [of _ T']) (simp add: bound_def)
qed

text \<open>C4. Placement is balanced: when threads are assigned to a group whose CPUs are all unused,
  whatever the loads of the CPUs are at each assignment, every assignment succeeds and at the end
  the numbers of threads on any two CPUs of the group (on any two blocks of its topology level, when
  the group is not compact) differ by at most one.\<close>

theorem placement_balanced:
  assumes "res_ok N G" "usedS G = {}" "\<forall>x \<in> set xs. length (fst x) = N"
  shows "\<exists>G' Ts. assign_all G xs = Some (G', Ts) \<and> length Ts = length xs
    \<and> (\<forall>b \<in> totalS G. \<forall>c \<in> totalS G. hosted G Ts b \<le> hosted G Ts c + 1)"
proof -
  have "arr_ok G"
    using assms(2) by (simp add: arr_ok_def tidy_def)
  then obtain G' Ts where "assign_all G xs = Some (G', Ts)" "length Ts = length xs"
    and bal: "\<forall>b \<in> totalS G. g_roll_over_cnts G + hosted G Ts b
         = g_roll_over_cnts G' + of_bool (b \<in> usedS G')"
    using assign_all_balance [OF assms(1) _ assms(3)] assms(2) by auto
  moreover have "hosted G Ts b \<le> hosted G Ts c + 1" if "b \<in> totalS G" "c \<in> totalS G" for b c
    using bspec [OF bal that(1)] bspec [OF bal that(2)] by (auto simp: of_bool_def split: if_splits)
  ultimately show ?thesis by blast
qed

text \<open>A group of the four CPUs of the sample machine, two per cluster, whose threads are bound to
  clusters.\<close>

definition sample_group :: wayca_sc_group where
  "sample_group = zero_group\<lparr>g_total := sample_cpus, g_attribute := WT_GF_CCL,
     g_nr_cpus_per_topo := 2, g_stride := 2\<rparr>"

lemma sample_group:
  shows "res_ok 4 sample_group" and "arr_ok sample_group" and "usedS sample_group = {}"
    and "totalS sample_group = {..<4}"
proof -
  have "{..<4 :: nat} \<noteq> {}"
    by (simp add: lessThan_empty_iff bot_nat_def)
  moreover have "aligned 2 {..<4 :: nat}"
    by (auto simp: aligned_def blk_def) presburger
  ultimately show "res_ok 4 sample_group" "usedS sample_group = {}" "totalS sample_group = {..<4}"
    by (simp_all add: res_ok_def sample_group_def zero_group_def sample_cpus cpus_const
        cs_ok_def [of CPU_ZERO] CPU_ZERO_def [THEN arg_cong, of length] psubset_eq)
  then show "arr_ok sample_group"
    by (simp add: arr_ok_def tidy_def aligned_def)
qed

theorem assign_thread_resource_correct_witness:
  "\<exists>c G' T'. wayca_group_assign_thread_resource
        (sample_sched\<lparr>gheap := [2 \<mapsto> sample_group], theap := [1 \<mapsto> zero_thread]\<rparr>) 2 1
      = Some (sample_sched\<lparr>gheap := [2 \<mapsto> G'], theap := [1 \<mapsto> T']\<rparr>)
    \<and> c < 4 \<and> cpus (t_cur_set T') = blk 2 c \<and> usedS G' = blk 2 c"
proof -
  let ?s = "sample_sched\<lparr>gheap := [2 \<mapsto> sample_group], theap := [1 \<mapsto> zero_thread]\<rparr>"
  have a: "gheap ?s 2 = Some sample_group" "theap ?s 1 = Some zero_thread" "length (cpu_loads ?s) = 4"
    by (simp_all add: sample_sched_def)
  have g: "\<not> is_percpu sample_group" "\<not> is_compact sample_group" "lvl sample_group = 2"
    by (simp_all add: sample_group_def zero_group_def is_percpu_def is_compact_def)
  have "blk 2 c \<noteq> {..<4}" for c
    using blk_card [of 2 c] by force
  then show ?thesis
    using assign_thread_resource_correct [OF a(1,2)] sample_group
    unfolding a(3) taken_def by (simp add: g) blast
qed

theorem placement_balanced_witness:
  "\<exists>G' Ts. assign_all sample_group (replicate 3 ([7, 0, 0, 0], zero_thread)) = Some (G', Ts) \<and> length Ts = 3
    \<and> (\<forall>b < 4. \<forall>c < 4. hosted sample_group Ts b \<le> hosted sample_group Ts c + 1)"
  using placement_balanced [of 4 sample_group "replicate 3 ([7, 0, 0, 0], zero_thread)"] sample_group
  by (simp add: Ball_def)

end
