(* ===== verification/GroupRelease.thy ===== *)
theory GroupRelease
  imports GroupAssign
begin

text \<open>
  Giving CPUs back to a group, the resource half of \<^verbatim>\<open>wayca_group_delete_thread\<close> in \<^verbatim>\<open>group.c\<close>: when it
  undoes an assignment, and what it does to CPUs that were assigned before the last roll-over.
\<close>

section \<open>The used set after a release\<close>

text \<open>What the code takes off (or, where it is not there, adds to) the used set.\<close>

definition released :: "wayca_sc_group \<Rightarrow> wayca_thread \<Rightarrow> nat set \<Rightarrow> nat set" where
  "released G T U =
     (if is_compact G \<and> \<not> is_percpu G then U - {nat (t_target_pos T)}
      else (U - cpus (t_allowed_set T)) \<union> (cpus (t_allowed_set T) - U))"

lemma undo_roll_over_used:
  assumes "cs_ok (g_used G)" "cs_ok (g_total G)"
  shows "cs_ok (g_used (undo_roll_over G))"
    and "usedS (undo_roll_over G) = (if usedS G = {} then totalS G else usedS G)"
    and "g_roll_over_cnts (undo_roll_over G) = g_roll_over_cnts G - of_bool (usedS G = {})"
    and "is_compact (undo_roll_over G) = is_compact G" "is_percpu (undo_roll_over G) = is_percpu G"
    and "g_total (undo_roll_over G) = g_total G"
    and "g_nr_cpus_per_topo (undo_roll_over G) = g_nr_cpus_per_topo G"
  using assms cs.finite_elems [OF assms(1)]
  by (auto simp: undo_roll_over_def cset is_compact_def is_percpu_def)

lemma release_used:
  assumes "cs_ok (g_used G)" "cs_ok (g_total G)" "cs_ok (t_allowed_set T)" "0 \<le> t_target_pos T"
  shows "cs_ok (g_used (release_resource G T))"
    and "usedS (release_resource G T) = released G T (if usedS G = {} then totalS G else usedS G)"
    and "g_roll_over_cnts (release_resource G T) = g_roll_over_cnts G - of_bool (usedS G = {})"
    and "g_total (release_resource G T) = g_total G"
    and "g_nr_cpus_per_topo (release_resource G T) = g_nr_cpus_per_topo G"
    and "is_compact (release_resource G T) = is_compact G"
  using undo_roll_over_used [OF assms(1,2)] assms(3,4)
  by (simp_all add: release_resource_def released_def cset Let_def) (simp_all add: is_compact_def)

section \<open>Properties\<close>


text \<open>C36. Detaching a thread whose CPUs are free, as are those of a thread placed before the last roll-over, marks them as used: the
  used set is combined with the thread's by exclusive or. When this completes the group's CPUs the used set is not cleared, and in a
  group of single CPUs, with one CPU per block, the next attachment reads the CPU loads at index -1, whatever they are.\<close>

theorem release_after_roll_over:
  assumes "cs_ok (g_used G)" "cs_ok (g_total G)" "cs_ok (t_allowed_set T)" "0 \<le> t_target_pos T"
    and "is_percpu G \<or> \<not> is_compact G" "usedS G \<noteq> {}" "cpus (t_allowed_set T) \<inter> usedS G = {}"
  shows "usedS (release_resource G T) = usedS G \<union> cpus (t_allowed_set T)
    \<and> (usedS G \<union> cpus (t_allowed_set T) = totalS G \<longrightarrow> g_nr_cpus_per_topo G = 1 \<longrightarrow>
        (\<forall>ls T'. assign_resource ls (release_resource G T) T' = None))"
proof (intro conjI allI impI)
  let ?G = "release_resource G T"
  note r = release_used [OF assms(1-4)]
  show un: "usedS ?G = usedS G \<union> cpus (t_allowed_set T)"
    using assms(5-7) unfolding r(2) released_def by auto
  fix ls T'
  assume full: "usedS G \<union> cpus (t_allowed_set T) = totalS G" and one: "g_nr_cpus_per_topo G = 1"
  have u: "usedS ?G = totalS G" using un full by simp
  let ?a = "available_set ?G"
  have ok: "cs_ok ?a" and e: "cpus ?a = {}"
    using available_cpus [of ?G] u r assms(2) by simp_all
  have last: "cpuset_find_last_set ?a = Some (- 1)" and first: "cpuset_find_first_set ?a = Some (- 1)"
    using ok by (simp_all add: cset e last_of_def first_of_def)
  have "idlest_set_loop ?a 1 ls (- 1) (- 1) INT_MAX = Some (- 1)"
    by (subst idlest_set_loop.simps, subst idlest_set_loop.simps) (use ok in \<open>simp add: cset e last_of_def\<close>)
  then have "find_idlest_set ls ?G ?a = Some (CPU_SET (- 1) CPU_ZERO)"
    using first r(5) one by (simp add: find_idlest_set_def c_mod_def signed_modulo_int_def)
  moreover have "find_idlest_core ls (CPU_SET (- 1) CPU_ZERO) = None"
    by (simp add: find_idlest_core_def cset first_of_def rdi_def)
  moreover have "c_mod (CPU_COUNT ?a) (g_nr_cpus_per_topo ?G) = Some 0"
    using r(5) one ok by (simp add: c_mod_def cset e)
  ultimately have "choose_target ls ?G = None"
    unfolding choose_target_def Let_def by simp
  then show "assign_resource ls ?G T' = None"
    by (simp add: assign_resource_def)
qed

section \<open>Witnesses\<close>


text \<open>A group of two CPUs to which three threads have been attached: the second one was placed before
  the roll-over.\<close>

definition two_cpus :: wayca_sc_group where
  "two_cpus = zero_group\<lparr>g_total := CPU_SET 0 (CPU_SET 1 CPU_ZERO), g_attribute := WT_GF_CPU,
     g_nr_cpus_per_topo := 1, g_stride := 1\<rparr>"

definition on_cpu :: "int \<Rightarrow> wayca_thread" where
  "on_cpu c = zero_thread\<lparr>t_target_pos := c, t_cur_set := CPU_SET c CPU_ZERO,
     t_allowed_set := CPU_SET c CPU_ZERO\<rparr>"

lemma three_threads:
  "assign_all two_cpus (replicate 3 ([0, 0], zero_thread))
     = Some (two_cpus\<lparr>g_used := CPU_SET 0 CPU_ZERO, g_roll_over_cnts := 1\<rparr>, [on_cpu 0, on_cpu 1, on_cpu 0])"
  by code_simp

theorem release_after_roll_over_witness:
  "\<exists>G Ts. assign_all two_cpus (replicate 3 ([0, 0], zero_thread)) = Some (G, Ts)
    \<and> (\<forall>ls T'. assign_resource ls (release_resource G (Ts ! 1)) T' = None)"
proof -
  let ?G = "two_cpus\<lparr>g_used := CPU_SET 0 CPU_ZERO, g_roll_over_cnts := 1\<rparr>"
  have "\<forall>ls T'. assign_resource ls (release_resource ?G (on_cpu 1)) T' = None"
    using release_after_roll_over [of ?G "on_cpu 1"]
    by (simp add: two_cpus_def on_cpu_def zero_group_def zero_thread_def is_percpu_def is_compact_def
        cset insert_commute)
  then show ?thesis
    using three_threads by simp
qed

end
