(* ===== verification/Threads.thy ===== *)
theory Threads
  imports Group
begin

text \<open>
  The thread and group API of \<^verbatim>\<open>lib/threads.c\<close>: the identifier tables, creating, joining,
  attaching and detaching threads, creating, destroying and nesting groups. An identifier is
  the index of the object's slot in a table of pointers. What the code gets from outside is an
  argument: the result of \<^verbatim>\<open>malloc\<close> (\<open>None\<close> for NULL), of \<^verbatim>\<open>pthread_create\<close>, \<^verbatim>\<open>pthread_join\<close>,
  \<^verbatim>\<open>gettid\<close>, \<^verbatim>\<open>sched_getaffinity\<close> and \<^verbatim>\<open>sched_setaffinity\<close>. A pointer through which a result is
  returned is a flag (whether it is NULL); the value written is part of the result. An operation
  is the sequence of its steps as one thread executes it; \<^verbatim>\<open>wayca_sc_thread_create\<close> includes
  the prologue of the new thread, for whose end the creator spins. Locking a group's mutex that is
  held is a deadlock, \<open>None\<close>. The mutexes of the tables protect single reads and writes of a
  slot and are left out.
\<close>

section \<open>Identifier tables\<close>

text \<open>\<^verbatim>\<open>for (i = 0; i < size; i++) if (!array[i]) { *id = i; return 0; } return -EAGAIN;\<close> The
  second component is the identifier written when the first is 0.\<close>

fun find_free_slot :: "addr option list \<Rightarrow> nat \<Rightarrow> int \<times> nat" where
  "find_free_slot [] i = (- EAGAIN, 0)"
| "find_free_slot (x # xs) i = (if x = None then (0, i) else find_free_slot xs (i + 1))"

definition find_free_thread_id_locked :: "sched \<Rightarrow> int \<times> nat" where
  "find_free_thread_id_locked s = find_free_slot (threads_array s) 0"

definition find_free_group_id_locked :: "sched \<Rightarrow> int \<times> nat" where
  "find_free_group_id_locked s = find_free_slot (groups_array s) 0"

definition is_thread_id_valid :: "sched \<Rightarrow> nat \<Rightarrow> bool" where
  "is_thread_id_valid s i =
     (if length (threads_array s) \<le> i then False else threads_array s ! i \<noteq> None)"

definition is_group_id_valid :: "sched \<Rightarrow> nat \<Rightarrow> bool" where
  "is_group_id_valid s i =
     (if length (groups_array s) \<le> i then False else groups_array s ! i \<noteq> None)"

definition id_to_wayca_thread :: "sched \<Rightarrow> nat \<Rightarrow> addr option" where
  "id_to_wayca_thread s i = (if is_thread_id_valid s i then threads_array s ! i else None)"

definition id_to_wayca_group :: "sched \<Rightarrow> nat \<Rightarrow> addr option" where
  "id_to_wayca_group s i = (if is_group_id_valid s i then groups_array s ! i else None)"

section \<open>Allocation\<close>

definition wayca_thread_alloc :: "sched \<Rightarrow> addr option \<Rightarrow> addr option \<times> sched" where
  "wayca_thread_alloc s m =
     (let (ret, id) = find_free_thread_id_locked s in
      if ret < 0 then (None, s)
      else let s = s\<lparr>threads_array := (threads_array s)[id := m]\<rparr> in
        case m of
          None \<Rightarrow> (None, s)
        | Some a \<Rightarrow> (Some a, s\<lparr>theap := (theap s)(a \<mapsto> zero_thread\<lparr>t_id := id\<rparr>)\<rparr>))"

definition wayca_thread_free :: "sched \<Rightarrow> addr \<Rightarrow> sched option" where
  "wayca_thread_free s thread = do {
     s \<leftarrow> wayca_thread_update_load s thread False;
     T \<leftarrow> theap s thread;
     arr \<leftarrow> wr (threads_array s) (t_id T) None;
     Some (s\<lparr>threads_array := arr, theap := (theap s)(thread := None)\<rparr>)
   }"

definition wayca_group_alloc :: "sched \<Rightarrow> addr option \<Rightarrow> addr option \<times> sched" where
  "wayca_group_alloc s m =
     (let (ret, id) = find_free_group_id_locked s in
      if ret < 0 then (None, s)
      else let s = s\<lparr>groups_array := (groups_array s)[id := m]\<rparr> in
        case m of
          None \<Rightarrow> (None, s)
        | Some a \<Rightarrow> (Some a, s\<lparr>gheap := (gheap s)(a \<mapsto> zero_group\<lparr>g_id := id\<rparr>)\<rparr>))"

definition wayca_group_free :: "sched \<Rightarrow> addr \<Rightarrow> sched option" where
  "wayca_group_free s grp = do {
     G \<leftarrow> gheap s grp;
     arr \<leftarrow> wr (groups_array s) (g_id G) None;
     Some (s\<lparr>groups_array := arr, gheap := (gheap s)(grp := None)\<rparr>)
   }"

section \<open>Mutex of a group\<close>

definition lock_g :: "addr \<Rightarrow> sched \<Rightarrow> sched option" where
  "lock_g g s = do {
     G \<leftarrow> gheap s g;
     if g_locked G then None else upd_g g (\<lambda>G. G\<lparr>g_locked := True\<rparr>) s
   }"

definition unlock_g :: "addr \<Rightarrow> sched \<Rightarrow> sched option" where
  "unlock_g g s = upd_g g (\<lambda>G. G\<lparr>g_locked := False\<rparr>) s"

section \<open>Threads\<close>

text \<open>The prologue of the new thread up to the call of the user's routine: \<open>tid\<close> is the result
  of \<^verbatim>\<open>gettid\<close>, \<open>aff\<close> the set written by \<^verbatim>\<open>sched_getaffinity\<close> (the zeroed set when it fails).\<close>

definition wayca_thread_start_routine :: "sched \<Rightarrow> addr \<Rightarrow> int \<Rightarrow> cpu_set_t \<Rightarrow> sched option" where
  "wayca_thread_start_routine s thread tid aff = do {
     s \<leftarrow> upd_t thread (\<lambda>T. T\<lparr>t_pid := tid\<rparr>) s;
     s \<leftarrow> upd_t thread (\<lambda>T. T\<lparr>t_cur_set := CPU_OR CPU_ZERO aff,
                               t_allowed_set := CPU_OR CPU_ZERO aff\<rparr>) s;
     s \<leftarrow> wayca_thread_update_load s thread True;
     upd_t thread (\<lambda>T. T\<lparr>t_start := True\<rparr>) s
   }"

text \<open>\<open>setaff\<close> is the result of the final \<^verbatim>\<open>thread_sched_setaffinity\<close>.\<close>

definition wayca_sc_thread_set_attr ::
    "sched \<Rightarrow> nat \<Rightarrow> ulong option \<Rightarrow> int \<Rightarrow> (int \<times> sched) option" where
  "wayca_sc_thread_set_attr s wthread attr setaff = (case id_to_wayca_thread s wthread of
       None \<Rightarrow> Some (- EINVAL, s)
     | Some t \<Rightarrow> (case attr of
         None \<Rightarrow> Some (- EINVAL, s)
       | Some a \<Rightarrow> do {
           s \<leftarrow> upd_t t (\<lambda>T. T\<lparr>t_attribute := a\<rparr>) s;
           T \<leftarrow> theap s t;
           s \<leftarrow> (if t_group T \<noteq> None then map_option snd (wayca_group_rearrange_thread s t)
                 else Some s);
           T \<leftarrow> theap s t;
           Some (setaff, s\<lparr>affinity := affinity s @ [(t_pid T, t_cur_set T)]\<rparr>)
         }))"

definition wayca_sc_thread_get_attr :: "sched \<Rightarrow> nat \<Rightarrow> bool \<Rightarrow> (int \<times> ulong option) option" where
  "wayca_sc_thread_get_attr s wthread attr_nonnull = (case id_to_wayca_thread s wthread of
       None \<Rightarrow> Some (- EINVAL, None)
     | Some t \<Rightarrow> if \<not> attr_nonnull then Some (- EINVAL, None)
                 else do { T \<leftarrow> theap s t; Some (0, Some (t_attribute T)) })"

definition wayca_sc_thread_create ::
    "sched \<Rightarrow> bool \<Rightarrow> addr option \<Rightarrow> addr \<Rightarrow> addr option \<Rightarrow> int \<Rightarrow> int \<Rightarrow> cpu_set_t
       \<Rightarrow> (int \<times> nat option \<times> sched) option" where
  "wayca_sc_thread_create s wthread_nonnull routine arg m created tid aff =
     (if \<not> wthread_nonnull \<or> routine = None then Some (- EINVAL, None, s)
      else case wayca_thread_alloc s m of
        (None, s) \<Rightarrow> Some (- ENOMEM, None, s)
      | (Some t, s) \<Rightarrow> do {
          s \<leftarrow> upd_t t (\<lambda>T. T\<lparr>t_siblings := None, t_group := None, t_start_routine := routine,
                 t_arg := arg, t_start := False\<rparr>) s;
          if created \<noteq> 0 then do {
            s \<leftarrow> wayca_thread_free s t;
            Some (- created, None, s)
          } else do {
            s \<leftarrow> wayca_thread_start_routine s t tid aff;
            T \<leftarrow> theap s t;
            Some (0, Some (t_id T), s)
          }
        })"

definition wayca_sc_thread_detach_group :: "sched \<Rightarrow> nat \<Rightarrow> nat \<Rightarrow> (int \<times> sched) option" where
  "wayca_sc_thread_detach_group s wthread grp =
     (case (id_to_wayca_thread s wthread, id_to_wayca_group s grp) of
        (Some t, Some g) \<Rightarrow> do {
          s \<leftarrow> lock_g g s;
          (ret, s) \<leftarrow> wayca_group_delete_thread s g t;
          s \<leftarrow> unlock_g g s;
          Some (ret, s)
        }
      | _ \<Rightarrow> Some (- EINVAL, s))"

text \<open>\<^verbatim>\<open>if (thread->group) wayca_sc_thread_detach_group(wthread, thread->group->id);\<close>\<close>

definition leave_group :: "sched \<Rightarrow> nat \<Rightarrow> addr \<Rightarrow> sched option" where
  "leave_group s wthread t = do {
     T \<leftarrow> theap s t;
     case t_group T of
       None \<Rightarrow> Some s
     | Some g \<Rightarrow> do {
         G \<leftarrow> gheap s g;
         (_, s) \<leftarrow> wayca_sc_thread_detach_group s wthread (g_id G);
         Some s
       }
   }"

text \<open>\<open>joined\<close> is the result of \<^verbatim>\<open>pthread_join\<close>.\<close>

definition wayca_sc_thread_join :: "sched \<Rightarrow> nat \<Rightarrow> int \<Rightarrow> (int \<times> sched) option" where
  "wayca_sc_thread_join s wthread joined = (case id_to_wayca_thread s wthread of
       None \<Rightarrow> Some (- EINVAL, s)
     | Some t \<Rightarrow> do {
         T \<leftarrow> theap s t;
         if t_start_routine T = None then Some (- EINVAL, s)
         else do {
           s \<leftarrow> leave_group s wthread t;
           s \<leftarrow> wayca_thread_free s t;
           Some (if joined \<noteq> 0 then - joined else joined, s)
         }
       })"

text \<open>\<open>killed\<close> is the result of \<^verbatim>\<open>pthread_kill\<close>, \<open>tkilled\<close> that of the system call (0, or the
  negated error number).\<close>

definition wayca_sc_thread_kill :: "sched \<Rightarrow> nat \<Rightarrow> int \<Rightarrow> int \<Rightarrow> int option" where
  "wayca_sc_thread_kill s wthread killed tkilled = (case id_to_wayca_thread s wthread of
       None \<Rightarrow> Some (- EINVAL)
     | Some t \<Rightarrow> do {
         T \<leftarrow> theap s t;
         Some (if t_start_routine T \<noteq> None then - killed else tkilled)
       })"

text \<open>\<open>self\<close> is the result of \<^verbatim>\<open>gettid\<close>, \<open>aff\<close> that of \<^verbatim>\<open>sched_getaffinity\<close>: the negated error
  number or the set.\<close>

definition wayca_sc_pid_attach_thread ::
    "sched \<Rightarrow> bool \<Rightarrow> int \<Rightarrow> addr option \<Rightarrow> int \<Rightarrow> int + cpu_set_t
       \<Rightarrow> (int \<times> nat option \<times> sched) option" where
  "wayca_sc_pid_attach_thread s wthread_nonnull pid m self aff =
     (if \<not> wthread_nonnull \<or> pid < 0 then Some (- EINVAL, None, s)
      else case wayca_thread_alloc s m of
        (None, s) \<Rightarrow> Some (- ENOMEM, None, s)
      | (Some t, s) \<Rightarrow> do {
          s \<leftarrow> upd_t t (\<lambda>T. T\<lparr>t_siblings := None, t_group := None, t_start_routine := None,
                 t_arg := 0, t_pid := if pid = 0 then self else pid\<rparr>) s;
          case aff of
            Inl err \<Rightarrow> do {
              s \<leftarrow> wayca_thread_free s t;
              Some (err, None, s)
            }
          | Inr cs \<Rightarrow> do {
              s \<leftarrow> upd_t t (\<lambda>T. T\<lparr>t_cur_set := CPU_OR CPU_ZERO cs,
                     t_allowed_set := CPU_OR CPU_ZERO cs\<rparr>) s;
              s \<leftarrow> wayca_thread_update_load s t True;
              s \<leftarrow> upd_t t (\<lambda>T. T\<lparr>t_start := True\<rparr>) s;
              T \<leftarrow> theap s t;
              Some (0, Some (t_id T), s)
            }
        })"

definition wayca_sc_pid_detach_thread :: "sched \<Rightarrow> nat \<Rightarrow> (int \<times> sched) option" where
  "wayca_sc_pid_detach_thread s wthread = (case id_to_wayca_thread s wthread of
       None \<Rightarrow> Some (- EINVAL, s)
     | Some t \<Rightarrow> do {
         T \<leftarrow> theap s t;
         if t_start_routine T \<noteq> None then Some (- EINVAL, s)
         else do {
           s \<leftarrow> leave_group s wthread t;
           s \<leftarrow> wayca_thread_update_load s t False;
           s \<leftarrow> wayca_thread_free s t;
           Some (0, s)
         }
       })"

section \<open>Groups\<close>

text \<open>The second component is the value of \<^verbatim>\<open>*attr\<close> afterwards.\<close>

definition wayca_sc_group_set_attr ::
    "sched \<Rightarrow> nat \<Rightarrow> ulong option \<Rightarrow> (int \<times> ulong option \<times> sched) option" where
  "wayca_sc_group_set_attr s grp attr = (case attr of
       None \<Rightarrow> Some (- EINVAL, attr, s)
     | Some a \<Rightarrow> (case id_to_wayca_group s grp of
         None \<Rightarrow> Some (- EINVAL, attr, s)
       | Some g \<Rightarrow> do {
           s \<leftarrow> lock_g g s;
           G \<leftarrow> gheap s g;
           let old_attr = g_attribute G;
           s \<leftarrow> upd_g g (\<lambda>G. G\<lparr>g_attribute := a\<rparr>) s;
           (ret, s) \<leftarrow> wayca_group_rearrange_group s g;
           s \<leftarrow> (if ret < 0 then upd_g g (\<lambda>G. G\<lparr>g_attribute := old_attr\<rparr>) s else Some s);
           G \<leftarrow> gheap s g;
           s \<leftarrow> unlock_g g s;
           Some (ret, Some (g_attribute G), s)
         }))"

definition wayca_sc_group_get_attr :: "sched \<Rightarrow> nat \<Rightarrow> bool \<Rightarrow> (int \<times> ulong option \<times> sched) option"
  where
  "wayca_sc_group_get_attr s grp attr_nonnull =
     (if \<not> attr_nonnull then Some (- EINVAL, None, s)
      else case id_to_wayca_group s grp of
        None \<Rightarrow> Some (- EINVAL, None, s)
      | Some g \<Rightarrow> do {
          s \<leftarrow> lock_g g s;
          G \<leftarrow> gheap s g;
          s \<leftarrow> unlock_g g s;
          Some (0, Some (g_attribute G), s)
        })"

definition wayca_sc_group_create :: "sched \<Rightarrow> bool \<Rightarrow> addr option \<Rightarrow> (int \<times> nat option \<times> sched) option"
  where
  "wayca_sc_group_create s group_nonnull m =
     (if \<not> group_nonnull then Some (- EINVAL, None, s)
      else case wayca_group_alloc s m of
        (None, s) \<Rightarrow> Some (- ENOMEM, None, s)
      | (Some g, s) \<Rightarrow> do {
          (ret, s) \<leftarrow> wayca_group_init s (Some g);
          if ret < 0 then do {
            s \<leftarrow> wayca_group_free s g;
            Some (ret, None, s)
          } else do {
            G \<leftarrow> gheap s g;
            Some (0, Some (g_id G), s)
          }
        })"

definition wayca_sc_thread_attach_group :: "sched \<Rightarrow> nat \<Rightarrow> nat \<Rightarrow> (int \<times> sched) option" where
  "wayca_sc_thread_attach_group s wthread grp =
     (case (id_to_wayca_thread s wthread, id_to_wayca_group s grp) of
        (Some t, Some g) \<Rightarrow> do {
          T \<leftarrow> theap s t;
          if t_group T \<noteq> None then Some (- EINVAL, s)
          else do {
            s \<leftarrow> wayca_thread_update_load s t False;
            s \<leftarrow> lock_g g s;
            (ret, s) \<leftarrow> wayca_group_add_thread s g t;
            (ret, s) \<leftarrow> (if ret \<noteq> 0 then do {
                             s \<leftarrow> wayca_thread_update_load s t True;
                             Some (ret, s)
                           } else wayca_group_rearrange_thread s t);
            s \<leftarrow> unlock_g g s;
            Some (ret, s)
          }
        }
      | _ \<Rightarrow> Some (- EINVAL, s))"

definition wayca_sc_group_attach_group :: "sched \<Rightarrow> nat \<Rightarrow> nat \<Rightarrow> (int \<times> sched) option" where
  "wayca_sc_group_attach_group s grp father =
     (case (id_to_wayca_group s grp, id_to_wayca_group s father) of
        (Some g, Some f) \<Rightarrow> do {
          G \<leftarrow> gheap s g;
          if g_father G \<noteq> None then Some (- EINVAL, s)
          else do {
            s \<leftarrow> lock_g g s;
            s \<leftarrow> lock_g f s;
            (ret, s) \<leftarrow> wayca_group_add_group s g f;
            s \<leftarrow> unlock_g f s;
            s \<leftarrow> unlock_g g s;
            Some (ret, s)
          }
        }
      | _ \<Rightarrow> Some (- EINVAL, s))"

definition wayca_sc_group_detach_group :: "sched \<Rightarrow> nat \<Rightarrow> nat \<Rightarrow> (int \<times> sched) option" where
  "wayca_sc_group_detach_group s grp father =
     (case (id_to_wayca_group s grp, id_to_wayca_group s father) of
        (Some g, Some f) \<Rightarrow> do {
          s \<leftarrow> lock_g g s;
          s \<leftarrow> lock_g f s;
          (ret, s) \<leftarrow> wayca_group_delete_group s g f;
          s \<leftarrow> unlock_g f s;
          s \<leftarrow> unlock_g g s;
          Some (ret, s)
        }
      | _ \<Rightarrow> Some (- EINVAL, s))"

definition wayca_sc_group_destroy :: "sched \<Rightarrow> nat \<Rightarrow> (int \<times> sched) option" where
  "wayca_sc_group_destroy s grp = (case id_to_wayca_group s grp of
       None \<Rightarrow> Some (- EINVAL, s)
     | Some g \<Rightarrow> do {
         s \<leftarrow> lock_g g s;
         G \<leftarrow> gheap s g;
         s \<leftarrow> unlock_g g s;
         if g_nr_threads G \<noteq> 0 \<or> g_nr_groups G \<noteq> 0 then Some (- EBUSY, s)
         else do {
           s \<leftarrow> (case g_father G of
                   None \<Rightarrow> Some s
                 | Some f \<Rightarrow> do {
                     F \<leftarrow> gheap s f;
                     (_, s) \<leftarrow> wayca_sc_group_detach_group s grp (g_id F);
                     Some s
                   });
           s \<leftarrow> wayca_group_free s g;
           Some (0, s)
         }
       })"

definition wayca_sc_is_thread_in_group :: "sched \<Rightarrow> nat \<Rightarrow> nat \<Rightarrow> int option" where
  "wayca_sc_is_thread_in_group s thread grp =
     (case (id_to_wayca_thread s thread, id_to_wayca_group s grp) of
        (Some t, Some g) \<Rightarrow> do {
          b \<leftarrow> is_thread_in_group s (Some g) (Some t);
          Some (of_bool b)
        }
      | _ \<Rightarrow> Some (- EINVAL))"

definition wayca_sc_is_group_in_group :: "sched \<Rightarrow> nat \<Rightarrow> nat \<Rightarrow> int option" where
  "wayca_sc_is_group_in_group s target grp =
     (case (id_to_wayca_group s target, id_to_wayca_group s grp) of
        (Some g, Some f) \<Rightarrow> do {
          b \<leftarrow> is_group_in_father s g f;
          Some (of_bool b)
        }
      | _ \<Rightarrow> Some (- EINVAL))"

text \<open>The two queries of the debug build.\<close>

definition wayca_sc_thread_get_cpuset ::
    "sched \<Rightarrow> nat \<Rightarrow> ulong \<Rightarrow> bool \<Rightarrow> (int \<times> cpu_set_t option) option" where
  "wayca_sc_thread_get_cpuset s wthread cpusetsize nonnull =
     (if \<not> nonnull then Some (- EINVAL, None)
      else case id_to_wayca_thread s wthread of
        None \<Rightarrow> Some (- EINVAL, None)
      | Some t \<Rightarrow>
          if cpusetsize < CPU_ALLOC_SIZE (wayca_sc_cpus_in_total (tstate s))
          then Some (- EINVAL, None)
          else do { T \<leftarrow> theap s t; Some (0, Some (CPU_OR CPU_ZERO (t_cur_set T))) })"

definition wayca_sc_group_get_cpuset ::
    "sched \<Rightarrow> nat \<Rightarrow> ulong \<Rightarrow> bool \<Rightarrow> (int \<times> cpu_set_t option) option" where
  "wayca_sc_group_get_cpuset s grp cpusetsize nonnull =
     (if \<not> nonnull then Some (- EINVAL, None)
      else case id_to_wayca_group s grp of
        None \<Rightarrow> Some (- EINVAL, None)
      | Some g \<Rightarrow>
          if cpusetsize < CPU_ALLOC_SIZE (wayca_sc_cpus_in_total (tstate s))
          then Some (- EINVAL, None)
          else do { G \<leftarrow> gheap s g; Some (0, Some (CPU_OR CPU_ZERO (g_total G))) })"

end
