(* ===== verification/SiblingList.thy ===== *)
theory SiblingList
  imports Prelude
begin

text \<open>
  NULL-terminated singly linked lists threaded through the objects of a heap, as used for the threads
  and the child groups of a group (\<^verbatim>\<open>siblings\<close> in \<^verbatim>\<open>lib/wayca_thread.h\<close>). The locale
  \<open>sibling_list\<close> fixes the link field of an object and the three loops of \<^verbatim>\<open>lib/group.c\<close> over such a
  list, with the recursion equations of the loops as its assumptions; inside it the loops are
  related to the list of addresses that the links spell out. It is interpreted on the loops over
  threads and on those over groups.
\<close>

locale sibling_list =
  fixes nxt :: "'n \<Rightarrow> addr option"
    and set_nxt :: "addr option \<Rightarrow> 'n \<Rightarrow> 'n"
    and member :: "(addr \<Rightarrow> 'n option) \<Rightarrow> addr option \<Rightarrow> addr \<Rightarrow> bool option"
    and tail :: "(addr \<Rightarrow> 'n option) \<Rightarrow> addr \<Rightarrow> addr option"
    and unlink :: "(addr \<Rightarrow> 'n option) \<Rightarrow> addr option \<Rightarrow> addr \<Rightarrow> (addr \<Rightarrow> 'n option) option"
  assumes nxt_set: "nxt (set_nxt p x) = p"
    and member_eq: "member h p t = (case p of
          None \<Rightarrow> Some False
        | Some m \<Rightarrow> if m = t then Some True
                    else (case h m of None \<Rightarrow> None | Some M \<Rightarrow> member h (nxt M) t))"
    and tail_eq: "tail h a = (case h a of
          None \<Rightarrow> None
        | Some T \<Rightarrow> (case nxt T of None \<Rightarrow> Some a | Some n \<Rightarrow> tail h n))"
    and unlink_eq: "unlink h p t = (case p of
          None \<Rightarrow> Some h
        | Some m \<Rightarrow> (case h m of
            None \<Rightarrow> None
          | Some M \<Rightarrow>
              if nxt M = Some t then
                (case h t of
                   None \<Rightarrow> None
                 | Some N \<Rightarrow>
                     (case (h(m \<mapsto> set_nxt (nxt N) M)) t of
                        None \<Rightarrow> None
                      | Some N' \<Rightarrow> Some (h(m \<mapsto> set_nxt (nxt N) M, t \<mapsto> set_nxt None N'))))
              else unlink h (nxt M) t))"
begin

text \<open>The list of addresses from a pointer to the terminating NULL.\<close>

fun lst :: "(addr \<Rightarrow> 'n option) \<Rightarrow> addr option \<Rightarrow> addr list \<Rightarrow> bool" where
  "lst h p [] \<longleftrightarrow> p = None"
| "lst h p (x # xs) \<longleftrightarrow> p = Some x \<and> (\<exists>n. h x = Some n \<and> lst h (nxt n) xs)"

lemma lst_None [simp]: "lst h None xs \<longleftrightarrow> xs = []"
  by (cases xs) auto

lemma lst_unique: "lst h p xs \<Longrightarrow> lst h p ys \<Longrightarrow> xs = ys"
proof (induction xs arbitrary: p ys)
  case (Cons x xs)
  then show ?case by (cases ys) auto
qed auto

lemma lst_append: "lst h p (xs @ y # ys) \<Longrightarrow> lst h (Some y) (y # ys)"
  by (induction xs arbitrary: p) auto

lemma lst_distinct: "lst h p xs \<Longrightarrow> distinct xs"
proof (induction xs arbitrary: p)
  case (Cons x xs)
  then obtain n where n: "p = Some x" "h x = Some n" "lst h (nxt n) xs"
    by auto
  have "x \<notin> set xs"
  proof
    assume "x \<in> set xs"
    then obtain us vs where "xs = us @ x # vs"
      by (auto simp: in_set_conv_decomp)
    then have "lst h (Some x) (x # vs)" "lst h (Some x) (x # xs)"
      using n lst_append [of h "nxt n" us x vs] by simp_all
    then have "x # vs = x # xs"
      by (rule lst_unique)
    with \<open>xs = us @ x # vs\<close> show False by simp
  qed
  with Cons.IH n show ?case by auto
qed simp

lemma lst_mem: "lst h p xs \<Longrightarrow> x \<in> set xs \<Longrightarrow> \<exists>n. h x = Some n"
  by (induction xs arbitrary: p) auto

lemma lst_hd: "lst h p xs \<Longrightarrow> p = (case xs of [] \<Rightarrow> None | x # _ \<Rightarrow> Some x)"
  by (cases xs) auto

text \<open>Only the links of the members matter.\<close>

lemma lst_cong:
  assumes "lst h p xs" "\<And>x n. x \<in> set xs \<Longrightarrow> h x = Some n \<Longrightarrow> \<exists>n'. h' x = Some n' \<and> nxt n' = nxt n"
  shows "lst h' p xs"
  using assms by (induction xs arbitrary: p) (auto, metis)

lemma lst_upd_other: "a \<notin> set xs \<Longrightarrow> lst (h(a := v)) p xs \<longleftrightarrow> lst h p xs"
  by (induction xs arbitrary: p) auto

lemma lst_upd_same:
  "h a = Some n \<Longrightarrow> nxt n' = nxt n \<Longrightarrow> lst (h(a \<mapsto> n')) p xs \<longleftrightarrow> lst h p xs"
  by (induction xs arbitrary: p) auto

lemma member_iff: "lst h p xs \<Longrightarrow> member h p t = Some (t \<in> set xs)"
proof (induction xs arbitrary: p)
  case Nil
  then show ?case by (subst member_eq) simp
next
  case (Cons x xs)
  then show ?case by (subst member_eq) auto
qed

lemma tail_last: "lst h (Some x) (x # xs) \<Longrightarrow> tail h x = Some (last (x # xs))"
proof (induction xs arbitrary: x)
  case Nil
  then show ?case by (subst tail_eq) auto
next
  case (Cons y xs)
  then show ?case by (subst tail_eq) auto
qed

lemma last_link: "lst h p xs \<Longrightarrow> xs \<noteq> [] \<Longrightarrow> \<exists>n. h (last xs) = Some n \<and> nxt n = None"
proof (induction xs arbitrary: p)
  case (Cons x xs)
  then show ?case by (cases "xs = []") auto
qed simp

text \<open>Linking \<open>t\<close>, whose own link is NULL, behind the last member.\<close>

lemma lst_snoc:
  assumes "lst h p xs" "xs \<noteq> []" "t \<notin> set xs" "h t = Some m" "nxt m = None"
    and "h (last xs) = Some n"
  shows "lst (h(last xs \<mapsto> set_nxt (Some t) n)) p (xs @ [t])"
  using assms
proof (induction xs arbitrary: p)
  case (Cons x xs)
  show ?case
  proof (cases "xs = []")
    case True
    with Cons.prems show ?thesis by (auto simp: nxt_set)
  next
    case False
    then have "x \<noteq> last xs"
      using lst_distinct [OF Cons.prems(1)] by auto
    then show ?thesis
      using False Cons by auto
  qed
qed simp

text \<open>Unlinking a member that is not the first: the predecessor takes over its link.\<close>

lemma unlink_remove:
  assumes "lst h p xs" "t \<in> set xs" "p \<noteq> Some t"
  shows "\<exists>m M N. unlink h p t = Some (h(m \<mapsto> set_nxt (nxt N) M, t \<mapsto> set_nxt None N))
    \<and> m \<in> set xs \<and> m \<noteq> t \<and> h m = Some M \<and> h t = Some N
    \<and> lst (h(m \<mapsto> set_nxt (nxt N) M, t \<mapsto> set_nxt None N)) p (remove1 t xs)"
  using assms
proof (induction xs arbitrary: p)
  case (Cons x xs)
  then have xt: "x \<noteq> t" and t: "t \<in> set xs" by auto
  obtain M where M: "p = Some x" "h x = Some M" "lst h (nxt M) xs"
    using Cons.prems(1) by auto
  have x: "x \<notin> set xs"
    using lst_distinct [OF Cons.prems(1)] by simp
  show ?case
  proof (cases "nxt M = Some t")
    case True
    then obtain ys N where ys: "xs = t # ys" "h t = Some N" "lst h (nxt N) ys"
      using M(3) t by (cases xs) auto
    have "t \<notin> set ys"
      using lst_distinct [OF M(3)] ys(1) by simp
    then have "lst (h(x \<mapsto> set_nxt (nxt N) M, t \<mapsto> set_nxt None N)) (nxt N) ys"
      using x ys by (intro lst_cong [OF ys(3)]) auto
    then show ?thesis
      using True M xt ys
      by (intro exI [of _ x] exI [of _ M] exI [of _ N]) (subst unlink_eq, auto simp: nxt_set)
  next
    case False
    then obtain m M' N where IH: "unlink h (nxt M) t = Some (h(m \<mapsto> set_nxt (nxt N) M', t \<mapsto> set_nxt None N))"
        "m \<in> set xs" "m \<noteq> t" "h m = Some M'" "h t = Some N"
        "lst (h(m \<mapsto> set_nxt (nxt N) M', t \<mapsto> set_nxt None N)) (nxt M) (remove1 t xs)"
      using Cons.IH [OF M(3) t False] by blast
    have "x \<noteq> m"
      using IH(2) x by auto
    then have "lst (h(m \<mapsto> set_nxt (nxt N) M', t \<mapsto> set_nxt None N)) p (remove1 t (x # xs))"
      using IH(6) M xt by simp
    moreover have "unlink h p t = unlink h (nxt M) t"
      using False M by (subst unlink_eq) simp
    moreover have "m \<in> set (x # xs)"
      using IH(2) by simp
    ultimately show ?thesis
      using IH(1,3,4,5) by metis
  qed
qed simp

end

section \<open>Lists with back pointers\<close>

text \<open>
  Every member of a list also points to its owner (\<^verbatim>\<open>thread->group\<close>, \<^verbatim>\<open>group->father\<close>), which holds
  the pointer to the first member and the number of members. \<open>owned h D L first cnt\<close>: \<open>D\<close> are the
  owners, \<open>L\<close> their lists, and the nodes of \<open>h\<close> that have no owner are not linked.
\<close>

locale owned_list = sibling_list +
  fixes owner :: "'a \<Rightarrow> addr option"
    and set_owner :: "addr option \<Rightarrow> 'a \<Rightarrow> 'a"
  assumes owner_set_nxt: "owner (set_nxt p x) = owner x"
    and owner_set: "owner (set_owner p x) = p"
    and nxt_set_owner: "nxt (set_owner p x) = nxt x"
begin

definition view :: "(addr \<Rightarrow> 'a option) \<Rightarrow> addr \<Rightarrow> (addr option \<times> addr option) option" where
  "view h x = map_option (\<lambda>n. (nxt n, owner n)) (h x)"

definition owned :: "(addr \<Rightarrow> 'a option) \<Rightarrow> addr set \<Rightarrow> (addr \<Rightarrow> addr list) \<Rightarrow> (addr \<Rightarrow> addr option)
    \<Rightarrow> (addr \<Rightarrow> int) \<Rightarrow> bool" where
  "owned h D L first cnt \<longleftrightarrow>
     (\<forall>g \<in> D. lst h (first g) (L g) \<and> cnt g = int (length (L g)))
     \<and> (\<forall>x p w. view h x = Some (p, w) \<longrightarrow>
          (w = None \<longrightarrow> p = None) \<and> (\<forall>g. w = Some g \<longrightarrow> g \<in> D)
          \<and> (\<forall>g \<in> D. x \<in> set (L g) \<longleftrightarrow> w = Some g))"

lemma view_Some: "h x = Some n \<Longrightarrow> view h x = Some (nxt n, owner n)"
  by (simp add: view_def)

lemma lst_view:
  assumes "lst h p xs" "\<And>x. x \<in> set xs \<Longrightarrow> view h' x = view h x"
  shows "lst h' p xs"
proof (rule lst_cong [OF assms(1)])
  fix x n assume "x \<in> set xs" "h x = Some n"
  then have "view h' x = Some (nxt n, owner n)"
    using assms(2) by (simp add: view_def)
  then show "\<exists>n'. h' x = Some n' \<and> nxt n' = nxt n"
    by (auto simp: view_def)
qed

lemma owned_cong:
  assumes "owned h D L f c" "view h' = view h" "\<And>g. g \<in> D \<Longrightarrow> f' g = f g \<and> c' g = c g"
  shows "owned h' D L f' c'"
proof -
  have "lst h' (f' g) (L g) \<and> c' g = int (length (L g))" if "g \<in> D" for g
    using assms that lst_view [of h "f g" "L g" h'] by (simp add: owned_def)
  then show ?thesis
    using assms(1) unfolding owned_def assms(2) by blast
qed

lemma ownedD:
  assumes "owned h D L f c" "h x = Some n"
  shows "owner n = None \<Longrightarrow> nxt n = None" "owner n = Some g \<Longrightarrow> g \<in> D"
    "g \<in> D \<Longrightarrow> x \<in> set (L g) \<longleftrightarrow> owner n = Some g"
  using assms(1) view_Some [of h x n] assms(2) by (auto simp: owned_def)

lemma owned_lst:
  assumes "owned h D L f c" "g \<in> D"
  shows "lst h (f g) (L g)" "c g = int (length (L g))"
  using assms by (auto simp: owned_def)

lemma owned_fresh:
  assumes "owned h D L f c" "h a = None" "view h' = (view h)(a \<mapsto> (None, None))"
  shows "owned h' D L f c"
proof -
  have a: "a \<notin> set (L g)" if "g \<in> D" for g
    using owned_lst(1) [OF assms(1) that] lst_mem assms(2) by fastforce
  then have "lst h' (f g) (L g)" if "g \<in> D" for g
    using owned_lst(1) [OF assms(1) that] that by (rule_tac lst_view) (auto simp: assms(3))
  then show ?thesis
    using assms(1) a unfolding owned_def assms(3) by (auto split: if_splits)
qed

lemma owned_free:
  assumes "owned h D L f c" "h a = Some n" "owner n = None" "view h' = (view h)(a := None)"
  shows "owned h' D L f c"
proof -
  have a: "a \<notin> set (L g)" if "g \<in> D" for g
    using ownedD(3) [OF assms(1,2) that] assms(3) by simp
  then have "lst h' (f g) (L g)" if "g \<in> D" for g
    using owned_lst(1) [OF assms(1) that] that by (rule_tac lst_view) (auto simp: assms(4))
  then show ?thesis
    using assms(1) unfolding owned_def assms(4) by (auto split: if_splits)
qed

lemma owned_new_owner:
  assumes "owned h D L f c" "g \<notin> D" "f' g = None" "c' g = 0"
    and "\<And>x. x \<in> D \<Longrightarrow> f' x = f x \<and> c' x = c x"
  shows "owned h (insert g D) (L(g := [])) f' c'"
  using assms unfolding owned_def by (auto split: if_splits)

lemma owned_del_owner:
  assumes "owned h D L f c" "g \<in> D" "L g = []" "\<And>x. x \<in> D - {g} \<Longrightarrow> f' x = f x \<and> c' x = c x"
  shows "owned h (D - {g}) L f' c'"
proof -
  have "w \<noteq> Some g" if "view h x = Some (p, w)" for x p w
  proof -
    have "x \<in> set (L g) \<longleftrightarrow> w = Some g"
      using assms(1,2) that unfolding owned_def by blast
    then show ?thesis using assms(3) by simp
  qed
  then show ?thesis
    using assms(1,4) unfolding owned_def by auto
qed

text \<open>Replacing the list of one owner by a list that keeps or releases its members and takes in nodes
  that had no owner.\<close>

lemma owned_update:
  assumes "owned h D L f c" "g \<in> D" "lst h' (f' g) xs" "c' g = int (length xs)"
    and touched: "\<And>y p w. y \<in> set (L g) \<union> set xs \<Longrightarrow> view h' y = Some (p, w) \<Longrightarrow>
      w = (if y \<in> set xs then Some g else None) \<and> (w = None \<longrightarrow> p = None)"
    and rest: "\<And>y. y \<notin> set (L g) \<union> set xs \<Longrightarrow> view h' y = view h y"
    and new: "\<And>y. y \<in> set xs \<Longrightarrow> y \<notin> set (L g) \<Longrightarrow> \<exists>p. view h y = Some (p, None)"
    and others: "\<And>x. x \<in> D - {g} \<Longrightarrow> f' x = f x \<and> c' x = c x"
  shows "owned h' D (L(g := xs)) f' c'"
proof -
  have disj: "y \<notin> set (L x)" if y: "y \<in> set (L g) \<union> set xs" and x: "x \<in> D" "x \<noteq> g" for x y
  proof (cases "y \<in> set (L g)")
    case True
    then obtain n where n: "h y = Some n"
      using lst_mem [OF owned_lst(1) [OF assms(1,2)]] by auto
    show ?thesis
      using True ownedD(3) [OF assms(1) n] assms(2) x by auto
  next
    case False
    then obtain p where "view h y = Some (p, None)"
      using new [of y] y by auto
    then show ?thesis
      using assms(1) x(1) unfolding owned_def by blast
  qed
  have "lst h' (f' x) (L x) \<and> c' x = int (length (L x))" if "x \<in> D" "x \<noteq> g" for x
    using lst_view [OF owned_lst(1) [OF assms(1) that(1)], of h'] rest disj [OF _ that]
      owned_lst(2) [OF assms(1) that(1)] others that by fastforce
  moreover have "(w = None \<longrightarrow> p = None) \<and> (\<forall>x. w = Some x \<longrightarrow> x \<in> D)
      \<and> (\<forall>x \<in> D. y \<in> set ((L(g := xs)) x) \<longleftrightarrow> w = Some x)" if v: "view h' y = Some (p, w)" for y p w
  proof (cases "y \<in> set (L g) \<union> set xs")
    case True
    then show ?thesis
      using touched [OF True v] disj [OF True] assms(2) by auto
  next
    case False
    then have "view h y = Some (p, w)"
      using v rest by simp
    then show ?thesis
      using assms(1) False unfolding owned_def by auto
  qed
  ultimately show ?thesis
    using assms(3,4) unfolding owned_def by auto
qed

lemma view_upd: "view (h(x \<mapsto> n)) = (view h)(x \<mapsto> (nxt n, owner n))"
  by (auto simp: view_def)

lemma member_owner:
  assumes "owned h D L f c" "g \<in> D" "y \<in> set (L g)"
  shows "\<exists>p. view h y = Some (p, Some g)"
proof -
  obtain n where n: "h y = Some n"
    using lst_mem [OF owned_lst(1) [OF assms(1,2)] assms(3)] by auto
  then have "owner n = Some g"
    using ownedD(3) [OF assms(1) n assms(2)] assms(3) by simp
  with n show ?thesis
    by (simp add: view_def)
qed

lemma owned_link_first:
  assumes "owned h D L f c" "g \<in> D" "h t = Some n" "owner n = None" "L g = []"
    and "f' g = Some t" "c' g = c g + 1" "\<And>x. x \<in> D - {g} \<Longrightarrow> f' x = f x \<and> c' x = c x"
  shows "owned (h(t \<mapsto> set_owner (Some g) n)) D (L(g := [t])) f' c'"
  using assms owned_lst(2) [OF assms(1,2)] ownedD(1) [OF assms(1,3,4)]
  by (intro owned_update [OF assms(1,2)])
    (auto simp: view_upd nxt_set_owner owner_set view_def split: if_splits)

lemma owned_link_tail:
  assumes "owned h D L f c" "g \<in> D" "h t = Some n" "owner n = None" "L g \<noteq> []"
    and "h (last (L g)) = Some m" "f' g = f g" "c' g = c g + 1"
    and "\<And>x. x \<in> D - {g} \<Longrightarrow> f' x = f x \<and> c' x = c x"
  shows "owned (h(last (L g) \<mapsto> set_nxt (Some t) m, t \<mapsto> set_owner (Some g) n)) D (L(g := L g @ [t])) f' c'"
proof -
  let ?h1 = "h(last (L g) \<mapsto> set_nxt (Some t) m)"
  let ?h = "?h1(t \<mapsto> set_owner (Some g) n)"
  have t: "t \<notin> set (L g)" and nx: "nxt n = None"
    using ownedD(3) [OF assms(1,3,2)] assms(4) ownedD(1) [OF assms(1,3,4)] by auto
  have l: "last (L g) \<in> set (L g)" "last (L g) \<noteq> t"
    using assms(5) t by auto
  have "owner m = Some g"
    using ownedD(3) [OF assms(1,6,2)] l(1) by simp
  then have v: "view ?h = (view h)(last (L g) \<mapsto> (Some t, Some g), t \<mapsto> (None, Some g))"
    using nx by (simp add: view_upd nxt_set owner_set owner_set_nxt nxt_set_owner)
  have "lst ?h1 (f g) (L g @ [t])"
    using lst_snoc [OF owned_lst(1) [OF assms(1,2)] assms(5) t assms(3) nx assms(6)] .
  then have "lst ?h (f' g) (L g @ [t])"
    using assms(3,7) l(2) by (subst lst_upd_same [of _ _ n]) (auto simp: nxt_set_owner)
  then show ?thesis
  proof (rule owned_update [OF assms(1,2)])
    show "c' g = int (length (L g @ [t]))"
      using owned_lst(2) [OF assms(1,2)] assms(8) by simp
    show "w = (if y \<in> set (L g @ [t]) then Some g else None) \<and> (w = None \<longrightarrow> p = None)"
      if "y \<in> set (L g) \<union> set (L g @ [t])" "view ?h y = Some (p, w)" for y p w
      using that member_owner [OF assms(1,2), of y] unfolding v by (auto split: if_splits)
    show "view ?h y = view h y" if "y \<notin> set (L g) \<union> set (L g @ [t])" for y
      using that l unfolding v by auto
    show "\<exists>p. view h y = Some (p, None)" if "y \<in> set (L g @ [t])" "y \<notin> set (L g)" for y
      using that assms(3,4) by (auto simp: view_def)
  qed (use assms(9) in blast)
qed

lemma owned_unlink_gen:
  assumes "owned h D L f c" "g \<in> D" "t \<in> set (L g)" "lst h' (f' g) (remove1 t (L g))"
    and "view h' t = Some (None, None)"
    and "\<And>y. y \<in> set (L g) \<Longrightarrow> y \<noteq> t \<Longrightarrow> \<exists>p. view h' y = Some (p, Some g)"
    and "\<And>y. y \<notin> set (L g) \<Longrightarrow> view h' y = view h y"
    and "c' g = c g - 1" "\<And>x. x \<in> D - {g} \<Longrightarrow> f' x = f x \<and> c' x = c x"
  shows "owned h' D (L(g := remove1 t (L g))) f' c'"
proof (rule owned_update [OF assms(1,2)])
  show "lst h' (f' g) (remove1 t (L g))"
    by fact
  have d: "set (remove1 t (L g)) = set (L g) - {t}"
    using lst_distinct [OF owned_lst(1) [OF assms(1,2)]] by simp
  show "c' g = int (length (remove1 t (L g)))"
    using owned_lst(2) [OF assms(1,2)] assms(3,8) length_pos_if_in_set [OF assms(3)]
    by (simp add: length_remove1 of_nat_diff Suc_leI)
  show "w = (if y \<in> set (remove1 t (L g)) then Some g else None) \<and> (w = None \<longrightarrow> p = None)"
    if "y \<in> set (L g) \<union> set (remove1 t (L g))" "view h' y = Some (p, w)" for y p w
    using that assms(5) assms(6) [of y] unfolding d by (cases "y = t") auto
  show "view h' y = view h y" if "y \<notin> set (L g) \<union> set (remove1 t (L g))" for y
    using that assms(7) by simp
  show "\<exists>p. view h y = Some (p, None)" if "y \<in> set (remove1 t (L g))" "y \<notin> set (L g)" for y
    using that unfolding d by simp
qed (use assms(9) in blast)

lemma owned_unlink_first:
  assumes "owned h D L f c" "g \<in> D" "f g = Some t" "h t = Some n"
    and "f' g = nxt n" "c' g = c g - 1" "\<And>x. x \<in> D - {g} \<Longrightarrow> f' x = f x \<and> c' x = c x"
  shows "owned (h(t \<mapsto> set_owner None (set_nxt None n))) D (L(g := remove1 t (L g))) f' c'"
proof -
  obtain xs where xs: "L g = t # xs" "lst h (nxt n) xs"
    using owned_lst(1) [OF assms(1,2)] assms(3,4) by (cases "L g") auto
  have t: "t \<notin> set xs"
    using lst_distinct [OF owned_lst(1) [OF assms(1,2)]] xs(1) by simp
  have v: "view (h(t \<mapsto> set_owner None (set_nxt None n))) = (view h)(t \<mapsto> (None, None))"
    by (simp add: view_upd owner_set nxt_set_owner nxt_set)
  have "lst (h(t \<mapsto> set_owner None (set_nxt None n))) (f' g) (remove1 t (L g))"
    using xs t assms(5) by (simp add: lst_upd_other)
  then show ?thesis
    using assms xs member_owner [OF assms(1,2)] by (intro owned_unlink_gen) (auto simp: v)
qed

lemma owned_unlink_inner:
  assumes "owned h D L f c" "g \<in> D" "f g \<noteq> Some t" "t \<in> set (L g)"
    and "f' g = f g" "c' g = c g - 1" "\<And>x. x \<in> D - {g} \<Longrightarrow> f' x = f x \<and> c' x = c x"
  shows "\<exists>h1 n. unlink h (f g) t = Some h1 \<and> h1 t = Some n
    \<and> owned (h1(t \<mapsto> set_owner None n)) D (L(g := remove1 t (L g))) f' c'
    \<and> (\<forall>x N. h x = Some N \<longrightarrow> (\<exists>p. h1 x = Some (set_nxt p N)) \<or> h1 x = Some N)
    \<and> (\<forall>x. h x = None \<longrightarrow> h1 x = None)"
proof -
  obtain m M N where u: "unlink h (f g) t = Some (h(m \<mapsto> set_nxt (nxt N) M, t \<mapsto> set_nxt None N))"
      "m \<in> set (L g)" "m \<noteq> t" "h m = Some M" "h t = Some N"
      "lst (h(m \<mapsto> set_nxt (nxt N) M, t \<mapsto> set_nxt None N)) (f g) (remove1 t (L g))"
    using unlink_remove [OF owned_lst(1) [OF assms(1,2)] assms(4,3)] by blast
  define h1 where "h1 = h(m \<mapsto> set_nxt (nxt N) M, t \<mapsto> set_nxt None N)"
  define h' where "h' = h1(t \<mapsto> set_owner None (set_nxt None N))"
  have h1: "h1 t = Some (set_nxt None N)"
    by (simp add: h1_def)
  have ow: "owner M = Some g"
    using ownedD(3) [OF assms(1) u(4) assms(2)] u(2) by simp
  have v: "view h' = (view h)(m \<mapsto> (nxt N, Some g), t \<mapsto> (None, None))"
    using u(3) ow by (auto simp: h'_def h1_def view_upd owner_set nxt_set_owner nxt_set owner_set_nxt)
  have "lst h' (f g) (remove1 t (L g))"
    unfolding h'_def using u(6) h1 [unfolded h1_def] unfolding h1_def
    by (subst lst_upd_same) (auto simp: nxt_set_owner)
  then have "owned h' D (L(g := remove1 t (L g))) f' c'"
    using assms member_owner [OF assms(1,2)] u(2,3) by (intro owned_unlink_gen) (auto simp: v)
  moreover have "(\<exists>p. h1 x = Some (set_nxt p X)) \<or> h1 x = Some X" if "h x = Some X" for x X
    using that u(4,5) by (auto simp: h1_def)
  moreover have "h1 x = None" if "h x = None" for x
    using that u(4,5) by (auto simp: h1_def)
  ultimately show ?thesis
    using u(1) h1 unfolding h1_def [symmetric] h'_def by blast
qed

end

end
