(* ===== verification/IdTable.thy ===== *)
theory IdTable
  imports Prelude
begin

text \<open>
  The identifier tables of \<^verbatim>\<open>lib/threads.c\<close>: arrays of pointers in which the index of an object's
  slot is its identifier. \<open>table_ok arr ids\<close> relates a table to the identifiers stored in the live
  objects. The locale \<open>id_table\<close> states what searching and looking up promise; it is interpreted on
  the tables of threads, groups and thread pools.
\<close>

definition table_ok :: "addr option list \<Rightarrow> (addr \<Rightarrow> nat option) \<Rightarrow> bool" where
  "table_ok arr ids \<longleftrightarrow>
     (\<forall>a i. ids a = Some i \<longrightarrow> i < length arr \<and> arr ! i = Some a)
     \<and> (\<forall>i a. i < length arr \<longrightarrow> arr ! i = Some a \<longrightarrow> ids a = Some i)"

lemma table_okD:
  assumes "table_ok arr ids"
  shows "ids a = Some i \<Longrightarrow> i < length arr" "ids a = Some i \<Longrightarrow> arr ! i = Some a"
    "i < length arr \<Longrightarrow> arr ! i = Some a \<Longrightarrow> ids a = Some i"
  using assms unfolding table_ok_def by blast+

lemma table_okI:
  assumes "\<And>a i. ids a = Some i \<Longrightarrow> i < length arr \<and> arr ! i = Some a"
    and "\<And>i a. i < length arr \<Longrightarrow> arr ! i = Some a \<Longrightarrow> ids a = Some i"
  shows "table_ok arr ids"
  using assms unfolding table_ok_def by blast

lemma table_ok_remove:
  assumes "table_ok arr ids" "ids a = Some i"
  shows "table_ok (arr[i := None]) (ids(a := None))"
proof (rule table_okI)
  fix b j assume "(ids(a := None)) b = Some j"
  then have b: "b \<noteq> a" "ids b = Some j"
    by (auto split: if_splits)
  have "j \<noteq> i"
    using table_okD(2) [OF assms] table_okD(2) [OF assms(1) b(2)] b(1) by auto
  then show "j < length (arr[i := None]) \<and> arr[i := None] ! j = Some b"
    using table_okD(1,2) [OF assms(1) b(2)] by simp
next
  fix j b assume "j < length (arr[i := None])" "arr[i := None] ! j = Some b"
  then have j: "j < length arr" "j \<noteq> i" "arr ! j = Some b"
    by (cases "j = i"; simp)+
  show "(ids(a := None)) b = Some j"
    using table_okD(3) [OF assms(1) j(1,3)] j(2) assms(2) by auto
qed

locale id_table =
  fixes arr :: "'s \<Rightarrow> addr option list"
    and free_id :: "'s \<Rightarrow> int \<times> nat"
    and valid :: "'s \<Rightarrow> nat \<Rightarrow> bool"
    and lookup :: "'s \<Rightarrow> nat \<Rightarrow> addr option"
  assumes free_full: "fst (free_id s) < 0 \<longleftrightarrow> None \<notin> set (arr s)"
    and free_slot: "0 \<le> fst (free_id s) \<Longrightarrow>
      snd (free_id s) < length (arr s) \<and> arr s ! snd (free_id s) = None"
    and valid_slot: "valid s i \<longleftrightarrow> i < length (arr s) \<and> arr s ! i \<noteq> None"
    and lookup_slot: "lookup s i = (if valid s i then arr s ! i else None)"
begin

text \<open>Looking up an identifier finds the live object that carries it, and only that.\<close>

lemma lookup_iff: "table_ok (arr s) ids \<Longrightarrow> lookup s i = Some a \<longleftrightarrow> ids a = Some i"
proof -
  assume ok: "table_ok (arr s) ids"
  have "lookup s i = Some a \<longleftrightarrow> i < length (arr s) \<and> arr s ! i = Some a"
    by (auto simp: lookup_slot valid_slot)
  then show ?thesis
    using table_okD [OF ok] by blast
qed

lemma lookup_inj: "table_ok (arr s) ids \<Longrightarrow> lookup s i = Some a \<Longrightarrow> lookup s j = Some a \<Longrightarrow> i = j"
  by (simp add: lookup_iff)

text \<open>A new object put into the slot that the search returned.\<close>

lemma alloc_ok:
  assumes "table_ok (arr s) ids" "0 \<le> fst (free_id s)" "ids a = None"
  shows "table_ok ((arr s)[snd (free_id s) := Some a]) (ids(a \<mapsto> snd (free_id s)))"
proof (rule table_okI)
  let ?i = "snd (free_id s)"
  have i: "?i < length (arr s)" "arr s ! ?i = None"
    using free_slot [OF assms(2)] by auto
  {
    fix b j assume *: "(ids(a \<mapsto> ?i)) b = Some j"
    show "j < length ((arr s)[?i := Some a]) \<and> (arr s)[?i := Some a] ! j = Some b"
    proof (cases "b = a")
      case False
      then have "ids b = Some j" using * by simp
      then show ?thesis
        using table_okD(1,2) [OF assms(1)] i(2) by (cases "j = ?i") auto
    qed (use * i in auto)
  next
    fix j b assume *: "j < length ((arr s)[?i := Some a])" "(arr s)[?i := Some a] ! j = Some b"
    show "(ids(a \<mapsto> ?i)) b = Some j"
    proof (cases "j = ?i")
      case False
      then have "ids b = Some j" using * table_okD(3) [OF assms(1)] by simp
      then show ?thesis using assms(3) by auto
    qed (use * i in auto)
  }
qed

end

end
