(* ===== verification/GroupHeap.thy ===== *)
theory GroupHeap
  imports Threads SiblingList IdTable GroupAssign
begin

text \<open>
  The heap structure behind the thread and group API: the identifier tables, the sibling
  lists of the threads and child groups of every group, the back pointers and the counters.
  \<open>wf s\<close> says that they agree with each other and that no group mutex is held; it is kept by
  every operation of the API.
\<close>

section \<open>The sibling lists\<close>

interpretation tl: owned_list t_siblings "\<lambda>p T. T\<lparr>t_siblings := p\<rparr>"
  thread_member_loop thread_tail_loop thread_unlink_loop t_group "\<lambda>p T. T\<lparr>t_group := p\<rparr>"
proof (unfold_locales, goal_cases)
  case (2 h p t)
  show ?case by (subst thread_member_loop.simps) (simp split: option.split)
next
  case (3 h a)
  show ?case by (subst thread_tail_loop.simps) (simp split: option.split)
next
  case (4 h p t)
  show ?case
    by (subst thread_unlink_loop.simps) (simp add: Let_def split: option.split)
qed simp_all

interpretation gl: owned_list g_siblings "\<lambda>p G. G\<lparr>g_siblings := p\<rparr>"
  group_member_loop group_tail_loop group_unlink_loop g_father "\<lambda>p G. G\<lparr>g_father := p\<rparr>"
proof (unfold_locales, goal_cases)
  case (2 h p t)
  show ?case by (subst group_member_loop.simps) (simp split: option.split)
next
  case (3 h a)
  show ?case by (subst group_tail_loop.simps) (simp split: option.split)
next
  case (4 h p t)
  show ?case
    by (subst group_unlink_loop.simps) (simp add: Let_def split: option.split)
qed simp_all

section \<open>The structure invariant\<close>

text \<open>The lists' anchors and counters in the group objects.\<close>

definition tfirst :: "(addr \<Rightarrow> wayca_sc_group option) \<Rightarrow> addr \<Rightarrow> addr option" where
  "tfirst h g = (case h g of None \<Rightarrow> None | Some G \<Rightarrow> g_threads G)"

definition tcnt :: "(addr \<Rightarrow> wayca_sc_group option) \<Rightarrow> addr \<Rightarrow> int" where
  "tcnt h g = (case h g of None \<Rightarrow> 0 | Some G \<Rightarrow> g_nr_threads G)"

definition gfirst :: "(addr \<Rightarrow> wayca_sc_group option) \<Rightarrow> addr \<Rightarrow> addr option" where
  "gfirst h g = (case h g of None \<Rightarrow> None | Some G \<Rightarrow> g_groups G)"

definition gcnt :: "(addr \<Rightarrow> wayca_sc_group option) \<Rightarrow> addr \<Rightarrow> int" where
  "gcnt h g = (case h g of None \<Rightarrow> 0 | Some G \<Rightarrow> g_nr_groups G)"

definition tids :: "(addr \<Rightarrow> wayca_thread option) \<Rightarrow> addr \<Rightarrow> nat option" where
  "tids h t = map_option t_id (h t)"

definition gids :: "(addr \<Rightarrow> wayca_sc_group option) \<Rightarrow> addr \<Rightarrow> nat option" where
  "gids h g = map_option g_id (h g)"

definition threads_ok :: "sched \<Rightarrow> (addr \<Rightarrow> addr list) \<Rightarrow> bool" where
  "threads_ok s TL \<longleftrightarrow> tl.owned (theap s) (dom (gheap s)) TL (tfirst (gheap s)) (tcnt (gheap s))"

definition groups_ok :: "sched \<Rightarrow> (addr \<Rightarrow> addr list) \<Rightarrow> bool" where
  "groups_ok s GL \<longleftrightarrow> gl.owned (gheap s) (dom (gheap s)) GL (gfirst (gheap s)) (gcnt (gheap s))"

definition ids_ok :: "sched \<Rightarrow> bool" where
  "ids_ok s \<longleftrightarrow> table_ok (threads_array s) (tids (theap s)) \<and> table_ok (groups_array s) (gids (gheap s))"

definition kinds_ok :: "sched \<Rightarrow> bool" where
  "kinds_ok s \<longleftrightarrow> (\<forall>g. tcnt (gheap s) g = 0 \<or> gcnt (gheap s) g = 0)"

definition unlocked :: "sched \<Rightarrow> bool" where
  "unlocked s \<longleftrightarrow> (\<forall>g G. gheap s g = Some G \<longrightarrow> \<not> g_locked G)"

definition struct_ok :: "sched \<Rightarrow> bool" where
  "struct_ok s \<longleftrightarrow> ids_ok s \<and> (\<exists>TL. threads_ok s TL) \<and> (\<exists>GL. groups_ok s GL) \<and> kinds_ok s"

definition wf :: "sched \<Rightarrow> bool" where
  "wf s \<longleftrightarrow> struct_ok s \<and> unlocked s"

section \<open>The shape of the heaps\<close>

text \<open>The structure invariant only depends on the shape: the fields that hold identifiers, pointers
  and counters. Operations that only change CPU sets, loads, attributes and mutexes keep it.\<close>

definition tshape :: "wayca_thread \<Rightarrow> nat \<times> addr option \<times> addr option" where
  "tshape T = (t_id T, t_siblings T, t_group T)"

definition gshape :: "wayca_sc_group \<Rightarrow> nat \<times> addr option \<times> int \<times> addr option \<times> addr option
    \<times> addr option \<times> int" where
  "gshape G = (g_id G, g_threads G, g_nr_threads G, g_siblings G, g_father G, g_groups G, g_nr_groups G)"

definition shape where
  "shape s = (map_option tshape \<circ> theap s, map_option gshape \<circ> gheap s, threads_array s, groups_array s)"

lemma shape_obs:
  assumes "shape s' = shape s"
  shows "tl.view (theap s') = tl.view (theap s)" "gl.view (gheap s') = gl.view (gheap s)"
    "tfirst (gheap s') = tfirst (gheap s)" "tcnt (gheap s') = tcnt (gheap s)" "gfirst (gheap s') = gfirst (gheap s)" "gcnt (gheap s') = gcnt (gheap s)"
    "tids (theap s') = tids (theap s)" "gids (gheap s') = gids (gheap s)" "dom (gheap s') = dom (gheap s)"
    "threads_array s' = threads_array s" "groups_array s' = groups_array s"
proof -
  have t: "map_option tshape (theap s' t) = map_option tshape (theap s t)" for t
    using assms by (auto simp: shape_def fun_eq_iff)
  have g: "map_option gshape (gheap s' g) = map_option gshape (gheap s g)" for g
    using assms by (auto simp: shape_def fun_eq_iff)
  have dm: "gheap s' g = None \<longleftrightarrow> gheap s g = None" for g
    using g [of g] by (metis map_option_is_None)
  then show "dom (gheap s') = dom (gheap s)"
    by (auto simp: dom_def)
  have tobs: "map_option (F \<circ> tshape) (theap s' t) = map_option (F \<circ> tshape) (theap s t)" for F t
    using arg_cong [OF t [of t], of "map_option F"] by (simp only: option.map_comp)
  have gobs: "map_option (F \<circ> gshape) (gheap s' g) = map_option (F \<circ> gshape) (gheap s g)" for F g
    using arg_cong [OF g [of g], of "map_option F"] by (simp only: option.map_comp)
  show "tl.view (theap s') = tl.view (theap s)"
    using tobs [of "\<lambda>(i, n, w). (n, w)"] by (simp add: fun_eq_iff tl.view_def tshape_def comp_def)
  show "tids (theap s') = tids (theap s)"
    using tobs [of fst] by (simp add: fun_eq_iff tids_def tshape_def comp_def)
  show "gl.view (gheap s') = gl.view (gheap s)"
    using gobs [of "\<lambda>(i, t, n, w, f, x, y). (w, f)"]
    by (simp add: fun_eq_iff gl.view_def gshape_def comp_def)
  show "gids (gheap s') = gids (gheap s)"
    using gobs [of fst] by (simp add: fun_eq_iff gids_def gshape_def comp_def)
  have "tfirst (gheap s') g = tfirst (gheap s) g \<and> tcnt (gheap s') g = tcnt (gheap s) g \<and> gfirst (gheap s') g = gfirst (gheap s) g
      \<and> gcnt (gheap s') g = gcnt (gheap s) g" for g
    using g [of g] by (cases "gheap s g"; cases "gheap s' g")
      (auto simp: tfirst_def tcnt_def gfirst_def gcnt_def gshape_def)
  then show "tfirst (gheap s') = tfirst (gheap s)" "tcnt (gheap s') = tcnt (gheap s)" "gfirst (gheap s') = gfirst (gheap s)" "gcnt (gheap s') = gcnt (gheap s)"
    by auto
  show "threads_array s' = threads_array s" "groups_array s' = groups_array s"
    using assms by (simp_all add: shape_def)
qed

lemma struct_ok_shape:
  assumes "shape s' = shape s" "struct_ok s"
  shows "struct_ok s'"
proof -
  note sh = shape_obs [OF assms(1)]
  have "threads_ok s' TL" if "threads_ok s TL" for TL
    using that unfolding threads_ok_def sh(3,4,9) by (rule tl.owned_cong) (simp_all add: sh)
  moreover have "groups_ok s' GL" if "groups_ok s GL" for GL
    using that unfolding groups_ok_def sh(5,6,9) by (rule gl.owned_cong) (simp_all add: sh)
  moreover have "ids_ok s' = ids_ok s" "kinds_ok s' = kinds_ok s"
    by (simp_all add: ids_ok_def kinds_ok_def sh)
  ultimately show ?thesis
    using assms(2) unfolding struct_ok_def by blast
qed

section \<open>Operations that keep the shape\<close>

definition locks :: "sched \<Rightarrow> addr \<Rightarrow> bool option" where
  "locks s g = map_option g_locked (gheap s g)"

definition same :: "sched \<Rightarrow> sched \<Rightarrow> bool" where
  "same s s' \<longleftrightarrow> shape s' = shape s \<and> locks s' = locks s"

lemma same_refl [simp]: "same s s"
  by (simp add: same_def)

lemma same_trans: "same s s' \<Longrightarrow> same s' s'' \<Longrightarrow> same s s''"
  by (simp add: same_def)

lemma unlocked_locks: "unlocked s \<longleftrightarrow> (\<forall>g. locks s g \<noteq> Some True)"
  by (auto simp: unlocked_def locks_def)

lemma same_wf: "same s s' \<Longrightarrow> wf s \<Longrightarrow> wf s'"
  by (auto simp: same_def wf_def unlocked_locks intro: struct_ok_shape)

lemma same_fields [simp]:
  "same s (s\<lparr>cpu_loads := l\<rparr>)" "same s (s\<lparr>tstate := ts\<rparr>)" "same s (s\<lparr>affinity := a\<rparr>)"
  by (simp_all add: same_def shape_def locks_def fun_eq_iff)

lemma same_upd_t:
  assumes "upd_t t f s = Some s'" "\<And>T. theap s t = Some T \<Longrightarrow> tshape (f T) = tshape T"
  shows "same s s'"
  using assms by (auto simp: upd_t_def same_def shape_def locks_def fun_eq_iff)

lemma same_upd_g:
  assumes "upd_g g f s = Some s'"
    and "\<And>G. gheap s g = Some G \<Longrightarrow> gshape (f G) = gshape G \<and> g_locked (f G) = g_locked G"
  shows "same s s'"
  using assms by (auto simp: upd_g_def same_def shape_def locks_def fun_eq_iff)

lemma same_update_load: "wayca_thread_update_load s t add = Some s' \<Longrightarrow> same s s'"
  by (auto simp: wayca_thread_update_load_def Let_def bind_eq_Some_conv split: if_splits)

lemma shape_upd [simp]:
  "gshape (G\<lparr>g_used := u\<rparr>) = gshape G" "gshape (G\<lparr>g_total := u\<rparr>) = gshape G"
  "gshape (G\<lparr>g_roll_over_cnts := r\<rparr>) = gshape G" "gshape (G\<lparr>g_attribute := a\<rparr>) = gshape G"
  "gshape (G\<lparr>g_nr_cpus_per_topo := n\<rparr>) = gshape G" "gshape (G\<lparr>g_stride := n\<rparr>) = gshape G"
  "gshape (G\<lparr>g_locked := b\<rparr>) = gshape G"
  "tshape (T\<lparr>t_target_pos := p\<rparr>) = tshape T" "tshape (T\<lparr>t_cur_set := c\<rparr>) = tshape T"
  "tshape (T\<lparr>t_allowed_set := c\<rparr>) = tshape T" "tshape (T\<lparr>t_pid := p\<rparr>) = tshape T"
  "tshape (T\<lparr>t_start := b\<rparr>) = tshape T" "tshape (T\<lparr>t_attribute := at\<rparr>) = tshape T"
  by (simp_all add: gshape_def tshape_def)

lemma roll_over_shape [simp]:
  "gshape (roll_over G) = gshape G" "g_locked (roll_over G) = g_locked G"
  by (simp_all add: roll_over_def)

lemma assign_resource_shape:
  assumes "assign_resource ls G T = Some (G', T')"
  shows "gshape G' = gshape G" "g_locked G' = g_locked G" "tshape T' = tshape T"
  using assms
  by (auto simp: assign_resource_def Let_def bind_eq_Some_conv)

lemma same_assign:
  assumes "wayca_group_assign_thread_resource s g t = Some s'"
  shows "same s s'"
proof -
  obtain G T G' T' s1 where *: "gheap s g = Some G" "theap s t = Some T"
      "assign_resource (cpu_loads s) G T = Some (G', T')"
      "upd_g g (\<lambda>_. G') s = Some s1" "upd_t t (\<lambda>_. T') s1 = Some s'"
    using assms by (auto simp: wayca_group_assign_thread_resource_def bind_eq_Some_conv)
  have "theap s1 = theap s"
    using *(4) by (auto simp: upd_g_def)
  then show ?thesis
    using assign_resource_shape [OF *(3)] *(1,2) same_upd_g [OF *(4)] same_upd_t [OF *(5)]
    by (auto intro: same_trans)
qed

lemma same_request_from_father:
  assumes "wayca_group_request_resource_from_father s g c = Some (c', s')"
  shows "same s s'"
proof -
  obtain f F u where "gheap s f = Some F" "upd_g f (\<lambda>_. roll_over (F\<lparr>g_used := u\<rparr>)) s = Some s'"
    using assms
    by (auto simp: wayca_group_request_resource_from_father_def Let_def bind_eq_Some_conv)
  then show ?thesis
    by (elim same_upd_g) auto
qed

lemma same_request:
  assumes "wayca_group_request_resource s g = Some (r, s')"
  shows "same s s'"
proof -
  have tot: "same s0 s1" if "upd_g g (\<lambda>G. G\<lparr>g_total := c\<rparr>) s0 = Some s1" for s0 s1 c
    using that by (rule same_upd_g) simp
  show ?thesis
    using assms
    by (auto simp: wayca_group_request_resource_def Let_def bind_eq_Some_conv split: if_splits
        dest!: tot same_request_from_father intro: same_trans)
qed

lemma same_arrange:
  assumes "wayca_group_arrange s g = Some (r, s')"
  shows "same s s'"
proof -
  obtain G where G: "gheap s g = Some G"
    using assms by (auto simp: wayca_group_arrange_def bind_eq_Some_conv)
  obtain l ts where lt: "topo_level_cpus (tstate s) (g_attribute G AND 0xffff) = (l, ts)"
    by fastforce
  show ?thesis
  proof (cases l)
    case None
    then show ?thesis
      using assms G lt by (auto simp: wayca_group_arrange_def)
  next
    case (Some n)
    then obtain G' s1 where *: "upd_g g (\<lambda>_. G') (s\<lparr>tstate := ts\<rparr>) = Some s1"
        "wayca_group_request_resource s1 g = Some (r, s')" "gshape G' = gshape G"
        "g_locked G' = g_locked G"
      using assms G lt
      by (auto simp: wayca_group_arrange_def Let_def bind_eq_Some_conv split: if_splits)
    have "same (s\<lparr>tstate := ts\<rparr>) s1"
      using *(1,3,4) G by (auto intro: same_upd_g)
    then show ?thesis
      using same_request [OF *(2)] same_fields(2) [of s ts] by (blast intro: same_trans)
  qed
qed

lemma same_rearrange_thread: "wayca_group_rearrange_thread s t = Some (r, s') \<Longrightarrow> same s s'"
  unfolding wayca_group_rearrange_thread_def Let_def
  by (auto simp: bind_eq_Some_conv dest!: same_update_load intro: same_trans [OF same_fields(3)])

lemma same_rearrange_threads: "rearrange_threads_loop s g p = Some s' \<Longrightarrow> same s s'"
proof (rule rearrange_threads_loop.raw_induct [where P = "\<lambda>s g p s'. same s s'"])
  fix loop s g p s'
  assume IH: "\<And>s g p s'. loop s g p = Some s' \<Longrightarrow> same s s'"
    and body: "(case p of None \<Rightarrow> Some s
      | Some t \<Rightarrow> wayca_thread_update_load s t False \<bind>
          (\<lambda>s. wayca_group_assign_thread_resource s g t \<bind>
          (\<lambda>s. wayca_group_rearrange_thread s t \<bind>
          (\<lambda>(_, s). theap s t \<bind> (\<lambda>T. loop s g (t_siblings T)))))) = Some s'"
  show "same s s'"
  proof (cases p)
    case (Some t)
    then obtain s1 s2 s3 r T where "wayca_thread_update_load s t False = Some s1"
        "wayca_group_assign_thread_resource s1 g t = Some s2"
        "wayca_group_rearrange_thread s2 t = Some (r, s3)" "theap s3 t = Some T"
        "loop s3 g (t_siblings T) = Some s'"
      using body by (auto simp: bind_eq_Some_conv)
    then show ?thesis
      by (meson IH same_update_load same_assign same_rearrange_thread same_trans)
  qed (use body in simp)
qed

lemma same_rearrange: "rearrange w s = Some (r, s') \<Longrightarrow> same s s'"
proof -
  have "same s (snd y)" if "rearrange w s = Some y" for w s y
    using that
  proof (rule rearrange.raw_induct [where P = "\<lambda>w s y. same s (snd y)", rotated], goal_cases)
    case (1 f w s y)
    note IH = 1(1)
    have zero: "same s0 s1" if "upd_g g (\<lambda>G. G\<lparr>g_used := CPU_ZERO, g_roll_over_cnts := 0\<rparr>) s0 = Some s1"
      for g s0 s1
      using that by (rule same_upd_g) simp
    show ?case
    proof (cases w)
      case (Rearrange g)
      show ?thesis
        using 1(2) Rearrange
        by (auto simp: bind_eq_Some_conv split: if_splits dest!: same_arrange zero IH
            same_rearrange_threads intro: same_trans)
    next
      case (Children p)
      show ?thesis
        using 1(2) Children
        by (cases p) (auto simp: bind_eq_Some_conv dest!: IH intro: same_trans)
    qed
  qed
  then show "rearrange w s = Some (r, s') \<Longrightarrow> same s s'"
    by fastforce
qed

lemma same_rearrange_group:
  "wayca_group_rearrange_group s g = Some (r, s') \<Longrightarrow> same s s'"
  by (simp add: wayca_group_rearrange_group_def same_rearrange)

section \<open>Mutexes\<close>

lemma locks_upd: "gheap s g = Some G \<Longrightarrow> locks (s\<lparr>gheap := (gheap s)(g \<mapsto> G')\<rparr>) = (locks s)(g \<mapsto> g_locked G')"
  by (auto simp: locks_def)

lemma lock_g_eq:
  "lock_g g s = Some s' \<longleftrightarrow> locks s g = Some False \<and> upd_g g (\<lambda>G. G\<lparr>g_locked := True\<rparr>) s = Some s'"
  by (auto simp: lock_g_def locks_def bind_eq_Some_conv)

lemma lock_g_shape:
  assumes "lock_g g s = Some s'"
  shows "shape s' = shape s" "locks s' = (locks s)(g \<mapsto> True)" "locks s g = Some False"
    "theap s' = theap s" "cpu_loads s' = cpu_loads s" "tstate s' = tstate s"
  using assms unfolding lock_g_eq
  by (auto simp: upd_g_def shape_def locks_def fun_eq_iff)

lemma unlock_g_shape:
  assumes "unlock_g g s = Some s'"
  shows "shape s' = shape s" "locks s' = (locks s)(g \<mapsto> False)" "theap s' = theap s"
    "cpu_loads s' = cpu_loads s" "tstate s' = tstate s"
  using assms by (auto simp: unlock_g_def upd_g_def shape_def locks_def fun_eq_iff)

section \<open>Threads in groups\<close>

lemma obs_upd [simp]:
  "tfirst (h(g \<mapsto> G)) = (tfirst h)(g := g_threads G)" "tcnt (h(g \<mapsto> G)) = (tcnt h)(g := g_nr_threads G)"
  "gfirst (h(g \<mapsto> G)) = (gfirst h)(g := g_groups G)" "gcnt (h(g \<mapsto> G)) = (gcnt h)(g := g_nr_groups G)"
  "gids (h(g \<mapsto> G)) = (gids h)(g \<mapsto> g_id G)" "tids (k(t \<mapsto> T)) = (tids k)(t \<mapsto> t_id T)"
  by (auto simp: tfirst_def tcnt_def gfirst_def gcnt_def gids_def tids_def)

lemma obs_g:
  assumes "gheap s g = Some G"
  shows "tfirst (gheap s) g = g_threads G" "tcnt (gheap s) g = g_nr_threads G"
    "gfirst (gheap s) g = g_groups G" "gcnt (gheap s) g = g_nr_groups G"
    "gids (gheap s) g = Some (g_id G)" "gl.view (gheap s) g = Some (g_siblings G, g_father G)"
  using assms by (auto simp: tfirst_def tcnt_def gfirst_def gcnt_def gids_def gl.view_def)

lemma obs_t: "theap s t = Some T \<Longrightarrow> tids (theap s) t = Some (t_id T)"
  by (simp add: tids_def)

text \<open>Replacing a group object without touching its identifier, links and child groups.\<close>

lemma dom_upd: "gheap s g = Some G \<Longrightarrow> dom ((gheap s)(g \<mapsto> G')) = dom (gheap s)"
  by auto

lemma groups_ok_upd:
  assumes "groups_ok s GL" "gheap s g = Some G" "g_siblings G' = g_siblings G"
    and "g_father G' = g_father G" "g_groups G' = g_groups G" "g_nr_groups G' = g_nr_groups G"
    and "gheap s' = (gheap s)(g \<mapsto> G')"
  shows "groups_ok s' GL"
proof -
  have v: "gl.view (gheap s') = gl.view (gheap s)"
    unfolding assms(7) gl.view_upd assms(3,4) by (rule fun_upd_idem, rule obs_g [OF assms(2)])
  have f: "gfirst (gheap s') = gfirst (gheap s)" "gcnt (gheap s') = gcnt (gheap s)"
    unfolding assms(7) obs_upd assms(5,6)
    by (rule fun_upd_idem, rule obs_g [OF assms(2)])+
  have d: "dom (gheap s') = dom (gheap s)"
    unfolding assms(7) by (rule dom_upd [OF assms(2)])
  show ?thesis
    unfolding groups_ok_def d f
    by (rule gl.owned_cong [OF assms(1) [unfolded groups_ok_def] v]) (rule conjI refl)+
qed

lemma threads_ok_upd:
  assumes "threads_ok s TL" "gheap s g = Some G" "g_threads G' = g_threads G"
    and "g_nr_threads G' = g_nr_threads G" "gheap s' = (gheap s)(g \<mapsto> G')" "theap s' = theap s"
  shows "threads_ok s' TL"
proof -
  have "tfirst (gheap s') = tfirst (gheap s)" "tcnt (gheap s') = tcnt (gheap s)"
    unfolding assms(5) obs_upd assms(3,4)
    by (rule fun_upd_idem, rule obs_g [OF assms(2)])+
  then show ?thesis
    using assms(1) unfolding threads_ok_def assms(5,6) dom_upd [OF assms(2)] by simp
qed

text \<open>The first half of \<^verbatim>\<open>wayca_group_add_thread\<close>: count the thread, link it to the tail and set its
  group.\<close>

definition link_thread :: "sched \<Rightarrow> addr \<Rightarrow> addr \<Rightarrow> sched option" where
  "link_thread s g t = do {
     s \<leftarrow> upd_g g (\<lambda>G. G\<lparr>g_nr_threads := g_nr_threads G + 1\<rparr>) s;
     s \<leftarrow> group_thread_add_to_tail s g t;
     upd_t t (\<lambda>T. T\<lparr>t_group := Some g\<rparr>) s
   }"

lemma link_thread_ok:
  assumes "threads_ok s TL" "gheap s g = Some G" "theap s t = Some T" "t_group T = None"
  shows "\<exists>p h. link_thread s g t = Some (s\<lparr>
      gheap := (gheap s)(g \<mapsto> G\<lparr>g_nr_threads := g_nr_threads G + 1, g_threads := p\<rparr>),
      theap := h(t \<mapsto> T\<lparr>t_group := Some g\<rparr>)\<rparr>)
    \<and> (\<forall>s'. gheap s' = (gheap s)(g \<mapsto> G\<lparr>g_nr_threads := g_nr_threads G + 1, g_threads := p\<rparr>) \<longrightarrow>
         theap s' = h(t \<mapsto> T\<lparr>t_group := Some g\<rparr>) \<longrightarrow> threads_ok s' (TL(g := TL g @ [t])))
    \<and> tids h = tids (theap s)"
proof -
  let ?D = "dom (gheap s)"
  have gD: "g \<in> ?D" and ow: "tl.owned (theap s) ?D TL (tfirst (gheap s)) (tcnt (gheap s))"
    using assms(1,2) by (auto simp: threads_ok_def)
  note first = obs_g(1,2) [OF assms(2)]
  have dom: "dom ((gheap s)(g \<mapsto> G')) = ?D" for G'
    using assms(2) by auto
  show ?thesis
  proof (cases "TL g = []")
    case True
    then have none: "g_threads G = None"
      using tl.owned_lst(1) [OF ow gD] first by simp
    have "threads_ok s' (TL(g := TL g @ [t]))"
      if "gheap s' = (gheap s)(g \<mapsto> G\<lparr>g_nr_threads := g_nr_threads G + 1, g_threads := Some t\<rparr>)"
        "theap s' = (theap s)(t \<mapsto> T\<lparr>t_group := Some g\<rparr>)" for s'
      unfolding threads_ok_def that dom using True first
      by (simp, intro tl.owned_link_first [OF ow gD assms(3,4)]) auto
    moreover have "link_thread s g t = Some (s\<lparr>
      gheap := (gheap s)(g \<mapsto> G\<lparr>g_nr_threads := g_nr_threads G + 1, g_threads := Some t\<rparr>),
      theap := (theap s)(t \<mapsto> T\<lparr>t_group := Some g\<rparr>)\<rparr>)"
      using assms(2,3) none
      by (simp add: link_thread_def upd_g_def upd_t_def group_thread_add_to_tail_def)
    ultimately show ?thesis by blast
  next
    case False
    then obtain f fs where fs: "TL g = f # fs" by (cases "TL g") auto
    note lst = tl.owned_lst(1) [OF ow gD, unfolded first]
    have f: "g_threads G = Some f" and tail: "thread_tail_loop (theap s) f = Some (last (TL g))"
      using lst fs tl.tail_last [of "theap s" f fs] by auto
    obtain L where L: "theap s (last (TL g)) = Some L"
      using tl.last_link [OF lst False] by auto
    let ?h = "(theap s)(last (TL g) \<mapsto> L\<lparr>t_siblings := Some t\<rparr>)"
    have lt: "last (TL g) \<noteq> t"
      using tl.ownedD(3) [OF ow assms(3) gD] assms(4) False by (metis last_in_set option.distinct(1))
    have same: "G\<lparr>g_nr_threads := n, g_threads := g_threads G\<rparr> = G\<lparr>g_nr_threads := n\<rparr>" for n
      by simp
    have "threads_ok s' (TL(g := TL g @ [t]))"
      if "gheap s' = (gheap s)(g \<mapsto> G\<lparr>g_nr_threads := g_nr_threads G + 1, g_threads := g_threads G\<rparr>)"
        "theap s' = ?h(t \<mapsto> T\<lparr>t_group := Some g\<rparr>)" for s'
      unfolding threads_ok_def that dom using first
      by (simp, intro tl.owned_link_tail [OF ow gD assms(3,4) False L]) auto
    moreover have "link_thread s g t = Some (s\<lparr>
      gheap := (gheap s)(g \<mapsto> G\<lparr>g_nr_threads := g_nr_threads G + 1, g_threads := g_threads G\<rparr>),
      theap := ?h(t \<mapsto> T\<lparr>t_group := Some g\<rparr>)\<rparr>)"
      unfolding same using assms(2,3) f tail L lt
      by (simp add: link_thread_def upd_g_def upd_t_def group_thread_add_to_tail_def)
    moreover have "tids ?h = tids (theap s)"
      using L by (auto simp: tids_def)
    ultimately show ?thesis by blast
  qed
qed

lemma link_thread_struct:
  assumes "struct_ok s" "gheap s g = Some G" "theap s t = Some T" "t_group T = None"
    and "g_nr_groups G = 0"
  obtains s' n p where "link_thread s g t = Some s'" "struct_ok s'" "locks s' = locks s"
    "theap s' t = Some (T\<lparr>t_group := Some g\<rparr>)"
    "gheap s' = (gheap s)(g \<mapsto> G\<lparr>g_nr_threads := n, g_threads := p\<rparr>)"
    "cpu_loads s' = cpu_loads s" "tstate s' = tstate s"
proof -
  obtain TL GL where ok: "threads_ok s TL" "groups_ok s GL" "ids_ok s" "kinds_ok s"
    using assms(1) by (auto simp: struct_ok_def)
  obtain p h where l: "link_thread s g t = Some (s\<lparr>
      gheap := (gheap s)(g \<mapsto> G\<lparr>g_nr_threads := g_nr_threads G + 1, g_threads := p\<rparr>),
      theap := h(t \<mapsto> T\<lparr>t_group := Some g\<rparr>)\<rparr>)"
    and th: "\<forall>s'. gheap s' = (gheap s)(g \<mapsto> G\<lparr>g_nr_threads := g_nr_threads G + 1, g_threads := p\<rparr>) \<longrightarrow>
         theap s' = h(t \<mapsto> T\<lparr>t_group := Some g\<rparr>) \<longrightarrow> threads_ok s' (TL(g := TL g @ [t]))"
    and tids: "tids h = tids (theap s)"
    using link_thread_ok [OF ok(1) assms(2,3,4)] by blast
  define s' where "s' = s\<lparr>
      gheap := (gheap s)(g \<mapsto> G\<lparr>g_nr_threads := g_nr_threads G + 1, g_threads := p\<rparr>),
      theap := h(t \<mapsto> T\<lparr>t_group := Some g\<rparr>)\<rparr>"
  have "threads_ok s' (TL(g := TL g @ [t]))"
    using th by (simp add: s'_def)
  moreover have "groups_ok s' GL"
    by (rule groups_ok_upd [OF ok(2) assms(2)]) (simp_all add: s'_def)
  moreover have "ids_ok s'"
    using ok(3) obs_g(5) [OF assms(2)] obs_t [OF assms(3)]
    by (simp add: ids_ok_def s'_def tids fun_upd_idem)
  moreover have "kinds_ok s'"
    using ok(4) obs_g(4) [OF assms(2)] assms(5) by (auto simp: kinds_ok_def s'_def)
  moreover have "locks s' = locks s"
    using assms(2) by (auto simp: locks_def s'_def)
  ultimately show ?thesis
    using that [of s'] l unfolding struct_ok_def by (auto simp: s'_def)
qed

lemma add_thread_struct:
  assumes "wayca_group_add_thread s g t = Some (r, s')" "struct_ok s" "theap s t = Some T"
    and "t_group T = None"
  shows "struct_ok s' \<and> locks s' = locks s"
proof -
  obtain mem G where m: "is_thread_in_group s (Some g) (Some t) = Some mem" "gheap s g = Some G"
    using assms(1) by (auto simp: wayca_group_add_thread_def is_thread_in_group_def bind_eq_Some_conv)
  show ?thesis
  proof (cases "mem \<or> g_nr_groups G \<noteq> 0")
    case True
    then show ?thesis
      using assms(1,2) m by (auto simp: wayca_group_add_thread_def split: if_splits)
  next
    case False
    obtain s1 where s1: "link_thread s g t = Some s1" "struct_ok s1" "locks s1 = locks s"
      using link_thread_struct [OF assms(2) m(2) assms(3,4)] False by auto
    have "wayca_group_assign_thread_resource s1 g t = Some s'"
      using assms(1) m False s1(1)
      by (auto simp: wayca_group_add_thread_def link_thread_def bind_eq_Some_conv)
    then have "same s1 s'"
      by (rule same_assign)
    then show ?thesis
      using s1 struct_ok_shape by (auto simp: same_def)
  qed
qed

text \<open>The second half of \<^verbatim>\<open>wayca_group_delete_thread\<close>: unlink the thread, clear its group and
  count it out.\<close>

definition unlink_thread :: "sched \<Rightarrow> addr \<Rightarrow> addr \<Rightarrow> sched option" where
  "unlink_thread s g t = do {
     s \<leftarrow> group_thread_delete_thread s g t;
     s \<leftarrow> upd_t t (\<lambda>T. T\<lparr>t_group := None\<rparr>) s;
     upd_g g (\<lambda>G. G\<lparr>g_nr_threads := g_nr_threads G - 1\<rparr>) s
   }"

lemma unlink_thread_ok:
  assumes "threads_ok s TL" "gheap s g = Some G" "theap s t = Some T" "t \<in> set (TL g)"
  shows "\<exists>p h q. unlink_thread s g t = Some (s\<lparr>theap := h(t \<mapsto> T\<lparr>t_siblings := q, t_group := None\<rparr>),
      gheap := (gheap s)(g \<mapsto> G\<lparr>g_threads := p, g_nr_threads := g_nr_threads G - 1\<rparr>)\<rparr>)
    \<and> (\<forall>s'. gheap s' = (gheap s)(g \<mapsto> G\<lparr>g_threads := p, g_nr_threads := g_nr_threads G - 1\<rparr>) \<longrightarrow>
         theap s' = h(t \<mapsto> T\<lparr>t_siblings := q, t_group := None\<rparr>) \<longrightarrow>
         threads_ok s' (TL(g := remove1 t (TL g))))
    \<and> tids h = tids (theap s)"
proof -
  let ?D = "dom (gheap s)"
  have gD: "g \<in> ?D" and ow: "tl.owned (theap s) ?D TL (tfirst (gheap s)) (tcnt (gheap s))"
    using assms(1,2) by (auto simp: threads_ok_def)
  note first = obs_g(1,2) [OF assms(2)] and lst = tl.owned_lst(1) [OF ow gD]
  show ?thesis
  proof (cases "g_threads G = Some t")
    case True
    let ?h = "(theap s)(t \<mapsto> T\<lparr>t_siblings := None\<rparr>)"
    have "threads_ok s' (TL(g := remove1 t (TL g)))"
      if "gheap s' = (gheap s)(g \<mapsto> G\<lparr>g_threads := t_siblings T, g_nr_threads := g_nr_threads G - 1\<rparr>)"
        "theap s' = ?h(t \<mapsto> T\<lparr>t_siblings := None, t_group := None\<rparr>)" for s'
      unfolding threads_ok_def that dom_upd [OF assms(2)] using True first
      by (simp, intro tl.owned_unlink_first [OF ow gD _ assms(3)]) auto
    moreover have "unlink_thread s g t = Some (s\<lparr>
      theap := ?h(t \<mapsto> T\<lparr>t_siblings := None, t_group := None\<rparr>),
      gheap := (gheap s)(g \<mapsto> G\<lparr>g_threads := t_siblings T, g_nr_threads := g_nr_threads G - 1\<rparr>)\<rparr>)"
      using assms(2,3) True
      by (simp add: unlink_thread_def upd_g_def upd_t_def group_thread_delete_thread_def)
    moreover have "tids ?h = tids (theap s)"
      using assms(3) by (auto simp: tids_def)
    ultimately show ?thesis by blast
  next
    case False
    let ?f = "(tfirst (gheap s))(g := g_threads G)" and ?c = "(tcnt (gheap s))(g := g_nr_threads G - 1)"
    obtain h1 n where h1: "thread_unlink_loop (theap s) (g_threads G) t = Some h1" "h1 t = Some n"
        "tl.owned (h1(t \<mapsto> n\<lparr>t_group := None\<rparr>)) ?D (TL(g := remove1 t (TL g))) ?f ?c"
      and eq: "\<forall>x N. theap s x = Some N \<longrightarrow> (\<exists>p. h1 x = Some (N\<lparr>t_siblings := p\<rparr>)) \<or> h1 x = Some N"
        "\<forall>x. theap s x = None \<longrightarrow> h1 x = None"
      using tl.owned_unlink_inner [OF ow gD _ assms(4), of ?f ?c] False first by auto
    have same: "G\<lparr>g_threads := g_threads G, g_nr_threads := m\<rparr> = G\<lparr>g_nr_threads := m\<rparr>" for m
      by simp
    have "threads_ok s' (TL(g := remove1 t (TL g)))"
      if "gheap s' = (gheap s)(g \<mapsto> G\<lparr>g_threads := g_threads G, g_nr_threads := g_nr_threads G - 1\<rparr>)"
        "theap s' = h1(t \<mapsto> n\<lparr>t_group := None\<rparr>)" for s'
      unfolding threads_ok_def that dom_upd [OF assms(2)] using h1(3) by simp
    moreover have "unlink_thread s g t = Some (s\<lparr>theap := h1(t \<mapsto> n\<lparr>t_group := None\<rparr>),
      gheap := (gheap s)(g \<mapsto> G\<lparr>g_threads := g_threads G, g_nr_threads := g_nr_threads G - 1\<rparr>)\<rparr>)"
      unfolding same using assms(2) False h1(1,2)
      by (simp add: unlink_thread_def upd_g_def upd_t_def group_thread_delete_thread_def)
    moreover have "tids h1 = tids (theap s)"
    proof
      fix x show "tids h1 x = tids (theap s) x"
        using eq(2) spec [OF spec [OF eq(1), of x], of "the (theap s x)"]
        by (cases "theap s x") (auto simp: tids_def)
    qed
    moreover have "\<exists>q. n = T\<lparr>t_siblings := q\<rparr>"
    proof -
      have "\<exists>q. T = T\<lparr>t_siblings := q\<rparr>"
        by (rule exI [of _ "t_siblings T"]) simp
      then show ?thesis
        using spec [OF spec [OF eq(1), of t], of T] assms(3) h1(2) by auto
    qed
    ultimately show ?thesis by blast
  qed
qed

lemma unlink_thread_struct:
  assumes "struct_ok s" "gheap s g = Some G" "theap s t = Some T" "t_group T = Some g"
  obtains s' p q where "unlink_thread s g t = Some s'" "struct_ok s'" "locks s' = locks s"
    "theap s' t = Some (T\<lparr>t_siblings := q, t_group := None\<rparr>)"
    "gheap s' = (gheap s)(g \<mapsto> G\<lparr>g_threads := p, g_nr_threads := g_nr_threads G - 1\<rparr>)"
    "cpu_loads s' = cpu_loads s" "tstate s' = tstate s"
proof -
  obtain TL GL where ok: "threads_ok s TL" "groups_ok s GL" "ids_ok s" "kinds_ok s"
    using assms(1) by (auto simp: struct_ok_def)
  have gD: "g \<in> dom (gheap s)"
    using assms(2) by auto
  have t: "t \<in> set (TL g)"
    using tl.ownedD(3) [OF ok(1) [unfolded threads_ok_def] assms(3) gD] assms(4) by simp
  obtain p h q where u: "unlink_thread s g t = Some (s\<lparr>theap := h(t \<mapsto> T\<lparr>t_siblings := q, t_group := None\<rparr>),
      gheap := (gheap s)(g \<mapsto> G\<lparr>g_threads := p, g_nr_threads := g_nr_threads G - 1\<rparr>)\<rparr>)"
    and th: "\<forall>s'. gheap s' = (gheap s)(g \<mapsto> G\<lparr>g_threads := p, g_nr_threads := g_nr_threads G - 1\<rparr>) \<longrightarrow>
         theap s' = h(t \<mapsto> T\<lparr>t_siblings := q, t_group := None\<rparr>) \<longrightarrow>
         threads_ok s' (TL(g := remove1 t (TL g)))"
    and tids: "tids h = tids (theap s)"
    using unlink_thread_ok [OF ok(1) assms(2,3) t] by blast
  define s' where "s' = s\<lparr>theap := h(t \<mapsto> T\<lparr>t_siblings := q, t_group := None\<rparr>),
      gheap := (gheap s)(g \<mapsto> G\<lparr>g_threads := p, g_nr_threads := g_nr_threads G - 1\<rparr>)\<rparr>"
  have "threads_ok s' (TL(g := remove1 t (TL g)))"
    using th by (simp add: s'_def)
  moreover have "groups_ok s' GL"
    by (rule groups_ok_upd [OF ok(2) assms(2)]) (simp_all add: s'_def)
  moreover have "ids_ok s'"
    using ok(3) obs_g(5) [OF assms(2)] obs_t [OF assms(3)]
    by (simp add: ids_ok_def s'_def tids fun_upd_idem)
  moreover have "kinds_ok s'"
  proof -
    have "0 < g_nr_threads G"
      using tl.owned_lst(2) [OF ok(1) [unfolded threads_ok_def] gD] obs_g(2) [OF assms(2)]
        length_pos_if_in_set [OF t] by simp
    then have "g_nr_groups G = 0"
      using spec [OF ok(4) [unfolded kinds_ok_def], of g] obs_g(2,4) [OF assms(2)] by simp
    then show ?thesis
      using ok(4) by (auto simp: kinds_ok_def s'_def)
  qed
  moreover have "locks s' = locks s"
    using assms(2) by (auto simp: locks_def s'_def)
  ultimately show ?thesis
    using that [of s' q p] u unfolding struct_ok_def by (simp add: s'_def) blast
qed

lemma member_iff_group:
  assumes "struct_ok s" "gheap s g = Some G" "theap s t = Some T"
  shows "is_thread_in_group s (Some g) (Some t) = Some (t_group T = Some g)"
proof -
  obtain TL where ok: "tl.owned (theap s) (dom (gheap s)) TL (tfirst (gheap s)) (tcnt (gheap s))"
    using assms(1) by (auto simp: struct_ok_def threads_ok_def)
  have gD: "g \<in> dom (gheap s)"
    using assms(2) by auto
  show ?thesis
    using tl.member_iff [OF tl.owned_lst(1) [OF ok gD], of t] tl.ownedD(3) [OF ok assms(3) gD]
      obs_g(1) [OF assms(2)] assms(2)
    by (simp add: is_thread_in_group_def)
qed

lemma release_shape [simp]:
  "gshape (release_resource G T) = gshape G" "g_locked (release_resource G T) = g_locked G"
  "gshape (undo_roll_over G) = gshape G" "g_locked (undo_roll_over G) = g_locked G"
  by (auto simp: release_resource_def undo_roll_over_def Let_def)

text \<open>Deleting a thread always returns: with \<open>-EINVAL\<close> and no change when it is not a member.\<close>

lemma delete_thread_struct:
  assumes "struct_ok s" "gheap s g = Some G" "theap s t = Some T"
  shows "\<exists>r s'. wayca_group_delete_thread s g t = Some (r, s') \<and> struct_ok s' \<and> locks s' = locks s
    \<and> cpu_loads s' = cpu_loads s \<and> tstate s' = tstate s
    \<and> (if t_group T = Some g then r = 0 \<and>
         (\<exists>q. theap s' t = Some (T\<lparr>t_siblings := q, t_group := None\<rparr>))
         \<and> (\<exists>n p. gheap s' = (gheap s)(g \<mapsto> (release_resource G T)\<lparr>g_threads := p, g_nr_threads := n\<rparr>))
       else r = - EINVAL \<and> s' = s)"
proof (cases "t_group T = Some g")
  case True
  let ?G = "release_resource G T"
  define s1 where "s1 = s\<lparr>gheap := (gheap s)(g \<mapsto> ?G)\<rparr>"
  have "upd_g g (\<lambda>G. release_resource G T) s = Some s1"
    using assms(2) by (simp add: upd_g_def s1_def)
  moreover from this have "same s s1"
    by (rule same_upd_g) simp
  then have st: "struct_ok s1" "locks s1 = locks s"
    using assms(1) struct_ok_shape by (auto simp: same_def)
  have s1: "gheap s1 g = Some ?G" "theap s1 t = Some T"
    using assms(3) by (simp_all add: s1_def)
  obtain s' p q where u: "unlink_thread s1 g t = Some s'" "struct_ok s'" "locks s' = locks s1"
    "theap s' t = Some (T\<lparr>t_siblings := q, t_group := None\<rparr>)"
    "gheap s' = (gheap s1)(g \<mapsto> ?G\<lparr>g_threads := p, g_nr_threads := g_nr_threads ?G - 1\<rparr>)"
    "cpu_loads s' = cpu_loads s1" "tstate s' = tstate s1"
    using unlink_thread_struct [OF st(1) s1 True] .
  have "wayca_group_delete_thread s g t = Some (0, s')"
    using calculation u(1) assms(3) True member_iff_group [OF assms]
    by (auto simp: wayca_group_delete_thread_def unlink_thread_def bind_eq_Some_conv)
  then show ?thesis
    using u st True by (auto simp: s1_def)
next
  case False
  then show ?thesis
    using assms(1) member_iff_group [OF assms] by (simp add: wayca_group_delete_thread_def)
qed

end
