(* ===== verification/GroupTree.thy ===== *)
theory GroupTree
  imports GroupHeap
begin

text \<open>
  The hierarchy of groups: linking a group into a father's list of children and unlinking it keep the
  structure invariant, and so do \<^verbatim>\<open>wayca_group_add_group\<close>, which links a group and unlinks it again
  when it cannot be arranged, and \<^verbatim>\<open>wayca_group_delete_group\<close>.
\<close>

section \<open>What the lists of children leave alone\<close>

text \<open>What an update of the lists of child groups leaves alone.\<close>

definition tside where
  "tside s = (theap s, tfirst (gheap s), tcnt (gheap s), gids (gheap s), threads_array s,
     groups_array s, locks s)"

lemma tside_upd_g:
  assumes "upd_g g f s = Some s'"
    and "\<And>G. gheap s g = Some G \<Longrightarrow> g_threads (f G) = g_threads G \<and> g_nr_threads (f G) = g_nr_threads G
      \<and> g_id (f G) = g_id G \<and> g_locked (f G) = g_locked G"
  shows "tside s' = tside s"
proof -
  obtain G where G: "gheap s g = Some G" "s' = s\<lparr>gheap := (gheap s)(g \<mapsto> f G)\<rparr>"
    using assms(1) by (auto simp: upd_g_def)
  note f = assms(2) [OF G(1)] and o = obs_g [OF G(1)]
  have "tfirst (gheap s') = tfirst (gheap s)" "tcnt (gheap s') = tcnt (gheap s)"
    "gids (gheap s') = gids (gheap s)"
    using f o by (simp_all add: G(2) fun_upd_idem)
  moreover have "locks s' = locks s"
    using f G by (auto simp: locks_def)
  ultimately show ?thesis
    by (simp add: tside_def G(2))
qed

lemma tside_same: "same s s' \<Longrightarrow> theap s' = theap s \<Longrightarrow> tside s' = tside s"
  using shape_obs [of s' s] by (simp add: tside_def same_def)

lemma dom_gids: "dom (gids h) = dom h"
  by (auto simp: gids_def dom_def)

lemma tside_struct:
  assumes "tside s' = tside s" "struct_ok s" "groups_ok s' GL" "kinds_ok s'"
  shows "struct_ok s' \<and> locks s' = locks s"
proof -
  have e: "theap s' = theap s" "tfirst (gheap s') = tfirst (gheap s)" "tcnt (gheap s') = tcnt (gheap s)"
    "gids (gheap s') = gids (gheap s)" "threads_array s' = threads_array s"
    "groups_array s' = groups_array s" "locks s' = locks s"
    using assms(1) by (simp_all add: tside_def)
  have "dom (gheap s') = dom (gheap s)"
    using e(4) dom_gids by metis
  then have "threads_ok s' TL \<longleftrightarrow> threads_ok s TL" for TL
    by (simp add: threads_ok_def e)
  moreover have "ids_ok s' \<longleftrightarrow> ids_ok s"
    by (simp add: ids_ok_def e)
  ultimately show ?thesis
    using assms(2,3,4) e(7) unfolding struct_ok_def by blast
qed

section \<open>Linking and unlinking a group\<close>

text \<open>The first half of \<^verbatim>\<open>wayca_group_add_group\<close> and the second half of
  \<^verbatim>\<open>wayca_group_delete_group\<close>.\<close>

definition link_group :: "sched \<Rightarrow> addr \<Rightarrow> addr \<Rightarrow> sched option" where
  "link_group s g f = do {
     s \<leftarrow> upd_g f (\<lambda>F. F\<lparr>g_nr_groups := g_nr_groups F + 1\<rparr>) s;
     s \<leftarrow> group_group_add_to_tail s g f;
     upd_g g (\<lambda>G. G\<lparr>g_father := Some f\<rparr>) s
   }"

definition unlink_group :: "sched \<Rightarrow> addr \<Rightarrow> addr \<Rightarrow> sched option" where
  "unlink_group s g f = do {
     s \<leftarrow> group_group_delete_group s g f;
     s \<leftarrow> upd_g f (\<lambda>F. F\<lparr>g_nr_groups := g_nr_groups F - 1\<rparr>) s;
     upd_g g (\<lambda>G. G\<lparr>g_father := None\<rparr>) s
   }"

lemma tside_link: "link_group s g f = Some s' \<Longrightarrow> tside s' = tside s"
proof -
  assume "link_group s g f = Some s'"
  then obtain s1 s2 where s: "upd_g f (\<lambda>F. F\<lparr>g_nr_groups := g_nr_groups F + 1\<rparr>) s = Some s1"
      "group_group_add_to_tail s1 g f = Some s2" "upd_g g (\<lambda>G. G\<lparr>g_father := Some f\<rparr>) s2 = Some s'"
    by (auto simp: link_group_def bind_eq_Some_conv)
  have "tside s2 = tside s1"
    using s(2) by (auto simp: group_group_add_to_tail_def bind_eq_Some_conv split: option.splits
        elim!: tside_upd_g)
  moreover have "tside s1 = tside s" "tside s' = tside s2"
    using s(1,3) by (auto elim!: tside_upd_g)
  ultimately show ?thesis by simp
qed

lemma tside_unlink_loop:
  assumes "group_unlink_loop (gheap s) p g = Some h"
  shows "tside (s\<lparr>gheap := h\<rparr>) = tside s"
proof -
  have "\<forall>s. k = gheap s \<longrightarrow> tside (s\<lparr>gheap := h\<rparr>) = tside s" if "group_unlink_loop k p g = Some h" for k
    using that
  proof (rule group_unlink_loop.raw_induct
      [where P = "\<lambda>k p g h. \<forall>s. k = gheap s \<longrightarrow> tside (s\<lparr>gheap := h\<rparr>) = tside s", rotated], goal_cases)
    case (1 loop k p g h)
    show ?case
    proof (cases p)
      case None
      with 1(2) show ?thesis by simp
    next
      case (Some m)
      obtain M where M: "k m = Some M"
        using 1(2) Some by (auto simp: bind_eq_Some_conv)
      show ?thesis
      proof (cases "g_siblings M = Some g")
        case False
        then show ?thesis using 1 Some M by simp
      next
        case True
        then obtain q N' where N: "(k(m \<mapsto> M\<lparr>g_siblings := q\<rparr>)) g = Some N'"
            "h = k(m \<mapsto> M\<lparr>g_siblings := q\<rparr>, g \<mapsto> N'\<lparr>g_siblings := None\<rparr>)"
          using 1(2) Some M by (auto simp: bind_eq_Some_conv Let_def)
        have up: "tside (s\<lparr>gheap := k'(a \<mapsto> A\<lparr>g_siblings := q\<rparr>)\<rparr>) = tside (s\<lparr>gheap := k'\<rparr>)"
          if "k' a = Some A" for s k' a A q
          using that by (intro tside_upd_g [of a "\<lambda>G. G\<lparr>g_siblings := q\<rparr>"]) (auto simp: upd_g_def)
        show ?thesis
          unfolding N(2)
          using up [where k' = "k(m \<mapsto> M\<lparr>g_siblings := q\<rparr>)" and a = g, OF N(1)]
            up [where k' = k and a = m, OF M] by auto
      qed
    qed
  qed
  then show ?thesis
    using assms by blast
qed

lemma tside_delete_group: "group_group_delete_group s g f = Some s' \<Longrightarrow> tside s' = tside s"
proof -
  assume "group_group_delete_group s g f = Some s'"
  then obtain F where F: "gheap s f = Some F" "(if g_groups F = Some g then do {
       G \<leftarrow> gheap s g;
       s \<leftarrow> upd_g f (\<lambda>F. F\<lparr>g_groups := g_siblings G\<rparr>) s;
       upd_g g (\<lambda>G. G\<lparr>g_siblings := None\<rparr>) s
     } else do {
       h \<leftarrow> group_unlink_loop (gheap s) (g_groups F) g;
       Some (s\<lparr>gheap := h\<rparr>)
     }) = Some s'"
    by (auto simp: group_group_delete_group_def bind_eq_Some_conv)
  have up: "tside s2 = tside s1" if "upd_g a (\<lambda>F. F\<lparr>g_groups := q\<rparr>) s1 = Some s2
      \<or> upd_g a (\<lambda>G. G\<lparr>g_siblings := q\<rparr>) s1 = Some s2" for s1 s2 a q
    using that by (auto elim!: tside_upd_g)
  show ?thesis
    using F(2) up by (auto simp: bind_eq_Some_conv dest!: tside_unlink_loop split: if_splits) metis
qed

lemma tside_unlink: "unlink_group s g f = Some s' \<Longrightarrow> tside s' = tside s"
proof -
  assume "unlink_group s g f = Some s'"
  then obtain s1 s2 where s: "group_group_delete_group s g f = Some s1"
      "upd_g f (\<lambda>F. F\<lparr>g_nr_groups := g_nr_groups F - 1\<rparr>) s1 = Some s2"
      "upd_g g (\<lambda>G. G\<lparr>g_father := None\<rparr>) s2 = Some s'"
    by (auto simp: unlink_group_def bind_eq_Some_conv)
  have "tside s2 = tside s1" "tside s' = tside s2"
    using s(2,3) by (auto elim!: tside_upd_g)
  then show ?thesis
    using tside_delete_group [OF s(1)] by simp
qed

lemma obs_keep:
  assumes "h a = Some X"
  shows "g_groups X' = g_groups X \<Longrightarrow> gfirst (h(a \<mapsto> X')) = gfirst h"
    and "g_nr_groups X' = g_nr_groups X \<Longrightarrow> gcnt (h(a \<mapsto> X')) = gcnt h"
    and "g_siblings X' = g_siblings X \<Longrightarrow> g_father X' = g_father X \<Longrightarrow> gl.view (h(a \<mapsto> X')) = gl.view h"
    and "dom (h(a \<mapsto> X')) = dom h"
  using assms by (auto simp: gfirst_def gcnt_def gl.view_def fun_eq_iff)

lemma gheap_set: "gheap (s\<lparr>gheap := h\<rparr>) = h"
  by simp

lemma upd_gI:
  "h a = Some X \<Longrightarrow> upd_g a f (s\<lparr>gheap := h\<rparr>) = Some (s\<lparr>gheap := h(a \<mapsto> f X)\<rparr>)"
  by (simp add: upd_g_def)

text \<open>The first step of adding a group, the increment of the counter, changes no list.\<close>

lemma count_group_owned:
  assumes "groups_ok s GL" "gheap s f = Some F"
  shows "gl.owned ((gheap s)(f \<mapsto> F\<lparr>g_nr_groups := n\<rparr>)) (dom (gheap s)) GL (gfirst (gheap s)) (gcnt (gheap s))"
  using assms(1) unfolding groups_ok_def
  by (rule gl.owned_cong) (simp_all add: obs_keep(3) [where h = "gheap s" and a = f, OF assms(2)])

lemma link_group_first:
  assumes "groups_ok s GL" "gheap s f = Some F" "gheap s g = Some G" "g_father G = None" "g \<noteq> f" "GL f = []"
  shows "\<exists>s'. link_group s g f = Some s' \<and> groups_ok s' (GL(f := GL f @ [g]))
    \<and> gcnt (gheap s') = (gcnt (gheap s))(f := g_nr_groups F + 1)"
proof -
  let ?D = "dom (gheap s)" and ?F = "F\<lparr>g_nr_groups := g_nr_groups F + 1\<rparr>"
  let ?h1 = "(gheap s)(f \<mapsto> ?F)"
  have fD: "f \<in> ?D" using assms(2) by auto
  have h1: "?h1 f = Some ?F" "?h1 g = Some G" using assms(3,5) by simp_all
  have ow: "gl.owned ?h1 ?D GL (gfirst (gheap s)) (gcnt (gheap s))"
    by (rule count_group_owned [OF assms(1,2)])
  note fst = obs_g(3,4) [OF assms(2)]
  have none: "g_groups F = None"
    using gl.owned_lst(1) [OF ow fD] fst assms(6) by simp
  let ?F2 = "?F\<lparr>g_groups := Some g\<rparr>"
  let ?h2 = "?h1(f \<mapsto> ?F2)" and ?G = "G\<lparr>g_father := Some f\<rparr>"
  have h2: "?h2 g = Some G" using h1 assms(5) by simp
  have ow2: "gl.owned ?h2 ?D GL (gfirst (gheap s)) (gcnt (gheap s))"
    using ow by (rule gl.owned_cong) (rule obs_keep(3) [where h = ?h1 and a = f, OF h1(1)], simp_all)
  have link: "link_group s g f = Some (s\<lparr>gheap := ?h2(g \<mapsto> ?G)\<rparr>)"
    using assms(2,3,5) none by (simp add: link_group_def upd_g_def group_group_add_to_tail_def)
  have first: "gfirst (?h2(g \<mapsto> ?G)) = (gfirst (gheap s))(f := Some g)"
    "gcnt (?h2(g \<mapsto> ?G)) = (gcnt (gheap s))(f := g_nr_groups F + 1)"
    using obs_keep(1,2) [where h = ?h2 and a = g and X' = ?G, OF h2] by simp_all
  have "dom (?h2(g \<mapsto> ?G)) = ?D"
    using assms(2,3) by auto
  moreover have "gl.owned (?h2(g \<mapsto> ?G)) ?D (GL(f := [g])) (gfirst (?h2(g \<mapsto> ?G))) (gcnt (?h2(g \<mapsto> ?G)))"
    by (rule gl.owned_link_first [OF ow2 fD h2 assms(4) assms(6)]) (simp_all only: first fst fun_upd_same, auto)
  ultimately have "groups_ok (s\<lparr>gheap := ?h2(g \<mapsto> ?G)\<rparr>) (GL(f := GL f @ [g]))"
    unfolding groups_ok_def by (simp only: assms(6) append_Nil gheap_set)
  with link first(2) show ?thesis
    by (intro exI [of _ "s\<lparr>gheap := ?h2(g \<mapsto> ?G)\<rparr>"]) (simp only: gheap_set simp_thms)
qed

lemma link_group_tail:
  assumes "groups_ok s GL" "gheap s f = Some F" "gheap s g = Some G" "g_father G = None" "g \<noteq> f" "GL f \<noteq> []"
  shows "\<exists>s'. link_group s g f = Some s' \<and> groups_ok s' (GL(f := GL f @ [g]))
    \<and> gcnt (gheap s') = (gcnt (gheap s))(f := g_nr_groups F + 1)"
proof -
  let ?D = "dom (gheap s)" and ?F = "F\<lparr>g_nr_groups := g_nr_groups F + 1\<rparr>"
  let ?h1 = "(gheap s)(f \<mapsto> ?F)"
  have fD: "f \<in> ?D" using assms(2) by auto
  have h1: "?h1 f = Some ?F" "?h1 g = Some G" using assms(3,5) by simp_all
  have ow: "gl.owned ?h1 ?D GL (gfirst (gheap s)) (gcnt (gheap s))"
    by (rule count_group_owned [OF assms(1,2)])
  note fst = obs_g(3,4) [OF assms(2)]
  have first1: "gfirst ?h1 = gfirst (gheap s)" "dom ?h1 = ?D"
    using obs_keep(1,4) [where h = "gheap s" and a = f, OF assms(2)] by simp_all
  obtain x xs where xs: "GL f = x # xs" using assms(6) by (cases "GL f") auto
  let ?l = "last (GL f)"
  note lst = gl.owned_lst(1) [OF ow fD]
  have x: "g_groups F = Some x" and tail: "group_tail_loop ?h1 x = Some ?l"
    using lst xs fst gl.tail_last [of ?h1 x xs] by auto
  obtain L where L: "?h1 ?l = Some L"
    using gl.last_link [OF lst assms(6)] by blast
  have gl: "g \<noteq> ?l"
    using gl.ownedD(3) [OF ow h1(2) fD] assms(4) assms(6) by (metis last_in_set option.distinct(1))
  let ?h2 = "?h1(?l \<mapsto> L\<lparr>g_siblings := Some g\<rparr>)" and ?G = "G\<lparr>g_father := Some f\<rparr>"
  have h2: "?h2 g = Some G" using h1(2) gl by simp
  have "upd_g f (\<lambda>F. F\<lparr>g_nr_groups := g_nr_groups F + 1\<rparr>) s = Some (s\<lparr>gheap := ?h1\<rparr>)"
    using assms(2) by (simp add: upd_g_def)
  moreover have "group_group_add_to_tail (s\<lparr>gheap := ?h1\<rparr>) g f = Some (s\<lparr>gheap := ?h2\<rparr>)"
    using h1(1) x tail upd_gI [where h = ?h1, OF L]
    by (simp add: group_group_add_to_tail_def del: fun_upd_apply)
  ultimately have link: "link_group s g f = Some (s\<lparr>gheap := ?h2(g \<mapsto> ?G)\<rparr>)"
    using upd_gI [where h = ?h2, OF h2] by (simp add: link_group_def del: fun_upd_apply)
  have first: "gfirst (?h2(g \<mapsto> ?G)) = gfirst (gheap s)"
    "gcnt (?h2(g \<mapsto> ?G)) = (gcnt (gheap s))(f := g_nr_groups F + 1)"
    using obs_keep(1,2) [where h = ?h2 and a = g and X' = ?G, OF h2] obs_keep(1,2) [where h = ?h1 and a = ?l and X' = "L\<lparr>g_siblings := Some g\<rparr>", OF L] first1(1)
    by simp_all
  have "dom (?h2(g \<mapsto> ?G)) = ?D"
    using obs_keep(4) [where h = ?h2 and a = g and X' = ?G, OF h2]
      obs_keep(4) [where h = ?h1 and a = ?l and X' = "L\<lparr>g_siblings := Some g\<rparr>", OF L] first1(2) by simp
  moreover have "gl.owned (?h2(g \<mapsto> ?G)) ?D (GL(f := GL f @ [g]))
      (gfirst (?h2(g \<mapsto> ?G))) (gcnt (?h2(g \<mapsto> ?G)))"
    by (rule gl.owned_link_tail [OF ow fD h1(2) assms(4) assms(6) L]) (simp_all only: first fst fun_upd_same, auto)
  ultimately have "groups_ok (s\<lparr>gheap := ?h2(g \<mapsto> ?G)\<rparr>) (GL(f := GL f @ [g]))"
    unfolding groups_ok_def by (simp only: gheap_set)
  with link first(2) show ?thesis
    by (intro exI [of _ "s\<lparr>gheap := ?h2(g \<mapsto> ?G)\<rparr>"]) (simp only: gheap_set simp_thms)
qed

lemma link_group_ok:
  assumes "groups_ok s GL" "gheap s f = Some F" "gheap s g = Some G" "g_father G = None" "g \<noteq> f"
  shows "\<exists>s'. link_group s g f = Some s' \<and> groups_ok s' (GL(f := GL f @ [g]))
    \<and> gcnt (gheap s') = (gcnt (gheap s))(f := g_nr_groups F + 1)"
  using link_group_first [OF assms] link_group_tail [OF assms] by blast

lemma obs_siblings:
  assumes "\<And>x X. k x = Some X \<Longrightarrow> (\<exists>p. h x = Some (X\<lparr>g_siblings := p\<rparr>)) \<or> h x = Some X"
    and "\<And>x. k x = None \<Longrightarrow> h x = None"
  shows "gfirst h = gfirst k" "gcnt h = gcnt k" "dom h = dom k"
proof -
  have "gfirst h x = gfirst k x \<and> gcnt h x = gcnt k x \<and> (h x = None \<longleftrightarrow> k x = None)" for x
    using assms(1) [of x "the (k x)"] assms(2) [of x]
    by (cases "k x") (auto simp: gfirst_def gcnt_def)
  then show "gfirst h = gfirst k" "gcnt h = gcnt k" "dom h = dom k"
    by (simp_all add: fun_eq_iff dom_def)
qed

lemma unlink_group_ok:
  assumes "groups_ok s GL" "gheap s f = Some F" "g \<in> set (GL f)" "g \<noteq> f"
  shows "\<exists>s'. unlink_group s g f = Some s' \<and> groups_ok s' (GL(f := remove1 g (GL f)))
    \<and> gcnt (gheap s') = (gcnt (gheap s))(f := g_nr_groups F - 1)"
proof -
  let ?D = "dom (gheap s)"
  have fD: "f \<in> ?D" and ow: "gl.owned (gheap s) ?D GL (gfirst (gheap s)) (gcnt (gheap s))"
    using assms(1,2) by (auto simp: groups_ok_def)
  note fst = obs_g(3,4) [OF assms(2)]
  obtain G where G: "gheap s g = Some G"
    using gl.lst_mem [OF gl.owned_lst(1) [OF ow fD] assms(3)] by auto
  let ?c = "(gcnt (gheap s))(f := g_nr_groups F - 1)"
  show ?thesis
  proof (cases "g_groups F = Some g")
    case True
    let ?F = "F\<lparr>g_groups := g_siblings G, g_nr_groups := g_nr_groups F - 1\<rparr>"
    let ?G = "G\<lparr>g_siblings := None, g_father := None\<rparr>"
    let ?k = "(gheap s)(g \<mapsto> ?G)" and ?f = "(gfirst (gheap s))(f := g_siblings G)"
    have k: "?k f = Some F" using assms(2,4) by simp
    have link: "unlink_group s g f = Some (s\<lparr>gheap := ?k(f \<mapsto> ?F)\<rparr>)"
      using assms(2,4) G True
      by (simp add: unlink_group_def upd_g_def group_group_delete_group_def fun_upd_twist)
    have obs: "gfirst (?k(f \<mapsto> ?F)) = ?f" "gcnt (?k(f \<mapsto> ?F)) = ?c" "dom (?k(f \<mapsto> ?F)) = ?D"
      using obs_keep(1,2) [where h = "gheap s" and a = g and X' = ?G, OF G] G assms(2) by auto
    have "gl.owned ?k ?D (GL(f := remove1 g (GL f))) ?f ?c"
      by (rule gl.owned_unlink_first [OF ow fD _ G]) (use True fst in auto)
    then have "gl.owned (?k(f \<mapsto> ?F)) ?D (GL(f := remove1 g (GL f))) ?f ?c"
      by (rule gl.owned_cong) (rule obs_keep(3) [where h = ?k and a = f, OF k], simp_all)
    then have "groups_ok (s\<lparr>gheap := ?k(f \<mapsto> ?F)\<rparr>) (GL(f := remove1 g (GL f)))"
      unfolding groups_ok_def gheap_set obs .
    with link obs(2) show ?thesis
      by (intro exI [of _ "s\<lparr>gheap := ?k(f \<mapsto> ?F)\<rparr>"]) (simp only: gheap_set simp_thms)
  next
    case False
    obtain h1 n where u: "group_unlink_loop (gheap s) (g_groups F) g = Some h1" "h1 g = Some n"
        "gl.owned (h1(g \<mapsto> n\<lparr>g_father := None\<rparr>)) ?D (GL(f := remove1 g (GL f))) (gfirst (gheap s)) ?c"
      and eq: "\<forall>x N. gheap s x = Some N \<longrightarrow> (\<exists>p. h1 x = Some (N\<lparr>g_siblings := p\<rparr>)) \<or> h1 x = Some N"
        "\<forall>x. gheap s x = None \<longrightarrow> h1 x = None"
      using gl.owned_unlink_inner [OF ow fD _ assms(3), of "gfirst (gheap s)" ?c] False fst by auto
    obtain F1 where F1: "h1 f = Some F1" "g_nr_groups F1 = g_nr_groups F"
      using spec [OF spec [OF eq(1), of f], of F] assms(2) by auto
    let ?k = "h1(g \<mapsto> n\<lparr>g_father := None\<rparr>)" and ?F = "F1\<lparr>g_nr_groups := g_nr_groups F1 - 1\<rparr>"
    have k: "?k f = Some F1" using F1(1) assms(4) by simp
    have link: "unlink_group s g f = Some (s\<lparr>gheap := ?k(f \<mapsto> ?F)\<rparr>)"
      using assms(2,4) False u(1,2) F1(1)
      by (simp add: unlink_group_def upd_g_def group_group_delete_group_def fun_upd_twist)
    note ob = obs_siblings [of "gheap s" h1] and kp = obs_keep [where h = h1 and a = g, OF u(2)]
    have o1: "gfirst ?k = gfirst (gheap s)" "gcnt ?k = gcnt (gheap s)" "dom ?k = ?D"
      using ob eq kp(1,2,4) [of "n\<lparr>g_father := None\<rparr>"] by simp_all
    have obs: "gfirst (?k(f \<mapsto> ?F)) = gfirst (gheap s)" "gcnt (?k(f \<mapsto> ?F)) = ?c"
        "dom (?k(f \<mapsto> ?F)) = ?D"
      using obs_keep(1,4) [where h = ?k and a = f and X' = ?F, OF k] o1 F1(2)
      by (simp_all del: fun_upd_apply obs_upd add: obs_upd(4) [of ?k])
    have "gl.owned (?k(f \<mapsto> ?F)) ?D (GL(f := remove1 g (GL f))) (gfirst (gheap s)) ?c"
      using u(3) by (rule gl.owned_cong) (rule obs_keep(3) [where h = ?k and a = f, OF k], simp_all)
    then have "groups_ok (s\<lparr>gheap := ?k(f \<mapsto> ?F)\<rparr>) (GL(f := remove1 g (GL f)))"
      unfolding groups_ok_def gheap_set obs .
    with link obs(2) show ?thesis
      by (intro exI [of _ "s\<lparr>gheap := ?k(f \<mapsto> ?F)\<rparr>"]) (simp only: gheap_set simp_thms)
  qed
qed

section \<open>Adding and deleting groups\<close>

lemma member_iff_father:
  assumes "struct_ok s" "gheap s f = Some F" "gheap s g = Some G"
  shows "is_group_in_father s g f = Some (g_father G = Some f)"
proof -
  obtain GL where ok: "gl.owned (gheap s) (dom (gheap s)) GL (gfirst (gheap s)) (gcnt (gheap s))"
    using assms(1) by (auto simp: struct_ok_def groups_ok_def)
  have fD: "f \<in> dom (gheap s)"
    using assms(2) by auto
  show ?thesis
    using gl.member_iff [OF gl.owned_lst(1) [OF ok fD], of g] gl.ownedD(3) [OF ok assms(3) fD]
      obs_g(3) [OF assms(2)] assms(2)
    by (simp add: is_group_in_father_def)
qed

lemma link_group_struct:
  assumes "struct_ok s" "gheap s f = Some F" "gheap s g = Some G" "g_father G = None" "g \<noteq> f"
    and "g_nr_threads F = 0"
  shows "\<exists>s'. link_group s g f = Some s' \<and> struct_ok s' \<and> locks s' = locks s"
proof -
  obtain GL where ok: "groups_ok s GL" "kinds_ok s"
    using assms(1) by (auto simp: struct_ok_def)
  obtain s' where s': "link_group s g f = Some s'" "groups_ok s' (GL(f := GL f @ [g]))"
      "gcnt (gheap s') = (gcnt (gheap s))(f := g_nr_groups F + 1)"
    using link_group_ok [OF ok(1) assms(2-5)] by blast
  have t: "tside s' = tside s"
    using s'(1) by (rule tside_link)
  then have "kinds_ok s'"
    using ok(2) s'(3) obs_g(2) [OF assms(2)] assms(6) by (simp add: kinds_ok_def tside_def)
  then show ?thesis
    using tside_struct [OF t assms(1) s'(2)] s'(1) by blast
qed

lemma unlink_group_struct:
  assumes "struct_ok s" "gheap s f = Some F" "gheap s g = Some G" "g_father G = Some f" "g \<noteq> f"
  shows "\<exists>s'. unlink_group s g f = Some s' \<and> struct_ok s' \<and> locks s' = locks s
    \<and> gcnt (gheap s') = (gcnt (gheap s))(f := g_nr_groups F - 1)"
proof -
  obtain GL where ok: "groups_ok s GL" "kinds_ok s"
    using assms(1) by (auto simp: struct_ok_def)
  have fD: "f \<in> dom (gheap s)" using assms(2) by auto
  have g: "g \<in> set (GL f)"
    using gl.ownedD(3) [OF ok(1) [unfolded groups_ok_def] assms(3) fD] assms(4) by simp
  obtain s' where s': "unlink_group s g f = Some s'" "groups_ok s' (GL(f := remove1 g (GL f)))"
      "gcnt (gheap s') = (gcnt (gheap s))(f := g_nr_groups F - 1)"
    using unlink_group_ok [OF ok(1) assms(2) g assms(5)] by blast
  have t: "tside s' = tside s"
    using s'(1) by (rule tside_unlink)
  have "0 < g_nr_groups F"
    using gl.owned_lst(2) [OF ok(1) [unfolded groups_ok_def] fD] obs_g(4) [OF assms(2)]
      length_pos_if_in_set [OF g] by simp
  then have "tcnt (gheap s) f = 0"
    using spec [OF ok(2) [unfolded kinds_ok_def], of f] obs_g(4) [OF assms(2)] by simp
  then have "kinds_ok s'"
    using ok(2) s'(3) t by (simp add: kinds_ok_def tside_def)
  then show ?thesis
    using tside_struct [OF t assms(1) s'(2)] s'(1,3) by (intro exI [of _ s']) simp
qed

lemma shape_some:
  assumes "shape s' = shape s" "gheap s g = Some G"
  shows "\<exists>G'. gheap s' g = Some G' \<and> gshape G' = gshape G"
proof -
  have "map_option gshape (gheap s' g) = map_option gshape (gheap s g)"
    using assms(1) by (auto simp: shape_def fun_eq_iff)
  with assms(2) show ?thesis by auto
qed

lemma link_group_father:
  assumes "link_group s g f = Some s'"
  shows "(\<exists>G. gheap s' g = Some G \<and> g_father G = Some f) \<and> (\<exists>F. gheap s' f = Some F)"
proof -
  have "dom (gheap s') = dom (gheap s)"
    using tside_link [OF assms] dom_gids [of "gheap s'"] dom_gids [of "gheap s"] by (simp add: tside_def)
  moreover have "f \<in> dom (gheap s)"
    using assms by (auto simp: link_group_def upd_g_def bind_eq_Some_conv)
  moreover have "\<exists>G. gheap s' g = Some G \<and> g_father G = Some f"
    using assms by (auto simp: link_group_def upd_g_def bind_eq_Some_conv)
  ultimately show ?thesis by auto
qed

lemma add_group_struct:
  assumes "wayca_group_add_group s g f = Some (r, s')" "struct_ok s" "gheap s g = Some G"
    and "g_father G = None" "g \<noteq> f"
  shows "struct_ok s' \<and> locks s' = locks s"
proof -
  obtain F where F: "gheap s f = Some F"
    using assms(1) by (auto simp: wayca_group_add_group_def is_group_in_father_def bind_eq_Some_conv)
  have mem: "is_group_in_father s g f = Some False"
    using member_iff_father [OF assms(2) F assms(3)] assms(4) by simp
  show ?thesis
  proof (cases "g_nr_threads F = 0")
    case False
    then show ?thesis
      using assms(1,2) mem F by (simp add: wayca_group_add_group_def)
  next
    case True
    obtain s1 where s1: "link_group s g f = Some s1" "struct_ok s1" "locks s1 = locks s"
      using link_group_struct [OF assms(2) F assms(3,4,5) True] by blast
    then obtain ret s2 where s2: "wayca_group_rearrange_group s1 g = Some (ret, s2)"
        "(if ret < 0 then map_option (Pair ret) (unlink_group s2 g f) else Some (0, s2)) = Some (r, s')"
      using assms(1) mem F True
      by (auto simp: wayca_group_add_group_def link_group_def unlink_group_def bind_eq_Some_conv
          split: if_splits)
    have sm: "same s1 s2"
      using s2(1) by (rule same_rearrange_group)
    then have st2: "struct_ok s2" "locks s2 = locks s"
      using s1 struct_ok_shape by (auto simp: same_def)
    show ?thesis
    proof (cases "ret < 0")
      case False
      then show ?thesis using s2(2) st2 by simp
    next
      case True
      obtain G1 F1 where g1: "gheap s1 g = Some G1" "g_father G1 = Some f" "gheap s1 f = Some F1"
        using link_group_father [OF s1(1)] by blast
      have sh: "shape s2 = shape s1"
        using sm by (simp add: same_def)
      obtain G2 F2 where g2: "gheap s2 g = Some G2" "g_father G2 = Some f" "gheap s2 f = Some F2"
        using shape_some [OF sh g1(1)] shape_some [OF sh g1(3)] g1(2) by (auto simp: gshape_def)
      obtain s3 where "unlink_group s2 g f = Some s3" "struct_ok s3" "locks s3 = locks s2"
        using unlink_group_struct [OF st2(1) g2(3,1,2) assms(5)] by blast
      then show ?thesis
        using s2(2) True st2(2) by simp
    qed
  qed
qed

text \<open>Deleting a child group always returns, with \<open>-EINVAL\<close> when it is not a child.\<close>

lemma delete_group_struct:
  assumes "struct_ok s" "gheap s f = Some F" "gheap s g = Some G" "g \<noteq> f"
  shows "\<exists>r s'. wayca_group_delete_group s g f = Some (r, s') \<and> struct_ok s' \<and> locks s' = locks s
    \<and> (r = 0 \<longleftrightarrow> g_father G = Some f) \<and> (r \<noteq> 0 \<longrightarrow> r = - EINVAL \<and> s' = s)
    \<and> tside s' = tside s
    \<and> (r = 0 \<longrightarrow> (\<exists>G'. gheap s' g = Some G' \<and> g_father G' = None)
         \<and> gcnt (gheap s') = (gcnt (gheap s))(f := g_nr_groups F - 1))"
proof (cases "g_father G = Some f")
  case True
  let ?F = "(undo_roll_over F)\<lparr>g_used := CPU_XOR (g_used (undo_roll_over F)) (g_total G)\<rparr>"
  define s1 where "s1 = s\<lparr>gheap := (gheap s)(f \<mapsto> ?F)\<rparr>"
  have "upd_g f (\<lambda>_. ?F) s = Some s1"
    using assms(2) by (simp add: upd_g_def s1_def)
  then have sm: "same s s1"
    by (rule same_upd_g) (use assms(2) in simp)
  then have st: "struct_ok s1" "locks s1 = locks s" and ts: "tside s1 = tside s"
    using assms(1) struct_ok_shape tside_same [OF sm] by (auto simp: same_def s1_def)
  have s1: "gheap s1 f = Some ?F" "gheap s1 g = Some G"
    using assms(3,4) by (simp_all add: s1_def)
  obtain s' where u: "unlink_group s1 g f = Some s'" "struct_ok s'" "locks s' = locks s1"
      "gcnt (gheap s') = (gcnt (gheap s1))(f := g_nr_groups ?F - 1)"
    using unlink_group_struct [OF st(1) s1 True assms(4)] by blast
  have "\<exists>G'. gheap s' g = Some G' \<and> g_father G' = None"
    using u(1) by (auto simp: unlink_group_def upd_g_def bind_eq_Some_conv)
  moreover have "g_nr_groups ?F = g_nr_groups F"
    by (simp add: undo_roll_over_def)
  then have "gcnt (gheap s') = (gcnt (gheap s))(f := g_nr_groups F - 1)"
    using u(4) by (simp add: s1_def)
  moreover
  have "upd_g f undo_roll_over s = Some (s\<lparr>gheap := (gheap s)(f \<mapsto> undo_roll_over F)\<rparr>)"
    "upd_g f (\<lambda>F. F\<lparr>g_used := CPU_XOR (g_used F) (g_total G)\<rparr>)
       (s\<lparr>gheap := (gheap s)(f \<mapsto> undo_roll_over F)\<rparr>) = Some s1"
    using assms(2) by (simp_all add: upd_g_def s1_def)
  then have "wayca_group_delete_group s g f = Some (0, s')"
    using assms(3,4) True member_iff_father [OF assms(1-3)] u(1)
    by (auto simp: wayca_group_delete_group_def unlink_group_def bind_eq_Some_conv)
  ultimately show ?thesis
    using u(2,3) st True ts tside_unlink [OF u(1)] by auto
next
  case False
  then show ?thesis
    using assms(1) member_iff_father [OF assms(1-3)] by (simp add: wayca_group_delete_group_def)
qed

end
