(* ===== verification/ThreadsInv.thy ===== *)
theory ThreadsInv
  imports GroupTree
begin

text \<open>
  Every operation of the thread and group API keeps the structure invariant \<open>wf\<close>. The
  operations are collected in a step relation whose reachable states satisfy it.
\<close>

section \<open>The identifier tables\<close>

lemma find_free_slot_full: "fst (find_free_slot xs i) < 0 \<longleftrightarrow> None \<notin> set xs"
  by (induction xs i rule: find_free_slot.induct) auto

lemma find_free_slot_free:
  "0 \<le> fst (find_free_slot xs i) \<Longrightarrow>
     i \<le> snd (find_free_slot xs i) \<and> snd (find_free_slot xs i) - i < length xs
     \<and> xs ! (snd (find_free_slot xs i) - i) = None"
proof (induction xs i rule: find_free_slot.induct)
  case (2 x xs i)
  show ?case
  proof (cases "x = None")
    case False
    then show ?thesis
      using 2 by (auto simp: nth_Cons' Suc_le_eq)
  qed simp
qed simp

lemma find_free_slot_first: "j < snd (find_free_slot xs i) - i \<Longrightarrow> 0 \<le> fst (find_free_slot xs i) \<Longrightarrow> xs ! j \<noteq> None"
proof (induction xs i arbitrary: j rule: find_free_slot.induct)
  case (2 x xs i)
  show ?case
  proof (cases "x = None")
    case False
    then show ?thesis
      using 2 by (cases j) auto
  qed (use 2(2) in simp)
qed simp

interpretation tt: id_table threads_array find_free_thread_id_locked is_thread_id_valid id_to_wayca_thread
proof (unfold_locales, goal_cases)
  case (1 s)
  show ?case by (simp add: find_free_thread_id_locked_def find_free_slot_full)
next
  case (2 s)
  then show ?case
    using find_free_slot_free [of "threads_array s" 0] by (simp add: find_free_thread_id_locked_def)
qed (auto simp: is_thread_id_valid_def id_to_wayca_thread_def)

interpretation gt: id_table groups_array find_free_group_id_locked is_group_id_valid id_to_wayca_group
proof (unfold_locales, goal_cases)
  case (1 s)
  show ?case by (simp add: find_free_group_id_locked_def find_free_slot_full)
next
  case (2 s)
  then show ?case
    using find_free_slot_free [of "groups_array s" 0] by (simp add: find_free_group_id_locked_def)
qed (auto simp: is_group_id_valid_def id_to_wayca_group_def)

lemma id_to_thread_iff:
  assumes "struct_ok s"
  shows "id_to_wayca_thread s i = Some t \<longleftrightarrow> (\<exists>T. theap s t = Some T \<and> t_id T = i)"
  using tt.lookup_iff [of s "tids (theap s)" i t] assms
  by (auto simp: struct_ok_def ids_ok_def tids_def)

lemma id_to_group_iff:
  assumes "struct_ok s"
  shows "id_to_wayca_group s i = Some g \<longleftrightarrow> (\<exists>G. gheap s g = Some G \<and> g_id G = i)"
  using gt.lookup_iff [of s "gids (gheap s)" i g] assms
  by (auto simp: struct_ok_def ids_ok_def gids_def)

section \<open>Allocating and freeing\<close>

lemma tids_new: "tids (h(a \<mapsto> T)) = (tids h)(a \<mapsto> t_id T)" "tids (h(a := None)) = (tids h)(a := None)"
  by (auto simp: tids_def)

lemma gids_del: "gids (h(a := None)) = (gids h)(a := None)"
  by (auto simp: gids_def)

lemma wf_new_thread:
  assumes "wf s" "theap s a = None" "0 \<le> fst (find_free_thread_id_locked s)"
    and "t_siblings T = None" "t_group T = None" "t_id T = snd (find_free_thread_id_locked s)"
  shows "wf (s\<lparr>threads_array := (threads_array s)[snd (find_free_thread_id_locked s) := Some a],
    theap := (theap s)(a \<mapsto> T)\<rparr>)" (is "wf ?s")
proof -
  obtain TL GL where ok: "threads_ok s TL" "groups_ok s GL" "ids_ok s" "kinds_ok s"
    using assms(1) by (auto simp: wf_def struct_ok_def)
  have "threads_ok ?s TL"
    using tl.owned_fresh [OF ok(1) [unfolded threads_ok_def] assms(2), of "(theap s)(a \<mapsto> T)"]
    by (simp add: threads_ok_def tl.view_upd assms(4,5))
  moreover have "groups_ok ?s GL"
    using ok(2) by (simp add: groups_ok_def)
  moreover have "ids_ok ?s"
    using tt.alloc_ok [of s "tids (theap s)" a] ok(3) assms(2,3,6)
    by (simp add: ids_ok_def tids_new) (simp add: tids_def)
  moreover have "kinds_ok ?s" "unlocked ?s"
    using ok(4) assms(1) by (simp_all add: kinds_ok_def unlocked_def wf_def)
  ultimately show ?thesis
    unfolding wf_def struct_ok_def by blast
qed

lemma thread_alloc:
  assumes "wf s" "\<And>a. m = Some a \<Longrightarrow> theap s a = None" "wayca_thread_alloc s m = (r, s')"
  shows "wf s' \<and> (case r of None \<Rightarrow> s' = s
    | Some a \<Rightarrow> m = Some a \<and> theap s a = None \<and> gheap s' = gheap s \<and> cpu_loads s' = cpu_loads s
        \<and> tstate s' = tstate s
        \<and> theap s' = (theap s)(a \<mapsto> zero_thread\<lparr>t_id := snd (find_free_thread_id_locked s)\<rparr>))"
proof (cases "fst (find_free_thread_id_locked s) < 0 \<or> m = None")
  case True
  have "(threads_array s)[snd (find_free_thread_id_locked s) := None] = threads_array s"
    if "\<not> fst (find_free_thread_id_locked s) < 0"
    using tt.free_slot [of s] that by (metis list_update_id not_less)
  then show ?thesis
    using True assms(1,3) by (auto simp: wayca_thread_alloc_def Let_def split: prod.splits if_splits)
next
  case False
  then obtain a where a: "m = Some a" by auto
  let ?T = "zero_thread\<lparr>t_id := snd (find_free_thread_id_locked s)\<rparr>"
  have "wf (s\<lparr>threads_array := (threads_array s)[snd (find_free_thread_id_locked s) := Some a],
      theap := (theap s)(a \<mapsto> ?T)\<rparr>)"
    using False by (intro wf_new_thread) (auto simp: a assms zero_thread_def)
  then show ?thesis
    using False assms(2,3) a
    by (auto simp: wayca_thread_alloc_def Let_def split: prod.splits)
qed

lemma wf_free_thread:
  assumes "wf s" "theap s t = Some T" "t_group T = None"
  shows "wf (s\<lparr>threads_array := (threads_array s)[t_id T := None], theap := (theap s)(t := None)\<rparr>)"
    (is "wf ?s")
proof -
  obtain TL GL where ok: "threads_ok s TL" "groups_ok s GL" "ids_ok s" "kinds_ok s"
    using assms(1) by (auto simp: wf_def struct_ok_def)
  have "tl.view ((theap s)(t := None)) = (tl.view (theap s))(t := None)"
    by (auto simp: tl.view_def)
  then have "threads_ok ?s TL"
    using tl.owned_free [OF ok(1) [unfolded threads_ok_def] assms(2,3), of "(theap s)(t := None)"]
    by (simp add: threads_ok_def)
  moreover have "groups_ok ?s GL"
    using ok(2) by (simp add: groups_ok_def)
  moreover have "ids_ok ?s"
    using table_ok_remove [of "threads_array s" "tids (theap s)" t "t_id T"] ok(3) assms(2)
    by (simp add: ids_ok_def tids_new) (simp add: tids_def)
  moreover have "kinds_ok ?s" "unlocked ?s"
    using ok(4) assms(1) by (simp_all add: kinds_ok_def unlocked_def wf_def)
  ultimately show ?thesis
    unfolding wf_def struct_ok_def by blast
qed

lemma update_load_frame:
  assumes "wayca_thread_update_load s t b = Some s'"
  shows "\<exists>l. s' = s\<lparr>cpu_loads := l\<rparr>"
proof -
  have "\<exists>l. s = s\<lparr>cpu_loads := l\<rparr>"
    by (rule exI [of _ "cpu_loads s"]) simp
  then show ?thesis
    using assms by (auto simp: wayca_thread_update_load_def Let_def bind_eq_Some_conv split: if_splits)
qed

lemma thread_free_wf:
  assumes "wf s" "theap s t = Some T" "t_group T = None" "wayca_thread_free s t = Some s'"
  shows "wf s' \<and> theap s' = (theap s)(t := None) \<and> gheap s' = gheap s"
proof -
  obtain l where l: "wayca_thread_update_load s t False = Some (s\<lparr>cpu_loads := l\<rparr>)"
    using assms(4) update_load_frame by (fastforce simp: wayca_thread_free_def bind_eq_Some_conv)
  have "wf (s\<lparr>cpu_loads := l\<rparr>)"
    using same_wf [OF same_fields(1) assms(1)] .
  from wf_free_thread [OF this] assms(2-4) l show ?thesis
    by (auto simp: wayca_thread_free_def bind_eq_Some_conv wr_def split: if_splits)
qed

lemma wf_new_group:
  assumes "wf s" "gheap s a = None" "0 \<le> fst (find_free_group_id_locked s)"
    and "g_threads G = None" "g_nr_threads G = 0" "g_siblings G = None" "g_father G = None"
    and "g_groups G = None" "g_nr_groups G = 0" "\<not> g_locked G"
    and "g_id G = snd (find_free_group_id_locked s)"
  shows "wf (s\<lparr>groups_array := (groups_array s)[snd (find_free_group_id_locked s) := Some a],
    gheap := (gheap s)(a \<mapsto> G)\<rparr>)" (is "wf ?s")
proof -
  obtain TL GL where ok: "threads_ok s TL" "groups_ok s GL" "ids_ok s" "kinds_ok s"
    using assms(1) by (auto simp: wf_def struct_ok_def)
  have a: "a \<notin> dom (gheap s)"
    using assms(2) by auto
  have "threads_ok ?s (TL(a := []))"
    using tl.owned_new_owner [OF ok(1) [unfolded threads_ok_def] a, of "tfirst (gheap ?s)" "tcnt (gheap ?s)"]
      assms(4,5) a by (simp add: threads_ok_def) fastforce
  moreover have "gl.owned ((gheap s)(a \<mapsto> G)) (dom (gheap s)) GL (gfirst (gheap s)) (gcnt (gheap s))"
    using gl.owned_fresh [OF ok(2) [unfolded groups_ok_def] assms(2), of "(gheap s)(a \<mapsto> G)"]
    by (simp add: gl.view_upd assms(6,7))
  then have "groups_ok ?s (GL(a := []))"
    using gl.owned_new_owner [OF _ a, of "(gheap s)(a \<mapsto> G)" GL "gfirst (gheap s)" "gcnt (gheap s)"
        "gfirst (gheap ?s)" "gcnt (gheap ?s)"] assms(8,9) a by (simp add: groups_ok_def) fastforce
  moreover have "ids_ok ?s"
    using gt.alloc_ok [of s "gids (gheap s)" a] ok(3) assms(2,3,11)
    by (simp add: ids_ok_def) (simp add: gids_def)
  moreover have "kinds_ok ?s" "unlocked ?s"
    using ok(4) assms(1,5,10) by (auto simp: kinds_ok_def unlocked_def wf_def)
  ultimately show ?thesis
    unfolding wf_def struct_ok_def by blast
qed

lemma group_alloc:
  assumes "wf s" "\<And>a. m = Some a \<Longrightarrow> gheap s a = None" "wayca_group_alloc s m = (r, s')"
  shows "wf s' \<and> (case r of None \<Rightarrow> s' = s
    | Some a \<Rightarrow> m = Some a \<and> theap s' = theap s \<and> cpu_loads s' = cpu_loads s
        \<and> gheap s' = (gheap s)(a \<mapsto> zero_group\<lparr>g_id := snd (find_free_group_id_locked s)\<rparr>))"
proof (cases "fst (find_free_group_id_locked s) < 0 \<or> m = None")
  case True
  have "(groups_array s)[snd (find_free_group_id_locked s) := None] = groups_array s"
    if "\<not> fst (find_free_group_id_locked s) < 0"
    using gt.free_slot [of s] that by (metis list_update_id not_less)
  then show ?thesis
    using True assms(1,3) by (auto simp: wayca_group_alloc_def Let_def split: prod.splits if_splits)
next
  case False
  then obtain a where a: "m = Some a" by auto
  let ?G = "zero_group\<lparr>g_id := snd (find_free_group_id_locked s)\<rparr>"
  have "wf (s\<lparr>groups_array := (groups_array s)[snd (find_free_group_id_locked s) := Some a],
      gheap := (gheap s)(a \<mapsto> ?G)\<rparr>)"
    using False by (intro wf_new_group) (auto simp: a assms zero_group_def)
  then show ?thesis
    using False assms(3) a
    by (auto simp: wayca_group_alloc_def Let_def split: prod.splits)
qed

text \<open>A group without threads and child groups that has left its father can be freed.\<close>

lemma wf_free_group:
  assumes "wf s" "gheap s g = Some G" "g_father G = None" "g_nr_threads G = 0" "g_nr_groups G = 0"
  shows "wf (s\<lparr>groups_array := (groups_array s)[g_id G := None], gheap := (gheap s)(g := None)\<rparr>)"
    (is "wf ?s")
proof -
  obtain TL GL where ok: "threads_ok s TL" "groups_ok s GL" "ids_ok s" "kinds_ok s"
    using assms(1) by (auto simp: wf_def struct_ok_def)
  note o = ok(1) [unfolded threads_ok_def] ok(2) [unfolded groups_ok_def]
  have g: "g \<in> dom (gheap s)"
    using assms(2) by auto
  have e: "TL g = []" "GL g = []"
    using tl.owned_lst(2) [OF o(1) g] gl.owned_lst(2) [OF o(2) g] obs_g [OF assms(2)] assms(4,5)
    by simp_all
  have d: "dom ((gheap s)(g := None)) = dom (gheap s) - {g}"
    by simp
  have obs: "tfirst ((gheap s)(g := None)) x = tfirst (gheap s) x" "tcnt ((gheap s)(g := None)) x = tcnt (gheap s) x"
    "gfirst ((gheap s)(g := None)) x = gfirst (gheap s) x" "gcnt ((gheap s)(g := None)) x = gcnt (gheap s) x"
    if "x \<noteq> g" for x
    using that by (simp_all add: tfirst_def tcnt_def gfirst_def gcnt_def)
  have "threads_ok ?s TL"
    unfolding threads_ok_def using tl.owned_del_owner [OF o(1) g e(1)] obs by (simp add: d)
  moreover have "gl.view ((gheap s)(g := None)) = (gl.view (gheap s))(g := None)"
    by (auto simp: gl.view_def)
  then have v: "gl.owned ((gheap s)(g := None)) (dom (gheap s)) GL (gfirst (gheap s)) (gcnt (gheap s))"
    by (rule gl.owned_free [OF o(2) assms(2,3)])
  have "groups_ok ?s GL"
    unfolding groups_ok_def using gl.owned_del_owner [OF v g e(2)] obs by (simp add: d)
  moreover have "ids_ok ?s"
    using table_ok_remove [of "groups_array s" "gids (gheap s)" g "g_id G"] ok(3) assms(2)
    by (simp add: ids_ok_def gids_del) (simp add: gids_def)
  moreover have "kinds_ok ?s" "unlocked ?s"
    using ok(4) assms(1) by (auto simp: kinds_ok_def unlocked_def wf_def tcnt_def gcnt_def)
  ultimately show ?thesis
    unfolding wf_def struct_ok_def by blast
qed

section \<open>Locked sections\<close>

lemma wfD: "wf s \<Longrightarrow> struct_ok s" "wf s \<Longrightarrow> unlocked s"
  by (simp_all add: wf_def)

lemma lock_ok:
  assumes "wf s" "gheap s g = Some G"
  shows "\<exists>s1. lock_g g s = Some s1 \<and> s1 = s\<lparr>gheap := (gheap s)(g \<mapsto> G\<lparr>g_locked := True\<rparr>)\<rparr>
    \<and> struct_ok s1 \<and> locks s1 = (locks s)(g \<mapsto> True)"
proof -
  have "\<not> g_locked G"
    using assms by (simp add: wf_def unlocked_def)
  then have l: "lock_g g s = Some (s\<lparr>gheap := (gheap s)(g \<mapsto> G\<lparr>g_locked := True\<rparr>)\<rparr>)"
    using assms(2) by (simp add: lock_g_def upd_g_def)
  then show ?thesis
    using lock_g_shape(1,2) [OF l] struct_ok_shape wfD(1) [OF assms(1)] by blast
qed

lemma unlock_ok:
  assumes "struct_ok s" "locks s = (locks s0)(g \<mapsto> True)" "unlocked s0"
  shows "\<exists>G s'. gheap s g = Some G \<and> unlock_g g s = Some s' \<and> wf s'
    \<and> s' = s\<lparr>gheap := (gheap s)(g \<mapsto> G\<lparr>g_locked := False\<rparr>)\<rparr>"
proof -
  obtain G where G: "gheap s g = Some G"
    using fun_cong [OF assms(2), of g] by (auto simp: locks_def)
  then have u: "unlock_g g s = Some (s\<lparr>gheap := (gheap s)(g \<mapsto> G\<lparr>g_locked := False\<rparr>)\<rparr>)" (is "_ = Some ?s")
    by (simp add: unlock_g_def upd_g_def)
  have "struct_ok ?s" "unlocked ?s"
    using unlock_g_shape(1,2) [OF u] struct_ok_shape assms by (auto simp: unlocked_locks)
  then show ?thesis
    using G u by (auto simp: wf_def)
qed

section \<open>Threads leave their group\<close>

lemma detach_group_thread:
  assumes "wf s" "theap s t = Some T" "gheap s g = Some G"
  shows "\<exists>r s'. wayca_sc_thread_detach_group s (t_id T) (g_id G) = Some (r, s') \<and> wf s'
    \<and> cpu_loads s' = cpu_loads s \<and> tstate s' = tstate s
    \<and> (if t_group T = Some g then r = 0 \<and> (\<exists>q. theap s' t = Some (T\<lparr>t_siblings := q, t_group := None\<rparr>))
       else r = - EINVAL \<and> theap s' = theap s)"
proof -
  have ids: "id_to_wayca_thread s (t_id T) = Some t" "id_to_wayca_group s (g_id G) = Some g"
    using assms id_to_thread_iff id_to_group_iff wfD(1) by blast+
  obtain s1 where s1: "lock_g g s = Some s1" "s1 = s\<lparr>gheap := (gheap s)(g \<mapsto> G\<lparr>g_locked := True\<rparr>)\<rparr>"
      "struct_ok s1" "locks s1 = (locks s)(g \<mapsto> True)"
    using lock_ok [OF assms(1,3)] by blast
  have h: "gheap s1 g = Some (G\<lparr>g_locked := True\<rparr>)" "theap s1 t = Some T"
    using assms(2) by (simp_all add: s1(2))
  obtain r s2 where d: "wayca_group_delete_thread s1 g t = Some (r, s2)" "struct_ok s2"
      "locks s2 = locks s1" "cpu_loads s2 = cpu_loads s1" "tstate s2 = tstate s1"
      "if t_group T = Some g then r = 0 \<and> (\<exists>q. theap s2 t = Some (T\<lparr>t_siblings := q, t_group := None\<rparr>))
         \<and> (\<exists>n p. gheap s2 = (gheap s1)(g \<mapsto> (release_resource (G\<lparr>g_locked := True\<rparr>) T)\<lparr>g_threads := p, g_nr_threads := n\<rparr>))
       else r = - EINVAL \<and> s2 = s1"
    using delete_thread_struct [OF s1(3) h] by (elim exE conjE) (rule that)
  obtain G2 s' where u: "unlock_g g s2 = Some s'" "wf s'" "s' = s2\<lparr>gheap := (gheap s2)(g \<mapsto> G2\<lparr>g_locked := False\<rparr>)\<rparr>"
    using unlock_ok [OF d(2) _ wfD(2) [OF assms(1)], of g] d(3) s1(4) by auto
  have "wayca_sc_thread_detach_group s (t_id T) (g_id G) = Some (r, s')"
    using ids s1(1) d(1) u(1) by (simp add: wayca_sc_thread_detach_group_def)
  moreover have "cpu_loads s' = cpu_loads s" "tstate s' = tstate s"
    using u(3) d(4,5) s1(2) by simp_all
  moreover have "if t_group T = Some g then r = 0 \<and> (\<exists>q. theap s' t = Some (T\<lparr>t_siblings := q, t_group := None\<rparr>))
       else r = - EINVAL \<and> theap s' = theap s"
    using d(6) u(3) s1(2) by (simp split: if_splits)
  ultimately show ?thesis
    using u(2) by blast
qed

lemma thread_group_live:
  assumes "struct_ok s" "theap s t = Some T" "t_group T = Some g"
  shows "\<exists>G. gheap s g = Some G"
proof -
  obtain TL where "tl.owned (theap s) (dom (gheap s)) TL (tfirst (gheap s)) (tcnt (gheap s))"
    using assms(1) by (auto simp: struct_ok_def threads_ok_def)
  from tl.ownedD(2) [OF this assms(2,3)] show ?thesis by auto
qed

lemma leave_group_ok:
  assumes "wf s" "theap s t = Some T"
  shows "\<exists>s' q. leave_group s (t_id T) t = Some s' \<and> wf s' \<and> cpu_loads s' = cpu_loads s
    \<and> tstate s' = tstate s \<and> theap s' t = Some (T\<lparr>t_siblings := q, t_group := None\<rparr>)"
proof (cases "t_group T")
  case None
  obtain TL where "tl.owned (theap s) (dom (gheap s)) TL (tfirst (gheap s)) (tcnt (gheap s))"
    using wfD(1) [OF assms(1)] by (auto simp: struct_ok_def threads_ok_def)
  from tl.ownedD(1) [OF this assms(2) None] have "T = T\<lparr>t_siblings := None, t_group := None\<rparr>"
    using None by simp
  then show ?thesis
    using assms None by (auto simp: leave_group_def)
next
  case (Some g)
  obtain G where G: "gheap s g = Some G"
    using thread_group_live [OF wfD(1) [OF assms(1)] assms(2) Some] by blast
  show ?thesis
    using detach_group_thread [OF assms G] Some assms(2) G by (auto simp: leave_group_def)
qed

section \<open>Every operation keeps the invariant\<close>

lemma upd_t_same:
  assumes "upd_t t f s = Some s'" "\<And>T. tshape (f T) = tshape T"
  shows "same s s'"
  using same_upd_t [OF assms(1)] assms(2) by blast

lemma upd_t_fresh_wf:
  assumes "upd_t t f s = Some s'" "theap s t = Some T" "tshape (f T) = tshape T" "wf s"
  shows "wf s'"
  using same_wf [OF same_upd_t [OF assms(1)] assms(4)] assms(2,3) by simp

lemma thread_set_attr_wf:
  assumes "wayca_sc_thread_set_attr s i attr r = Some (ret, s')" "wf s"
  shows "wf s'"
proof (cases "id_to_wayca_thread s i = None \<or> attr = None")
  case True
  then show ?thesis
    using assms by (auto simp: wayca_sc_thread_set_attr_def split: option.splits)
next
  case False
  then obtain t a where ta: "id_to_wayca_thread s i = Some t" "attr = Some a" by auto
  obtain s1 s2 T l where s: "upd_t t (\<lambda>T. T\<lparr>t_attribute := a\<rparr>) s = Some s1"
      "s2 = s1 \<or> (\<exists>r. wayca_group_rearrange_thread s1 t = Some (r, s2))"
      "s' = s2\<lparr>affinity := l\<rparr>"
    using assms(1) ta
    by (auto simp: wayca_sc_thread_set_attr_def bind_eq_Some_conv split: if_splits)
  have "same s s1"
    using s(1) by (rule upd_t_same) simp
  moreover have "same s1 s2"
    using s(2) same_rearrange_thread by auto
  ultimately show ?thesis
    unfolding s(3) using same_fields(3) assms(2) by (blast intro: same_wf same_trans)
qed

lemma alloc_init_wf:
  assumes "wf s" "\<And>a. m = Some a \<Longrightarrow> theap s a = None" "wayca_thread_alloc s m = (Some t, s1)"
    and "upd_t t f s1 = Some s2"
    and "\<And>T. t_siblings T = None \<Longrightarrow> t_group T = None \<Longrightarrow> tshape (f T) = tshape T"
  shows "wf s2 \<and> theap s2 t = Some (f (zero_thread\<lparr>t_id := snd (find_free_thread_id_locked s)\<rparr>))
    \<and> cpu_loads s2 = cpu_loads s"
proof -
  note a = thread_alloc [OF assms(1,2,3)]
  have "wf s2"
    using assms(4) by (rule upd_t_fresh_wf) (use a in \<open>auto intro!: assms(5) simp: zero_thread_def\<close>)
  then show ?thesis
    using a assms(4) by (auto simp: upd_t_def)
qed

lemma thread_create_wf:
  assumes "wayca_sc_thread_create s nn routine arg m created tid aff = Some (ret, i, s')" "wf s"
    and "\<And>a. m = Some a \<Longrightarrow> theap s a = None"
  shows "wf s'"
proof (cases "\<not> nn \<or> routine = None")
  case True
  then show ?thesis
    using assms by (simp add: wayca_sc_thread_create_def)
next
  case False
  obtain r s1 where al: "wayca_thread_alloc s m = (r, s1)"
    by fastforce
  show ?thesis
  proof (cases r)
    case None
    then show ?thesis
      using thread_alloc [OF assms(2,3) al] assms(1) False al
      by (auto simp: wayca_sc_thread_create_def)
  next
    case (Some t)
    let ?f = "\<lambda>T. T\<lparr>t_siblings := None, t_group := None, t_start_routine := routine, t_arg := arg,
        t_start := False\<rparr>"
    obtain s2 where s2: "upd_t t ?f s1 = Some s2"
        "(if created \<noteq> 0 then map_option (\<lambda>s. (- created, None, s)) (wayca_thread_free s2 t)
          else do {
            s \<leftarrow> wayca_thread_start_routine s2 t tid aff;
            T \<leftarrow> theap s t;
            Some (0, Some (t_id T), s)
          }) = Some (ret, i, s')"
      using assms(1) False al Some
      by (auto simp: wayca_sc_thread_create_def bind_eq_Some_conv split: if_splits)
    note i = alloc_init_wf [OF assms(2,3) al [unfolded Some] s2(1)]
    have wf2: "wf s2" "theap s2 t = Some (?f (zero_thread\<lparr>t_id := snd (find_free_thread_id_locked s)\<rparr>))"
      using i by (simp_all add: tshape_def)
    show ?thesis
    proof (cases "created = 0")
      case False
      then show ?thesis
        using s2(2) thread_free_wf [OF wf2] by auto
    next
      case True
      then obtain a b c d where st: "upd_t t (\<lambda>T. T\<lparr>t_pid := tid\<rparr>) s2 = Some a"
          "upd_t t (\<lambda>T. T\<lparr>t_cur_set := CPU_OR CPU_ZERO aff, t_allowed_set := CPU_OR CPU_ZERO aff\<rparr>) a = Some b"
          "wayca_thread_update_load b t True = Some c" "upd_t t (\<lambda>T. T\<lparr>t_start := True\<rparr>) c = Some s'"
        using s2(2) by (auto simp: wayca_thread_start_routine_def bind_eq_Some_conv)
      have "same s2 a" "same a b" "same b c" "same c s'"
        using st same_update_load by (auto elim!: upd_t_same)
      then show ?thesis
        using wf2(1) by (blast intro: same_wf)
    qed
  qed
qed

lemma pid_attach_wf:
  assumes "wayca_sc_pid_attach_thread s nn pid m self aff = Some (ret, i, s')" "wf s"
    and "\<And>a. m = Some a \<Longrightarrow> theap s a = None"
  shows "wf s'"
proof (cases "\<not> nn \<or> pid < 0")
  case True
  then show ?thesis
    using assms by (simp add: wayca_sc_pid_attach_thread_def)
next
  case False
  obtain r s1 where al: "wayca_thread_alloc s m = (r, s1)"
    by fastforce
  show ?thesis
  proof (cases r)
    case None
    then show ?thesis
      using thread_alloc [OF assms(2,3) al] assms(1) False al
      by (auto simp: wayca_sc_pid_attach_thread_def)
  next
    case (Some t)
    let ?f = "\<lambda>T. T\<lparr>t_siblings := None, t_group := None, t_start_routine := None, t_arg := 0,
        t_pid := if pid = 0 then self else pid\<rparr>"
    obtain s2 where s2: "upd_t t ?f s1 = Some s2"
        "(case aff of Inl err \<Rightarrow> do { s \<leftarrow> wayca_thread_free s2 t; Some (err, None, s) }
          | Inr cs \<Rightarrow> do {
              s \<leftarrow> upd_t t (\<lambda>T. T\<lparr>t_cur_set := CPU_OR CPU_ZERO cs,
                     t_allowed_set := CPU_OR CPU_ZERO cs\<rparr>) s2;
              s \<leftarrow> wayca_thread_update_load s t True;
              s \<leftarrow> upd_t t (\<lambda>T. T\<lparr>t_start := True\<rparr>) s;
              T \<leftarrow> theap s t;
              Some (0, Some (t_id T), s)
            }) = Some (ret, i, s')"
      using assms(1) False al Some
      by (cases "upd_t t ?f s1") (simp_all add: wayca_sc_pid_attach_thread_def)
    note i = alloc_init_wf [OF assms(2,3) al [unfolded Some] s2(1)]
    have wf2: "wf s2" "theap s2 t = Some (?f (zero_thread\<lparr>t_id := snd (find_free_thread_id_locked s)\<rparr>))"
      using i by (simp_all add: tshape_def)
    show ?thesis
    proof (cases aff)
      case (Inl err)
      then show ?thesis
        using s2(2) thread_free_wf [OF wf2] by (auto simp: bind_eq_Some_conv)
    next
      case (Inr cs)
      then obtain b c where st:
          "upd_t t (\<lambda>T. T\<lparr>t_cur_set := CPU_OR CPU_ZERO cs, t_allowed_set := CPU_OR CPU_ZERO cs\<rparr>) s2 = Some b"
          "wayca_thread_update_load b t True = Some c" "upd_t t (\<lambda>T. T\<lparr>t_start := True\<rparr>) c = Some s'"
        using s2(2) by (auto simp: bind_eq_Some_conv)
      have "same s2 b" "same b c" "same c s'"
        using st same_update_load by (auto elim!: upd_t_same)
      then show ?thesis
        using wf2(1) by (blast intro: same_wf)
    qed
  qed
qed

lemma thread_detach_group_wf:
  assumes "wayca_sc_thread_detach_group s i j = Some (r, s')" "wf s"
  shows "wf s'"
proof (cases "id_to_wayca_thread s i = None \<or> id_to_wayca_group s j = None")
  case True
  then show ?thesis
    using assms by (auto simp: wayca_sc_thread_detach_group_def split: option.splits)
next
  case False
  then obtain t g where "id_to_wayca_thread s i = Some t" "id_to_wayca_group s j = Some g"
    by auto
  then obtain T G where tg: "theap s t = Some T" "t_id T = i" "gheap s g = Some G" "g_id G = j"
    unfolding id_to_thread_iff [OF wfD(1) [OF assms(2)]] id_to_group_iff [OF wfD(1) [OF assms(2)]]
    by blast
  obtain r1 s1 where "wayca_sc_thread_detach_group s i j = Some (r1, s1)" "wf s1"
    using detach_group_thread [OF assms(2) tg(1,3)] tg(2,4) by blast
  then show ?thesis
    using assms(1) by simp
qed

lemma thread_join_wf:
  assumes "wayca_sc_thread_join s i joined = Some (r, s')" "wf s"
  shows "wf s'"
proof (cases "id_to_wayca_thread s i")
  case None
  then show ?thesis
    using assms by (simp add: wayca_sc_thread_join_def)
next
  case (Some t)
  then obtain T where T: "theap s t = Some T" "t_id T = i"
    using id_to_thread_iff [OF wfD(1) [OF assms(2)]] by blast
  obtain s1 q where l: "leave_group s i t = Some s1" "wf s1"
      "theap s1 t = Some (T\<lparr>t_siblings := q, t_group := None\<rparr>)"
    using leave_group_ok [OF assms(2) T(1)] T(2) by blast
  have none: "t_group (T\<lparr>t_siblings := q, t_group := None\<rparr>) = None"
    by simp
  show ?thesis
  proof (cases "t_start_routine T = None")
    case False
    then have "wayca_thread_free s1 t = Some s'"
      using assms(1) Some T(1) l(1) by (auto simp: wayca_sc_thread_join_def bind_eq_Some_conv)
    then show ?thesis
      using thread_free_wf [OF l(2,3) none] by blast
  qed (use assms Some T in \<open>simp add: wayca_sc_thread_join_def\<close>)
qed

lemma pid_detach_wf:
  assumes "wayca_sc_pid_detach_thread s i = Some (r, s')" "wf s"
  shows "wf s'"
proof (cases "id_to_wayca_thread s i")
  case None
  then show ?thesis
    using assms by (simp add: wayca_sc_pid_detach_thread_def)
next
  case (Some t)
  then obtain T where T: "theap s t = Some T" "t_id T = i"
    using id_to_thread_iff [OF wfD(1) [OF assms(2)]] by blast
  obtain s1 q where l: "leave_group s i t = Some s1" "wf s1"
      "theap s1 t = Some (T\<lparr>t_siblings := q, t_group := None\<rparr>)"
    using leave_group_ok [OF assms(2) T(1)] T(2) by blast
  show ?thesis
  proof (cases "t_start_routine T = None")
    case True
    then obtain s2 where s2: "wayca_thread_update_load s1 t False = Some s2"
        "wayca_thread_free s2 t = Some s'"
      using assms(1) Some T(1) l(1)
      by (auto simp: wayca_sc_pid_detach_thread_def bind_eq_Some_conv)
    have "wf s2" "theap s2 t = theap s1 t"
      using same_wf [OF same_update_load [OF s2(1)] l(2)] update_load_frame [OF s2(1)] by auto
    then show ?thesis
      using thread_free_wf [OF _ _ _ s2(2), of "T\<lparr>t_siblings := q, t_group := None\<rparr>"] l(3) by simp
  qed (use assms Some T in \<open>simp add: wayca_sc_pid_detach_thread_def\<close>)
qed

lemma group_some:
  assumes "struct_ok s" "id_to_wayca_group s i = Some g"
  shows "\<exists>G. gheap s g = Some G"
  using assms id_to_group_iff by blast

lemma group_create_wf:
  assumes "wayca_sc_group_create s nn m = Some (ret, i, s')" "wf s" "\<And>a. m = Some a \<Longrightarrow> gheap s a = None"
  shows "wf s'"
proof (cases nn)
  case False
  then show ?thesis using assms by (simp add: wayca_sc_group_create_def)
next
  case True
  obtain r s1 where al: "wayca_group_alloc s m = (r, s1)"
    by fastforce
  note a = group_alloc [OF assms(2,3) al]
  show ?thesis
  proof (cases r)
    case None
    then show ?thesis
      using a assms(1) True al by (auto simp: wayca_sc_group_create_def)
  next
    case (Some g)
    let ?G = "zero_group\<lparr>g_id := snd (find_free_group_id_locked s)\<rparr>"
    have s1: "wf s1" "gheap s1 g = Some ?G"
      using a Some by auto
    obtain s2 rt where s2: "wayca_group_init s1 (Some g) = Some (rt, s2)"
      "if rt < 0 then wayca_group_free s2 g = Some s' else s2 = s'"
      using assms(1) True al Some
      by (auto simp: wayca_sc_group_create_def bind_eq_Some_conv split: if_splits)
    obtain s3 where s3: "upd_g g (\<lambda>G. G\<lparr>g_threads := None, g_nr_threads := 0, g_siblings := None,
                g_father := None, g_topo_hint := - 1, g_roll_over_cnts := 0, g_used := CPU_ZERO,
                g_locked := False,
                g_attribute := WT_GF_CPU OR WT_GF_COMPACT OR WT_GF_PERCPU\<rparr>) s1 = Some s3"
        "wayca_group_arrange s3 g = Some (rt, s2)"
      using s2(1) by (auto simp: wayca_group_init_def bind_eq_Some_conv)
    have "same s1 s3"
      using s3(1) s1(2) by (elim same_upd_g) (auto simp: gshape_def zero_group_def)
    then have same2: "same s1 s2"
      using same_arrange [OF s3(2)] by (rule same_trans)
    have wf2: "wf s2"
      using same_wf [OF same2 s1(1)] .
    obtain G2 where G2: "gheap s2 g = Some G2" "gshape G2 = gshape ?G"
      using shape_some [OF _ s1(2)] same2 unfolding same_def by blast
    show ?thesis
      using s2(2) wf2 wf_free_group [OF wf2 G2(1)] G2
      by (auto simp: gshape_def zero_group_def wayca_group_free_def wr_def split: if_splits)
  qed
qed

lemma group_set_attr_wf:
  assumes "wayca_sc_group_set_attr s i attr = Some (ret, a', s')" "wf s"
  shows "wf s'"
proof (cases "attr = None \<or> id_to_wayca_group s i = None")
  case True
  then show ?thesis
    using assms by (auto simp: wayca_sc_group_set_attr_def split: option.splits)
next
  case False
  then obtain g a where ga: "id_to_wayca_group s i = Some g" "attr = Some a" by auto
  obtain G where G: "gheap s g = Some G"
    using group_some [OF wfD(1) [OF assms(2)] ga(1)] by blast
  obtain s1 where s1: "lock_g g s = Some s1" "struct_ok s1" "locks s1 = (locks s)(g \<mapsto> True)"
    using lock_ok [OF assms(2) G] by blast
  obtain at s2 s3 rt s4 where s: "upd_g g (\<lambda>G. G\<lparr>g_attribute := a\<rparr>) s1 = Some s2"
      "wayca_group_rearrange_group s2 g = Some (rt, s3)"
      "(if rt < 0 then upd_g g (\<lambda>G. G\<lparr>g_attribute := at\<rparr>) s3 else Some s3) = Some s4"
      "unlock_g g s4 = Some s'"
    using assms(1) ga s1(1)
    by (simp add: wayca_sc_group_set_attr_def bind_eq_Some_conv Let_def split_paired_Ex) blast
  have "same s1 s2"
    using s(1) by (rule same_upd_g) simp
  moreover have "same s3 s4"
    using s(3) by (auto split: if_splits elim!: same_upd_g)
  ultimately have "same s1 s4"
    using same_rearrange_group [OF s(2)] by (blast intro: same_trans)
  then have "struct_ok s4" "locks s4 = (locks s)(g \<mapsto> True)"
    using s1 struct_ok_shape by (auto simp: same_def)
  then show ?thesis
    using unlock_ok [of s4 s g] wfD(2) [OF assms(2)] s(4) by auto
qed

lemma group_get_attr_wf:
  assumes "wayca_sc_group_get_attr s i nn = Some (ret, a, s')" "wf s"
  shows "wf s'"
proof (cases "\<not> nn \<or> id_to_wayca_group s i = None")
  case True
  then show ?thesis
    using assms by (auto simp: wayca_sc_group_get_attr_def split: option.splits if_splits)
next
  case False
  then obtain g where g: "nn" "id_to_wayca_group s i = Some g" by auto
  obtain G where G: "gheap s g = Some G"
    using group_some [OF wfD(1) [OF assms(2)] g(2)] by blast
  obtain s1 where s1: "lock_g g s = Some s1" "struct_ok s1" "locks s1 = (locks s)(g \<mapsto> True)"
    using lock_ok [OF assms(2) G] by blast
  have "unlock_g g s1 = Some s'"
    using assms(1) g s1(1) by (auto simp: wayca_sc_group_get_attr_def bind_eq_Some_conv)
  then show ?thesis
    using unlock_ok [OF s1(2,3)] wfD(2) [OF assms(2)] by auto
qed

lemma attach_group_thread_wf:
  assumes "wayca_sc_thread_attach_group s i j = Some (ret, s')" "wf s"
  shows "wf s'"
proof (cases "id_to_wayca_thread s i = None \<or> id_to_wayca_group s j = None")
  case True
  then show ?thesis
    using assms by (auto simp: wayca_sc_thread_attach_group_def split: option.splits)
next
  case False
  then obtain t g where tg: "id_to_wayca_thread s i = Some t" "id_to_wayca_group s j = Some g"
    by auto
  then obtain T G where h: "theap s t = Some T" "gheap s g = Some G"
    using id_to_thread_iff id_to_group_iff wfD(1) [OF assms(2)] by blast
  show ?thesis
  proof (cases "t_group T = None")
    case True
    then obtain s1 s2 where s: "wayca_thread_update_load s t False = Some s1" "lock_g g s1 = Some s2"
      using assms(1) tg h(1) by (auto simp: wayca_sc_thread_attach_group_def bind_eq_Some_conv)
    then obtain r s3 s4 where s4: "wayca_group_add_thread s2 g t = Some (r, s3)"
        "(if r \<noteq> 0 then wayca_thread_update_load s3 t True = Some s4
          else wayca_group_rearrange_thread s3 t = Some (ret, s4))" "unlock_g g s4 = Some s'"
      using assms(1) tg h(1) True
      by (auto simp: wayca_sc_thread_attach_group_def bind_eq_Some_conv split: if_splits)
    have w1: "wf s1" and h1: "theap s1 t = Some T" "gheap s1 g = Some G"
      using same_wf [OF same_update_load [OF s(1)] assms(2)] update_load_frame [OF s(1)] h by auto
    have s2: "struct_ok s2" "locks s2 = (locks s1)(g \<mapsto> True)" "theap s2 t = Some T"
      using lock_ok [OF w1 h1(2)] s(2) h1(1) by auto
    have s3: "struct_ok s3" "locks s3 = (locks s1)(g \<mapsto> True)"
      using add_thread_struct [OF s4(1) s2(1,3) True] s2(2) by auto
    have "same s3 s4"
      using s4(2) by (auto split: if_splits dest: same_update_load same_rearrange_thread)
    then have "struct_ok s4" "locks s4 = (locks s1)(g \<mapsto> True)"
      using s3 struct_ok_shape by (auto simp: same_def)
    then show ?thesis
      using unlock_ok [of s4 s1 g] wfD(2) [OF w1] s4(3) by auto
  qed (use assms tg h in \<open>simp add: wayca_sc_thread_attach_group_def\<close>)
qed

lemma lock_two:
  assumes "wf s" "lock_g g s = Some s1" "lock_g f s1 = Some s2" "gheap s g = Some G" "gheap s f = Some F"
  shows "g \<noteq> f" "struct_ok s2" "locks s2 = (locks s)(g \<mapsto> True, f \<mapsto> True)"
    "gheap s2 = (gheap s)(g \<mapsto> G\<lparr>g_locked := True\<rparr>, f \<mapsto> F\<lparr>g_locked := True\<rparr>)"
    "theap s2 = theap s" "cpu_loads s2 = cpu_loads s" "tstate s2 = tstate s"
proof -
  show "g \<noteq> f"
    using lock_g_shape(2) [OF assms(2)] lock_g_shape(3) [OF assms(3)] by auto
  then show "gheap s2 = (gheap s)(g \<mapsto> G\<lparr>g_locked := True\<rparr>, f \<mapsto> F\<lparr>g_locked := True\<rparr>)"
    using assms(2-5) by (auto simp: lock_g_def upd_g_def split: if_splits)
  show "struct_ok s2" "locks s2 = (locks s)(g \<mapsto> True, f \<mapsto> True)"
    using lock_g_shape(1,2) [OF assms(2)] lock_g_shape(1,2) [OF assms(3)] wfD(1) [OF assms(1)]
    by (auto intro: struct_ok_shape)
  show "theap s2 = theap s" "cpu_loads s2 = cpu_loads s" "tstate s2 = tstate s"
    using lock_g_shape(4,5,6) [OF assms(2)] lock_g_shape(4,5,6) [OF assms(3)] by simp_all
qed

lemma unlock_two:
  assumes "struct_ok s" "locks s = (locks s0)(g \<mapsto> True, f \<mapsto> True)" "unlocked s0"
    and "unlock_g f s = Some s1" "unlock_g g s1 = Some s2"
  shows "wf s2"
proof -
  have "locks s2 = (locks s0)(f \<mapsto> False, g \<mapsto> False)"
    using unlock_g_shape(2) [OF assms(4)] unlock_g_shape(2) [OF assms(5)] assms(2)
    by (auto simp: fun_eq_iff)
  then have "unlocked s2"
    using assms(3) by (auto simp: unlocked_locks)
  moreover have "struct_ok s2"
    using unlock_g_shape(1) [OF assms(4)] unlock_g_shape(1) [OF assms(5)] assms(1)
    by (auto intro: struct_ok_shape)
  ultimately show ?thesis by (simp add: wf_def)
qed

lemma attach_group_group_wf:
  assumes "wayca_sc_group_attach_group s i j = Some (ret, s')" "wf s"
  shows "wf s'"
proof (cases "id_to_wayca_group s i = None \<or> id_to_wayca_group s j = None")
  case True
  then show ?thesis
    using assms by (auto simp: wayca_sc_group_attach_group_def split: option.splits)
next
  case False
  then obtain g f where gf: "id_to_wayca_group s i = Some g" "id_to_wayca_group s j = Some f"
    by auto
  then obtain G F where h: "gheap s g = Some G" "gheap s f = Some F"
    using id_to_group_iff wfD(1) [OF assms(2)] by blast
  show ?thesis
  proof (cases "g_father G = None")
    case True
    then obtain s1 s2 s3 s4 where s: "lock_g g s = Some s1" "lock_g f s1 = Some s2"
        "wayca_group_add_group s2 g f = Some (ret, s3)" "unlock_g f s3 = Some s4" "unlock_g g s4 = Some s'"
      using assms(1) gf h(1) by (auto simp: wayca_sc_group_attach_group_def bind_eq_Some_conv)
    note l = lock_two [OF assms(2) s(1,2) h]
    have "gheap s2 g = Some (G\<lparr>g_locked := True\<rparr>)"
      using l(1,4) by simp
    then have "struct_ok s3" "locks s3 = (locks s)(g \<mapsto> True, f \<mapsto> True)"
      using add_group_struct [OF s(3) l(2) _ _ l(1)] True l(3) by auto
    then show ?thesis
      using unlock_two [OF _ _ wfD(2) [OF assms(2)] s(4,5)] by blast
  qed (use assms gf h in \<open>simp add: wayca_sc_group_attach_group_def\<close>)
qed

lemma detach_group_group:
  assumes "wf s" "gheap s g = Some G" "gheap s f = Some F" "g \<noteq> f"
  shows "\<exists>r s'. wayca_sc_group_detach_group s (g_id G) (g_id F) = Some (r, s') \<and> wf s'
    \<and> (r = 0 \<longleftrightarrow> g_father G = Some f) \<and> (r \<noteq> 0 \<longrightarrow> r = - EINVAL)
    \<and> theap s' = theap s \<and> tcnt (gheap s') = tcnt (gheap s) \<and> gids (gheap s') = gids (gheap s)
    \<and> (r = 0 \<longrightarrow> (\<exists>G'. gheap s' g = Some G' \<and> g_father G' = None)
         \<and> gcnt (gheap s') = (gcnt (gheap s))(f := g_nr_groups F - 1))"
proof -
  have ids: "id_to_wayca_group s (g_id G) = Some g" "id_to_wayca_group s (g_id F) = Some f"
    using assms id_to_group_iff wfD(1) by blast+
  obtain s1 where s1: "lock_g g s = Some s1" "s1 = s\<lparr>gheap := (gheap s)(g \<mapsto> G\<lparr>g_locked := True\<rparr>)\<rparr>"
    using lock_ok [OF assms(1,2)] by blast
  have "\<not> g_locked F"
    using assms(1,3) by (simp add: wf_def unlocked_def)
  then obtain s2 where s2: "lock_g f s1 = Some s2"
    using assms(3,4) by (simp add: s1(2) lock_g_def upd_g_def)
  note l = lock_two [OF assms(1) s1(1) s2 assms(2,3)]
  have h2: "gheap s2 f = Some (F\<lparr>g_locked := True\<rparr>)" "gheap s2 g = Some (G\<lparr>g_locked := True\<rparr>)"
    using l(1,4) by simp_all
  obtain r s3 where d: "wayca_group_delete_group s2 g f = Some (r, s3)" "struct_ok s3" "locks s3 = locks s2"
      "r = 0 \<longleftrightarrow> g_father (G\<lparr>g_locked := True\<rparr>) = Some f" "r \<noteq> 0 \<longrightarrow> r = - EINVAL \<and> s3 = s2"
      "tside s3 = tside s2"
      "r = 0 \<longrightarrow> (\<exists>G'. gheap s3 g = Some G' \<and> g_father G' = None)
         \<and> gcnt (gheap s3) = (gcnt (gheap s2))(f := g_nr_groups (F\<lparr>g_locked := True\<rparr>) - 1)"
    using delete_group_struct [OF l(2) h2 l(1)] by (elim exE conjE) (rule that)
  have lk: "locks s3 = (locks s)(g \<mapsto> True, f \<mapsto> True)"
    using d(3) l(3) by simp
  have "locks s3 f = Some True" "locks s3 g = Some True"
    using l(1) by (simp_all add: lk)
  then have "gheap s3 f \<noteq> None" "gheap s3 g \<noteq> None"
    by (auto simp: locks_def)
  then obtain s4 s5 where u: "unlock_g f s3 = Some s4" "unlock_g g s4 = Some s5"
    using l(1) by (auto simp: unlock_g_def upd_g_def)
  have sh: "shape s5 = shape s3" "theap s5 = theap s3"
    using unlock_g_shape(1,3) [OF u(1)] unlock_g_shape(1,3) [OF u(2)] by simp_all
  have "shape s2 = shape s"
    using lock_g_shape(1) [OF s1(1)] lock_g_shape(1) [OF s2] by simp
  then have "tcnt (gheap s5) = tcnt (gheap s)" "gids (gheap s5) = gids (gheap s)" "theap s5 = theap s"
    using shape_obs(4,8) [OF sh(1)] shape_obs(4,8) [of s2 s] d(6) sh(2) l(5) by (simp_all add: tside_def)
  moreover have "r = 0 \<longrightarrow> (\<exists>G'. gheap s5 g = Some G' \<and> g_father G' = None)
         \<and> gcnt (gheap s5) = (gcnt (gheap s))(f := g_nr_groups F - 1)"
  proof (intro impI conjI)
    assume "r = 0"
    then obtain G' where "gheap s3 g = Some G'" "g_father G' = None"
      using d(7) by blast
    then show "\<exists>G'. gheap s5 g = Some G' \<and> g_father G' = None"
      using shape_some [OF sh(1), of g G'] by (auto simp: gshape_def)
    show "gcnt (gheap s5) = (gcnt (gheap s))(f := g_nr_groups F - 1)"
      using shape_obs(6) [OF sh(1)] d(7) \<open>r = 0\<close> shape_obs(6) [OF \<open>shape s2 = shape s\<close>] by simp
  qed
  moreover have "wayca_sc_group_detach_group s (g_id G) (g_id F) = Some (r, s5)"
    using ids s1(1) s2 d(1) u by (simp add: wayca_sc_group_detach_group_def)
  moreover have "wf s5"
    using unlock_two [OF d(2) lk wfD(2) [OF assms(1)] u] .
  ultimately show ?thesis
    using d(4,5) by (intro exI [of _ r] exI [of _ s5]) simp
qed

lemma detach_group_group_wf:
  assumes "wayca_sc_group_detach_group s i j = Some (ret, s')" "wf s"
  shows "wf s'"
proof (cases "id_to_wayca_group s i = None \<or> id_to_wayca_group s j = None")
  case True
  then show ?thesis
    using assms by (auto simp: wayca_sc_group_detach_group_def split: option.splits)
next
  case False
  then obtain g f where gf: "id_to_wayca_group s i = Some g" "id_to_wayca_group s j = Some f"
    by auto
  then obtain G F where h: "gheap s g = Some G" "gheap s f = Some F" "g_id G = i" "g_id F = j"
    using id_to_group_iff wfD(1) [OF assms(2)] by blast
  obtain s1 s2 where s: "lock_g g s = Some s1" "lock_g f s1 = Some s2"
    using assms(1) gf by (auto simp: wayca_sc_group_detach_group_def bind_eq_Some_conv)
  obtain r s3 where "wayca_sc_group_detach_group s i j = Some (r, s3)" "wf s3"
    using detach_group_group [OF assms(2) h(1,2) lock_two(1) [OF assms(2) s h(1,2)]] h(3,4) by blast
  then show ?thesis
    using assms(1) by simp
qed

text \<open>Destroying a group either refuses with \<^verbatim>\<open>-EBUSY\<close>, exactly when the group still has members, or
  removes it and only it.\<close>

lemma group_free_eq:
  assumes "gheap s g = Some G" "wf s"
  shows "wayca_group_free s g = Some (s\<lparr>groups_array := (groups_array s)[g_id G := None], gheap := (gheap s)(g := None)\<rparr>)"
proof -
  have "g_id G < length (groups_array s)"
    using wfD(1) [OF assms(2)] assms(1) unfolding struct_ok_def ids_ok_def
    by (auto intro!: table_okD(1) simp: gids_def)
  then show ?thesis
    using assms(1) by (simp add: wayca_group_free_def wr_def)
qed

lemma group_destroy:
  assumes "wf s" "gheap s g = Some G"
  shows "\<exists>r s'. wayca_sc_group_destroy s (g_id G) = Some (r, s') \<and> wf s' \<and> theap s' = theap s
    \<and> (if g_nr_threads G \<noteq> 0 \<or> g_nr_groups G \<noteq> 0 then r = - EBUSY \<and> s' = s
       else r = 0 \<and> gids (gheap s') = (gids (gheap s))(g := None))"
proof -
  have idg: "id_to_wayca_group s (g_id G) = Some g"
    using assms id_to_group_iff wfD(1) by blast
  have "\<not> g_locked G"
    using assms by (simp add: wf_def unlocked_def)
  then have id: "unlock_g g (s\<lparr>gheap := (gheap s)(g \<mapsto> G\<lparr>g_locked := True\<rparr>)\<rparr>) = Some s"
    using assms(2) by (simp add: unlock_g_def upd_g_def fun_upd_idem)
  obtain s1 where s1: "lock_g g s = Some s1" "s1 = s\<lparr>gheap := (gheap s)(g \<mapsto> G\<lparr>g_locked := True\<rparr>)\<rparr>"
    using lock_ok [OF assms] by blast
  have s1': "unlock_g g s1 = Some s" "gheap s1 g = Some (G\<lparr>g_locked := True\<rparr>)"
    using id s1(2) by simp_all
  show ?thesis
  proof (cases "g_nr_threads G \<noteq> 0 \<or> g_nr_groups G \<noteq> 0")
    case True
    then show ?thesis
      using idg s1(1) s1' assms(1) by (auto simp: wayca_sc_group_destroy_def)
  next
    case False
    then have z: "g_nr_threads G = 0" "g_nr_groups G = 0" by simp_all
    show ?thesis
    proof (cases "g_father G")
      case None
      then have "wayca_sc_group_destroy s (g_id G) = Some (0, s\<lparr>groups_array :=
          (groups_array s)[g_id G := None], gheap := (gheap s)(g := None)\<rparr>)"
        using z idg s1(1) s1' group_free_eq [OF assms(2,1)] by (simp add: wayca_sc_group_destroy_def)
      then show ?thesis
        using wf_free_group [OF assms None z] z by (simp add: gids_del)
    next
      case (Some f)
      obtain GL where ow: "gl.owned (gheap s) (dom (gheap s)) GL (gfirst (gheap s)) (gcnt (gheap s))"
        using wfD(1) [OF assms(1)] by (auto simp: struct_ok_def groups_ok_def)
      have gD: "g \<in> dom (gheap s)" "f \<in> dom (gheap s)"
        using assms(2) gl.ownedD(2) [OF ow assms(2) Some] by auto
      then obtain F where F: "gheap s f = Some F" by auto
      have "GL g = []"
        using gl.owned_lst(2) [OF ow gD(1)] obs_g(4) [OF assms(2)] z(2) by simp
      then have "g \<noteq> f"
        using gl.ownedD(3) [OF ow assms(2) gD(1)] Some by auto
      from detach_group_group [OF assms F this] Some
      obtain s2 where s2: "wayca_sc_group_detach_group s (g_id G) (g_id F) = Some (0, s2)" "wf s2"
          "theap s2 = theap s" "tcnt (gheap s2) = tcnt (gheap s)" "gids (gheap s2) = gids (gheap s)"
          "\<exists>G'. gheap s2 g = Some G' \<and> g_father G' = None"
          "gcnt (gheap s2) = (gcnt (gheap s))(f := g_nr_groups F - 1)"
        by (elim exE conjE) simp
      obtain G2 where G2: "gheap s2 g = Some G2" "g_father G2 = None"
        using s2(6) by blast
      have "g_id G2 = g_id G" "g_nr_groups G2 = 0" "g_nr_threads G2 = 0"
        using z obs_g [OF G2(1)] obs_g [OF assms(2)] s2(4,5,7) \<open>g \<noteq> f\<close> by simp_all
      from wf_free_group [OF s2(2) G2 this(3,2)] this(1) show ?thesis
        using z idg s1(1) s1' group_free_eq [OF G2(1) s2(2)] Some F s2(1,3,5)
        by (simp add: wayca_sc_group_destroy_def gids_del)
    qed
  qed
qed

lemma group_destroy_wf:
  assumes "wayca_sc_group_destroy s i = Some (ret, s')" "wf s"
  shows "wf s'"
proof (cases "id_to_wayca_group s i")
  case None
  then show ?thesis
    using assms by (simp add: wayca_sc_group_destroy_def)
next
  case (Some g)
  then obtain G where G: "gheap s g = Some G" "g_id G = i"
    using id_to_group_iff [OF wfD(1) [OF assms(2)]] by blast
  obtain r s1 where "wayca_sc_group_destroy s i = Some (r, s1)" "wf s1"
    using group_destroy [OF assms(2) G(1)] G(2) by blast
  then show ?thesis
    using assms(1) by simp
qed

section \<open>Reachable states\<close>

text \<open>The calls of the API that change the state, with the values they get from outside. \<open>api s c\<close>
  is the return value and the state after the call, \<open>None\<close> when the call does not return.\<close>

datatype api_call =
    Thread_create bool "addr option" addr "addr option" int int cpu_set_t
  | Thread_join nat int
  | Thread_set_attr nat "ulong option" int
  | Pid_attach bool int "addr option" int "int + cpu_set_t"
  | Pid_detach nat
  | Thread_attach_group nat nat
  | Thread_detach_group nat nat
  | Group_create bool "addr option"
  | Group_destroy nat
  | Group_set_attr nat "ulong option"
  | Group_get_attr nat bool
  | Group_attach_group nat nat
  | Group_detach_group nat nat

fun api :: "sched \<Rightarrow> api_call \<Rightarrow> (int \<times> sched) option" where
  "api s (Thread_create nn routine arg m created tid aff) =
     map_option (\<lambda>(r, _, s). (r, s)) (wayca_sc_thread_create s nn routine arg m created tid aff)"
| "api s (Thread_join i joined) = wayca_sc_thread_join s i joined"
| "api s (Thread_set_attr i attr r) = wayca_sc_thread_set_attr s i attr r"
| "api s (Pid_attach nn pid m self aff) =
     map_option (\<lambda>(r, _, s). (r, s)) (wayca_sc_pid_attach_thread s nn pid m self aff)"
| "api s (Pid_detach i) = wayca_sc_pid_detach_thread s i"
| "api s (Thread_attach_group i j) = wayca_sc_thread_attach_group s i j"
| "api s (Thread_detach_group i j) = wayca_sc_thread_detach_group s i j"
| "api s (Group_create nn m) = map_option (\<lambda>(r, _, s). (r, s)) (wayca_sc_group_create s nn m)"
| "api s (Group_destroy i) = wayca_sc_group_destroy s i"
| "api s (Group_set_attr i attr) = map_option (\<lambda>(r, _, s). (r, s)) (wayca_sc_group_set_attr s i attr)"
| "api s (Group_get_attr i nn) = map_option (\<lambda>(r, _, s). (r, s)) (wayca_sc_group_get_attr s i nn)"
| "api s (Group_attach_group i j) = wayca_sc_group_attach_group s i j"
| "api s (Group_detach_group i j) = wayca_sc_group_detach_group s i j"

text \<open>\<^verbatim>\<open>malloc\<close> returns an address at which no object lives.\<close>

fun malloc_fresh :: "sched \<Rightarrow> api_call \<Rightarrow> bool" where
  "malloc_fresh s (Thread_create _ _ _ m _ _ _) = (case m of None \<Rightarrow> True | Some a \<Rightarrow> theap s a = None)"
| "malloc_fresh s (Pid_attach _ _ m _ _) = (case m of None \<Rightarrow> True | Some a \<Rightarrow> theap s a = None)"
| "malloc_fresh s (Group_create _ m) = (case m of None \<Rightarrow> True | Some a \<Rightarrow> gheap s a = None)"
| "malloc_fresh s _ = True"

lemma api_wf:
  assumes "api s c = Some (r, s')" "malloc_fresh s c" "wf s"
  shows "wf s'"
  using assms
  by (cases c) (auto split: option.splits elim: thread_create_wf thread_join_wf thread_set_attr_wf
      pid_attach_wf pid_detach_wf attach_group_thread_wf thread_detach_group_wf group_create_wf
      group_destroy_wf group_set_attr_wf group_get_attr_wf attach_group_group_wf
      detach_group_group_wf)

inductive reachable :: "sched \<Rightarrow> sched \<Rightarrow> bool" for s0 where
  init: "reachable s0 s0"
| step: "reachable s0 s \<Longrightarrow> malloc_fresh s c \<Longrightarrow> api s c = Some (r, s') \<Longrightarrow> reachable s0 s'"

text \<open>A sequence of successful calls that satisfy \<open>ok\<close>.\<close>

fun run_calls :: "(sched \<Rightarrow> api_call \<Rightarrow> bool) \<Rightarrow> sched \<Rightarrow> api_call list \<Rightarrow> sched option" where
  "run_calls ok s [] = Some s"
| "run_calls ok s (c # cs) = (if \<not> ok s c then None else do {
     (r, s) \<leftarrow> api s c;
     if r = 0 then run_calls ok s cs else None
   })"

lemma run_calls_reachable: "run_calls malloc_fresh s cs = Some s' \<Longrightarrow> reachable s0 s \<Longrightarrow> reachable s0 s'"
  by (induction cs arbitrary: s)
    (auto split: if_splits simp: bind_eq_Some_conv intro: reachable.step)

text \<open>The state after the initialisation of the library: empty tables, no object.\<close>

definition start_state :: "sched \<Rightarrow> bool" where
  "start_state s \<longleftrightarrow> (\<forall>a. theap s a = None) \<and> (\<forall>a. gheap s a = None)
     \<and> set (threads_array s) \<subseteq> {None} \<and> set (groups_array s) \<subseteq> {None}"

lemma table_ok_empty: "set arr \<subseteq> {None} \<Longrightarrow> table_ok arr (\<lambda>_. None)"
  by (rule table_okI) (auto dest!: nth_mem)

lemma start_wf:
  assumes "start_state s"
  shows "wf s"
proof -
  have h: "theap s = (\<lambda>_. None)" "gheap s = (\<lambda>_. None)"
    using assms by (auto simp: start_state_def)
  have "threads_ok s (\<lambda>_. [])" "groups_ok s (\<lambda>_. [])"
    by (simp_all add: threads_ok_def groups_ok_def tl.owned_def gl.owned_def tl.view_def gl.view_def h)
  moreover have "ids_ok s"
    using assms table_ok_empty
    by (simp add: ids_ok_def tids_def [abs_def] gids_def [abs_def] h start_state_def)
  moreover have "kinds_ok s" "unlocked s"
    by (simp_all add: kinds_ok_def unlocked_def tcnt_def h)
  ultimately show ?thesis
    unfolding wf_def struct_ok_def by blast
qed

text \<open>C1. In every state the thread and group API can reach from the initialised library, by any
  sequence of calls with any results of the system calls, the data structure is consistent: the
  slot of an identifier holds the live object with that identifier and every live object has its
  slot; the threads (child groups) linked from a group are exactly the live threads (groups) whose
  back pointer names it, each linked once, in a list that ends, of the length the group's counter
  gives; no group has both threads and child groups; and no group mutex is left held.\<close>

theorem reachable_wf:
  assumes "reachable s0 s" "start_state s0"
  shows "wf s"
  using assms
proof (induction rule: reachable.induct)
  case init
  then show ?case by (rule start_wf)
next
  case (step s c r s')
  then show ?case using api_wf by blast
qed

lemma sample_start: "start_state sample_sched"
  by (simp add: start_state_def sample_sched_def)

definition sample_calls :: "api_call list" where
  "sample_calls = [Group_create True (Some 1), Thread_create True (Some 5) 0 (Some 1) 0 77 sample_cpus,
     Thread_attach_group 0 0]"

theorem reachable_wf_witness:
  "\<exists>s. run_calls malloc_fresh sample_sched sample_calls = Some s \<and> wf s
     \<and> map_option t_group (theap s 1) = Some (Some 1)"
proof -
  have "map_option (\<lambda>s. map_option t_group (theap s 1)) (run_calls malloc_fresh sample_sched sample_calls)
      = Some (Some (Some 1))"
    by code_simp
  then obtain s where s: "run_calls malloc_fresh sample_sched sample_calls = Some s"
      "map_option t_group (theap s 1) = Some (Some 1)"
    by (auto simp del: map_option_eq_Some)
  then show ?thesis
    using reachable_wf [OF run_calls_reachable [OF s(1) reachable.init] sample_start] by blast
qed

end
