(* ===== verification/Loads.thy ===== *)
theory Loads
  imports ThreadsInv
begin

text \<open>
  The accounting of \<^verbatim>\<open>wayca_cpu_loads\<close>: the load of a CPU is the sum of the loads of the threads
  whose current CPU set contains it. The operations of the API keep it, except the two that count a
  thread's load twice: \<^verbatim>\<open>wayca_sc_pid_detach_thread\<close> and \<^verbatim>\<open>wayca_sc_thread_set_attr\<close> on a
  thread in a group.
\<close>

section \<open>The accounted threads\<close>

definition set_load :: "int \<Rightarrow> cpu_set_t \<Rightarrow> nat \<Rightarrow> int" where
  "set_load n c i = (if i \<in> cpus c then div_round_up n (CPU_COUNT c) else 0)"

definition curs :: "sched \<Rightarrow> addr \<Rightarrow> cpu_set_t option" where
  "curs s t = map_option t_cur_set (theap s t)"

definition ncpus :: "sched \<Rightarrow> int" where
  "ncpus s = wayca_sc_cpus_in_total (tstate s)"

definition total_load :: "int \<Rightarrow> (addr \<Rightarrow> cpu_set_t option) \<Rightarrow> addr set \<Rightarrow> nat \<Rightarrow> int" where
  "total_load n cs D i = (\<Sum>t \<in> D. case cs t of None \<Rightarrow> 0 | Some c \<Rightarrow> set_load n c i)"

definition accounts :: "sched \<Rightarrow> addr set \<Rightarrow> bool" where
  "accounts s D \<longleftrightarrow> finite D
     \<and> (\<forall>t \<in> D. \<exists>c. curs s t = Some c \<and> cs_ok c \<and> cpus c \<subseteq> {..<length (cpu_loads s)})
     \<and> (\<forall>i < length (cpu_loads s). cpu_loads s ! i = total_load (ncpus s) (curs s) D i)"

definition loads_ok :: "sched \<Rightarrow> bool" where
  "loads_ok s \<longleftrightarrow> accounts s (dom (theap s))"

lemma dom_curs: "dom (curs s) = dom (theap s)"
  by (auto simp: curs_def dom_def)

lemma accounts_cong:
  assumes "accounts s D" "\<And>t. t \<in> D \<Longrightarrow> curs s' t = curs s t" "cpu_loads s' = cpu_loads s"
    and "ncpus s' = ncpus s"
  shows "accounts s' D"
proof -
  have "total_load (ncpus s) (curs s') D i = total_load (ncpus s) (curs s) D i" for i
    unfolding total_load_def by (rule sum.cong) (simp_all add: assms(2))
  then show ?thesis
    using assms unfolding accounts_def by simp
qed

text \<open>What the accounting depends on.\<close>

definition lview :: "sched \<Rightarrow> (addr \<Rightarrow> cpu_set_t option) \<times> int list \<times> wayca_topo" where
  "lview s = (curs s, cpu_loads s, topo (tstate s))"

lemma loads_ok_lview:
  assumes "lview s' = lview s" "loads_ok s"
  shows "loads_ok s'"
proof -
  have v: "curs s' = curs s" "cpu_loads s' = cpu_loads s" "ncpus s' = ncpus s"
    using assms(1) by (simp_all add: lview_def ncpus_def wayca_sc_cpus_in_total_def)
  then have "dom (theap s') = dom (theap s)"
    using dom_curs by metis
  then show ?thesis
    using assms(2) accounts_cong [of s "dom (theap s)" s'] v by (simp add: loads_ok_def)
qed

lemma update_load_bound:
  assumes "cs_ok c"
  shows "\<forall>ls r. length ls = n \<longrightarrow> update_load_loop c l (first_of (cpus c)) ls = Some r \<longrightarrow>
    from_pos (cpus c) (first_of (cpus c)) \<subseteq> {..<n}"
proof (rule cs.scan_induct [OF assms])
  show "\<forall>ls r. length ls = n \<longrightarrow> update_load_loop c l (- 1) ls = Some r \<longrightarrow>
    from_pos (cpus c) (- 1) \<subseteq> {..<n}"
    by simp
next
  fix p
  assume p: "p \<in> cpus c" and IH: "\<forall>ls r. length ls = n \<longrightarrow>
    update_load_loop c l (next_of (cpus c) (int p)) ls = Some r \<longrightarrow>
    from_pos (cpus c) (next_of (cpus c) (int p)) \<subseteq> {..<n}"
  show "\<forall>ls r. length ls = n \<longrightarrow> update_load_loop c l (int p) ls = Some r \<longrightarrow>
    from_pos (cpus c) (int p) \<subseteq> {..<n}"
  proof (intro allI impI)
    fix ls r
    assume n: "length ls = n" and u: "update_load_loop c l (int p) ls = Some r"
    have "do { x \<leftarrow> rdi ls (int p);
        ls' \<leftarrow> wri ls (int p) (x + l);
        update_load_loop c l (next_of (cpus c) (int p)) ls' } = Some r"
      using u next_set_of [OF assms p] by (subst (asm) update_load_loop.simps) simp
    then have "p < n \<and> (\<exists>ls'. length ls' = n \<and> update_load_loop c l (next_of (cpus c) (int p)) ls' = Some r)"
      using n by (auto simp: bind_eq_Some_conv rd_def wr_def split: if_splits
          intro!: exI [of _ "ls[p := ls ! p + l]"])
    then show "from_pos (cpus c) (int p) \<subseteq> {..<n}"
      using IH from_pos_next(1) [OF finite_cpus p] by auto
  qed
qed

lemma update_load_eq:
  assumes "wayca_thread_update_load s t add = Some s'" "curs s t = Some c" "cs_ok c"
  shows "cpus c \<subseteq> {..<length (cpu_loads s)}"
    and "s' = s\<lparr>cpu_loads := add_load (cpus c) ((if add then 1 else - 1) * div_round_up (ncpus s) (CPU_COUNT c))
           (cpu_loads s)\<rparr>"
proof -
  obtain T where T: "theap s t = Some T" "t_cur_set T = c"
    using assms(2) by (auto simp: curs_def)
  show sub: "cpus c \<subseteq> {..<length (cpu_loads s)}"
  proof (cases "CPU_COUNT c = 0")
    case True
    then show ?thesis using assms(3) by (simp add: cset)
  next
    case False
    then obtain l ls where "update_load_loop c l (first_of (cpus c)) (cpu_loads s) = Some ls"
      using assms(1,3) T by (auto simp: wayca_thread_update_load_def bind_eq_Some_conv cpuset_searches Let_def)
    then show ?thesis
      using update_load_bound [OF assms(3), of "length (cpu_loads s)" l] by simp
  qed
  then show "s' = s\<lparr>cpu_loads := add_load (cpus c) ((if add then 1 else - 1) * div_round_up (ncpus s) (CPU_COUNT c))
           (cpu_loads s)\<rparr>"
    using thread_update_load [OF T(1), of add] assms(1,3) T(2) by (simp add: thread_load_def ncpus_def)
qed

lemma update_load_frame_l:
  assumes "wayca_thread_update_load s t b = Some s'"
  shows "theap s' = theap s" "curs s' = curs s" "ncpus s' = ncpus s" "gheap s' = gheap s"
  using update_load_frame [OF assms] by (auto simp: curs_def ncpus_def)

lemma update_load_minus:
  assumes "accounts s D" "t \<in> D" "wayca_thread_update_load s t False = Some s'"
  shows "accounts s' (D - {t})"
proof -
  obtain c where c: "curs s t = Some c" "cs_ok c" and fin: "finite D"
    using assms(1,2) by (auto simp: accounts_def)
  note e = update_load_eq(2) [OF assms(3) c] and f = update_load_frame_l [OF assms(3)]
  have "total_load n (curs s) D i = set_load n c i + total_load n (curs s) (D - {t}) i" for n i
    using sum.remove [OF fin assms(2), of "\<lambda>t. case curs s t of None \<Rightarrow> 0 | Some c \<Rightarrow> set_load n c i"]
    by (simp add: total_load_def c(1))
  then show ?thesis
    using assms(1) f unfolding accounts_def by (simp add: e set_load_def)
qed

lemma update_load_plus:
  assumes "accounts s D" "t \<notin> D" "wayca_thread_update_load s t True = Some s'"
    and "curs s t = Some c" "cs_ok c"
  shows "accounts s' (insert t D)"
proof -
  note e = update_load_eq [OF assms(3-5)] and f = update_load_frame_l [OF assms(3)]
  have fin: "finite D"
    using assms(1) by (simp add: accounts_def)
  have "total_load n (curs s) (insert t D) i = set_load n c i + total_load n (curs s) D i" for n i
    using fin assms(2) by (simp add: total_load_def assms(4))
  then show ?thesis
    using assms(1,4,5) f e(1) unfolding accounts_def by (simp add: e(2) set_load_def)
qed

section \<open>Operations that do not touch loads\<close>

lemma lview_upd_g: "upd_g g f s = Some s' \<Longrightarrow> lview s' = lview s"
  by (auto simp: upd_g_def lview_def curs_def [abs_def])

lemma lview_upd_t:
  assumes "upd_t t f s = Some s'" "\<And>T. theap s t = Some T \<Longrightarrow> t_cur_set (f T) = t_cur_set T"
  shows "lview s' = lview s"
  using assms by (auto simp: upd_t_def lview_def curs_def fun_eq_iff)

lemma lview_lock: "lock_g g s = Some s' \<Longrightarrow> lview s' = lview s"
  by (auto simp: lock_g_eq dest: lview_upd_g)

lemma lview_unlock: "unlock_g g s = Some s' \<Longrightarrow> lview s' = lview s"
  by (simp add: unlock_g_def lview_upd_g)

lemma lview_affinity [simp]: "lview (s\<lparr>affinity := a\<rparr>) = lview s"
  by (simp add: lview_def curs_def [abs_def])

lemma lview_request_from_father:
  "wayca_group_request_resource_from_father s g c = Some (c', s') \<Longrightarrow> lview s' = lview s"
  by (auto simp: wayca_group_request_resource_from_father_def Let_def bind_eq_Some_conv
      dest!: lview_upd_g)

lemma lview_request: "wayca_group_request_resource s g = Some (r, s') \<Longrightarrow> lview s' = lview s"
  by (auto simp: wayca_group_request_resource_def Let_def bind_eq_Some_conv split: if_splits
      dest!: lview_upd_g lview_request_from_father)

lemma topo_level: "topo (snd (topo_level_cpus ts a)) = topo ts"
  by (simp add: topo_level_cpus_def snd_map_prod)

lemma lview_arrange:
  assumes "wayca_group_arrange s g = Some (r, s')"
  shows "lview s' = lview s"
proof -
  obtain G where G: "gheap s g = Some G"
    using assms by (auto simp: wayca_group_arrange_def bind_eq_Some_conv)
  obtain l ts where lt: "topo_level_cpus (tstate s) (g_attribute G AND 0xffff) = (l, ts)"
    by fastforce
  have ts: "lview (s\<lparr>tstate := ts\<rparr>) = lview s"
    using topo_level [of "tstate s" "g_attribute G AND 0xffff"] lt
    by (simp add: lview_def curs_def [abs_def])
  show ?thesis
  proof (cases l)
    case None
    then show ?thesis
      using assms G lt ts by (auto simp: wayca_group_arrange_def)
  next
    case (Some n)
    then obtain G' s1 where "upd_g g (\<lambda>_. G') (s\<lparr>tstate := ts\<rparr>) = Some s1"
        "wayca_group_request_resource s1 g = Some (r, s')"
      using assms G lt by (auto simp: wayca_group_arrange_def Let_def bind_eq_Some_conv)
    then show ?thesis
      using lview_upd_g lview_request ts by metis
  qed
qed

lemma curs_unlink_loop:
  assumes "thread_unlink_loop h p t = Some h'"
  shows "map_option t_cur_set (h' x) = map_option t_cur_set (h x)"
proof -
  have "\<forall>x. map_option t_cur_set (h' x) = map_option t_cur_set (h x)"
    using assms
  proof (rule thread_unlink_loop.raw_induct
      [where P = "\<lambda>h p t h'. \<forall>x. map_option t_cur_set (h' x) = map_option t_cur_set (h x)", rotated], goal_cases)
    case (1 loop h p t h')
    show ?case
    proof (cases p)
      case None
      with 1(2) show ?thesis by simp
    next
      case (Some m)
      then show ?thesis
        using 1(2) 1(1) by (auto simp: Let_def bind_eq_Some_conv split: if_splits)
    qed
  qed
  then show ?thesis by blast
qed

lemma lview_link_thread: "link_thread s g t = Some s' \<Longrightarrow> lview s' = lview s"
  by (auto simp: link_thread_def group_thread_add_to_tail_def bind_eq_Some_conv split: option.splits
      dest!: lview_upd_g lview_upd_t)

lemma lview_unlink_thread:
  assumes "unlink_thread s g t = Some s'"
  shows "lview s' = lview s"
proof -
  obtain s1 s2 where s: "group_thread_delete_thread s g t = Some s1"
      "upd_t t (\<lambda>T. T\<lparr>t_group := None\<rparr>) s1 = Some s2"
      "upd_g g (\<lambda>G. G\<lparr>g_nr_threads := g_nr_threads G - 1\<rparr>) s2 = Some s'"
    using assms by (auto simp: unlink_thread_def bind_eq_Some_conv)
  have loop: "lview (s\<lparr>theap := h\<rparr>) = lview s" if "thread_unlink_loop (theap s) p t = Some h" for h p
    using curs_unlink_loop [OF that] by (simp add: lview_def curs_def fun_eq_iff)
  have "lview s1 = lview s"
    using s(1) by (auto simp: group_thread_delete_thread_def bind_eq_Some_conv split: if_splits
        dest!: lview_upd_g lview_upd_t loop)
  then show ?thesis
    using lview_upd_t [OF s(2)] lview_upd_g [OF s(3)] by simp
qed

lemma lview_delete_thread:
  assumes "wayca_group_delete_thread s g t = Some (r, s')"
  shows "lview s' = lview s"
proof -
  have *: "lview s2 = lview s" if "upd_g g f s = Some s1" "unlink_thread s1 g t = Some s2" for f s1 s2
    using that lview_upd_g lview_unlink_thread by metis
  show ?thesis
    using assms *
    by (auto simp: wayca_group_delete_thread_def bind_eq_Some_conv unlink_thread_def split: if_splits)
qed

lemma lview_link_group: "link_group s g f = Some s' \<Longrightarrow> lview s' = lview s"
  by (auto simp: link_group_def group_group_add_to_tail_def bind_eq_Some_conv split: option.splits
      dest!: lview_upd_g)

lemma lview_delete_group_list: "group_group_delete_group s g f = Some s' \<Longrightarrow> lview s' = lview s"
proof -
  have "lview (s\<lparr>gheap := h\<rparr>) = lview s" for s h
    by (simp add: lview_def curs_def [abs_def])
  then show "group_group_delete_group s g f = Some s' \<Longrightarrow> lview s' = lview s"
    by (auto simp: group_group_delete_group_def bind_eq_Some_conv split: if_splits dest!: lview_upd_g)
qed

lemma lview_delete_group: "wayca_group_delete_group s g f = Some (r, s') \<Longrightarrow> lview s' = lview s"
  by (auto simp: wayca_group_delete_group_def bind_eq_Some_conv split: if_splits
      dest!: lview_upd_g lview_delete_group_list)

section \<open>Operations that move a thread\<close>

lemma cs_ok_fold_set: "cs_ok c \<Longrightarrow> cs_ok (fold CPU_SET xs c)"
  by (induction xs arbitrary: c) (simp_all add: cset)

lemma assign_set_ok:
  assumes "assign_resource ls G T = Some (G', T')"
  shows "cs_ok (t_cur_set T')"
  using assms
  by (auto simp: assign_resource_def Let_def bind_eq_Some_conv cset intro!: cs_ok_fold_set)

lemma assign_frame:
  assumes "wayca_group_assign_thread_resource s g t = Some s'"
  shows "\<exists>c. curs s' = (curs s)(t \<mapsto> c) \<and> cs_ok c" "cpu_loads s' = cpu_loads s" "tstate s' = tstate s"
    "dom (theap s') = dom (theap s)" "t \<in> dom (theap s)"
proof -
  obtain G T G' T' s1 where *: "gheap s g = Some G" "theap s t = Some T"
      "assign_resource (cpu_loads s) G T = Some (G', T')"
      "upd_g g (\<lambda>_. G') s = Some s1" "upd_t t (\<lambda>_. T') s1 = Some s'"
    using assms by (auto simp: wayca_group_assign_thread_resource_def bind_eq_Some_conv)
  have "curs s' = (curs s)(t \<mapsto> t_cur_set T')"
    using *(4,5) by (auto simp: upd_g_def upd_t_def curs_def fun_eq_iff)
  then show "\<exists>c. curs s' = (curs s)(t \<mapsto> c) \<and> cs_ok c"
    using assign_set_ok [OF *(3)] by blast
  show "cpu_loads s' = cpu_loads s" "tstate s' = tstate s" "dom (theap s') = dom (theap s)" "t \<in> dom (theap s)"
    using * by (auto simp: upd_g_def upd_t_def split: if_splits)
qed

lemma rearrange_thread_load:
  assumes "wayca_group_rearrange_thread s t = Some (r, s')"
  shows "\<exists>a. wayca_thread_update_load (s\<lparr>affinity := a\<rparr>) t True = Some s'"
  using assms by (auto simp: wayca_group_rearrange_thread_def Let_def bind_eq_Some_conv)

text \<open>Taking the load off, assigning CPUs and putting the load back.\<close>

lemma loads_ok_move:
  assumes "accounts s (dom (theap s) - {t})" "wayca_group_assign_thread_resource s g t = Some s1"
    and "wayca_group_rearrange_thread s1 t = Some (r, s2)"
  shows "loads_ok s2"
proof -
  note a = assign_frame [OF assms(2)]
  obtain c where c: "curs s1 = (curs s)(t \<mapsto> c)" "cs_ok c"
    using a(1) by blast
  obtain af where u: "wayca_thread_update_load (s1\<lparr>affinity := af\<rparr>) t True = Some s2"
    using rearrange_thread_load [OF assms(3)] by blast
  have cs: "curs (s1\<lparr>affinity := af\<rparr>) = (curs s)(t \<mapsto> c)"
    using c(1) by (simp add: curs_def [abs_def])
  have "accounts (s1\<lparr>affinity := af\<rparr>) (dom (theap s) - {t})"
    using assms(1) by (rule accounts_cong) (simp_all add: cs a(2,3) ncpus_def)
  moreover have "curs (s1\<lparr>affinity := af\<rparr>) t = Some c"
    by (simp add: cs)
  ultimately have "accounts s2 (insert t (dom (theap s) - {t}))"
    using update_load_plus [OF _ _ u _ c(2)] by blast
  moreover have "theap s2 = theap s1"
    using update_load_frame_l(1) [OF u] by simp
  ultimately show ?thesis
    using a(4,5) by (simp add: loads_ok_def insert_absorb)
qed

lemma loads_ok_rearrange_threads:
  assumes "rearrange_threads_loop s g p = Some s'" "loads_ok s"
  shows "loads_ok s'"
proof -
  have "loads_ok s \<longrightarrow> loads_ok s'"
    using assms(1)
  proof (rule rearrange_threads_loop.raw_induct [where P = "\<lambda>s g p s'. loads_ok s \<longrightarrow> loads_ok s'", rotated],
      goal_cases)
    case (1 loop s g p s')
    show ?case
    proof (cases p)
      case None
      with 1(2) show ?thesis by simp
    next
      case (Some t)
      then obtain s1 s2 s3 r T where s: "wayca_thread_update_load s t False = Some s1"
          "wayca_group_assign_thread_resource s1 g t = Some s2"
          "wayca_group_rearrange_thread s2 t = Some (r, s3)" "theap s3 t = Some T"
          "loop s3 g (t_siblings T) = Some s'"
        using 1(2) by (auto simp: bind_eq_Some_conv)
      have "loads_ok s3" if ok: "loads_ok s"
      proof -
        have f: "theap s1 = theap s"
          using update_load_frame_l(1) [OF s(1)] .
        then have "t \<in> dom (theap s)"
          using assign_frame(5) [OF s(2)] by simp
        then have "accounts s1 (dom (theap s1) - {t})"
          using update_load_minus [OF ok [unfolded loads_ok_def] _ s(1)] f by simp
        then show ?thesis
          using loads_ok_move s(2,3) by blast
      qed
      then show ?thesis
        using 1(1) [OF s(5)] by blast
    qed
  qed
  then show ?thesis using assms(2) by blast
qed

lemma loads_ok_rearrange:
  assumes "rearrange w s = Some y" "loads_ok s"
  shows "loads_ok (snd y)"
proof -
  have "loads_ok s \<longrightarrow> loads_ok (snd y)"
    using assms(1)
  proof (rule rearrange.raw_induct [where P = "\<lambda>w s y. loads_ok s \<longrightarrow> loads_ok (snd y)", rotated], goal_cases)
    case (1 f w s y)
    note IH = 1(1)
    show ?case
    proof (cases w)
      case (Rearrange g)
      show ?thesis
        using 1(2) Rearrange
        by (auto simp: bind_eq_Some_conv split: if_splits
            dest!: lview_arrange lview_upd_g loads_ok_rearrange_threads IH intro: loads_ok_lview)
    next
      case (Children p)
      show ?thesis
        using 1(2) Children
        by (cases p) (auto simp: bind_eq_Some_conv dest!: IH)
    qed
  qed
  then show ?thesis using assms(2) by blast
qed

section \<open>The calls of the API\<close>

lemma accounts_upd_t:
  assumes "accounts s D" "t \<notin> D" "upd_t t f s = Some s'"
  shows "accounts s' D" "dom (theap s') = dom (theap s)"
proof -
  obtain T where T: "theap s t = Some T" "s' = s\<lparr>theap := (theap s)(t \<mapsto> f T)\<rparr>"
    using assms(3) by (auto simp: upd_t_def)
  then show "dom (theap s') = dom (theap s)"
    by (auto split: if_splits)
  show "accounts s' D"
    using assms(1) by (rule accounts_cong) (use assms(2) in \<open>auto simp: T(2) curs_def ncpus_def\<close>)
qed

lemma loads_ok_start:
  assumes "accounts s D" "t \<notin> D" "dom (theap s) = insert t D" "cs_ok c" "curs s t = Some c"
    and "wayca_thread_update_load s t True = Some s1" "upd_t t f s1 = Some s2"
    and "\<And>T. t_cur_set (f T) = t_cur_set T"
  shows "loads_ok s2"
proof -
  have "accounts s1 (insert t D)"
    using update_load_plus [OF assms(1,2,6,5,4)] .
  then have "loads_ok s1"
    using update_load_frame_l(1) [OF assms(6)] assms(3) by (simp add: loads_ok_def)
  then show ?thesis
    using lview_upd_t [OF assms(7)] assms(8) loads_ok_lview by blast
qed

lemma alloc_accounts:
  assumes "wf s" "loads_ok s" "\<And>a. m = Some a \<Longrightarrow> theap s a = None"
    and "wayca_thread_alloc s m = (Some t, s1)" "upd_t t f s1 = Some s2"
    and "\<And>T. t_cur_set (f T) = t_cur_set T"
  shows "accounts s2 (dom (theap s))" "t \<notin> dom (theap s)" "dom (theap s2) = insert t (dom (theap s))"
    "curs s2 t = Some CPU_ZERO"
proof -
  have a: "theap s t = None" "cpu_loads s1 = cpu_loads s" "tstate s1 = tstate s"
    "theap s1 = (theap s)(t \<mapsto> zero_thread\<lparr>t_id := snd (find_free_thread_id_locked s)\<rparr>)"
    using thread_alloc [OF assms(1,3,4)] by auto
  show t: "t \<notin> dom (theap s)"
    using a(1) by auto
  have "accounts s1 (dom (theap s))"
    using assms(2) unfolding loads_ok_def
    by (rule accounts_cong) (use t in \<open>auto simp: a(2-4) curs_def ncpus_def\<close>)
  from accounts_upd_t [OF this t assms(5)]
  show "accounts s2 (dom (theap s))" "dom (theap s2) = insert t (dom (theap s))"
    by (simp_all add: a(4))
  show "curs s2 t = Some CPU_ZERO"
    using assms(5,6) by (auto simp: upd_t_def curs_def a(4) zero_thread_def)
qed

lemma free_accounts:
  assumes "accounts s D" "t \<notin> D" "dom (theap s) = insert t D" "curs s t = Some CPU_ZERO"
    and "wayca_thread_free s t = Some s'"
  shows "loads_ok s'"
proof -
  have "wayca_thread_update_load s t False = Some s"
    using assms(4) by (auto simp: wayca_thread_update_load_def curs_def cset)
  then obtain arr where s': "s' = s\<lparr>threads_array := arr, theap := (theap s)(t := None)\<rparr>"
    using assms(5) by (auto simp: wayca_thread_free_def bind_eq_Some_conv)
  have "accounts s' D"
    using assms(1) by (rule accounts_cong) (use assms(2) in \<open>auto simp: s' curs_def ncpus_def\<close>)
  moreover have "dom (theap s') = D"
    using assms(2,3) by (auto simp: s')
  ultimately show ?thesis
    by (simp add: loads_ok_def)
qed

lemma create_loads:
  assumes "wayca_sc_thread_create s nn routine arg m created tid aff = Some (ret, i, s')" "wf s"
    and "\<And>a. m = Some a \<Longrightarrow> theap s a = None" "loads_ok s" "cs_ok aff"
  shows "loads_ok s'"
proof (cases "\<not> nn \<or> routine = None")
  case True
  then show ?thesis
    using assms by (simp add: wayca_sc_thread_create_def)
next
  case False
  obtain r s1 where al: "wayca_thread_alloc s m = (r, s1)"
    by fastforce
  show ?thesis
  proof (cases r)
    case None
    then show ?thesis
      using thread_alloc [OF assms(2,3) al] assms(1,4) False al
      by (auto simp: wayca_sc_thread_create_def)
  next
    case (Some t)
    let ?f = "\<lambda>T. T\<lparr>t_siblings := None, t_group := None, t_start_routine := routine, t_arg := arg,
        t_start := False\<rparr>"
    obtain s2 where s2: "upd_t t ?f s1 = Some s2"
        "(if created \<noteq> 0 then do { s \<leftarrow> wayca_thread_free s2 t; Some (- created, None, s) }
          else do {
            s \<leftarrow> wayca_thread_start_routine s2 t tid aff;
            T \<leftarrow> theap s t;
            Some (0, Some (t_id T), s)
          }) = Some (ret, i, s')"
      using assms(1) False al Some
      by (cases "upd_t t ?f s1") (auto simp: wayca_sc_thread_create_def simp del: not_None_eq)
    note a = alloc_accounts [OF assms(2,4,3) al [unfolded Some] s2(1)]
    have a': "accounts s2 (dom (theap s))" "t \<notin> dom (theap s)" "dom (theap s2) = insert t (dom (theap s))"
      "curs s2 t = Some CPU_ZERO"
      using a by simp_all
    show ?thesis
    proof (cases "created = 0")
      case False
      then show ?thesis
        using s2(2) free_accounts [OF a'] by (auto simp: bind_eq_Some_conv)
    next
      case True
      then obtain b c d where st: "upd_t t (\<lambda>T. T\<lparr>t_pid := tid\<rparr>) s2 = Some b"
          "upd_t t (\<lambda>T. T\<lparr>t_cur_set := CPU_OR CPU_ZERO aff, t_allowed_set := CPU_OR CPU_ZERO aff\<rparr>) b = Some c"
          "wayca_thread_update_load c t True = Some d" "upd_t t (\<lambda>T. T\<lparr>t_start := True\<rparr>) d = Some s'"
        using s2(2) by (auto simp: wayca_thread_start_routine_def bind_eq_Some_conv)
      note b = accounts_upd_t [OF a'(1,2) st(1)]
      note c = accounts_upd_t [OF b(1) a'(2) st(2)]
      have "curs c t = Some (CPU_OR CPU_ZERO aff)"
        using st(2) by (auto simp: upd_t_def curs_def)
      then show ?thesis
        using loads_ok_start [OF c(1) a'(2) _ _ _ st(3,4), of "CPU_OR CPU_ZERO aff"] b(2) c(2) a'(3) assms(5)
        by (simp add: cset)
    qed
  qed
qed

lemma pid_attach_loads:
  assumes "wayca_sc_pid_attach_thread s nn pid m self aff = Some (ret, i, s')" "wf s"
    and "\<And>a. m = Some a \<Longrightarrow> theap s a = None" "loads_ok s" "\<And>cs. aff = Inr cs \<Longrightarrow> cs_ok cs"
  shows "loads_ok s'"
proof (cases "\<not> nn \<or> pid < 0")
  case True
  then show ?thesis
    using assms by (simp add: wayca_sc_pid_attach_thread_def)
next
  case False
  obtain r s1 where al: "wayca_thread_alloc s m = (r, s1)"
    by fastforce
  show ?thesis
  proof (cases r)
    case None
    then show ?thesis
      using thread_alloc [OF assms(2,3) al] assms(1,4) False al
      by (auto simp: wayca_sc_pid_attach_thread_def)
  next
    case (Some t)
    let ?f = "\<lambda>T. T\<lparr>t_siblings := None, t_group := None, t_start_routine := None, t_arg := 0,
        t_pid := if pid = 0 then self else pid\<rparr>"
    obtain s2 where s2: "upd_t t ?f s1 = Some s2"
        "(case aff of Inl err \<Rightarrow> do { s \<leftarrow> wayca_thread_free s2 t; Some (err, None, s) }
          | Inr cs \<Rightarrow> do {
              s \<leftarrow> upd_t t (\<lambda>T. T\<lparr>t_cur_set := CPU_OR CPU_ZERO cs,
                     t_allowed_set := CPU_OR CPU_ZERO cs\<rparr>) s2;
              s \<leftarrow> wayca_thread_update_load s t True;
              s \<leftarrow> upd_t t (\<lambda>T. T\<lparr>t_start := True\<rparr>) s;
              T \<leftarrow> theap s t;
              Some (0, Some (t_id T), s)
            }) = Some (ret, i, s')"
      using assms(1) False al Some
      by (cases "upd_t t ?f s1") (simp_all add: wayca_sc_pid_attach_thread_def)
    note a = alloc_accounts [OF assms(2,4,3) al [unfolded Some] s2(1)]
    have a': "accounts s2 (dom (theap s))" "t \<notin> dom (theap s)" "dom (theap s2) = insert t (dom (theap s))"
      "curs s2 t = Some CPU_ZERO"
      using a by simp_all
    show ?thesis
    proof (cases aff)
      case (Inl err)
      then show ?thesis
        using s2(2) free_accounts [OF a'] by (auto simp: bind_eq_Some_conv)
    next
      case (Inr cs)
      then obtain c d where st:
          "upd_t t (\<lambda>T. T\<lparr>t_cur_set := CPU_OR CPU_ZERO cs, t_allowed_set := CPU_OR CPU_ZERO cs\<rparr>) s2 = Some c"
          "wayca_thread_update_load c t True = Some d" "upd_t t (\<lambda>T. T\<lparr>t_start := True\<rparr>) d = Some s'"
        using s2(2) by (auto simp: bind_eq_Some_conv)
      note c = accounts_upd_t [OF a'(1,2) st(1)]
      have "curs c t = Some (CPU_OR CPU_ZERO cs)"
        using st(1) by (auto simp: upd_t_def curs_def)
      then show ?thesis
        using loads_ok_start [OF c(1) a'(2) _ _ _ st(2,3), of "CPU_OR CPU_ZERO cs"] c(2) a'(3) assms(5) Inr
        by (simp add: cset)
    qed
  qed
qed

lemma free_loads:
  assumes "loads_ok s" "wayca_thread_free s t = Some s'"
  shows "loads_ok s'"
proof -
  obtain s1 T arr where s: "wayca_thread_update_load s t False = Some s1" "theap s1 t = Some T"
      "s' = s1\<lparr>threads_array := arr, theap := (theap s1)(t := None)\<rparr>"
    using assms(2) by (auto simp: wayca_thread_free_def bind_eq_Some_conv)
  have f: "theap s1 = theap s"
    using update_load_frame_l(1) [OF s(1)] .
  have "accounts s1 (dom (theap s) - {t})"
    using assms(1) s(2) f unfolding loads_ok_def by (intro update_load_minus [OF _ _ s(1)]) auto
  then have "accounts s' (dom (theap s) - {t})"
    by (rule accounts_cong) (auto simp: s(3) curs_def ncpus_def)
  then show ?thesis
    by (simp add: loads_ok_def s(3) f)
qed

lemma detach_group_lview:
  "wayca_sc_thread_detach_group s i j = Some (r, s') \<Longrightarrow> lview s' = lview s"
  by (auto simp: wayca_sc_thread_detach_group_def bind_eq_Some_conv split: option.splits
      dest!: lview_lock lview_unlock lview_delete_thread)

lemma leave_group_lview: "leave_group s i t = Some s' \<Longrightarrow> lview s' = lview s"
  by (auto simp: leave_group_def bind_eq_Some_conv split: option.splits dest!: detach_group_lview)

lemma join_loads:
  assumes "wayca_sc_thread_join s i joined = Some (r, s')" "loads_ok s"
  shows "loads_ok s'"
  using assms
  by (auto simp: wayca_sc_thread_join_def bind_eq_Some_conv split: option.splits if_splits
      dest!: leave_group_lview loads_ok_lview intro: free_loads)

lemma set_attr_loads:
  assumes "wayca_sc_thread_set_attr s i attr r = Some (ret, s')" "loads_ok s"
    and "\<And>t T. id_to_wayca_thread s i = Some t \<Longrightarrow> theap s t = Some T \<Longrightarrow> t_group T = None"
  shows "loads_ok s'"
proof (cases "id_to_wayca_thread s i = None \<or> attr = None")
  case True
  then show ?thesis
    using assms by (auto simp: wayca_sc_thread_set_attr_def split: option.splits)
next
  case False
  then obtain t a where ta: "id_to_wayca_thread s i = Some t" "attr = Some a" by auto
  obtain s1 where s1: "upd_t t (\<lambda>T. T\<lparr>t_attribute := a\<rparr>) s = Some s1"
    using assms(1) ta by (auto simp: wayca_sc_thread_set_attr_def bind_eq_Some_conv)
  then obtain T where T: "theap s t = Some T" "theap s1 t = Some (T\<lparr>t_attribute := a\<rparr>)"
    by (auto simp: upd_t_def)
  have "\<exists>l. s' = s1\<lparr>affinity := l\<rparr>"
    using assms(1) ta s1 T(2) assms(3) [OF ta(1) T(1)] by (auto simp: wayca_sc_thread_set_attr_def)
  then show ?thesis
    using lview_upd_t [OF s1] loads_ok_lview [of s' s] assms(2) by auto
qed

lemma add_thread_accounts:
  assumes "wayca_group_add_thread s g t = Some (r, s')"
  shows "if r = 0 then (\<exists>s1. lview s1 = lview s \<and> wayca_group_assign_thread_resource s1 g t = Some s')
    else s' = s"
proof -
  obtain mem G where m: "is_thread_in_group s (Some g) (Some t) = Some mem" "gheap s g = Some G"
    using assms(1) by (auto simp: wayca_group_add_thread_def is_thread_in_group_def bind_eq_Some_conv)
  show ?thesis
  proof (cases "mem \<or> g_nr_groups G \<noteq> 0")
    case True
    then show ?thesis
      using assms m by (auto simp: wayca_group_add_thread_def split: if_splits)
  next
    case False
    then obtain s1 where "link_thread s g t = Some s1" "r = 0"
        "wayca_group_assign_thread_resource s1 g t = Some s'"
      using assms m by (auto simp: wayca_group_add_thread_def link_thread_def bind_eq_Some_conv)
    then show ?thesis
      using lview_link_thread [of s g t s1] by auto
  qed
qed

lemma lviewD:
  assumes "lview s' = lview s"
  shows "curs s' = curs s" "cpu_loads s' = cpu_loads s" "ncpus s' = ncpus s" "dom (theap s') = dom (theap s)"
proof -
  show v: "curs s' = curs s" "cpu_loads s' = cpu_loads s" "ncpus s' = ncpus s"
    using assms by (simp_all add: lview_def ncpus_def wayca_sc_cpus_in_total_def)
  show "dom (theap s') = dom (theap s)"
    using v(1) dom_curs by metis
qed

lemma accounts_lview:
  assumes "lview s' = lview s" "accounts s D"
  shows "accounts s' D"
  using assms(2) by (rule accounts_cong) (simp_all only: lviewD [OF assms(1)])

lemma attach_group_loads:
  assumes "wayca_sc_thread_attach_group s i j = Some (ret, s')" "loads_ok s"
  shows "loads_ok s'"
proof (cases "id_to_wayca_thread s i = None \<or> id_to_wayca_group s j = None")
  case True
  then show ?thesis
    using assms by (auto simp: wayca_sc_thread_attach_group_def split: option.splits)
next
  case False
  then obtain t g where tg: "id_to_wayca_thread s i = Some t" "id_to_wayca_group s j = Some g"
    by auto
  obtain T where T: "theap s t = Some T"
    using assms(1) tg by (auto simp: wayca_sc_thread_attach_group_def bind_eq_Some_conv)
  show ?thesis
  proof (cases "t_group T = None")
    case True
    then obtain s1 s2 where s: "wayca_thread_update_load s t False = Some s1" "lock_g g s1 = Some s2"
      using assms(1) tg T by (auto simp: wayca_sc_thread_attach_group_def bind_eq_Some_conv)
    then obtain r s3 s4 where s4: "wayca_group_add_thread s2 g t = Some (r, s3)"
        "(if r \<noteq> 0 then wayca_thread_update_load s3 t True = Some s4
          else wayca_group_rearrange_thread s3 t = Some (ret, s4))" "unlock_g g s4 = Some s'"
      using assms(1) tg T True
      by (auto simp: wayca_sc_thread_attach_group_def bind_eq_Some_conv split: if_splits)
    have t: "t \<in> dom (theap s)"
      using T by auto
    have th: "theap s2 = theap s"
      using update_load_frame_l(1) [OF s(1)] lock_g_shape(4) [OF s(2)] by simp
    have "accounts s1 (dom (theap s) - {t})"
      using update_load_minus [OF assms(2) [unfolded loads_ok_def] t s(1)] .
    then have ac: "accounts s2 (dom (theap s) - {t})"
      using accounts_lview [OF lview_lock [OF s(2)]] by blast
    have "loads_ok s4"
    proof (cases "r = 0")
      case True
      then obtain s5 where s5: "lview s5 = lview s2" "wayca_group_assign_thread_resource s5 g t = Some s3"
        using add_thread_accounts [OF s4(1)] by auto
      have "accounts s5 (dom (theap s5) - {t})"
        using accounts_lview [OF s5(1) ac] lviewD(4) [OF s5(1)] th by simp
      then show ?thesis
        using loads_ok_move [OF _ s5(2)] s4(2) True by simp
    next
      case False
      then have e: "s3 = s2" "wayca_thread_update_load s2 t True = Some s4"
        using add_thread_accounts [OF s4(1)] s4(2) by simp_all
      obtain c where c: "curs s t = Some c" "cs_ok c"
        using assms(2) t unfolding loads_ok_def accounts_def by blast
      then have "curs s2 t = Some c"
        using th by (simp add: curs_def)
      then have "accounts s4 (insert t (dom (theap s) - {t}))"
        using update_load_plus [OF ac _ e(2) _ c(2)] by simp
      then show ?thesis
        using update_load_frame_l(1) [OF e(2)] th t by (simp add: loads_ok_def insert_absorb)
    qed
    then show ?thesis
      using loads_ok_lview [OF lview_unlock [OF s4(3)]] by blast
  qed (use assms tg T in \<open>simp add: wayca_sc_thread_attach_group_def\<close>)
qed

lemma loads_ok_rearrange_group:
  "wayca_group_rearrange_group s g = Some (r, s') \<Longrightarrow> loads_ok s \<Longrightarrow> loads_ok s'"
  using loads_ok_rearrange [of "Rearrange g" s "(r, s')"] by (simp add: wayca_group_rearrange_group_def)

lemma group_set_attr_loads:
  assumes "wayca_sc_group_set_attr s i attr = Some (ret, a', s')" "loads_ok s"
  shows "loads_ok s'"
  using assms
  by (auto simp: wayca_sc_group_set_attr_def bind_eq_Some_conv Let_def split: option.splits if_splits
      dest!: lview_lock lview_unlock lview_upd_g loads_ok_rearrange_group intro: loads_ok_lview)

lemma group_get_attr_lview:
  "wayca_sc_group_get_attr s i nn = Some (ret, a, s') \<Longrightarrow> lview s' = lview s"
  by (auto simp: wayca_sc_group_get_attr_def bind_eq_Some_conv split: option.splits if_splits
      dest!: lview_lock lview_unlock)

lemma group_create_lview:
  assumes "wayca_sc_group_create s nn m = Some (ret, i, s')"
  shows "lview s' = lview s"
proof -
  have al: "lview s1 = lview s" if "wayca_group_alloc s m = (r, s1)" for r s1
    using that by (auto simp: wayca_group_alloc_def Let_def lview_def curs_def [abs_def]
        split: prod.splits if_splits option.splits)
  have fr: "lview s2 = lview s1" if "wayca_group_free s1 g = Some s2" for g s1 s2
    using that by (auto simp: wayca_group_free_def bind_eq_Some_conv lview_def curs_def [abs_def])
  have init: "lview s2 = lview s1" if "wayca_group_init s1 (Some g) = Some (rt, s2)" for g rt s1 s2
    using that by (auto simp: wayca_group_init_def bind_eq_Some_conv dest!: lview_upd_g lview_arrange)
  show ?thesis
    using assms by (auto simp: wayca_sc_group_create_def bind_eq_Some_conv
        split: if_splits prod.splits option.splits dest!: al fr init)
qed

lemma group_detach_lview:
  "wayca_sc_group_detach_group s i j = Some (r, s') \<Longrightarrow> lview s' = lview s"
  by (auto simp: wayca_sc_group_detach_group_def bind_eq_Some_conv split: option.splits
      dest!: lview_lock lview_unlock lview_delete_group)

lemma group_destroy_lview:
  assumes "wayca_sc_group_destroy s i = Some (r, s')"
  shows "lview s' = lview s"
proof -
  have fr: "lview s2 = lview s1" if "wayca_group_free s1 g = Some s2" for g s1 s2
    using that by (auto simp: wayca_group_free_def bind_eq_Some_conv lview_def curs_def [abs_def])
  show ?thesis
    using assms by (auto simp: wayca_sc_group_destroy_def bind_eq_Some_conv
        split: option.splits if_splits dest!: lview_lock lview_unlock group_detach_lview fr)
qed

lemma add_group_loads:
  assumes "wayca_group_add_group s g f = Some (r, s')" "loads_ok s"
  shows "loads_ok s'"
proof -
  obtain mem F where m: "is_group_in_father s g f = Some mem" "gheap s f = Some F"
    using assms(1) by (auto simp: wayca_group_add_group_def is_group_in_father_def bind_eq_Some_conv)
  show ?thesis
  proof (cases "mem \<or> g_nr_threads F \<noteq> 0")
    case True
    then show ?thesis
      using assms m
      by (auto simp: wayca_group_add_group_def split: if_splits)
  next
    case False
    then obtain s1 rt s2 where s: "link_group s g f = Some s1" "wayca_group_rearrange_group s1 g = Some (rt, s2)"
        "(if rt < 0 then do {
           s \<leftarrow> group_group_delete_group s2 g f;
           s \<leftarrow> upd_g f (\<lambda>F. F\<lparr>g_nr_groups := g_nr_groups F - 1\<rparr>) s;
           s \<leftarrow> upd_g g (\<lambda>G. G\<lparr>g_father := None\<rparr>) s;
           Some (rt, s)
         } else Some (0, s2)) = Some (r, s')"
      using assms(1) m
      by (auto simp: wayca_group_add_group_def link_group_def bind_eq_Some_conv)
    have "loads_ok s2"
      using loads_ok_rearrange_group [OF s(2)] loads_ok_lview [OF lview_link_group [OF s(1)] assms(2)] by blast
    moreover have "lview s' = lview s2"
      using s(3) by (auto simp: bind_eq_Some_conv split: if_splits dest!: lview_upd_g lview_delete_group_list)
    ultimately show ?thesis
      using loads_ok_lview by blast
  qed
qed

lemma group_attach_loads:
  assumes "wayca_sc_group_attach_group s i j = Some (r, s')" "loads_ok s"
  shows "loads_ok s'"
  using assms
  by (auto simp: wayca_sc_group_attach_group_def bind_eq_Some_conv split: option.splits if_splits
      dest!: lview_lock lview_unlock add_group_loads intro: loads_ok_lview)

section \<open>The accounting theorem\<close>

text \<open>The calls of the API for which the accounting holds, with a well-formed set (of 1024 bits) from
  \<^verbatim>\<open>sched_getaffinity\<close>.\<close>

fun accounted_call :: "sched \<Rightarrow> api_call \<Rightarrow> bool" where
  "accounted_call s (Thread_create _ _ _ _ _ _ aff) \<longleftrightarrow> cs_ok aff"
| "accounted_call s (Pid_attach _ _ _ _ aff) \<longleftrightarrow> (case aff of Inl _ \<Rightarrow> True | Inr cs \<Rightarrow> cs_ok cs)"
| "accounted_call s (Pid_detach _) \<longleftrightarrow> False"
| "accounted_call s (Thread_set_attr i _ _) \<longleftrightarrow> (case id_to_wayca_thread s i of None \<Rightarrow> True
     | Some t \<Rightarrow> (case theap s t of None \<Rightarrow> True | Some T \<Rightarrow> t_group T = None))"
| "accounted_call s _ \<longleftrightarrow> True"

lemma api_loads:
  assumes "api s c = Some (r, s')" "malloc_fresh s c" "accounted_call s c" "wf s" "loads_ok s"
  shows "loads_ok s'"
proof (cases c)
  case (Thread_create nn routine arg m created tid aff)
  then show ?thesis using assms by (auto split: option.splits elim: create_loads)
next
  case (Pid_attach nn pid m self aff)
  then show ?thesis
    using assms by (auto split: option.splits sum.splits elim!: pid_attach_loads)
next
  case (Thread_set_attr i attr ret)
  then show ?thesis
    using assms by (auto split: option.splits elim!: set_attr_loads)
qed (use assms in \<open>auto elim: join_loads attach_group_loads group_set_attr_loads group_attach_loads
    dest: detach_group_lview group_create_lview group_destroy_lview group_get_attr_lview
      group_detach_lview intro: loads_ok_lview\<close>)

inductive accounted :: "sched \<Rightarrow> sched \<Rightarrow> bool" for s0 where
  init: "accounted s0 s0"
| step: "accounted s0 s \<Longrightarrow> malloc_fresh s c \<Longrightarrow> accounted_call s c \<Longrightarrow> api s c = Some (r, s')
    \<Longrightarrow> accounted s0 s'"

lemma accounted_wf: "accounted s0 s \<Longrightarrow> start_state s0 \<Longrightarrow> wf s"
  by (induction rule: accounted.induct) (auto intro: start_wf api_wf)

lemma start_loads:
  assumes "start_state s" "set (cpu_loads s) \<subseteq> {0}"
  shows "loads_ok s"
proof -
  have "dom (theap s) = {}"
    using assms(1) by (auto simp: start_state_def)
  moreover have "cpu_loads s ! i = 0" if "i < length (cpu_loads s)" for i
    using nth_mem [OF that] assms(2) by auto
  ultimately show ?thesis
    by (simp add: loads_ok_def accounts_def total_load_def)
qed

lemma accounted_loads:
  assumes "accounted s0 s" "start_state s0" "set (cpu_loads s0) \<subseteq> {0}"
  shows "loads_ok s"
  using assms
proof (induction rule: accounted.induct)
  case init
  then show ?case by (rule start_loads)
next
  case (step s c r s')
  then show ?case using api_loads accounted_wf by blast
qed

text \<open>C2. Load accounting: after any sequence of calls of the thread and group API from the initialised
  library, leaving out \<^verbatim>\<open>wayca_sc_pid_detach_thread\<close> and \<^verbatim>\<open>wayca_sc_thread_set_attr\<close> on threads in
  a group, the load recorded for each CPU is exactly the sum, over the live threads that may
  currently run on it, of the load of a thread: the number of CPUs in the system divided by the
  size of the thread's CPU set, rounded up.\<close>

theorem cpu_loads_exact:
  assumes "accounted s0 s" "start_state s0" "set (cpu_loads s0) \<subseteq> {0}" "i < length (cpu_loads s)"
  shows "cpu_loads s ! i = (\<Sum>t \<in> dom (theap s). let c = t_cur_set (the (theap s t)) in
    if i \<in> cpus c then div_round_up (wayca_sc_cpus_in_total (tstate s)) (CPU_COUNT c) else 0)"
proof -
  have "loads_ok s"
    by (rule accounted_loads [OF assms(1-3)])
  then have "cpu_loads s ! i = total_load (ncpus s) (curs s) (dom (theap s)) i"
    using assms(4) by (simp add: loads_ok_def accounts_def)
  also have "\<dots> = (\<Sum>t \<in> dom (theap s). let c = t_cur_set (the (theap s t)) in
    if i \<in> cpus c then div_round_up (wayca_sc_cpus_in_total (tstate s)) (CPU_COUNT c) else 0)"
    unfolding total_load_def by (rule sum.cong) (auto simp: curs_def set_load_def ncpus_def Let_def)
  finally show ?thesis .
qed

abbreviation "fresh_and_accounted \<equiv> \<lambda>s c. malloc_fresh s c \<and> accounted_call s c"

lemma run_calls_accounted:
  "run_calls fresh_and_accounted s cs = Some s' \<Longrightarrow> accounted s0 s \<Longrightarrow> accounted s0 s'"
  by (induction cs arbitrary: s)
    (auto split: if_splits simp: bind_eq_Some_conv intro: accounted.step)

lemma sample_loads: "set (cpu_loads sample_sched) \<subseteq> {0}"
  by (simp add: sample_sched_def)

theorem cpu_loads_exact_witness:
  "\<exists>s. run_calls fresh_and_accounted sample_sched sample_calls = Some s \<and> cpu_loads s = [4, 0, 0, 0]
     \<and> (\<Sum>t \<in> dom (theap s). let c = t_cur_set (the (theap s t)) in
          if 0 \<in> cpus c then div_round_up (wayca_sc_cpus_in_total (tstate s)) (CPU_COUNT c) else 0) = 4"
proof -
  have "map_option cpu_loads (run_calls fresh_and_accounted sample_sched sample_calls) = Some [4, 0, 0, 0]"
    by code_simp
  then obtain s where s: "run_calls fresh_and_accounted sample_sched sample_calls = Some s"
      "cpu_loads s = [4, 0, 0, 0]"
    by (cases "run_calls fresh_and_accounted sample_sched sample_calls") simp_all
  then show ?thesis
    using cpu_loads_exact [OF run_calls_accounted [OF s(1) accounted.init] sample_start sample_loads, of 0]
    by simp
qed

section \<open>Where the accounting breaks\<close>

text \<open>C37. \<^verbatim>\<open>wayca_sc_pid_detach_thread\<close> takes the load of the thread off twice: from a state with exact
  loads, detaching an attached process leaves every CPU of the process's set with the sum over the
  remaining threads minus the load of the detached one.\<close>

theorem pid_detach_subtracts_twice:
  assumes "wf s" "loads_ok s" "id_to_wayca_thread s i = Some t" "theap s t = Some T"
    and "t_start_routine T = None" "wayca_sc_pid_detach_thread s i = Some (r, s')"
    and "p < length (cpu_loads s)" "p \<in> cpus (t_cur_set T)"
  shows "r = 0 \<and> cpu_loads s' ! p = total_load (ncpus s) (curs s) (dom (theap s) - {t}) p
    - div_round_up (ncpus s) (CPU_COUNT (t_cur_set T))"
proof -
  obtain s1 s2 where s: "leave_group s i t = Some s1" "wayca_thread_update_load s1 t False = Some s2"
      "wayca_thread_free s2 t = Some s'" and r: "r = 0"
    using assms(3-6) by (auto simp: wayca_sc_pid_detach_thread_def bind_eq_Some_conv)
  obtain s3 where s3: "wayca_thread_update_load s2 t False = Some s3" "cpu_loads s' = cpu_loads s3"
    using s(3) by (auto simp: wayca_thread_free_def bind_eq_Some_conv)
  note v = lviewD [OF leave_group_lview [OF s(1)]] and f = update_load_frame_l [OF s(2)]
  let ?c = "t_cur_set T"
  have t: "t \<in> dom (theap s)" and c: "curs s t = Some ?c"
    using assms(4) by (auto simp: curs_def)
  then have ok: "cs_ok ?c"
    using assms(2) unfolding loads_ok_def accounts_def by (metis option.inject)
  have "accounts s1 (dom (theap s))"
    using accounts_lview [OF leave_group_lview [OF s(1)]] assms(2) by (simp add: loads_ok_def)
  from update_load_minus [OF this t s(2)]
  have "cpu_loads s2 ! p = total_load (ncpus s) (curs s) (dom (theap s) - {t}) p"
    using assms(7) f v update_load_eq(2) [OF s(2), of ?c] c ok by (simp add: accounts_def)
  moreover have "length (cpu_loads s2) = length (cpu_loads s)"
    using update_load_eq(2) [OF s(2), of ?c] c v ok by simp
  ultimately show ?thesis
    using update_load_eq(2) [OF s3(1), of ?c] c v f ok s3(2) assms(7,8) r by simp
qed

theorem pid_detach_subtracts_twice_witness:
  "\<exists>s s'. run_calls fresh_and_accounted sample_sched [Pid_attach True 77 (Some 1) 1 (Inr sample_cpus)] = Some s
     \<and> cpu_loads s ! 0 = 1 \<and> wayca_sc_pid_detach_thread s 0 = Some (0, s')
     \<and> cpu_loads s' ! 0 = total_load 4 (curs s) (dom (theap s) - {1}) 0 - 1 \<and> cpu_loads s' ! 0 = - 1"
proof -
  let ?r = "run_calls fresh_and_accounted sample_sched [Pid_attach True 77 (Some 1) 1 (Inr sample_cpus)]"
  have "(case ?r of None \<Rightarrow> False | Some s \<Rightarrow> (case theap s 1 of None \<Rightarrow> False | Some T \<Rightarrow>
      (case wayca_sc_pid_detach_thread s 0 of None \<Rightarrow> False | Some (r, s') \<Rightarrow>
         cpu_loads s = [1, 1, 1, 1] \<and> id_to_wayca_thread s 0 = Some 1 \<and> t_start_routine T = None
         \<and> CPU_ISSET 0 (t_cur_set T) \<and> CPU_COUNT (t_cur_set T) = 4
         \<and> wayca_sc_cpus_in_total (tstate s) = 4 \<and> cpu_loads s' ! 0 = - 1)))"
    by code_simp
  then obtain s T r s' where s: "?r = Some s" "theap s 1 = Some T"
      "wayca_sc_pid_detach_thread s 0 = Some (r, s')" "cpu_loads s = [1, 1, 1, 1]"
      "id_to_wayca_thread s 0 = Some 1" "t_start_routine T = None" "CPU_ISSET 0 (t_cur_set T)"
      "CPU_COUNT (t_cur_set T) = 4" "wayca_sc_cpus_in_total (tstate s) = 4" "cpu_loads s' ! 0 = - 1"
    by (auto split: option.splits)
  have acc: "accounted sample_sched s"
    by (rule run_calls_accounted [OF s(1) accounted.init])
  have "0 \<in> cpus (t_cur_set T)"
    using s(7) by (simp add: CPU_ISSET_def in_set_range_def cpus_def)
  from pid_detach_subtracts_twice [OF accounted_wf [OF acc sample_start]
      accounted_loads [OF acc sample_start sample_loads] s(5,2,6,3) _ this]
  have "r = 0" "cpu_loads s' ! 0 = total_load 4 (curs s) (dom (theap s) - {1}) 0 - 1"
    using s(4,8,9) by (simp_all add: ncpus_def div_round_up_def)
  with s show ?thesis by auto
qed

end
