(* ===== verification/Threadpool.thy ===== *)
theory Threadpool
  imports Threads
begin

text \<open>
  The thread pools of \<^verbatim>\<open>lib/threads.c\<close> (from \<^verbatim>\<open>threadpool_queue_task\<close> on) and their structures in
  \<^verbatim>\<open>lib/wayca_thread.h\<close>. Pools and tasks live in heaps of their own beside the scheduler state of
  the group API, which creating and destroying a pool calls. Counters of type \<^verbatim>\<open>size_t\<close> are 64-bit
  words. The workers run concurrently with the callers: their loop is a step relation in which a
  step is a section under the pool's mutex or the execution of a task.
\<close>

section \<open>Data\<close>

record wayca_threadpool_task =
  k_pool :: addr
  k_task :: addr
  k_arg :: addr
  k_next :: "addr option"
  k_prev :: "addr option"

record wayca_threadpool =
  p_id :: nat
  p_workers :: "addr option list"
  p_total_worker_num :: ulong
  p_idle_num :: ulong
  p_task_head :: "addr option"
  p_task_num :: ulong
  p_group :: "addr option"
  p_stop :: bool

type_synonym task_heap = "addr \<Rightarrow> wayca_threadpool_task option"

record pools =
  sc :: sched
  pheap :: "addr \<Rightarrow> wayca_threadpool option"
  kheap :: task_heap
  pools_array :: "addr option list"

definition zero_pool :: wayca_threadpool where
  "zero_pool = \<lparr>p_id = 0, p_workers = [], p_total_worker_num = 0, p_idle_num = 0,
     p_task_head = None, p_task_num = 0, p_group = None, p_stop = False\<rparr>"

definition threadpool_task_is_empty :: "wayca_threadpool \<Rightarrow> bool" where
  "threadpool_task_is_empty P \<longleftrightarrow> p_task_head P = None"

section \<open>Identifiers\<close>

definition find_free_threadpool_id_locked :: "pools \<Rightarrow> int \<times> nat" where
  "find_free_threadpool_id_locked w = find_free_slot (pools_array w) 0"

definition is_threadpool_id_valid :: "pools \<Rightarrow> nat \<Rightarrow> bool" where
  "is_threadpool_id_valid w i =
     (if length (pools_array w) \<le> i then False else pools_array w ! i \<noteq> None)"

definition id_to_wayca_threadpool :: "pools \<Rightarrow> nat \<Rightarrow> addr option" where
  "id_to_wayca_threadpool w i = (if is_threadpool_id_valid w i then pools_array w ! i else None)"

section \<open>The queue\<close>

text \<open>Writing a field of the task at \<open>a\<close>, a failing access when no task is there.\<close>

definition upd_k :: "addr \<Rightarrow> (wayca_threadpool_task \<Rightarrow> wayca_threadpool_task) \<Rightarrow> task_heap \<Rightarrow> task_heap option"
  where
  "upd_k a f h = map_option (\<lambda>K. h(a \<mapsto> f K)) (h a)"

definition threadpool_queue_task ::
    "task_heap \<Rightarrow> wayca_threadpool \<Rightarrow> addr \<Rightarrow> (task_heap \<times> wayca_threadpool) option" where
  "threadpool_queue_task h P task =
     (if threadpool_task_is_empty P then do {
        h \<leftarrow> upd_k task (\<lambda>K. K\<lparr>k_next := Some task\<rparr>) h;
        h \<leftarrow> upd_k task (\<lambda>K. K\<lparr>k_prev := Some task\<rparr>) h;
        Some (h, P\<lparr>p_task_head := Some task, p_task_num := p_task_num P + 1\<rparr>)
      } else do {
        head \<leftarrow> p_task_head P;
        H \<leftarrow> h head;
        prev \<leftarrow> k_prev H;
        let nxt = head;
        h \<leftarrow> upd_k nxt (\<lambda>K. K\<lparr>k_prev := Some task\<rparr>) h;
        h \<leftarrow> upd_k task (\<lambda>K. K\<lparr>k_next := Some nxt\<rparr>) h;
        h \<leftarrow> upd_k task (\<lambda>K. K\<lparr>k_prev := Some prev\<rparr>) h;
        h \<leftarrow> upd_k prev (\<lambda>K. K\<lparr>k_next := Some task\<rparr>) h;
        Some (h, P\<lparr>p_task_num := p_task_num P + 1\<rparr>)
      })"

definition threadpool_dequeue_task ::
    "task_heap \<Rightarrow> wayca_threadpool \<Rightarrow> (addr option \<times> task_heap \<times> wayca_threadpool) option" where
  "threadpool_dequeue_task h P = (case p_task_head P of
       None \<Rightarrow> Some (None, h, P)
     | Some queue \<Rightarrow> do {
         Q \<leftarrow> h queue;
         if k_next Q = Some queue then
           Some (Some queue, h, P\<lparr>p_task_head := None, p_task_num := p_task_num P - 1\<rparr>)
         else do {
           nxt \<leftarrow> k_next Q;
           prev \<leftarrow> k_prev Q;
           h \<leftarrow> upd_k nxt (\<lambda>K. K\<lparr>k_prev := Some prev\<rparr>) h;
           h \<leftarrow> upd_k prev (\<lambda>K. K\<lparr>k_next := Some nxt\<rparr>) h;
           Some (Some queue, h, P\<lparr>p_task_head := Some nxt, p_task_num := p_task_num P - 1\<rparr>)
         }
       })"

section \<open>Creating and destroying a pool\<close>

text \<open>\<open>m\<close> and \<open>mw\<close> are the results of the two \<^verbatim>\<open>malloc\<close> calls: the address of the pool, and whether the
  array of workers was allocated. Its elements are unset.\<close>

definition wayca_threadpool_alloc :: "pools \<Rightarrow> nat \<Rightarrow> addr option \<Rightarrow> bool \<Rightarrow> addr option \<times> pools" where
  "wayca_threadpool_alloc w thread_num m mw =
     (let (ret, id) = find_free_threadpool_id_locked w in
      if ret < 0 then (None, w)
      else let w = w\<lparr>pools_array := (pools_array w)[id := m]\<rparr> in
        case m of
          None \<Rightarrow> (None, w)
        | Some a \<Rightarrow>
            if \<not> mw then (None, w\<lparr>pools_array := (pools_array w)[id := None]\<rparr>)
            else (Some a, w\<lparr>pheap := (pheap w)(a \<mapsto>
                    zero_pool\<lparr>p_workers := replicate thread_num None, p_id := id\<rparr>)\<rparr>))"

definition wayca_threadpool_free :: "pools \<Rightarrow> addr \<Rightarrow> pools option" where
  "wayca_threadpool_free w pool = do {
     P \<leftarrow> pheap w pool;
     arr \<leftarrow> wr (pools_array w) (p_id P) None;
     Some (w\<lparr>pools_array := arr, pheap := (pheap w)(pool := None)\<rparr>)
   }"

text \<open>What creating one worker gets from outside: the results of \<^verbatim>\<open>malloc\<close>, \<^verbatim>\<open>pthread_create\<close>,
  \<^verbatim>\<open>gettid\<close> and \<^verbatim>\<open>sched_getaffinity\<close>.\<close>

record spawn =
  sp_malloc :: "addr option"
  sp_created :: int
  sp_tid :: int
  sp_aff :: cpu_set_t

text \<open>The loop that creates the workers, from \<open>worker_num\<close> on; it stops at the first failure. When a
  created worker cannot be attached it is sent \<^verbatim>\<open>SIGKILL\<close>, which ends the process: no result. The
  result is the number of workers.\<close>

fun create_workers :: "sched \<Rightarrow> addr option list \<Rightarrow> nat \<Rightarrow> addr \<Rightarrow> addr \<Rightarrow> nat \<Rightarrow> spawn list
    \<Rightarrow> (nat \<times> addr option list \<times> sched) option" where
  "create_workers s workers wgroup worker_func pool worker_num [] = Some (worker_num, workers, s)"
| "create_workers s workers wgroup worker_func pool worker_num (sp # sps) = do {
     (ret, id, s) \<leftarrow> wayca_sc_thread_create s True (Some worker_func) pool (sp_malloc sp)
                       (sp_created sp) (sp_tid sp) (sp_aff sp);
     if ret \<noteq> 0 then Some (worker_num, workers, s)
     else do {
       wthread \<leftarrow> id;
       workers \<leftarrow> wr workers worker_num (id_to_wayca_thread s wthread);
       (ret, s) \<leftarrow> wayca_sc_thread_attach_group s wthread wgroup;
       if ret \<noteq> 0 then None
       else create_workers s workers wgroup worker_func pool (worker_num + 1) sps
     }
   }"

text \<open>\<open>mg\<close> is the result of \<^verbatim>\<open>malloc\<close> in \<^verbatim>\<open>wayca_sc_group_create\<close>, \<open>sps\<close> has one element per worker.
  The pool's fields are written after the workers have started; until then no task can be queued.\<close>

definition wayca_threadpool_init ::
    "pools \<Rightarrow> addr \<Rightarrow> addr \<Rightarrow> addr option \<Rightarrow> spawn list \<Rightarrow> (int \<times> pools) option" where
  "wayca_threadpool_init w pool worker_func mg sps = do {
     (ret, wgroup, s) \<leftarrow> wayca_sc_group_create (sc w) True mg;
     let w = w\<lparr>sc := s\<rparr>;
     if ret \<noteq> 0 then Some (ret, w)
     else do {
       g \<leftarrow> wgroup;
       (ret, _, s) \<leftarrow> wayca_sc_group_set_attr (sc w) g (Some (WT_GF_CPU OR WT_GF_COMPACT OR WT_GF_PERCPU));
       let w = w\<lparr>sc := s\<rparr>;
       if ret \<noteq> 0 then do {
         (_, s) \<leftarrow> wayca_sc_group_destroy (sc w) g;
         Some (ret, w\<lparr>sc := s\<rparr>)
       } else do {
         P \<leftarrow> pheap w pool;
         (n, workers, s) \<leftarrow> create_workers (sc w) (p_workers P) g worker_func pool 0 sps;
         let P = P\<lparr>p_group := id_to_wayca_group (sc w) g, p_stop := False, p_workers := workers,
                   p_total_worker_num := of_nat n, p_idle_num := of_nat n, p_task_head := None,
                   p_task_num := 0\<rparr>;
         Some (0, w\<lparr>sc := s, pheap := (pheap w)(pool \<mapsto> P)\<rparr>)
       }
     }
   }"

definition wayca_sc_threadpool_create ::
    "pools \<Rightarrow> bool \<Rightarrow> nat \<Rightarrow> addr \<Rightarrow> addr option \<Rightarrow> bool \<Rightarrow> addr option \<Rightarrow> spawn list
       \<Rightarrow> (int \<times> nat option \<times> pools) option" where
  "wayca_sc_threadpool_create w nonnull num worker_func m mw mg sps =
     (if \<not> nonnull \<or> num = 0 then Some (- EINVAL, None, w)
      else case wayca_threadpool_alloc w num m mw of
        (None, w) \<Rightarrow> Some (- ENOMEM, None, w)
      | (Some pool, w) \<Rightarrow> do {
          (ret, w) \<leftarrow> wayca_threadpool_init w pool worker_func mg sps;
          if ret \<noteq> 0 then do {
            w \<leftarrow> wayca_threadpool_free w pool;
            Some (- ENOMEM, None, w)
          } else do {
            P \<leftarrow> pheap w pool;
            Some (sint (p_total_worker_num P), Some (p_id P), w)
          }
        })"

text \<open>Joining the workers: \<open>joined\<close> holds the results of \<^verbatim>\<open>pthread_join\<close>.\<close>

fun join_workers :: "sched \<Rightarrow> addr option list \<Rightarrow> nat \<Rightarrow> int list \<Rightarrow> sched option" where
  "join_workers s workers worker [] = Some s"
| "join_workers s workers worker (j # js) = do {
     t \<leftarrow> rd workers worker;
     t \<leftarrow> t;
     T \<leftarrow> theap s t;
     (_, s) \<leftarrow> wayca_sc_thread_join s (t_id T) j;
     join_workers s workers (worker + 1) js
   }"

text \<open>\<^verbatim>\<open>while (!threadpool_task_is_empty(pool)) { task = threadpool_dequeue_task(pool); free(task); }\<close>\<close>

partial_function (option) drain :: "task_heap \<Rightarrow> wayca_threadpool \<Rightarrow> (task_heap \<times> wayca_threadpool) option"
  where
  "drain h P =
     (if threadpool_task_is_empty P then Some (h, P)
      else do {
        (task, h, P) \<leftarrow> threadpool_dequeue_task h P;
        t \<leftarrow> task;
        drain (h(t := None)) P
      })"

declare drain.simps [code]

text \<open>\<^verbatim>\<open>wayca_sc_threadpool_destroy\<close> as its caller executes it; \<open>js\<close> has one element per worker
  (\<^verbatim>\<open>total_worker_num\<close> of them), each given when the worker has returned.\<close>

definition wayca_sc_threadpool_destroy :: "pools \<Rightarrow> nat \<Rightarrow> int list \<Rightarrow> (int \<times> pools) option" where
  "wayca_sc_threadpool_destroy w threadpool js = (case id_to_wayca_threadpool w threadpool of
       None \<Rightarrow> Some (- EINVAL, w)
     | Some pool \<Rightarrow> do {
         P \<leftarrow> pheap w pool;
         let P = P\<lparr>p_stop := True\<rparr>;
         s \<leftarrow> join_workers (sc w) (p_workers P) 0 js;
         g \<leftarrow> p_group P;
         G \<leftarrow> gheap s g;
         (_, s) \<leftarrow> wayca_sc_group_destroy s (g_id G);
         (h, P) \<leftarrow> drain (kheap w) P;
         w \<leftarrow> wayca_threadpool_free (w\<lparr>sc := s, kheap := h, pheap := (pheap w)(pool \<mapsto> P)\<rparr>) pool;
         Some (0, w)
       })"

section \<open>Queries and queueing\<close>

definition wayca_sc_threadpool_get_group :: "pools \<Rightarrow> nat \<Rightarrow> bool \<Rightarrow> (int \<times> nat option) option" where
  "wayca_sc_threadpool_get_group w threadpool nonnull =
     (if \<not> nonnull then Some (- EINVAL, None)
      else case id_to_wayca_threadpool w threadpool of
        None \<Rightarrow> Some (- EINVAL, None)
      | Some pool \<Rightarrow> do {
          P \<leftarrow> pheap w pool;
          g \<leftarrow> p_group P;
          G \<leftarrow> gheap (sc w) g;
          Some (0, Some (g_id G))
        })"

text \<open>The critical section of \<^verbatim>\<open>wayca_sc_threadpool_queue\<close>; the flag says whether the condition
  variable is signalled.\<close>

definition queue_section ::
    "task_heap \<Rightarrow> wayca_threadpool \<Rightarrow> addr \<Rightarrow> (bool \<times> task_heap \<times> wayca_threadpool) option" where
  "queue_section h P task = do {
     (h, P) \<leftarrow> threadpool_queue_task h P task;
     Some (p_idle_num P \<noteq> 0, h, P)
   }"

definition new_task :: "addr \<Rightarrow> addr \<Rightarrow> addr \<Rightarrow> wayca_threadpool_task" where
  "new_task pool func arg = \<lparr>k_pool = pool, k_task = func, k_arg = arg, k_next = None, k_prev = None\<rparr>"

definition wayca_sc_threadpool_queue ::
    "pools \<Rightarrow> nat \<Rightarrow> addr option \<Rightarrow> addr \<Rightarrow> addr option \<Rightarrow> (int \<times> bool \<times> pools) option" where
  "wayca_sc_threadpool_queue w threadpool task_func arg m =
     (case (id_to_wayca_threadpool w threadpool, task_func) of
        (Some pool, Some func) \<Rightarrow> (case m of
            None \<Rightarrow> Some (- ENOMEM, False, w)
          | Some task \<Rightarrow> do {
              P \<leftarrow> pheap w pool;
              let h = (kheap w)(task \<mapsto> new_task pool func arg);
              (signal, h, P) \<leftarrow> queue_section h P task;
              Some (0, signal, w\<lparr>kheap := h, pheap := (pheap w)(pool \<mapsto> P)\<rparr>)
            })
      | _ \<Rightarrow> Some (- EINVAL, False, w))"

definition wayca_sc_threadpool_thread_num :: "pools \<Rightarrow> nat \<Rightarrow> int option" where
  "wayca_sc_threadpool_thread_num w threadpool = (case id_to_wayca_threadpool w threadpool of
       None \<Rightarrow> Some (- EINVAL)
     | Some pool \<Rightarrow> do { P \<leftarrow> pheap w pool; Some (sint (p_total_worker_num P)) })"

definition wayca_sc_threadpool_task_num :: "pools \<Rightarrow> nat \<Rightarrow> int option" where
  "wayca_sc_threadpool_task_num w threadpool = (case id_to_wayca_threadpool w threadpool of
       None \<Rightarrow> Some (- EINVAL)
     | Some pool \<Rightarrow> do { P \<leftarrow> pheap w pool; Some (sint (p_task_num P)) })"

definition wayca_sc_threadpool_running_num :: "pools \<Rightarrow> nat \<Rightarrow> int option" where
  "wayca_sc_threadpool_running_num w threadpool = (case id_to_wayca_threadpool w threadpool of
       None \<Rightarrow> Some (- EINVAL)
     | Some pool \<Rightarrow> do {
         P \<leftarrow> pheap w pool;
         Some (sint (p_total_worker_num P - p_idle_num P))
       })"

section \<open>The workers\<close>

text \<open>Where a worker is in \<^verbatim>\<open>wayca_threadpool_worker_func\<close>: at the head of the loop, blocked in
  \<^verbatim>\<open>pthread_cond_wait\<close>, executing a task, between the task and the last critical section, or
  returned.\<close>

datatype worker = W_Loop | W_Wait | W_Task addr | W_Done addr | W_Exit

text \<open>The first critical section of the loop body.\<close>

definition worker_section ::
    "task_heap \<Rightarrow> wayca_threadpool \<Rightarrow> (worker \<times> task_heap \<times> wayca_threadpool) option" where
  "worker_section h P =
     (if p_stop P then Some (W_Exit, h, P)
      else if p_task_num P = 0 then Some (W_Wait, h, P)
      else do {
        (task, h, P) \<leftarrow> threadpool_dequeue_task h P;
        t \<leftarrow> task;
        Some (W_Task t, h, P\<lparr>p_idle_num := p_idle_num P - 1\<rparr>)
      })"

text \<open>The state of a pool in use: the pool object, the tasks, the workers, and what has been observed:
  the functions and arguments of the tasks submitted, started and finished, in order.\<close>

record tp_run =
  rp :: wayca_threadpool
  rk :: task_heap
  ws :: "worker list"
  submitted :: "(addr \<times> addr) list"
  started :: "(addr \<times> addr) list"
  finished :: "(addr \<times> addr) list"

text \<open>\<^verbatim>\<open>pthread_cond_signal\<close> wakes one waiting worker, if there is one, and \<^verbatim>\<open>pthread_cond_broadcast\<close>
  all of them; a waiting worker may also wake spuriously.\<close>

definition wake_all :: "worker list \<Rightarrow> worker list" where
  "wake_all xs = map (\<lambda>x. if x = W_Wait then W_Loop else x) xs"

inductive tp_step :: "tp_run \<Rightarrow> tp_run \<Rightarrow> bool" where
  section1: "i < length (ws r) \<Longrightarrow> ws r ! i = W_Loop \<Longrightarrow> worker_section (rk r) (rp r) = Some (pc, h, P)
    \<Longrightarrow> tp_step r (r\<lparr>rp := P, rk := h, ws := (ws r)[i := pc],
          started := started r @ (case pc of W_Task t \<Rightarrow> [(k_task (the (h t)), k_arg (the (h t)))] | _ \<Rightarrow> [])\<rparr>)"
| spurious: "i < length (ws r) \<Longrightarrow> ws r ! i = W_Wait \<Longrightarrow> tp_step r (r\<lparr>ws := (ws r)[i := W_Loop]\<rparr>)"
| run_task: "i < length (ws r) \<Longrightarrow> ws r ! i = W_Task t \<Longrightarrow> rk r t = Some K
    \<Longrightarrow> tp_step r (r\<lparr>rk := (rk r)(t := None), ws := (ws r)[i := W_Done t],
          finished := finished r @ [(k_task K, k_arg K)]\<rparr>)"
| section2: "i < length (ws r) \<Longrightarrow> ws r ! i = W_Done t
    \<Longrightarrow> tp_step r (r\<lparr>rp := (rp r)\<lparr>p_idle_num := p_idle_num (rp r) + 1\<rparr>, ws := (ws r)[i := W_Loop]\<rparr>)"
| queue: "rk r a = None \<Longrightarrow> 0 < a \<Longrightarrow> a < 2 ^ 64
    \<Longrightarrow> queue_section ((rk r)(a \<mapsto> new_task pool f x)) (rp r) a = Some (sig, h, P)
    \<Longrightarrow> (if sig \<and> W_Wait \<in> set (ws r)
         then \<exists>i < length (ws r). ws r ! i = W_Wait \<and> ws' = (ws r)[i := W_Loop] else ws' = ws r)
    \<Longrightarrow> tp_step r (r\<lparr>rp := P, rk := h, ws := ws', submitted := submitted r @ [(f, x)]\<rparr>)"
| stop: "tp_step r (r\<lparr>rp := (rp r)\<lparr>p_stop := True\<rparr>, ws := wake_all (ws r)\<rparr>)"

text \<open>The pool after \<^verbatim>\<open>wayca_threadpool_init\<close> with \<open>n\<close> workers.\<close>

definition tp_start :: "nat \<Rightarrow> tp_run \<Rightarrow> bool" where
  "tp_start n r \<longleftrightarrow> p_total_worker_num (rp r) = of_nat n \<and> p_idle_num (rp r) = of_nat n
     \<and> p_task_head (rp r) = None \<and> p_task_num (rp r) = 0 \<and> \<not> p_stop (rp r)
     \<and> (\<forall>a. rk r a = None) \<and> ws r = replicate n W_Loop
     \<and> submitted r = [] \<and> started r = [] \<and> finished r = []"

inductive tp_reach :: "nat \<Rightarrow> tp_run \<Rightarrow> bool" for n where
  start: "tp_start n r \<Longrightarrow> tp_reach n r"
| step: "tp_reach n r \<Longrightarrow> tp_step r r' \<Longrightarrow> tp_reach n r'"

end
