(* ===== verification/ThreadpoolInv.thy ===== *)
theory ThreadpoolInv
  imports Threadpool IdTable ThreadsInv "HOL-Library.Multiset"
begin

text \<open>
  The circular queue of a thread pool refines a FIFO list, and the invariants of the pool under
  any interleaving of its workers and callers.
\<close>

section \<open>The identifier table\<close>

interpretation pt: id_table pools_array find_free_threadpool_id_locked is_threadpool_id_valid
  id_to_wayca_threadpool
proof (unfold_locales, goal_cases)
  case (1 w)
  show ?case by (simp add: find_free_threadpool_id_locked_def find_free_slot_full)
next
  case (2 w)
  then show ?case
    using find_free_slot_free [of "pools_array w" 0] by (simp add: find_free_threadpool_id_locked_def)
qed (auto simp: is_threadpool_id_valid_def id_to_wayca_threadpool_def)

section \<open>Rings\<close>

text \<open>\<open>edge h a b\<close>: task \<open>b\<close> follows task \<open>a\<close>. The queue with the tasks \<open>xs\<close>, oldest first, is a
  ring through all of them.\<close>

definition edge :: "task_heap \<Rightarrow> addr \<Rightarrow> addr \<Rightarrow> bool" where
  "edge h a b \<longleftrightarrow> (\<exists>A. h a = Some A \<and> k_next A = Some b) \<and> (\<exists>B. h b = Some B \<and> k_prev B = Some a)"

definition ring :: "task_heap \<Rightarrow> addr option \<Rightarrow> addr list \<Rightarrow> bool" where
  "ring h p xs \<longleftrightarrow> distinct xs \<and> (case xs of [] \<Rightarrow> p = None
     | x # _ \<Rightarrow> p = Some x \<and> successively (edge h) xs \<and> edge h (last xs) x)"

lemma ring_Nil [simp]: "ring h p [] \<longleftrightarrow> p = None"
  by (simp add: ring_def)

lemma ring_Cons: "ring h p (x # xs) \<longleftrightarrow> p = Some x \<and> distinct (x # xs) \<and> successively (edge h) (x # xs)
    \<and> edge h (last (x # xs)) x"
  by (auto simp: ring_def)

lemma ring_live: "ring h p xs \<Longrightarrow> a \<in> set xs \<Longrightarrow> \<exists>A. h a = Some A"
proof (cases xs)
  case (Cons x ys)
  assume r: "ring h p xs" "a \<in> set xs"
  then obtain i where i: "i < length xs" "xs ! i = a"
    by (auto simp: in_set_conv_nth)
  show ?thesis
  proof (cases "i = 0")
    case True
    then show ?thesis
      using r i Cons by (auto simp: ring_Cons edge_def)
  next
    case False
    then have "edge h (xs ! (i - 1)) (xs ! i)"
      using r(1) i(1) by (auto simp: Cons ring_Cons successively_conv_nth)
    then show ?thesis
      using i by (auto simp: edge_def)
  qed
qed simp

text \<open>Changing the heap outside the fields that an inner edge reads.\<close>

lemma successively_edge_cong:
  assumes "successively (edge h) xs" "distinct xs"
    and "\<And>a A. a \<in> set xs \<Longrightarrow> a \<noteq> last xs \<Longrightarrow> h a = Some A \<Longrightarrow> \<exists>A'. h' a = Some A' \<and> k_next A' = k_next A"
    and "\<And>a A. a \<in> set xs \<Longrightarrow> a \<noteq> hd xs \<Longrightarrow> h a = Some A \<Longrightarrow> \<exists>A'. h' a = Some A' \<and> k_prev A' = k_prev A"
  shows "successively (edge h') xs"
  unfolding successively_conv_nth
proof (intro allI impI)
  fix i
  assume i: "Suc i < length xs"
  then have e: "edge h (xs ! i) (xs ! Suc i)"
    using assms(1) by (simp add: successively_conv_nth)
  have ne: "xs \<noteq> []" using i by auto
  have "xs ! i \<noteq> last xs" "xs ! Suc i \<noteq> hd xs"
    using i assms(2) ne by (auto simp: last_conv_nth hd_conv_nth nth_eq_iff_index_eq)
  then show "edge h' (xs ! i) (xs ! Suc i)"
    using e assms(3) [of "xs ! i"] assms(4) [of "xs ! Suc i"] i by (fastforce simp: edge_def)
qed

text \<open>Queueing puts the new task at the end.\<close>

lemma queue_task_ring:
  assumes "ring h (p_task_head P) xs" "h t = Some K" "t \<notin> set xs"
  shows "\<exists>h'. threadpool_queue_task h P t
      = Some (h', P\<lparr>p_task_head := Some (hd (xs @ [t])), p_task_num := p_task_num P + 1\<rparr>)
    \<and> ring h' (Some (hd (xs @ [t]))) (xs @ [t])
    \<and> (\<forall>a. map_option k_task (h' a) = map_option k_task (h a)
         \<and> map_option k_arg (h' a) = map_option k_arg (h a))"
proof (cases xs)
  case Nil
  then show ?thesis
    using assms by (auto simp: threadpool_queue_task_def threadpool_task_is_empty_def upd_k_def ring_def
        edge_def)
next
  case (Cons x ys)
  let ?l = "last xs"
  have r: "p_task_head P = Some x" "distinct xs" "successively (edge h) xs" "edge h ?l x"
    using assms(1) by (auto simp: Cons ring_Cons)
  have mem: "x \<in> set xs" "?l \<in> set xs" and hd: "hd xs = x" and ne: "xs \<noteq> []"
    by (auto simp: Cons)
  obtain X where X: "h x = Some X" "k_prev X = Some ?l"
    using r(4) by (auto simp: edge_def)
  obtain L where L: "h ?l = Some L"
    using r(4) by (auto simp: edge_def)
  have t: "x \<noteq> t" "?l \<noteq> t"
    using assms(3) mem by auto
  define h1 where "h1 = h(x \<mapsto> X\<lparr>k_prev := Some t\<rparr>)"
  define h2 where "h2 = h1(t \<mapsto> K\<lparr>k_next := Some x, k_prev := Some ?l\<rparr>)"
  obtain L2 where L2: "h2 ?l = Some L2" "k_task L2 = k_task L" "k_arg L2 = k_arg L" "k_prev L2 = k_prev (the (h1 ?l))"
    using t L X by (cases "?l = x") (auto simp: h1_def h2_def)
  define h3 where "h3 = h2(?l \<mapsto> L2\<lparr>k_next := Some t\<rparr>)"
  have q: "threadpool_queue_task h P t = Some (h3, P\<lparr>p_task_num := p_task_num P + 1\<rparr>)"
    using r(1) X assms(2) t L2(1)
    by (simp add: threadpool_queue_task_def threadpool_task_is_empty_def upd_k_def h3_def h2_def h1_def)
  have e1: "edge h3 ?l t" "edge h3 t x"
    using t X L2 by (auto simp: edge_def h3_def h2_def h1_def)
  have "successively (edge h3) xs"
    using r(3,2)
  proof (rule successively_edge_cong)
    fix a A assume a: "a \<in> set xs" "a \<noteq> last xs" "h a = Some A"
    then have "a \<noteq> t" using assms(3) by auto
    then show "\<exists>A'. h3 a = Some A' \<and> k_next A' = k_next A"
      using a X by (auto simp: h3_def h2_def h1_def)
  next
    fix a A assume a: "a \<in> set xs" "a \<noteq> hd xs" "h a = Some A"
    then have "a \<noteq> t" "a \<noteq> x" using assms(3) hd by auto
    then show "\<exists>A'. h3 a = Some A' \<and> k_prev A' = k_prev A"
      using a L L2 by (auto simp: h3_def h2_def h1_def)
  qed
  then have "successively (edge h3) (xs @ [t])"
    using e1(1) ne by (simp add: successively_append_iff)
  then have "ring h3 (Some x) (xs @ [t])"
    using r(2) assms(3) e1(2) by (auto simp: ring_def Cons)
  moreover have "map_option k_task (h3 a) = map_option k_task (h a)
      \<and> map_option k_arg (h3 a) = map_option k_arg (h a)" for a
    using X L L2 assms(2) by (auto simp: h3_def h2_def h1_def)
  moreover have "P\<lparr>p_task_head := Some x, p_task_num := n\<rparr> = P\<lparr>p_task_num := n\<rparr>" for n
    using r(1) by simp
  ultimately show ?thesis
    using q by (auto simp: Cons)
qed

text \<open>Dequeueing takes the first task.\<close>

lemma dequeue_task_ring:
  assumes "ring h (p_task_head P) (x # xs)"
  shows "\<exists>h' p. threadpool_dequeue_task h P = Some (Some x, h', P\<lparr>p_task_head := p, p_task_num := p_task_num P - 1\<rparr>)
    \<and> ring h' p xs \<and> (\<forall>a. map_option k_task (h' a) = map_option k_task (h a)
         \<and> map_option k_arg (h' a) = map_option k_arg (h a))"
proof (cases xs)
  case Nil
  then show ?thesis
    using assms by (auto simp: threadpool_dequeue_task_def ring_Cons edge_def)
next
  case (Cons y ys)
  let ?l = "last xs"
  have r: "p_task_head P = Some x" "distinct (x # xs)" "successively (edge h) xs" "edge h ?l x" "edge h x y"
    using assms by (auto simp: Cons ring_Cons)
  have mem: "y \<in> set xs" "?l \<in> set xs" and hd: "hd xs = y"
    by (auto simp: Cons)
  obtain X where X: "h x = Some X" "k_prev X = Some ?l" "k_next X = Some y"
    using r(4,5) by (auto simp: edge_def)
  obtain Y where Y: "h y = Some Y"
    using r(5) by (auto simp: edge_def)
  obtain L where L: "h ?l = Some L"
    using r(4) by (auto simp: edge_def)
  have ne: "y \<noteq> x" "?l \<noteq> x"
    using r(2) mem by auto
  define h1 where "h1 = h(y \<mapsto> Y\<lparr>k_prev := Some ?l\<rparr>)"
  obtain L2 where L2: "h1 ?l = Some L2" "k_task L2 = k_task L" "k_arg L2 = k_arg L"
    using L Y by (cases "?l = y") (auto simp: h1_def)
  define h2 where "h2 = h1(?l \<mapsto> L2\<lparr>k_next := Some y\<rparr>)"
  have q: "threadpool_dequeue_task h P = Some (Some x, h2, P\<lparr>p_task_head := Some y, p_task_num := p_task_num P - 1\<rparr>)"
    using r(1) X Y L2(1) ne by (simp add: threadpool_dequeue_task_def upd_k_def h2_def h1_def)
  have "edge h2 ?l y"
    using L2(1) by (auto simp: edge_def h2_def h1_def split: if_splits)
  moreover have "successively (edge h2) xs"
    using r(3)
  proof (rule successively_edge_cong)
    show "distinct xs" using r(2) by simp
  next
    fix a A assume a: "a \<in> set xs" "a \<noteq> last xs" "h a = Some A"
    then show "\<exists>A'. h2 a = Some A' \<and> k_next A' = k_next A"
      using Y by (auto simp: h2_def h1_def)
  next
    fix a A assume a: "a \<in> set xs" "a \<noteq> hd xs" "h a = Some A"
    then show "\<exists>A'. h2 a = Some A' \<and> k_prev A' = k_prev A"
      using L L2 hd by (auto simp: h2_def h1_def split: if_splits)
  qed
  ultimately have "ring h2 (Some y) xs"
    using r(2) by (auto simp: ring_def Cons)
  moreover have "map_option k_task (h2 a) = map_option k_task (h a)
      \<and> map_option k_arg (h2 a) = map_option k_arg (h a)" for a
    using Y L L2 by (auto simp: h2_def h1_def)
  ultimately show ?thesis
    using q by blast
qed

section \<open>The pool under its workers\<close>

lemma sum_list_update:
  fixes f :: "'a \<Rightarrow> 'b :: comm_monoid_add"
  assumes "i < length xs"
  shows "sum_list (map f (xs[i := y])) + f (xs ! i) = sum_list (map f xs) + f y"
  using assms by (induction xs arbitrary: i) (auto simp: algebra_simps split: nat.split)

fun idle :: "worker \<Rightarrow> bool" where
  "idle (W_Task _) = False"
| "idle (W_Done _) = False"
| "idle _ = True"

fun wtask :: "worker \<Rightarrow> addr multiset" where
  "wtask (W_Task t) = {#t#}"
| "wtask _ = {#}"

definition n_idle :: "worker list \<Rightarrow> nat" where
  "n_idle xs = sum_list (map (\<lambda>x. of_bool (idle x)) xs)"

definition n_loop :: "worker list \<Rightarrow> nat" where
  "n_loop xs = sum_list (map (\<lambda>x. of_bool (x = W_Loop)) xs)"

definition runs :: "worker list \<Rightarrow> addr multiset" where
  "runs xs = sum_list (map wtask xs)"

lemma counts_update:
  assumes "i < length xs"
  shows "n_idle (xs[i := y]) + of_bool (idle (xs ! i)) = n_idle xs + of_bool (idle y)"
    "n_loop (xs[i := y]) + of_bool (xs ! i = W_Loop) = n_loop xs + of_bool (y = W_Loop)"
    "runs (xs[i := y]) + wtask (xs ! i) = runs xs + wtask y"
  unfolding n_idle_def n_loop_def runs_def by (rule sum_list_update [OF assms])+

lemma n_idle_le: "n_idle xs \<le> length xs"
  by (induction xs) (auto simp: n_idle_def)

lemma n_idle_pos: "x \<in> set xs \<Longrightarrow> idle x \<Longrightarrow> 0 < n_idle xs"
  by (induction xs) (auto simp: n_idle_def)

lemma n_loop_filter: "n_loop xs = length (filter (\<lambda>w. w = W_Loop) xs)"
  by (induction xs) (auto simp: n_loop_def)

lemma wake_all_counts:
  "n_idle (wake_all xs) = n_idle xs" "runs (wake_all xs) = runs xs" "W_Wait \<notin> set (wake_all xs)"
  "length (wake_all xs) = length xs"
proof -
  have "idle (if x = W_Wait then W_Loop else x) = idle x" "wtask (if x = W_Wait then W_Loop else x) = wtask x" for x
    by auto
  then show "n_idle (wake_all xs) = n_idle xs" "runs (wake_all xs) = runs xs"
    by (simp_all add: n_idle_def runs_def wake_all_def comp_def)
qed (auto simp: wake_all_def)

definition desc :: "task_heap \<Rightarrow> addr \<Rightarrow> addr \<times> addr" where
  "desc h a = (k_task (the (h a)), k_arg (the (h a)))"

definition tp_inv :: "nat \<Rightarrow> tp_run \<Rightarrow> addr list \<Rightarrow> bool" where
  "tp_inv n r xs \<longleftrightarrow> length (ws r) = n \<and> p_total_worker_num (rp r) = of_nat n
     \<and> ring (rk r) (p_task_head (rp r)) xs \<and> p_task_num (rp r) = of_nat (length xs)
     \<and> p_idle_num (rp r) = of_nat (n_idle (ws r))
     \<and> finite (dom (rk r)) \<and> dom (rk r) \<subseteq> {0<..<2 ^ 64} \<and> mset_set (dom (rk r)) = runs (ws r) + mset xs
     \<and> submitted r = started r @ map (desc (rk r)) xs
     \<and> mset (started r) = mset (finished r) + image_mset (desc (rk r)) (runs (ws r))
     \<and> (p_stop (rp r) \<longrightarrow> W_Wait \<notin> set (ws r))
     \<and> (W_Wait \<in> set (ws r) \<longrightarrow> length xs \<le> n_loop (ws r))"

lemma tp_invD:
  assumes "tp_inv n r xs"
  shows "length (ws r) = n" "p_total_worker_num (rp r) = of_nat n"
    "ring (rk r) (p_task_head (rp r)) xs" "p_task_num (rp r) = of_nat (length xs)"
    "p_idle_num (rp r) = of_nat (n_idle (ws r))"
    "finite (dom (rk r))" "dom (rk r) \<subseteq> {0<..<2 ^ 64}" "mset_set (dom (rk r)) = runs (ws r) + mset xs"
    "submitted r = started r @ map (desc (rk r)) xs"
    "mset (started r) = mset (finished r) + image_mset (desc (rk r)) (runs (ws r))"
    "p_stop (rp r) \<Longrightarrow> W_Wait \<notin> set (ws r)" "W_Wait \<in> set (ws r) \<Longrightarrow> length xs \<le> n_loop (ws r)"
  using assms unfolding tp_inv_def by blast+

lemma tp_inv_start: "tp_start n r \<Longrightarrow> tp_inv n r []"
proof -
  assume st: "tp_start n r"
  have "n_idle (replicate n W_Loop) = n" "runs (replicate n W_Loop) = {#}"
    by (induction n) (simp_all add: n_idle_def runs_def)
  moreover have "dom (rk r) = {}"
    using st by (auto simp: tp_start_def)
  ultimately show ?thesis
    using st by (auto simp: tp_inv_def tp_start_def)
qed

lemma tp_inv_queue_small:
  assumes "tp_inv n r xs"
  shows "length xs < 2 ^ 64" "set xs \<subseteq> dom (rk r)" "set_mset (runs (ws r)) \<subseteq> dom (rk r)"
    "distinct xs" "t \<in># runs (ws r) \<Longrightarrow> t \<notin> set xs"
proof -
  note D = tp_invD [OF assms]
  have e: "set_mset (runs (ws r) + mset xs) = dom (rk r)"
    using D(6) by (simp flip: D(8))
  then show sub: "set xs \<subseteq> dom (rk r)" "set_mset (runs (ws r)) \<subseteq> dom (rk r)"
    by auto
  show dis: "distinct xs"
    using D(3) by (auto simp: ring_def)
  have "card (set xs) \<le> card {0<..<2 ^ 64 :: nat}"
    using sub(1) D(7) by (intro card_mono) auto
  then show "length xs < 2 ^ 64"
    using dis by (simp add: distinct_card)
  have "count (mset_set (dom (rk r))) t \<le> 1"
    by (simp add: count_mset_set')
  then have le: "count (runs (ws r)) t + count (mset xs) t \<le> 1"
    by (simp add: D(8))
  show "t \<notin> set xs" if t: "t \<in># runs (ws r)"
  proof
    assume "t \<in> set xs"
    then have "0 < count (mset xs) t" "0 < count (runs (ws r)) t"
      using t by (simp_all add: count_greater_zero_iff)
    then show False using le by linarith
  qed
qed

lemma desc_cong:
  assumes "map_option k_task (h' a) = map_option k_task (h a)" "map_option k_arg (h' a) = map_option k_arg (h a)"
  shows "desc h' a = desc h a" "h' a = None \<longleftrightarrow> h a = None"
  using assms by (cases "h a"; cases "h' a"; simp add: desc_def)+

lemma desc_cong_all:
  assumes "\<forall>a. map_option k_task (h' a) = map_option k_task (h a) \<and> map_option k_arg (h' a) = map_option k_arg (h a)"
  shows "desc h' = desc h" "dom h' = dom h"
proof -
  show "desc h' = desc h"
    using desc_cong(1) [of h' _ h] assms by (simp add: fun_eq_iff)
  show "dom h' = dom h"
    using desc_cong(2) [of h' _ h] assms by (auto simp: dom_def)
qed

text \<open>One lemma per step. A worker that finds a task takes the oldest one.\<close>

lemma tp_inv_take:
  assumes "tp_inv n r (x # xs)" "i < length (ws r)" "ws r ! i = W_Loop" "\<not> p_stop (rp r)"
    and "worker_section (rk r) (rp r) = Some (pc, h, P)"
  shows "pc = W_Task x" "desc h = desc (rk r)"
    "tp_inv n (r\<lparr>rp := P, rk := h, ws := (ws r)[i := W_Task x], started := started r @ [desc (rk r) x]\<rparr>) xs"
proof -
  note D = tp_invD [OF assms(1)]
  have "p_task_num (rp r) \<noteq> 0"
    using D(4) tp_inv_queue_small(1) [OF assms(1)] by (simp add: of_nat_eq_0_iff word_of_nat_eq_0_iff nat_dvd_not_less del: of_nat_Suc)
  then obtain p where e: "pc = W_Task x" "ring h p xs"
      "P = (rp r)\<lparr>p_task_head := p, p_task_num := p_task_num (rp r) - 1, p_idle_num := p_idle_num (rp r) - 1\<rparr>"
      and h: "\<forall>a. map_option k_task (h a) = map_option k_task (rk r a)
         \<and> map_option k_arg (h a) = map_option k_arg (rk r a)"
    using dequeue_task_ring [OF D(3)] assms(4,5) by (auto simp: worker_section_def)
  show "pc = W_Task x" by fact
  note hd = desc_cong_all [OF h]
  show "desc h = desc (rk r)" by fact
  note c = counts_update [OF assms(2), of "W_Task x"]
  have i: "n_idle (ws r) = Suc (n_idle ((ws r)[i := W_Task x]))" "n_loop (ws r) = Suc (n_loop ((ws r)[i := W_Task x]))"
    and rn: "runs ((ws r)[i := W_Task x]) = add_mset x (runs (ws r))"
    using c assms(3) by simp_all
  have "W_Wait \<in> set (ws r)" if "W_Wait \<in> set ((ws r)[i := W_Task x])"
    using that set_update_subset_insert [of "ws r" i "W_Task x"] by auto
  then show "tp_inv n (r\<lparr>rp := P, rk := h, ws := (ws r)[i := W_Task x], started := started r @ [desc (rk r) x]\<rparr>) xs"
    using D e(2,3) i rn hd assms(4) by (auto simp: tp_inv_def)
qed

lemma tp_inv_section1:
  assumes "tp_inv n r xs" "i < length (ws r)" "ws r ! i = W_Loop"
    and "worker_section (rk r) (rp r) = Some (pc, h, P)"
  shows "\<exists>ys. tp_inv n (r\<lparr>rp := P, rk := h, ws := (ws r)[i := pc],
          started := started r @ (case pc of W_Task t \<Rightarrow> [(k_task (the (h t)), k_arg (the (h t)))] | _ \<Rightarrow> [])\<rparr>) ys"
proof -
  note D = tp_invD [OF assms(1)]
  have wait: "W_Wait \<in> set (ws r)" if "W_Wait \<in> set ((ws r)[i := y])" "y \<noteq> W_Wait" for y
    using that set_update_subset_insert [of "ws r" i y] by auto
  show ?thesis
  proof (cases "p_stop (rp r)")
    case True
    then have e: "pc = W_Exit" "h = rk r" "P = rp r"
      using assms(4) by (simp_all add: worker_section_def)
    have "n_idle ((ws r)[i := W_Exit]) = n_idle (ws r)" "runs ((ws r)[i := W_Exit]) = runs (ws r)"
      using counts_update [OF assms(2), of W_Exit] assms(3) by simp_all
    moreover have "W_Wait \<notin> set ((ws r)[i := W_Exit])"
      using wait D(11) True by blast
    ultimately have "tp_inv n (r\<lparr>rp := P, rk := h, ws := (ws r)[i := pc], started := started r @ []\<rparr>) xs"
      using D True unfolding e by (simp add: tp_inv_def)
    then show ?thesis
      using e(1) by auto
  next
    case False
    show ?thesis
    proof (cases xs)
      case Nil
      then have e: "pc = W_Wait" "h = rk r" "P = rp r"
        using assms(4) D(4) False by (simp_all add: worker_section_def)
      have "n_idle ((ws r)[i := W_Wait]) = n_idle (ws r)" "runs ((ws r)[i := W_Wait]) = runs (ws r)"
        using counts_update [OF assms(2), of W_Wait] assms(3) by simp_all
      then have "tp_inv n (r\<lparr>rp := P, rk := h, ws := (ws r)[i := pc], started := started r @ []\<rparr>) []"
        using D False Nil unfolding e by (simp add: tp_inv_def)
      then show ?thesis
        using e(1) by auto
    next
      case (Cons x ys)
      note t = tp_inv_take [OF assms(1) [unfolded Cons] assms(2,3) False assms(4)]
      have "(k_task (the (h x)), k_arg (the (h x))) = desc (rk r) x"
        using fun_cong [OF t(2), of x] by (simp add: desc_def)
      then show ?thesis
        using t(1,3) by (auto simp: desc_def)
    qed
  qed
qed

lemma tp_inv_wake:
  assumes "tp_inv n r xs" "i < length (ws r)" "ws r ! i = W_Wait"
  shows "tp_inv n (r\<lparr>ws := (ws r)[i := W_Loop]\<rparr>) xs"
    and "n_loop ((ws r)[i := W_Loop]) = Suc (n_loop (ws r))"
proof -
  note D = tp_invD [OF assms(1)]
  have c: "n_idle ((ws r)[i := W_Loop]) = n_idle (ws r)" "runs ((ws r)[i := W_Loop]) = runs (ws r)"
    "n_loop ((ws r)[i := W_Loop]) = Suc (n_loop (ws r))"
    using counts_update [OF assms(2), of W_Loop] assms(3) by simp_all
  have "W_Wait \<in> set (ws r)"
    using assms(2,3) nth_mem by metis
  then have "length xs \<le> n_loop (ws r)" "\<not> p_stop (rp r)"
    using D(11,12) by auto
  then show "tp_inv n (r\<lparr>ws := (ws r)[i := W_Loop]\<rparr>) xs"
    using D c by (simp add: tp_inv_def)
  show "n_loop ((ws r)[i := W_Loop]) = Suc (n_loop (ws r))" by fact
qed

lemma tp_inv_run_task:
  assumes "tp_inv n r xs" "i < length (ws r)" "ws r ! i = W_Task t" "rk r t = Some K"
  shows "tp_inv n (r\<lparr>rk := (rk r)(t := None), ws := (ws r)[i := W_Done t],
          finished := finished r @ [(k_task K, k_arg K)]\<rparr>) xs"
proof -
  note D = tp_invD [OF assms(1)] and S = tp_inv_queue_small [OF assms(1)]
  let ?h = "(rk r)(t := None)" and ?w = "(ws r)[i := W_Done t]"
  have c: "n_idle ?w = n_idle (ws r)" "n_loop ?w = n_loop (ws r)" "runs (ws r) = add_mset t (runs ?w)"
    using counts_update [OF assms(2), of "W_Done t"] assms(3) by simp_all
  have dom: "mset_set (dom (rk r)) = add_mset t (mset_set (dom ?h))"
    using D(6) assms(4) mset_set.remove [of "dom (rk r)" t] by auto
  then have ms: "mset_set (dom ?h) = runs ?w + mset xs"
    using D(8) c(3) by simp
  have tx: "t \<notin> set xs" and tr: "t \<notin># runs ?w"
    using S(5) c(3) ms D(6) by (auto, metis domIff elem_mset_set finite_dom_map_of fun_upd_same
        finite_Diff dom_fun_upd union_iff)
  have ring: "ring ?h (p_task_head (rp r)) xs"
  proof -
    have "edge ?h a b \<longleftrightarrow> edge (rk r) a b" if "a \<in> set xs" "b \<in> set xs" for a b
      using that tx by (auto simp: edge_def)
    then have "successively (edge ?h) xs \<longleftrightarrow> successively (edge (rk r)) xs"
      by (intro successively_cong) auto
    then show ?thesis
      using D(3) \<open>\<And>b a. a \<in> set xs \<Longrightarrow> b \<in> set xs \<Longrightarrow> edge ?h a b \<longleftrightarrow> edge (rk r) a b\<close>
      by (cases xs) (auto simp: ring_Cons)
  qed
  have desc: "desc ?h a = desc (rk r) a" if "a \<noteq> t" for a
    using that by (simp add: desc_def)
  have "map (desc ?h) xs = map (desc (rk r)) xs"
    using tx by (auto intro: desc)
  moreover have "image_mset (desc ?h) (runs ?w) = image_mset (desc (rk r)) (runs ?w)"
    using tr by (intro image_mset_cong desc) auto
  moreover have "desc (rk r) t = (k_task K, k_arg K)"
    using assms(4) by (simp add: desc_def)
  moreover have "W_Wait \<in> set (ws r)" if "W_Wait \<in> set ?w"
    using that set_update_subset_insert [of "ws r" i "W_Done t"] by auto
  moreover have "finite (dom ?h)" "dom ?h \<subseteq> {0<..<2 ^ 64}"
    using D(6,7) by auto
  ultimately show ?thesis
    using D c ms ring by (auto simp: tp_inv_def simp del: fun_upd_apply dom_fun_upd)
qed

lemma tp_inv_section2:
  assumes "tp_inv n r xs" "i < length (ws r)" "ws r ! i = W_Done t"
  shows "tp_inv n (r\<lparr>rp := (rp r)\<lparr>p_idle_num := p_idle_num (rp r) + 1\<rparr>, ws := (ws r)[i := W_Loop]\<rparr>) xs"
proof -
  note D = tp_invD [OF assms(1)]
  have c: "n_idle ((ws r)[i := W_Loop]) = Suc (n_idle (ws r))" "runs ((ws r)[i := W_Loop]) = runs (ws r)"
    "n_loop ((ws r)[i := W_Loop]) = Suc (n_loop (ws r))"
    using counts_update [OF assms(2), of W_Loop] assms(3) by simp_all
  have "W_Wait \<in> set (ws r)" if "W_Wait \<in> set ((ws r)[i := W_Loop])"
    using that set_update_subset_insert [of "ws r" i W_Loop] by auto
  then show ?thesis
    using D c by (auto simp: tp_inv_def)
qed

lemma tp_inv_stop:
  assumes "tp_inv n r xs"
  shows "tp_inv n (r\<lparr>rp := (rp r)\<lparr>p_stop := True\<rparr>, ws := wake_all (ws r)\<rparr>) xs"
  using tp_invD [OF assms] by (simp add: tp_inv_def wake_all_counts)

lemma ring_fresh:
  assumes "ring h p xs" "a \<notin> set xs"
  shows "ring (h(a \<mapsto> K)) p xs"
proof -
  have e: "edge (h(a \<mapsto> K)) u v \<longleftrightarrow> edge h u v" if "u \<in> set xs" "v \<in> set xs" for u v
    using that assms(2) by (auto simp: edge_def)
  then have "successively (edge (h(a \<mapsto> K))) xs \<longleftrightarrow> successively (edge h) xs"
    by (intro successively_cong) auto
  then show ?thesis
    using assms(1) e by (cases xs) (auto simp: ring_Cons)
qed

text \<open>The workers after the signal of a caller that has queued a task.\<close>

lemma tp_inv_signal:
  assumes "tp_inv n r xs" "n < 2 ^ 64" "sig \<longleftrightarrow> p_idle_num (rp r) \<noteq> 0"
    and "if sig \<and> W_Wait \<in> set (ws r)
         then \<exists>i < length (ws r). ws r ! i = W_Wait \<and> ws' = (ws r)[i := W_Loop] else ws' = ws r"
  shows "length ws' = n \<and> n_idle ws' = n_idle (ws r) \<and> runs ws' = runs (ws r)
    \<and> (W_Wait \<in> set ws' \<longrightarrow> Suc (length xs) \<le> n_loop ws') \<and> (p_stop (rp r) \<longrightarrow> W_Wait \<notin> set ws')"
proof (cases "W_Wait \<in> set (ws r)")
  case True
  note D = tp_invD [OF assms(1)]
  have "0 < n_idle (ws r)" "n_idle (ws r) < 2 ^ 64"
    using n_idle_pos [OF True] n_idle_le [of "ws r"] D(1) assms(2) by auto
  then have "sig"
    using assms(3) D(5) by (simp add: word_of_nat_eq_0_iff nat_dvd_not_less)
  then obtain i where i: "i < length (ws r)" "ws r ! i = W_Wait" "ws' = (ws r)[i := W_Loop]"
    using assms(4) True by auto
  show ?thesis
    using tp_inv_wake [OF assms(1) i(1,2)] counts_update [OF i(1), of W_Loop] i D(1,11,12) True
    by (auto simp: tp_inv_def)
next
  case False
  then show ?thesis
    using assms(4) tp_invD(1) [OF assms(1)] by simp
qed

lemma tp_inv_queue:
  assumes "tp_inv n r xs" "n < 2 ^ 64" "rk r a = None" "0 < a" "a < 2 ^ 64"
    and "queue_section ((rk r)(a \<mapsto> new_task pool f x)) (rp r) a = Some (sig, h, P)"
    and "if sig \<and> W_Wait \<in> set (ws r)
         then \<exists>i < length (ws r). ws r ! i = W_Wait \<and> ws' = (ws r)[i := W_Loop] else ws' = ws r"
  shows "tp_inv n (r\<lparr>rp := P, rk := h, ws := ws', submitted := submitted r @ [(f, x)]\<rparr>) (xs @ [a])"
proof -
  note D = tp_invD [OF assms(1)] and S = tp_inv_queue_small [OF assms(1)]
  let ?h = "(rk r)(a \<mapsto> new_task pool f x)"
  have ax: "a \<notin> set xs" "a \<notin># runs (ws r)"
    using S(2,3) assms(3) by auto
  have ring: "ring ?h (p_task_head (rp r)) xs"
    by (rule ring_fresh [OF D(3) ax(1)])
  let ?q = "Some (hd (xs @ [a]))"
  have ha: "?h a = Some (new_task pool f x)"
    by simp
  obtain h0 where q: "threadpool_queue_task ?h (rp r) a
        = Some (h0, (rp r)\<lparr>p_task_head := ?q, p_task_num := p_task_num (rp r) + 1\<rparr>)"
      "ring h0 ?q (xs @ [a])" "\<forall>b. map_option k_task (h0 b) = map_option k_task (?h b)
         \<and> map_option k_arg (h0 b) = map_option k_arg (?h b)"
    using queue_task_ring [OF ring ha ax(1)] by blast
  have e: "h0 = h" and P: "P = (rp r)\<lparr>p_task_head := ?q, p_task_num := p_task_num (rp r) + 1\<rparr>"
      and sig: "sig \<longleftrightarrow> p_idle_num (rp r) \<noteq> 0"
    using q(1) assms(6) by (auto simp: queue_section_def)
  note rq = q(2) [unfolded e] and hs = q(3) [unfolded e]
  note hd = desc_cong_all [OF hs]
  have desc: "desc h b = desc (rk r) b" if "b \<noteq> a" for b
    using that hd(1) by (simp add: desc_def)
  have da: "desc h a = (f, x)"
    using hd(1) by (simp add: desc_def new_task_def)
  have m1: "map (desc h) xs = map (desc (rk r)) xs"
    using ax(1) by (auto intro: desc)
  have m2: "image_mset (desc h) (runs (ws r)) = image_mset (desc (rk r)) (runs (ws r))"
    using ax(2) by (intro image_mset_cong desc) auto
  have dm: "dom h = insert a (dom (rk r))" "a \<notin> dom (rk r)"
    using hd(2) assms(3) by auto
  note w = tp_inv_signal [OF assms(1,2) sig assms(7)]
  show ?thesis
    using D w rq m1 m2 da dm assms(4,5) P by (auto simp: tp_inv_def)
qed

lemma tp_inv_step:
  assumes "tp_step r r'" "tp_inv n r xs" "n < 2 ^ 64"
  shows "\<exists>ys. tp_inv n r' ys"
  using assms(1)
proof (cases rule: tp_step.cases)
  case (section1 i pc h P)
  then show ?thesis using tp_inv_section1 [OF assms(2)] by blast
next
  case (spurious i)
  then show ?thesis using tp_inv_wake(1) [OF assms(2)] by blast
next
  case (run_task i t K)
  then show ?thesis using tp_inv_run_task [OF assms(2)] by blast
next
  case (section2 i t)
  then show ?thesis using tp_inv_section2 [OF assms(2)] by blast
next
  case (queue a pool f x sig h P ws')
  then show ?thesis using tp_inv_queue [OF assms(2,3)] by blast
next
  case stop
  then show ?thesis using tp_inv_stop [OF assms(2)] by blast
qed

lemma tp_reach_inv: "tp_reach n r \<Longrightarrow> n < 2 ^ 64 \<Longrightarrow> \<exists>xs. tp_inv n r xs"
proof (induction rule: tp_reach.induct)
  case (start r)
  then show ?case using tp_inv_start by blast
next
  case (step r r')
  then show ?case using tp_inv_step by blast
qed

section \<open>The queue as a FIFO\<close>

text \<open>What the users of the queue rely on: a representation of lists that queueing extends at the
  end and dequeueing shortens at the front. Elements are distinct.\<close>

datatype 'a queue_op = Enq 'a | Deq

fun fifo_run :: "'a list \<Rightarrow> 'a queue_op list \<Rightarrow> 'a option list \<times> 'a list" where
  "fifo_run xs [] = ([], xs)"
| "fifo_run xs (Enq a # ops) = fifo_run (xs @ [a]) ops"
| "fifo_run [] (Deq # ops) = (let (os, ys) = fifo_run [] ops in (None # os, ys))"
| "fifo_run (x # xs) (Deq # ops) = (let (os, ys) = fifo_run xs ops in (Some x # os, ys))"

fun fresh_ops :: "'a list \<Rightarrow> 'a queue_op list \<Rightarrow> bool" where
  "fresh_ops xs [] = True"
| "fresh_ops xs (Enq a # ops) = (a \<notin> set xs \<and> fresh_ops (xs @ [a]) ops)"
| "fresh_ops xs (Deq # ops) = fresh_ops (tl xs) ops"

text \<open>The same operations on a queue with operations \<open>enq\<close> and \<open>deq\<close>: what was dequeued, and the state.\<close>

fun queue_run :: "('s \<Rightarrow> 'a \<Rightarrow> 's option) \<Rightarrow> ('s \<Rightarrow> ('a option \<times> 's) option) \<Rightarrow> 's \<Rightarrow> 'a queue_op list
    \<Rightarrow> ('a option list \<times> 's) option" where
  "queue_run enq deq s [] = Some ([], s)"
| "queue_run enq deq s (Enq a # ops) = do { s \<leftarrow> enq s a; queue_run enq deq s ops }"
| "queue_run enq deq s (Deq # ops) = do {
     (x, s) \<leftarrow> deq s; (os, s) \<leftarrow> queue_run enq deq s ops; Some (x # os, s) }"

locale fifo =
  fixes repr :: "'s \<Rightarrow> 'a list \<Rightarrow> bool"
    and enq :: "'s \<Rightarrow> 'a \<Rightarrow> 's option"
    and deq :: "'s \<Rightarrow> ('a option \<times> 's) option"
  assumes enq_repr: "repr s xs \<Longrightarrow> a \<notin> set xs \<Longrightarrow> \<exists>s'. enq s a = Some s' \<and> repr s' (xs @ [a])"
    and deq_empty: "repr s [] \<Longrightarrow> deq s = Some (None, s)"
    and deq_first: "repr s (x # xs) \<Longrightarrow> \<exists>s'. deq s = Some (Some x, s') \<and> repr s' xs"
begin

lemma run_refines:
  "repr s xs \<Longrightarrow> fresh_ops xs ops \<Longrightarrow>
     \<exists>s'. queue_run enq deq s ops = Some (fst (fifo_run xs ops), s') \<and> repr s' (snd (fifo_run xs ops))"
proof (induction ops arbitrary: s xs)
  case (Cons op ops)
  show ?case
  proof (cases op)
    case (Enq a)
    then obtain s1 where "enq s a = Some s1" "repr s1 (xs @ [a])"
      using enq_repr [OF Cons.prems(1), of a] Cons.prems(2) by auto
    then show ?thesis
      using Cons.IH [of s1 "xs @ [a]"] Cons.prems(2) Enq by simp
  next
    case Deq
    obtain x s1 where d: "deq s = Some (x, s1)" "repr s1 (tl xs)" "x = (if xs = [] then None else Some (hd xs))"
      using Cons.prems(1) deq_empty [of s] deq_first [of s "hd xs" "tl xs"] by (cases xs) auto
    then obtain s' where "queue_run enq deq s1 ops = Some (fst (fifo_run (tl xs) ops), s')" "repr s' (snd (fifo_run (tl xs) ops))"
      using Cons.IH [of s1 "tl xs"] Cons.prems(2) Deq by auto
    then show ?thesis
      using d Deq by (cases xs) (auto simp: case_prod_unfold Let_def)
  qed
qed simp

end

text \<open>The pool's queue with the allocation of the task in front of queueing.\<close>

definition pool_enq :: "task_heap \<times> wayca_threadpool \<Rightarrow> addr \<Rightarrow> (task_heap \<times> wayca_threadpool) option" where
  "pool_enq = (\<lambda>(h, P) a. threadpool_queue_task (h(a \<mapsto> new_task 0 0 0)) P a)"

definition pool_deq ::
    "task_heap \<times> wayca_threadpool \<Rightarrow> (addr option \<times> task_heap \<times> wayca_threadpool) option" where
  "pool_deq = (\<lambda>(h, P). threadpool_dequeue_task h P)"

definition pool_repr :: "task_heap \<times> wayca_threadpool \<Rightarrow> addr list \<Rightarrow> bool" where
  "pool_repr = (\<lambda>(h, P) xs. ring h (p_task_head P) xs \<and> p_task_num P = of_nat (length xs))"

lemma ring_upd_other:
  assumes "ring h p xs" "a \<notin> set xs"
  shows "ring (h(a := v)) p xs"
proof -
  have e: "edge (h(a := v)) u w \<longleftrightarrow> edge h u w" if "u \<in> set xs" "w \<in> set xs" for u w
    using that assms(2) by (auto simp: edge_def)
  then have "successively (edge (h(a := v))) xs \<longleftrightarrow> successively (edge h) xs"
    by (intro successively_cong) auto
  then show ?thesis
    using assms(1) e by (cases xs) (auto simp: ring_Cons)
qed

interpretation pq: fifo pool_repr pool_enq pool_deq
proof (unfold_locales, goal_cases)
  case (1 s xs a)
  obtain h P where s: "s = (h, P)" by fastforce
  have r: "ring (h(a \<mapsto> new_task 0 0 0)) (p_task_head P) xs"
    using 1 s by (auto simp: pool_repr_def intro: ring_upd_other)
  have "(h(a \<mapsto> new_task 0 0 0)) a = Some (new_task 0 0 0)"
    by simp
  from queue_task_ring [OF r this 1(2)] obtain h' where
    "threadpool_queue_task (h(a \<mapsto> new_task 0 0 0)) P a
      = Some (h', P\<lparr>p_task_head := Some (hd (xs @ [a])), p_task_num := p_task_num P + 1\<rparr>)"
    "ring h' (Some (hd (xs @ [a]))) (xs @ [a])"
    by blast
  then show ?case
    using 1(1) s by (simp add: pool_enq_def pool_repr_def)
next
  case (2 s)
  then show ?case
    by (auto simp: pool_repr_def pool_deq_def threadpool_dequeue_task_def)
next
  case (3 s x xs)
  obtain h P where s: "s = (h, P)" by fastforce
  have r: "ring h (p_task_head P) (x # xs)"
    using 3 s by (simp add: pool_repr_def)
  from dequeue_task_ring [OF r] obtain h' p where
    "threadpool_dequeue_task h P = Some (Some x, h', P\<lparr>p_task_head := p, p_task_num := p_task_num P - 1\<rparr>)"
    "ring h' p xs"
    by blast
  then show ?case
    using 3 s by (simp add: pool_deq_def pool_repr_def)
qed

text \<open>C7. The circular doubly linked task list of a thread pool is a FIFO: any sequence of queueing and
  dequeueing, starting from an empty queue and queueing no task that is still queued, never follows
  a bad pointer and dequeues exactly what the same sequence takes from a list that is extended at
  the end and shortened at the front, reporting an empty queue exactly when that list is empty; the
  counter is the length of that list.\<close>

theorem threadpool_queue_is_fifo:
  assumes "p_task_head P = None" "p_task_num P = 0" "fresh_ops [] ops"
  shows "\<exists>h' P'. queue_run pool_enq pool_deq (h, P) ops = Some (fst (fifo_run [] ops), h', P')
    \<and> p_task_num P' = of_nat (length (snd (fifo_run [] ops)))"
proof -
  have "pool_repr (h, P) []"
    using assms(1,2) by (simp add: pool_repr_def)
  from pq.run_refines [OF this assms(3)] show ?thesis
    by (auto simp: pool_repr_def split: prod.splits)
qed

theorem threadpool_queue_is_fifo_witness:
  "\<exists>h' P'. queue_run pool_enq pool_deq (\<lambda>_. None, zero_pool) [Enq 1, Enq 2, Deq, Enq 3, Deq, Deq, Deq]
      = Some ([Some 1, Some 2, Some 3, None], h', P') \<and> p_task_num P' = 0"
  using threadpool_queue_is_fifo [of zero_pool "[Enq 1, Enq 2, Deq, Enq 3, Deq, Deq, Deq]" "\<lambda>_. None"]
  by (simp add: zero_pool_def)

section \<open>What the pool guarantees\<close>

text \<open>The tasks in the queue, oldest first.\<close>

definition queued :: "tp_run \<Rightarrow> addr list \<Rightarrow> bool" where
  "queued r xs \<longleftrightarrow> ring (rk r) (p_task_head (rp r)) xs"

lemma unat_small: "k < 2 ^ 64 \<Longrightarrow> unat (of_nat k :: ulong) = k"
  by (simp add: unat_of_nat)

lemma sint_small: "k < 2 ^ 63 \<Longrightarrow> sint (of_nat k :: ulong) = int k"
  by (simp add: sint_uint uint_nat unat_of_nat signed_take_bit_int_eq_self)

text \<open>A run of a pool with two workers: both wait, a task is queued and wakes the first, which takes it;
  then the pool is stopped.\<close>

definition sample_run0 :: tp_run where
  "sample_run0 = \<lparr>rp = zero_pool\<lparr>p_total_worker_num := 2, p_idle_num := 2\<rparr>, rk = (\<lambda>_. None),
     ws = [W_Loop, W_Loop], submitted = [], started = [], finished = []\<rparr>"

definition sample_task :: wayca_threadpool_task where
  "sample_task = \<lparr>k_pool = 9, k_task = 7, k_arg = 8, k_next = Some 1, k_prev = Some 1\<rparr>"

definition sample_run1 :: tp_run where
  "sample_run1 = sample_run0\<lparr>rp := (rp sample_run0)\<lparr>p_task_head := Some 1, p_task_num := 1\<rparr>,
     rk := [1 \<mapsto> sample_task], ws := [W_Loop, W_Wait], submitted := [(7, 8)]\<rparr>"

definition sample_run2 :: tp_run where
  "sample_run2 = sample_run1\<lparr>rp := (rp sample_run0)\<lparr>p_idle_num := 1\<rparr>, ws := [W_Task 1, W_Wait], started := [(7, 8)]\<rparr>"

definition sample_run3 :: tp_run where
  "sample_run3 = sample_run2\<lparr>rp := (rp sample_run2)\<lparr>p_stop := True\<rparr>, ws := [W_Task 1, W_Loop]\<rparr>"

lemma sample_runs: "tp_reach 2 sample_run1" "tp_reach 2 sample_run2" "tp_reach 2 sample_run3"
proof -
  let ?r1 = "sample_run0\<lparr>ws := [W_Wait, W_Loop]\<rparr>" and ?r2 = "sample_run0\<lparr>ws := [W_Wait, W_Wait]\<rparr>"
  have r0: "tp_reach 2 sample_run0"
    by (rule tp_reach.start) (simp add: tp_start_def sample_run0_def zero_pool_def numeral_2_eq_2)
  have s1: "tp_step sample_run0 ?r1"
    using tp_step.section1 [of 0 sample_run0 W_Wait "rk sample_run0" "rp sample_run0"]
    by (simp add: sample_run0_def zero_pool_def worker_section_def)
  have s2: "tp_step ?r1 ?r2"
    using tp_step.section1 [of 1 ?r1 W_Wait "rk ?r1" "rp ?r1"]
    by (simp add: sample_run0_def zero_pool_def worker_section_def)
  have "\<exists>i < length [W_Wait, W_Wait]. [W_Wait, W_Wait] ! i = W_Wait
      \<and> [W_Loop, W_Wait] = [W_Wait, W_Wait][i := W_Loop]"
    by (rule exI [of _ 0]) simp
  then have s3: "tp_step ?r2 sample_run1"
    using tp_step.queue [of ?r2 1 9 7 8 True "[1 \<mapsto> sample_task]" "rp sample_run1" "[W_Loop, W_Wait]"]
    by (simp add: sample_run0_def sample_run1_def zero_pool_def queue_section_def new_task_def sample_task_def
        threadpool_queue_task_def threadpool_task_is_empty_def upd_k_def)
  show r1: "tp_reach 2 sample_run1"
    by (rule tp_reach.step [OF tp_reach.step [OF tp_reach.step [OF r0 s1] s2] s3])
  have "tp_step sample_run1 sample_run2"
    using tp_step.section1 [of 0 sample_run1 "W_Task 1" "rk sample_run1" "rp sample_run2"]
    by (simp add: sample_run0_def sample_run1_def sample_run2_def zero_pool_def worker_section_def sample_task_def
        threadpool_dequeue_task_def)
  with r1 show r2: "tp_reach 2 sample_run2"
    by (rule tp_reach.step)
  have "tp_step sample_run2 sample_run3"
    using tp_step.stop [of sample_run2] by (simp add: sample_run2_def sample_run3_def wake_all_def)
  with r2 show "tp_reach 2 sample_run3"
    by (rule tp_reach.step)
qed

lemmas sample_run_defs = sample_run0_def sample_run1_def sample_run2_def sample_run3_def zero_pool_def
  sample_task_def

text \<open>C3. In every state reachable by any interleaving of workers and callers: the tasks start in the
  order they were submitted, and those submitted and not yet started are exactly the queue; every
  started task is finished or being executed by a worker, none twice and none lost; the counters
  \<^verbatim>\<open>task_num\<close> and \<^verbatim>\<open>idle_num\<close> are exact, so that \<^verbatim>\<open>wayca_sc_threadpool_running_num\<close> does not
  wrap and gives the number of workers that are busy.\<close>

theorem threadpool_exact:
  assumes "tp_reach n r" "n < 2 ^ 63"
  shows "\<exists>xs. queued r xs \<and> submitted r = started r @ map (desc (rk r)) xs
    \<and> mset (started r) = mset (finished r) + image_mset (desc (rk r)) (runs (ws r))
    \<and> unat (p_task_num (rp r)) = length xs \<and> unat (p_idle_num (rp r)) = n_idle (ws r)
    \<and> sint (p_total_worker_num (rp r) - p_idle_num (rp r)) = int (length (ws r)) - int (n_idle (ws r))"
proof -
  have n: "n < 2 ^ 64"
    using assms(2) by simp
  obtain xs where inv: "tp_inv n r xs"
    using tp_reach_inv [OF assms(1) n] by blast
  note D = tp_invD [OF inv]
  have le: "n_idle (ws r) \<le> n"
    using n_idle_le [of "ws r"] D(1) by simp
  have i: "unat (p_idle_num (rp r)) = n_idle (ws r)"
    using D(5) le n unat_small by simp
  have "p_total_worker_num (rp r) - p_idle_num (rp r) = of_nat (n - n_idle (ws r))"
    using D(2,5) le by (simp add: of_nat_diff)
  moreover have "sint (of_nat (n - n_idle (ws r)) :: ulong) = int (n - n_idle (ws r))"
    using assms(2) by (intro sint_small) simp
  ultimately show ?thesis
    using D i le tp_inv_queue_small(1) [OF inv] unat_small
    by (intro exI [of _ xs]) (simp add: queued_def of_nat_diff)
qed

theorem threadpool_exact_witness:
  "\<exists>xs. queued sample_run2 xs \<and> submitted sample_run2 = started sample_run2 @ map (desc (rk sample_run2)) xs
    \<and> sint (p_total_worker_num (rp sample_run2) - p_idle_num (rp sample_run2)) = 1"
  using threadpool_exact [OF sample_runs(2)] by (auto simp: sample_run_defs)

text \<open>C6. No wake-up is lost: whenever a worker sleeps in \<^verbatim>\<open>pthread_cond_wait\<close>, every queued task has
  a worker of its own that is awake and about to look at the queue. So a task never waits while a
  worker that could take it sleeps.\<close>

theorem threadpool_no_lost_wakeup:
  assumes "tp_reach n r" "n < 2 ^ 64" "W_Wait \<in> set (ws r)"
  shows "unat (p_task_num (rp r)) \<le> length (filter (\<lambda>w. w = W_Loop) (ws r))"
proof -
  obtain ys where inv: "tp_inv n r ys"
    using tp_reach_inv [OF assms(1,2)] by blast
  note D = tp_invD [OF inv]
  have "unat (p_task_num (rp r)) \<le> n_loop (ws r)"
    using D(4) D(12) [OF assms(3)] tp_inv_queue_small(1) [OF inv] unat_small by simp
  also have "n_loop (ws r) = length (filter (\<lambda>w. w = W_Loop) (ws r))"
    by (simp add: n_loop_filter)
  finally show ?thesis .
qed

theorem threadpool_no_lost_wakeup_witness:
  "W_Wait \<in> set (ws sample_run1) \<and> p_task_num (rp sample_run1) = 1
    \<and> unat (p_task_num (rp sample_run1)) \<le> length (filter (\<lambda>w. w = W_Loop) (ws sample_run1))"
  using threadpool_no_lost_wakeup [OF sample_runs(1)] by (simp add: sample_run_defs)

text \<open>What is left for the workers to do once the pool is stopped.\<close>

fun left :: "worker \<Rightarrow> nat" where
  "left (W_Task _) = 3"
| "left (W_Done _) = 2"
| "left W_Loop = 1"
| "left W_Wait = 2"
| "left W_Exit = 0"

definition work_left :: "worker list \<Rightarrow> nat" where
  "work_left xs = sum_list (map left xs)"

lemma work_left_update:
  assumes "i < length xs" "left y < left (xs ! i)"
  shows "work_left (xs[i := y]) < work_left xs"
  using sum_list_update [OF assms(1), of left y] assms(2) by (simp add: work_left_def)

text \<open>A step of a worker, as opposed to one of a caller of the pool.\<close>

definition worker_step :: "tp_run \<Rightarrow> tp_run \<Rightarrow> bool" where
  "worker_step r r' \<longleftrightarrow> tp_step r r' \<and> (\<exists>i < length (ws r). \<exists>pc. pc \<noteq> ws r ! i \<and> ws r' = (ws r)[i := pc])
     \<and> submitted r' = submitted r \<and> p_stop (rp r') = p_stop (rp r)"

lemma worker_stepI:
  assumes "tp_step r r'" "i < length (ws r)" "pc \<noteq> ws r ! i" "ws r' = (ws r)[i := pc]"
    and "submitted r' = submitted r" "p_stop (rp r') = p_stop (rp r)"
  shows "\<exists>r'. worker_step r r'"
  using assms unfolding worker_step_def by blast

lemma worker_step_left:
  assumes "tp_inv n r xs" "p_stop (rp r)" "i < length (ws r)" "ws r ! i \<noteq> W_Exit"
  shows "\<exists>r'. worker_step r r'"
proof (cases "ws r ! i")
  case W_Loop
  have "worker_section (rk r) (rp r) = Some (W_Exit, rk r, rp r)"
    using assms(2) by (simp add: worker_section_def)
  from tp_step.section1 [OF assms(3) W_Loop this] show ?thesis
    by (rule worker_stepI [where i = i and pc = W_Exit]) (simp_all add: assms(3) W_Loop)
next
  case W_Wait
  then show ?thesis
    using tp_invD(11) [OF assms(1,2)] nth_mem [OF assms(3)] by simp
next
  case (W_Task t)
  have "t \<in># runs (ws r)"
    using counts_update(3) [OF assms(3), of W_Exit] W_Task by (simp flip: add_mset_add_single)
      (metis union_single_eq_member)
  then obtain K where "rk r t = Some K"
    using tp_inv_queue_small(3) [OF assms(1)] by blast
  from tp_step.run_task [OF assms(3) W_Task this] show ?thesis
    by (rule worker_stepI [where i = i and pc = "W_Done t"]) (simp_all add: assms(3) W_Task)
next
  case (W_Done t)
  from tp_step.section2 [OF assms(3) W_Done] show ?thesis
    by (rule worker_stepI [where i = i and pc = W_Loop]) (simp_all add: assms(3) W_Done)
qed (use assms in simp)

lemma worker_step_decreases:
  assumes "worker_step r r'" "p_stop (rp r)" "W_Wait \<notin> set (ws r)"
  shows "work_left (ws r') < work_left (ws r)"
proof -
  have "tp_step r r'" "submitted r' = submitted r"
    using assms(1) by (simp_all add: worker_step_def)
  then show ?thesis
  proof (cases rule: tp_step.cases)
    case (section1 i pc h P)
    then have "pc = W_Exit"
      using assms(2) by (simp add: worker_section_def)
    then show ?thesis
      using section1 work_left_update [of i "ws r" W_Exit] by simp
  next
    case (spurious i)
    then show ?thesis using assms(3) nth_mem by fastforce
  next
    case (run_task i t K)
    then show ?thesis using work_left_update [of i "ws r" "W_Done t"] by simp
  next
    case (section2 i t)
    then show ?thesis using work_left_update [of i "ws r" W_Loop] by simp
  next
    case (queue a pool f x sig h P ws')
    then show ?thesis using assms(1) by (simp add: worker_step_def)
  next
    case stop
    have "wake_all (ws r) = ws r"
      using assms(3) unfolding wake_all_def by (intro map_idI) auto
    then have "ws r' = ws r"
      using stop by simp
    then obtain i pc where i: "i < length (ws r)" "pc \<noteq> ws r ! i" "ws r = (ws r)[i := pc]"
      using assms(1) by (auto simp: worker_step_def)
    then show ?thesis
      by (metis nth_list_update_eq)
  qed
qed

text \<open>C8. Stopping terminates the workers: once \<^verbatim>\<open>wayca_sc_threadpool_destroy\<close> has set \<^verbatim>\<open>stop\<close>, no
  worker sleeps any more, every step of a worker brings all of them strictly closer to
  returning, and as long as a worker has not returned one can take a step. So the joins return,
  given that the tasks being executed do.\<close>

theorem threadpool_stop_terminates:
  assumes "tp_reach n r" "n < 2 ^ 64" "p_stop (rp r)"
  shows "W_Wait \<notin> set (ws r) \<and> (\<forall>r'. worker_step r r' \<longrightarrow> work_left (ws r') < work_left (ws r))
    \<and> (set (ws r) \<subseteq> {W_Exit} \<or> (\<exists>r'. worker_step r r'))"
proof -
  obtain xs where inv: "tp_inv n r xs"
    using tp_reach_inv [OF assms(1,2)] by blast
  have w: "W_Wait \<notin> set (ws r)"
    using tp_invD(11) [OF inv assms(3)] .
  have "\<exists>r'. worker_step r r'" if ne: "\<not> set (ws r) \<subseteq> {W_Exit}"
  proof -
    obtain i where "i < length (ws r)" "ws r ! i \<noteq> W_Exit"
      using ne by (force simp: in_set_conv_nth)
    then show ?thesis
      using worker_step_left [OF inv assms(3)] by blast
  qed
  then show ?thesis
    using w worker_step_decreases [OF _ assms(3) w] by blast
qed

theorem threadpool_stop_terminates_witness:
  "p_stop (rp sample_run3) \<and> ws sample_run3 = [W_Task 1, W_Loop] \<and> (\<exists>r'. worker_step sample_run3 r')"
  using threadpool_stop_terminates [OF sample_runs(3)] by (simp add: sample_run_defs)

text \<open>C9. Emptying the queue on destruction terminates: from a well-formed queue the loop dequeues and
  frees every queued task, exactly those, and leaves an empty queue with counter 0.\<close>

theorem threadpool_drain_terminates:
  assumes "ring h (p_task_head P) xs" "p_task_num P = of_nat (length xs)"
  shows "\<exists>h'. drain h P = Some (h', P\<lparr>p_task_head := None, p_task_num := 0\<rparr>)
    \<and> (\<forall>a. h' a = None \<longleftrightarrow> a \<in> set xs \<or> h a = None)"
  using assms
proof (induction xs arbitrary: h P)
  case Nil
  then show ?case
    by (subst drain.simps) (simp add: threadpool_task_is_empty_def)
next
  case (Cons x xs)
  from dequeue_task_ring [OF Cons.prems(1)] obtain h1 p where
    d: "threadpool_dequeue_task h P = Some (Some x, h1, P\<lparr>p_task_head := p, p_task_num := p_task_num P - 1\<rparr>)"
    "ring h1 p xs" and k: "\<forall>a. map_option k_task (h1 a) = map_option k_task (h a)
         \<and> map_option k_arg (h1 a) = map_option k_arg (h a)"
    by blast
  let ?P = "P\<lparr>p_task_head := p, p_task_num := p_task_num P - 1\<rparr>"
  have x: "x \<notin> set xs" and ne: "p_task_head P \<noteq> None"
    using Cons.prems(1) by (auto simp: ring_Cons)
  have "ring (h1(x := None)) (p_task_head ?P) xs" "p_task_num ?P = of_nat (length xs)"
    using ring_upd_other [OF d(2) x] Cons.prems(2) by simp_all
  from Cons.IH [OF this] obtain h' where
    h': "drain (h1(x := None)) ?P = Some (h', ?P\<lparr>p_task_head := None, p_task_num := 0\<rparr>)"
    "\<forall>a. h' a = None \<longleftrightarrow> a \<in> set xs \<or> (h1(x := None)) a = None"
    by blast
  have "h1 a = None \<longleftrightarrow> h a = None" for a
    using desc_cong(2) [of h1 a h] k by blast
  then show ?case
    using d(1) h' ne by (subst drain.simps) (auto simp: threadpool_task_is_empty_def)
qed

theorem threadpool_drain_terminates_witness:
  "\<exists>h'. drain (rk sample_run1) (rp sample_run1)
      = Some (h', (rp sample_run1)\<lparr>p_task_head := None, p_task_num := 0\<rparr>) \<and> h' 1 = None"
  using threadpool_drain_terminates [of "rk sample_run1" "rp sample_run1" "[1]"]
  by (auto simp: sample_run_defs ring_Cons edge_def)

end
