(* ===== verification/CString.thy ===== *)
theory CString
  imports Cpuset
begin

text \<open>
  Strings of C and the parsers of CPU lists: \<^verbatim>\<open>nexttoken\<close>, \<^verbatim>\<open>nextnumber\<close> and \<^verbatim>\<open>cpulist_parse\<close> of
  \<^verbatim>\<open>lib/topo.c\<close> and \<^verbatim>\<open>list_to_mask\<close> of \<^verbatim>\<open>lib/threads.c\<close>. A pointer into a string is the rest of
  the string from there on, so of two pointers into one string the lower one has the longer rest;
  \<open>None\<close> is NULL. The library functions used are those of the C standard in the C locale.
\<close>

section \<open>Library functions\<close>

definition isdigit :: "char \<Rightarrow> bool" where
  "isdigit c \<longleftrightarrow> (of_char c :: nat) \<in> {48..57}"

definition isspace :: "char \<Rightarrow> bool" where
  "isspace c \<longleftrightarrow> c \<in> {CHR '' '', CHR 0x09, CHR 0x0A, CHR 0x0B, CHR 0x0C, CHR 0x0D}"

definition digit :: "char \<Rightarrow> nat" where
  "digit c = of_char c - 48"

definition number :: "string \<Rightarrow> nat" where
  "number ds = foldl (\<lambda>n c. 10 * n + digit c) 0 ds"

text \<open>The common part of the conversions: the sign, the digits and the rest of the string, \<open>None\<close> when
  there is no number.\<close>

definition scan_number :: "string \<Rightarrow> (bool \<times> nat \<times> string) option" where
  "scan_number s =
     (let s = dropWhile isspace s;
          (neg, s) = (case s of c # r \<Rightarrow> if c = CHR ''-'' then (True, r)
                        else if c = CHR ''+'' then (False, r) else (False, s) | [] \<Rightarrow> (False, s));
          ds = takeWhile isdigit s
      in if ds = [] then None else Some (neg, number ds, dropWhile isdigit s))"

text \<open>\<^verbatim>\<open>strtoul(s, &end, 10)\<close>: the value, \<^verbatim>\<open>end\<close>, and \<^verbatim>\<open>errno\<close> when it is set.\<close>

definition strtoul :: "string \<Rightarrow> ulong \<times> string \<times> int" where
  "strtoul s = (case scan_number s of
       None \<Rightarrow> (0, s, 0)
     | Some (neg, n, r) \<Rightarrow>
         if 2 ^ 64 \<le> n then (- 1, r, ERANGE)
         else (if neg then - of_nat n else of_nat n, r, 0))"

text \<open>\<^verbatim>\<open>strtoul(s, &end, 0)\<close>: a prefix \<^verbatim>\<open>0x\<close> selects base 16, a leading \<^verbatim>\<open>0\<close> base 8.\<close>

definition scan_number0 :: "string \<Rightarrow> (bool \<times> nat \<times> string) option" where
  "scan_number0 s =
     (let s = dropWhile isspace s;
          (neg, s) = (case s of c # r \<Rightarrow> if c = CHR ''-'' then (True, r)
                        else if c = CHR ''+'' then (False, r) else (False, s) | [] \<Rightarrow> (False, s));
          base = (if take 2 s \<in> {''0x'', ''0X''} \<and> 2 < length s \<and> 0 \<le> hex_to_bin (s ! 2) then 16
                  else if take 1 s = ''0'' then 8 else 10);
          s = (if base = 16 then drop 2 s else s);
          ok = (\<lambda>c. 0 \<le> hex_to_bin c \<and> hex_to_bin c < base);
          ds = takeWhile ok s
      in if ds = [] then None
         else Some (neg, nat (foldl (\<lambda>n c. base * n + hex_to_bin c) 0 ds), dropWhile ok s))"

definition strtoul0 :: "string \<Rightarrow> ulong \<times> string \<times> int" where
  "strtoul0 s = (case scan_number0 s of
       None \<Rightarrow> (0, s, 0)
     | Some (neg, n, r) \<Rightarrow>
         if 2 ^ 64 \<le> n then (- 1, r, ERANGE)
         else (if neg then - of_nat n else of_nat n, r, 0))"

text \<open>\<^verbatim>\<open>strtol\<close>, whose result is a \<^verbatim>\<open>long\<close>.\<close>

definition strtol :: "string \<Rightarrow> int \<times> string \<times> int" where
  "strtol s = (case scan_number s of
       None \<Rightarrow> (0, s, 0)
     | Some (neg, n, r) \<Rightarrow>
         let v = (if neg then - int n else int n) in
         if v < - (2 ^ 63) then (- (2 ^ 63), r, ERANGE)
         else if 2 ^ 63 \<le> v then (2 ^ 63 - 1, r, ERANGE) else (v, r, 0))"

text \<open>Conversion of a \<^verbatim>\<open>long\<close> to \<^verbatim>\<open>int\<close>.\<close>

definition to_int :: "int \<Rightarrow> int" where
  "to_int n = sint (word_of_int n :: 32 word)"

section \<open>cpulist\_parse\<close>

definition nexttoken :: "string option \<Rightarrow> char \<Rightarrow> string option" where
  "nexttoken q sep = (case q of
       None \<Rightarrow> None
     | Some q \<Rightarrow> (case dropWhile (\<lambda>c. c \<noteq> sep) q of [] \<Rightarrow> None | _ # r \<Rightarrow> Some r))"

text \<open>The return value, and \<^verbatim>\<open>*end\<close> and \<^verbatim>\<open>*result\<close> when they are written.\<close>

definition nextnumber :: "string option \<Rightarrow> int \<times> (string \<times> 32 word) option" where
  "nextnumber str = (case str of
       None \<Rightarrow> (- EINVAL, None)
     | Some [] \<Rightarrow> (- EINVAL, None)
     | Some (c # r) \<Rightarrow>
         if \<not> isdigit c then (- EINVAL, None)
         else let (v, end, err) = strtoul (c # r) in
           (if err \<noteq> 0 then - err else if end = c # r then - EINVAL else 0,
            Some (end, ucast v)))"

text \<open>\<^verbatim>\<open>while (a <= b) { if (fail && a >= max) return 2; CPU_SET_S(a, setsize, set); a += s; }\<close> on
  \<^verbatim>\<open>unsigned int\<close>. The first component is 2 for the early return, 0 otherwise.\<close>

partial_function (option) parse_range ::
    "32 word \<Rightarrow> 32 word \<Rightarrow> 32 word \<Rightarrow> nat \<Rightarrow> bool \<Rightarrow> cpu_set_t \<Rightarrow> (int \<times> cpu_set_t) option" where
  "parse_range a b s mx fail cs =
     (if a \<le> b then
        if fail \<and> mx \<le> unat a then Some (2, cs)
        else parse_range (a + s) b s mx fail (CPU_SET (uint a) cs)
      else Some (0, cs))"

declare parse_range.simps [code]

definition ptr_lt :: "string option \<Rightarrow> string option \<Rightarrow> bool" where
  "ptr_lt p q = (case (p, q) of (Some p, Some q) \<Rightarrow> length q < length p | _ \<Rightarrow> False)"

text \<open>The numbers of one element of the list, \<open>a\<close>, \<open>a-b\<close> or \<open>a-b:s\<close>, and the final value of \<^verbatim>\<open>end\<close>;
  \<open>None\<close> for the error returns in the body of the loop.\<close>

definition parse_element :: "string option \<Rightarrow> (32 word \<times> 32 word \<times> 32 word \<times> string) option" where
  "parse_element p = (case nextnumber p of
       (r, Some (e, a)) \<Rightarrow>
         if r \<noteq> 0 then None
         else let p = Some e; c1 = nexttoken p CHR ''-''; c2 = nexttoken p CHR '','' in
           if c1 \<noteq> None \<and> (c2 = None \<or> ptr_lt c1 c2) then
             (case nextnumber c1 of
                (r, Some (e, b)) \<Rightarrow>
                  if r \<noteq> 0 then None
                  else let c1 = (if e \<noteq> [] then nexttoken (Some e) CHR '':'' else None) in
                    if c1 \<noteq> None \<and> (c2 = None \<or> ptr_lt c1 c2) then
                      (case nextnumber c1 of
                         (r, Some (e, s)) \<Rightarrow> if r \<noteq> 0 then None else if s = 0 then None
                                             else Some (a, b, s, e)
                       | (r, None) \<Rightarrow> None)
                    else Some (a, b, 1, e)
              | (r, None) \<Rightarrow> None)
           else Some (a, a, 1, e)
     | (r, None) \<Rightarrow> None)"

text \<open>The loop over the elements: \<open>p\<close> is \<^verbatim>\<open>q\<close> at the head of the loop, \<open>end\<close> the last \<^verbatim>\<open>end\<close>.\<close>

lemma dropWhile_tl_shorter: "dropWhile P xs = y # ys \<Longrightarrow> length ys < length xs"
  using length_dropWhile_le [of P xs] by simp

lemma nexttoken_shorter: "nexttoken (Some q) sep = Some r \<Longrightarrow> length r < length q"
  by (auto simp: nexttoken_def dest: dropWhile_tl_shorter split: list.splits)

function (sequential) parse_elements ::
    "string option \<Rightarrow> string option \<Rightarrow> nat \<Rightarrow> bool \<Rightarrow> cpu_set_t \<Rightarrow> (int \<times> cpu_set_t) option" where
  "parse_elements None e mx fail cs =
     Some (case e of Some (_ # _) \<Rightarrow> 1 | _ \<Rightarrow> 0, cs)"
| "parse_elements (Some p) e mx fail cs = (case parse_element (Some p) of
       None \<Rightarrow> Some (1, cs)
     | Some (a, b, s, e') \<Rightarrow>
         if \<not> a \<le> b then Some (1, cs)
         else (case parse_range a b s mx fail cs of
             None \<Rightarrow> None
           | Some (ret, cs') \<Rightarrow>
               if ret \<noteq> 0 then Some (ret, cs')
               else parse_elements (nexttoken (Some p) CHR '','') (Some e') mx fail cs'))"
  by pat_completeness auto
termination
  by (relation "measure (\<lambda>(p, e, mx, fail, cs). case p of None \<Rightarrow> 0 | Some q \<Rightarrow> Suc (length q))")
    (auto split: option.splits dest: nexttoken_shorter)

declare parse_elements.simps [simp del]

text \<open>\<open>setsize\<close> is in bytes; the set has \<open>setsize div 8\<close> words.\<close>

definition cpulist_parse :: "string \<Rightarrow> nat \<Rightarrow> bool \<Rightarrow> (int \<times> cpu_set_t) option" where
  "cpulist_parse str setsz fail =
     parse_elements (Some str) None (8 * setsz) fail (replicate (setsz div 8) 0)"

section \<open>Ranges\<close>

declare length_CPU_SET [simp]

text \<open>With stride 1 and an end below \<^verbatim>\<open>UINT_MAX\<close> the loop ends and sets the CPUs of the range that fit.\<close>

lemma parse_range_step1:
  assumes "a \<le> b + 1" "b < 2 ^ 32 - 1"
  shows "\<exists>cs'. parse_range (of_nat a) (of_nat b) 1 mx False cs = Some (0, cs') \<and> length cs' = length cs
    \<and> cpus cs' = cpus cs \<union> ({a..b} \<inter> {..<64 * length cs})"
  using assms
proof (induction "b + 1 - a" arbitrary: a cs)
  case 0
  then have "a = b + 1" by simp
  then have "\<not> (of_nat a :: 32 word) \<le> of_nat b"
    using 0 by (simp add: word_le_nat_alt unat_of_nat del: of_nat_Suc of_nat_add)
  then show ?case
    using \<open>a = b + 1\<close> by (subst parse_range.simps) auto
next
  case (Suc n)
  have le: "(of_nat a :: 32 word) \<le> of_nat b"
    using Suc by (simp add: word_le_nat_alt unat_of_nat)
  have u: "uint (of_nat a :: 32 word) = int a"
    using Suc by (simp add: uint_nat unat_of_nat)
  have "n = b + 1 - (a + 1)" "a + 1 \<le> b + 1"
    using Suc by simp_all
  from Suc.hyps(1) [OF this Suc.prems(2), of "CPU_SET (int a) cs"]
  obtain cs' where cs': "parse_range (of_nat (a + 1)) (of_nat b) 1 mx False (CPU_SET (int a) cs) = Some (0, cs')"
      "length cs' = length cs"
      "cpus cs' = cpus (CPU_SET (int a) cs) \<union> ({a + 1..b} \<inter> {..<64 * length cs})"
    by auto
  have "insert a ({a + 1..b} \<inter> X) \<inter> {..<m} = {a..b} \<inter> {..<m}" if "X = {..<m}" "a \<le> b" for m X
    using that by auto
  then have "cpus cs' = cpus cs \<union> ({a..b} \<inter> {..<64 * length cs})"
    using cs'(3) Suc by (auto simp: cpus_CPU_SET_gen)
  moreover have "parse_range (of_nat a) (of_nat b) 1 mx False cs = Some (0, cs')"
    using cs'(1) le u by (subst parse_range.simps) (simp add: add.commute)
  ultimately show ?case
    using cs'(2) by blast
qed

text \<open>An end of \<^verbatim>\<open>UINT_MAX\<close> makes the condition of the loop always true.\<close>

lemma parse_range_diverges: "parse_range a (- 1) s mx False cs = None"
proof (rule ccontr)
  assume "parse_range a (- 1) s mx False cs \<noteq> None"
  then obtain y where "parse_range a (- 1) s mx False cs = Some y" by auto
  then have "(- 1 :: 32 word) = - 1 \<longrightarrow> \<not> False \<longrightarrow> False"
  proof (rule parse_range.raw_induct [where P = "\<lambda>a b s mx f cs y. b = - 1 \<longrightarrow> \<not> f \<longrightarrow> False", rotated], goal_cases)
    case (1 loop a b s mx fl cs y)
    show ?case
    proof (intro impI)
      assume b: "b = - 1" "\<not> fl"
      then have "loop (a + s) b s mx fl (CPU_SET (uint a) cs) = Some y"
        using 1(2) by simp
      from 1(1) [OF this] b show False by blast
    qed
  qed
  then show False by simp
qed

section \<open>Printed lists\<close>

text \<open>The format in which the kernel prints CPU lists: decimal numbers and ranges, separated by commas.\<close>

fun decimal :: "nat \<Rightarrow> string" where
  "decimal n = (if n < 10 then [char_of (48 + n)] else decimal (n div 10) @ [char_of (48 + n mod 10)])"

declare decimal.simps [simp del]

definition print_range :: "nat \<times> nat \<Rightarrow> string" where
  "print_range = (\<lambda>(a, b). if a = b then decimal a else decimal a @ CHR ''-'' # decimal b)"

fun print_list :: "(nat \<times> nat) list \<Rightarrow> string" where
  "print_list [] = []"
| "print_list [r] = print_range r"
| "print_list (r # rs) = print_range r @ CHR '','' # print_list rs"

lemma of_char_digit: "n < 10 \<Longrightarrow> of_char (char_of (48 + n :: nat) :: char) = (48 + n :: nat)"
  by (simp add: of_char_of)

lemma decimal_digits: "\<forall>c \<in> set (decimal n). isdigit c"
proof (induction n rule: decimal.induct)
  case (1 n)
  show ?case
  proof (cases "n < 10")
    case True
    then show ?thesis
      by (subst decimal.simps) (simp add: isdigit_def of_char_digit)
  next
    case False
    then show ?thesis
      using 1 of_char_digit [of "n mod 10"] by (subst decimal.simps) (auto simp: isdigit_def)
  qed
qed

lemma decimal_ne [simp]: "decimal n \<noteq> []"
  by (subst decimal.simps) simp

lemma number_decimal: "number (decimal n) = n"
proof (induction n rule: decimal.induct)
  case (1 n)
  show ?case
  proof (cases "n < 10")
    case True
    then show ?thesis
      by (subst decimal.simps) (simp add: number_def digit_def of_char_digit)
  next
    case False
    then show ?thesis
      using 1 of_char_digit [of "n mod 10"] by (subst decimal.simps) (simp add: number_def digit_def)
  qed
qed

text \<open>Where a printed number ends.\<close>

definition stops :: "string \<Rightarrow> bool" where
  "stops r \<longleftrightarrow> (case r of [] \<Rightarrow> True | c # _ \<Rightarrow> \<not> isdigit c)"

lemma isdigit_not: "isdigit c \<Longrightarrow> \<not> isspace c \<and> c \<noteq> CHR ''-'' \<and> c \<noteq> CHR ''+'' \<and> c \<noteq> CHR '','' \<and> c \<noteq> CHR '':''"
  by (auto simp: isdigit_def isspace_def)

lemma takeWhile_stops: "\<forall>c \<in> set ds. isdigit c \<Longrightarrow> stops r \<Longrightarrow> takeWhile isdigit (ds @ r) = ds \<and> dropWhile isdigit (ds @ r) = r"
  by (induction ds) (auto simp: stops_def split: list.splits)

lemma scan_number_decimal:
  assumes "stops r"
  shows "scan_number (decimal n @ r) = Some (False, n, r)"
proof -
  obtain c cs where c: "decimal n = c # cs" "isdigit c"
    using decimal_digits [of n] decimal_ne [of n] by (cases "decimal n") auto
  then have "dropWhile isspace (decimal n @ r) = decimal n @ r"
    using isdigit_not by simp
  then show ?thesis
    using c isdigit_not [OF c(2)] takeWhile_stops [OF decimal_digits assms, of n] number_decimal [of n]
    by (simp add: scan_number_def Let_def)
qed

lemma nextnumber_decimal:
  assumes "stops r" "n < 2 ^ 32"
  shows "nextnumber (Some (decimal n @ r)) = (0, Some (r, of_nat n))"
proof -
  obtain c cs where c: "decimal n = c # cs" "isdigit c"
    using decimal_digits [of n] decimal_ne [of n] by (cases "decimal n") auto
  have "strtoul (c # cs @ r) = (of_nat n, r, 0)"
    using scan_number_decimal [OF assms(1), of n] assms(2) c(1) by (simp add: strtoul_def)
  moreover have "r \<noteq> c # cs @ r"
    by (metis append_Cons append_self_conv2 list.distinct(1) append_assoc same_append_eq self_append_conv2)
  moreover have "ucast (of_nat n :: ulong) = (of_nat n :: 32 word)"
    using assms(2) by (simp add: unsigned_of_nat take_bit_nat_eq_self)
  ultimately show ?thesis
    using c by (simp add: nextnumber_def)
qed

lemma nexttoken_skip: "sep \<notin> set xs \<Longrightarrow> nexttoken (Some (xs @ r)) sep = nexttoken (Some r) sep"
  by (induction xs) (auto simp: nexttoken_def)

lemma nexttoken_here: "nexttoken (Some (sep # r)) sep = Some r"
  by (simp add: nexttoken_def)

lemma nexttoken_none: "sep \<notin> set xs \<Longrightarrow> nexttoken (Some xs) sep = None"
  using nexttoken_skip [of sep xs "[]"] by (simp add: nexttoken_def)

lemma decimal_chars: "c \<in> {CHR ''-'', CHR '','', CHR '':''} \<Longrightarrow> c \<notin> set (decimal n)"
  using decimal_digits [of n] isdigit_not by blast

lemma print_range_chars: "c \<in> {CHR '','', CHR '':''} \<Longrightarrow> c \<notin> set (print_range r)"
  using decimal_chars by (auto simp: print_range_def split: prod.splits if_splits)

lemma print_list_colon: "CHR '':'' \<notin> set (print_list rs)"
  using print_range_chars by (induction rs rule: print_list.induct) auto

text \<open>What follows an element: nothing, or a comma and a list without colons.\<close>

definition tail_ok :: "string \<Rightarrow> bool" where
  "tail_ok r \<longleftrightarrow> r = [] \<or> (\<exists>r'. r = CHR '','' # r' \<and> CHR '':'' \<notin> set r')"

lemma tail_ok_stops: "tail_ok r \<Longrightarrow> stops r"
  by (auto simp: tail_ok_def stops_def isdigit_def)

lemma tail_ok_colon: "tail_ok r \<Longrightarrow> nexttoken (Some r) CHR '':'' = None"
  by (auto simp: tail_ok_def intro!: nexttoken_none)

lemma parse_element_range:
  assumes "a \<le> b" "b < 2 ^ 32" "tail_ok r"
  shows "parse_element (Some (print_range (a, b) @ r)) = Some (of_nat a, of_nat b, 1, r)"
proof (cases "a = b")
  case True
  have n: "nextnumber (Some (decimal a @ r)) = (0, Some (r, of_nat a))"
    using assms True by (intro nextnumber_decimal tail_ok_stops) simp_all
  have "\<not> (nexttoken (Some r) CHR ''-'' \<noteq> None \<and> (nexttoken (Some r) CHR '','' = None
      \<or> ptr_lt (nexttoken (Some r) CHR ''-'') (nexttoken (Some r) CHR '','')))"
    using assms(3) nexttoken_shorter
    by (auto simp: tail_ok_def nexttoken_def ptr_lt_def split: list.splits dest: dropWhile_tl_shorter)
  then show ?thesis
    using n True by (auto simp: parse_element_def print_range_def Let_def)
next
  case False
  let ?r = "CHR ''-'' # decimal b @ r"
  have n: "nextnumber (Some (decimal a @ ?r)) = (0, Some (?r, of_nat a))"
    using assms by (intro nextnumber_decimal) (auto simp: stops_def isdigit_def)
  have m: "nextnumber (Some (decimal b @ r)) = (0, Some (r, of_nat b))"
    using assms by (intro nextnumber_decimal tail_ok_stops) simp_all
  have c1: "nexttoken (Some ?r) CHR ''-'' = Some (decimal b @ r)"
    by (rule nexttoken_here)
  have c2: "nexttoken (Some ?r) CHR '','' = nexttoken (Some r) CHR '',''"
    using nexttoken_skip [of "CHR '',''" "CHR ''-'' # decimal b" r] decimal_chars by auto
  have "nexttoken (Some r) CHR '','' = None \<or> ptr_lt (Some (decimal b @ r)) (nexttoken (Some r) CHR '','')"
    using nexttoken_shorter [of r "CHR '',''"]
    by (cases "nexttoken (Some r) CHR '',''") (auto simp: ptr_lt_def trans_less_add2)
  then show ?thesis
    using n m c1 c2 False tail_ok_colon [OF assms(3)]
    by (auto simp: parse_element_def print_range_def Let_def)
qed

lemma print_list_split:
  "print_list (x # rs) = print_range x @ (if rs = [] then [] else CHR '','' # print_list rs)"
  by (cases rs) auto

lemma parse_elements_list:
  assumes "rs \<noteq> []" "\<forall>(a, b) \<in> set rs. a \<le> b \<and> b < 2 ^ 32 - 1"
  shows "\<exists>cs'. parse_elements (Some (print_list rs)) e mx False cs = Some (0, cs') \<and> length cs' = length cs
    \<and> cpus cs' = cpus cs \<union> ((\<Union>(a, b) \<in> set rs. {a..b}) \<inter> {..<64 * length cs})"
  using assms
proof (induction rs arbitrary: e cs)
  case (Cons x rs)
  obtain a b where x: "x = (a, b)" by fastforce
  have ab: "a \<le> b" "b < 2 ^ 32 - 1"
    using Cons.prems(2) x by auto
  let ?r = "if rs = [] then [] else CHR '','' # print_list rs"
  have "tail_ok ?r"
    using print_list_colon by (auto simp: tail_ok_def)
  then have el: "parse_element (Some (print_list (x # rs))) = Some (of_nat a, of_nat b, 1, ?r)"
    unfolding print_list_split x using ab by (intro parse_element_range) auto
  have le: "(of_nat a :: 32 word) \<le> of_nat b"
    using ab by (simp add: word_le_nat_alt unat_of_nat)
  obtain c1 where c1: "parse_range (of_nat a) (of_nat b) 1 mx False cs = Some (0, c1)" "length c1 = length cs"
      "cpus c1 = cpus cs \<union> ({a..b} \<inter> {..<64 * length cs})"
    using parse_range_step1 [of a b mx cs] ab by auto
  have nt: "nexttoken (Some (print_list (x # rs))) CHR '','' = (if rs = [] then None else Some (print_list rs))"
    unfolding print_list_split
    using nexttoken_skip [of "CHR '',''" "print_range x"] print_range_chars [of "CHR '',''" x]
      nexttoken_none [of "CHR '',''" "[]"] by (simp add: nexttoken_here)
  show ?case
  proof (cases "rs = []")
    case True
    then show ?thesis
      using el le c1 nt x by (auto simp: parse_elements.simps)
  next
    case False
    from Cons.IH [OF False, of "Some ?r" c1] Cons.prems(2)
    obtain c2 where c2: "parse_elements (Some (print_list rs)) (Some ?r) mx False c1 = Some (0, c2)"
        "length c2 = length c1"
        "cpus c2 = cpus c1 \<union> ((\<Union>(a, b) \<in> set rs. {a..b}) \<inter> {..<64 * length c1})"
      by auto
    have "parse_elements (Some (print_list (x # rs))) e mx False cs = Some (0, c2)"
      using el le c1(1) nt False c2(1) by (subst parse_elements.simps) simp
    then show ?thesis
      using c1(2,3) c2(2,3) x by auto
  qed
qed simp

lemma cpulist_parse_print:
  assumes "rs \<noteq> []" "\<forall>(a, b) \<in> set rs. a \<le> b \<and> b < 2 ^ 32 - 1"
  shows "\<exists>cs. cpulist_parse (print_list rs) sz False = Some (0, cs) \<and> length cs = sz div 8
    \<and> cpus cs = (\<Union>(a, b) \<in> set rs. {a..b}) \<inter> {..<64 * (sz div 8)}"
proof -
  have "cpus (replicate n 0) = {}" for n
    by (auto simp: cpus_def abit_def)
  then show ?thesis
    using parse_elements_list [OF assms, of None "8 * sz" "replicate (sz div 8) 0"]
    by (simp add: cpulist_parse_def)
qed

text \<open>C15. Reading back printed CPU lists: for a list of CPU numbers and ranges in the format the kernel
  prints, \<^verbatim>\<open>cpulist_parse\<close> returns 0 and the set holds exactly the listed CPUs that fit into it.\<close>

theorem cpulist_parse_printed:
  assumes "rs \<noteq> []" "\<forall>(a, b) \<in> set rs. a \<le> b \<and> b < 2 ^ 32 - 1"
  shows "\<exists>cs. cpulist_parse (print_list rs) sz False = Some (0, cs) \<and> length cs = sz div 8
    \<and> cpus cs = (\<Union>(a, b) \<in> set rs. {a..b}) \<inter> {..<64 * (sz div 8)}"
  using assms by (rule cpulist_parse_print)

theorem cpulist_parse_printed_witness:
  "\<exists>cs. cpulist_parse ''0-3,8'' 16 False = Some (0, cs) \<and> length cs = 2 \<and> cpus cs = {0..3} \<union> {8}"
proof -
  have "print_list [(0, 3), (8, 8)] = ''0-3,8''"
    by code_simp
  moreover have "(\<Union>(a, b) \<in> set [(0, 3), (8, 8)]. {a..b}) \<inter> {..<64 * (16 div 8)} = {0..3} \<union> {8 :: nat}"
    by auto
  ultimately show ?thesis
    using cpulist_parse_printed [of "[(0, 3), (8, 8)]" 16] by simp
qed

text \<open>C40. \<^verbatim>\<open>cpulist_parse\<close> never returns on a list that starts with a range up to 4294967295
  (\<^verbatim>\<open>UINT_MAX\<close>): \<^verbatim>\<open>a += s\<close> wraps and \<^verbatim>\<open>a <= b\<close> stays true.\<close>

theorem cpulist_parse_wraps:
  assumes "a < 2 ^ 32 - 1"
  shows "cpulist_parse (print_list [(a, 2 ^ 32 - 1)]) sz False = None"
proof -
  have m: "(of_nat (2 ^ 32 - 1) :: 32 word) = - 1"
    by simp
  have "parse_element (Some (print_range (a, 2 ^ 32 - 1) @ []))
      = Some (of_nat a, of_nat (2 ^ 32 - 1), 1, [])"
    using assms by (intro parse_element_range) (simp_all add: tail_ok_def)
  then have "parse_element (Some (print_range (a, 2 ^ 32 - 1))) = Some (of_nat a, - 1, 1, [])"
    unfolding m by simp
  moreover have "(of_nat a :: 32 word) \<le> - 1"
    by (simp add: word_order.extremum)
  ultimately show ?thesis
    using parse_range_diverges [of "of_nat a" 1 "8 * sz"]
    by (simp add: cpulist_parse_def parse_elements.simps)
qed

theorem cpulist_parse_wraps_witness: "cpulist_parse ''5-4294967295'' 128 False = None"
proof -
  have "decimal 4294967295 = ''4294967295''" "decimal 5 = ''5''"
    by (simp_all add: decimal.simps char_of_def bit_iff_odd)
  then have "print_list [(5, 2 ^ 32 - 1)] = ''5-4294967295''"
    by (simp add: print_range_def)
  then show ?thesis
    using cpulist_parse_wraps [of 5 128] by simp
qed

end
