(* ===== verification/TopoInit.thy ===== *)
theory TopoInit
  imports Topo CString
begin

text \<open>
  Building the topology data base from sysfs: the first part of \<^verbatim>\<open>lib/topo.c\<close> up to
  \<^verbatim>\<open>topo_init\<close> and \<^verbatim>\<open>topo_free\<close>. The file system is an argument: the contents of files, the
  entries and subdirectories of directories and the existence of paths; it does not change during one construction.
  Memory allocation can fail at any point: \<open>mem\<close> is the number of allocations that will still
  succeed (the first failure ends the construction). The static variable \<^verbatim>\<open>max_node_index\<close> survives
  a construction and is part of the state. The discovery of I/O devices, which
  \<^verbatim>\<open>topo_init\<close> calls last, is an argument. Reading an object that has not been initialised has no
  outcome (\<open>None\<close>).
\<close>

section \<open>The file system\<close>

record sysfs =
  sf_file :: "string \<Rightarrow> string \<Rightarrow> int + string"
  dirents :: "string \<Rightarrow> int + string list"
  subdirs :: "string \<Rightarrow> int + string list"
  path_exists :: "string \<Rightarrow> bool"
  stale_errno :: int

abbreviation (input) WAYCA_SC_NODE_FNAME :: string where
  "WAYCA_SC_NODE_FNAME \<equiv> ''/sys/devices/system/node''"
abbreviation (input) WAYCA_SC_CPU_FNAME :: string where
  "WAYCA_SC_CPU_FNAME \<equiv> ''/sys/devices/system/cpu''"

definition topo_path_read_buffer :: "sysfs \<Rightarrow> string \<Rightarrow> string \<Rightarrow> nat \<Rightarrow> int \<times> string" where
  "topo_path_read_buffer fs base name count = (case sf_file fs base name of
       Inl e \<Rightarrow> (- e, [])
     | Inr txt \<Rightarrow> (int (length (take count txt)), take count txt))"

definition topo_path_read_s32 :: "sysfs \<Rightarrow> string \<Rightarrow> string \<Rightarrow> int \<times> int option" where
  "topo_path_read_s32 fs base name = (case sf_file fs base name of
       Inl e \<Rightarrow> (- e, None)
     | Inr txt \<Rightarrow> (case scan_number txt of
         None \<Rightarrow> (- EINVAL, None)
       | Some _ \<Rightarrow> (0, Some (to_int (fst (strtol txt))))))"

text \<open>Reading \<open>n\<close> numbers; the flag is false when fewer were there.\<close>

fun read_ints :: "nat \<Rightarrow> string \<Rightarrow> bool \<times> int list" where
  "read_ints 0 txt = (True, [])"
| "read_ints (Suc n) txt = (case scan_number txt of
       None \<Rightarrow> (False, [])
     | Some (_, _, r) \<Rightarrow> (let (ok, xs) = read_ints n r in (ok, to_int (fst (strtol txt)) # xs)))"

definition topo_path_read_multi_s32 :: "sysfs \<Rightarrow> string \<Rightarrow> string \<Rightarrow> nat \<Rightarrow> int \<times> int list" where
  "topo_path_read_multi_s32 fs base name nmemb = (case sf_file fs base name of
       Inl e \<Rightarrow> (- e, [])
     | Inr txt \<Rightarrow> (let (ok, xs) = read_ints nmemb txt in (if ok then 0 else - EINVAL, xs)))"

text \<open>\<^verbatim>\<open>fgets(buf, n, f)\<close>: at most \<open>n - 1\<close> characters, up to and with the first newline, and the rest
  of the file.\<close>

definition fgets :: "nat \<Rightarrow> string \<Rightarrow> string \<times> string" where
  "fgets n txt =
     (let l = takeWhile (\<lambda>c. c \<noteq> CHR 0x0A) txt;
          l = (if length l < length txt then l @ [CHR 0x0A] else l);
          l = take (n - 1) l
      in (l, drop (length l) txt))"

fun strstr :: "string \<Rightarrow> string \<Rightarrow> string option" where
  "strstr hay needle =
     (if take (length needle) hay = needle then Some hay
      else case hay of [] \<Rightarrow> None | _ # r \<Rightarrow> strstr r needle)"

declare strstr.simps [simp del]

lemma length_fgets: "txt \<noteq> [] \<Longrightarrow> 1 < n \<Longrightarrow> length (snd (fgets n txt)) < length txt"
proof -
  assume *: "txt \<noteq> []" "1 < n"
  let ?l = "takeWhile (\<lambda>c. c \<noteq> CHR 0x0A) txt"
  have "0 < length (fst (fgets n txt))"
    using * by (cases "txt") (auto simp: fgets_def Let_def)
  then show ?thesis
    using *(1) by (auto simp: fgets_def Let_def)
qed

text \<open>The loop of \<^verbatim>\<open>topo_path_parse_meminfo\<close> with \<^verbatim>\<open>BUFSIZ\<close> = 8192; \<^verbatim>\<open>sscanf(ptr, "%*s %lu", ...)\<close> skips a
  word and reads a number. The result is the return value and the number when it was read.\<close>

function find_memtotal :: "string \<Rightarrow> int \<times> ulong option" where
  "find_memtotal txt =
     (if txt = [] then (- 1, None)
      else let (l, r) = fgets 8192 txt in
        case strstr l ''MemTotal:'' of
          None \<Rightarrow> find_memtotal r
        | Some p \<Rightarrow>
            let q = dropWhile (\<lambda>c. \<not> isspace c) (dropWhile isspace p) in
            case scan_number q of
              None \<Rightarrow> (- 1, None)
            | Some _ \<Rightarrow> (0, Some (fst (strtoul q))))"
  by pat_completeness auto
termination
proof (relation "measure length", simp)
  fix t :: string and x l r
  assume *: "t \<noteq> []" "x = fgets 8192 t" "(l, r) = x"
  have "length (snd (fgets 8192 t)) < length t"
    using *(1) by (rule length_fgets) simp
  then show "(r, t) \<in> measure length"
    using *(2,3) by (metis in_measure snd_conv)
qed

declare find_memtotal.simps [simp del]

definition topo_path_parse_meminfo :: "sysfs \<Rightarrow> string \<Rightarrow> string \<Rightarrow> int \<times> ulong option" where
  "topo_path_parse_meminfo fs base name = (case sf_file fs base name of
       Inl e \<Rightarrow> (- e, None)
     | Inr txt \<Rightarrow> find_memtotal txt)"

text \<open>The words of a set from \<^verbatim>\<open>CPU_ALLOC(n)\<close>.\<close>

definition set_words :: "int \<Rightarrow> nat" where
  "set_words n = unat (CPU_ALLOC_SIZE n) div 8"

text \<open>The set is written only when \<^verbatim>\<open>cpulist_parse\<close> is reached. An empty file makes \<^verbatim>\<open>fgets\<close> return
  NULL without setting \<^verbatim>\<open>errno\<close>; if \<^verbatim>\<open>errno\<close> is 0 the code goes on and reads before the buffer.\<close>

definition topo_path_read_cpulist ::
    "sysfs \<Rightarrow> string \<Rightarrow> string \<Rightarrow> int \<Rightarrow> (int \<times> cpu_set_t option) option" where
  "topo_path_read_cpulist fs base name maxcpus = (case sf_file fs base name of
       Inl e \<Rightarrow> Some (- e, None)
     | Inr txt \<Rightarrow>
         let buf = fst (fgets (nat (maxcpus * 8)) txt) in
         if buf = [] then (if stale_errno fs \<noteq> 0 then Some (- stale_errno fs, None) else None)
         else
           let buf = (if last buf = CHR 0x0A then butlast buf else buf) in
           case cpulist_parse buf (unat (CPU_ALLOC_SIZE maxcpus)) False of
             None \<Rightarrow> None
           | Some (r, cs) \<Rightarrow> Some (if r \<noteq> 0 then - EINVAL else 0, Some cs))"

section \<open>The state of the construction\<close>

text \<open>\<open>bt\<close> is the structure that is built, except for its arrays of CPUs and nodes, whose elements
  are NULL until their object is created; \<open>b_nodes = None\<close> is the NULL array.\<close>

record build =
  bt :: wayca_topo
  b_cpus :: "wayca_cpu option list"
  b_nodes :: "wayca_node option list option"
  b_n_nodes :: nat
  max_node_index :: int
  mem :: nat

definition zero_topo :: wayca_topo where
  "zero_topo = \<lparr>kernel_max_cpus = 0, setsize = 0, n_cpus = 0, cpu_map = [], online_cpu_map = [],
     cpu_array = [], cores = [], ccls = [], node_map = [], nodes = [], packages = []\<rparr>"

definition zero_cpu :: wayca_cpu where
  "zero_cpu = \<lparr>cpu_id = 0, cpu_core_id = 0, cpu_p_cluster = None, cpu_p_numa_node = None,
     cpu_p_package = None, cpu_core_cpus_map = None, cpu_caches = []\<rparr>"

definition zero_node :: wayca_node where
  "zero_node = \<lparr>node_idx = 0, node_n_cpus = 0, node_cpu_map = [], node_core_map = [],
     node_cluster_map = [], distance = [], p_meminfo = None, pcidevs = [], smmus = []\<rparr>"

definition zero_cache :: wayca_cache where
  "zero_cache = \<lparr>cache_id = 0, level = 0, cache_type = [], allocation_policy = [], write_policy = [],
     cache_size = [], ways_of_associativity = 0, physical_line_partition = 0, number_of_sets = 0,
     coherency_line_size = 0, shared_cpu_map = []\<rparr>"

text \<open>\<^verbatim>\<open>if (!(p = calloc(...))) return -ENOMEM;\<close> and \<^verbatim>\<open>if (ret) return ret;\<close>\<close>

definition alloc :: "build \<Rightarrow> (build \<Rightarrow> (int \<times> build) option) \<Rightarrow> (int \<times> build) option" where
  "alloc b k = (if mem b = 0 then Some (- ENOMEM, b) else k (b\<lparr>mem := mem b - 1\<rparr>))"

definition chk :: "(int \<times> build) option \<Rightarrow> (build \<Rightarrow> (int \<times> build) option) \<Rightarrow> (int \<times> build) option" where
  "chk m k = m \<bind> (\<lambda>(ret, b). if ret \<noteq> 0 then Some (ret, b) else k b)"

definition upd_cpu :: "nat \<Rightarrow> (wayca_cpu \<Rightarrow> wayca_cpu) \<Rightarrow> build \<Rightarrow> build option" where
  "upd_cpu i f b = do {
     c \<leftarrow> rd (b_cpus b) i;
     c \<leftarrow> c;
     Some (b\<lparr>b_cpus := (b_cpus b)[i := Some (f c)]\<rparr>)
   }"

definition upd_node :: "nat \<Rightarrow> (wayca_node \<Rightarrow> wayca_node) \<Rightarrow> build \<Rightarrow> build option" where
  "upd_node i f b = do {
     arr \<leftarrow> b_nodes b;
     n \<leftarrow> rd arr i;
     n \<leftarrow> n;
     Some (b\<lparr>b_nodes := Some (arr[i := Some (f n)])\<rparr>)
   }"

section \<open>Online status\<close>

text \<open>\<^verbatim>\<open>wayca_sc_is_cpu_online\<close> up to the point where it re-creates the topology (\<open>Inr ()\<close>). When the
  file cannot be read, the variable compared is uninitialised.\<close>

definition decimal_int :: "int \<Rightarrow> string" where
  "decimal_int n = (if n < 0 then CHR ''-'' # decimal (nat (- n)) else decimal (nat n))"

definition topo_is_valid_cpu :: "wayca_topo \<Rightarrow> int \<Rightarrow> bool" where
  "topo_is_valid_cpu t i \<longleftrightarrow> 0 \<le> i \<and> nat i < n_cpus t"

definition cpu_status :: "sysfs \<Rightarrow> wayca_topo \<Rightarrow> int \<Rightarrow> (bool + unit) option" where
  "cpu_status fs t cpu =
     (if \<not> topo_is_valid_cpu t cpu then Some (Inl False)
      else if cpu = 0 then Some (Inl True)
      else do {
        online \<leftarrow> snd (topo_path_read_s32 fs (WAYCA_SC_CPU_FNAME @ ''/cpu'' @ decimal_int cpu @ ''/'') ''online'');
        if online = of_bool (CPU_ISSET cpu (online_cpu_map t))
        then Some (Inl (CPU_ISSET cpu (online_cpu_map t)))
        else Some (Inr ())
      })"

text \<open>During a construction the status is read from the file system the construction reads, so that a
  mismatch would start the construction again without end: no result.\<close>

definition online_now :: "sysfs \<Rightarrow> build \<Rightarrow> int \<Rightarrow> bool option" where
  "online_now fs b cpu = (case cpu_status fs (bt b) cpu of Some (Inl v) \<Rightarrow> Some v | _ \<Rightarrow> None)"

section \<open>Reading one CPU\<close>

text \<open>The number of the first directory entry \<^verbatim>\<open>node<number>\<close>, a \<^verbatim>\<open>long\<close>.\<close>

fun find_node_entry :: "string list \<Rightarrow> int option" where
  "find_node_entry [] = None"
| "find_node_entry (d # ds) =
     (if take 4 d \<noteq> ''node'' then find_node_entry ds
      else let (v, e, err) = strtoul0 (drop 4 d) in
        if err \<noteq> 0 \<or> e = drop 4 d then find_node_entry ds else Some (sint v))"

text \<open>\<^verbatim>\<open>topo_expand_mem\<close> on the array of nodes: it copies \<open>node_index\<close> elements from the old array, a
  read outside it when it has fewer.\<close>

definition expand_nodes :: "wayca_node option list option \<Rightarrow> nat \<Rightarrow> wayca_node option list option" where
  "expand_nodes arr k = (case arr of
       None \<Rightarrow> Some (replicate (k + 1) None)
     | Some xs \<Rightarrow> if length xs < k then None else Some (take k xs @ [None]))"

definition new_node :: "build \<Rightarrow> nat \<Rightarrow> wayca_node" where
  "new_node b k = (let z = replicate (set_words (kernel_max_cpus (bt b))) 0 in
     zero_node\<lparr>node_idx := int k, node_cluster_map := z, node_core_map := z, node_cpu_map := z\<rparr>)"

text \<open>A negative number would index the array of nodes below its start.\<close>

definition topo_parse_cpu_node_info :: "sysfs \<Rightarrow> build \<Rightarrow> nat \<Rightarrow> (int \<times> build) option" where
  "topo_parse_cpu_node_info fs b cpu_index =
     (case dirents fs (WAYCA_SC_CPU_FNAME @ ''/cpu'' @ decimal cpu_index) of
        Inl e \<Rightarrow> Some (- e, b)
      | Inr ds \<Rightarrow> (case find_node_entry ds of
          None \<Rightarrow> Some (0, b)
        | Some node_index \<Rightarrow>
            if node_index < 0 then None
            else let k = nat node_index in
            chk (if max_node_index b < node_index then
                   alloc (b\<lparr>max_node_index := to_int node_index\<rparr>) (\<lambda>b. do {
                     arr \<leftarrow> expand_nodes (b_nodes b) k;
                     Some (0, b\<lparr>b_nodes := Some arr\<rparr>) })
                 else Some (0, b)) (\<lambda>b.
            chk (if \<not> CPU_ISSET (int k) (node_map (bt b)) then
                   do {
                     arr \<leftarrow> b_nodes b;
                     arr \<leftarrow> wr arr k (Some (new_node b k));
                     alloc b (\<lambda>b. alloc b (\<lambda>b. alloc b (\<lambda>b. alloc b (\<lambda>b.
                       Some (0, b\<lparr>b_nodes := Some arr, b_n_nodes := b_n_nodes b + 1,
                                  bt := (bt b)\<lparr>node_map := CPU_SET (int k) (node_map (bt b))\<rparr>\<rparr>))))) }
                 else Some (0, b)) (\<lambda>b. do {
              b \<leftarrow> upd_node k (\<lambda>n. n\<lparr>node_cpu_map := CPU_SET (int cpu_index) (node_cpu_map n),
                                       node_n_cpus := node_n_cpus n + 1\<rparr>) b;
              b \<leftarrow> upd_cpu cpu_index (\<lambda>c. c\<lparr>cpu_p_numa_node := Some k\<rparr>) b;
              Some (0, b) }))))"

text \<open>\<^verbatim>\<open>for (i = 0; i < n; i++) if (x[i]->id == id) break;\<close>\<close>

fun index_of :: "('a \<Rightarrow> int) \<Rightarrow> int \<Rightarrow> 'a list \<Rightarrow> nat" where
  "index_of f v [] = 0"
| "index_of f v (x # xs) = (if f x = v then 0 else Suc (index_of f v xs))"

definition topo_parse_cpu_cluster_info :: "sysfs \<Rightarrow> build \<Rightarrow> string \<Rightarrow> nat \<Rightarrow> (int \<times> build) option" where
  "topo_parse_cpu_cluster_info fs b path cpu_index = (case topo_path_read_s32 fs path ''cluster_id'' of
       (_, None) \<Rightarrow> do {
         b \<leftarrow> upd_cpu cpu_index (\<lambda>c. c\<lparr>cpu_p_cluster := None\<rparr>) b;
         Some (0, b) }
     | (_, Some cid) \<Rightarrow>
         let i = index_of cluster_id cid (ccls (bt b)) in
         chk (if i = length (ccls (bt b)) then
                alloc b (\<lambda>b. alloc b (\<lambda>b. alloc b (\<lambda>b. do {
                  (ret, m) \<leftarrow> topo_path_read_cpulist fs path ''cluster_cpus_list'' (kernel_max_cpus (bt b));
                  if ret \<noteq> 0 then Some (ret, b)
                  else alloc b (\<lambda>b. do {
                    m \<leftarrow> m;
                    let ccl = \<lparr>cluster_id = cid, ccl_n_cpus = nat (CPU_COUNT m), ccl_cpu_map = m,
                               ccl_core_map = replicate (set_words (kernel_max_cpus (bt b))) 0\<rparr>;
                    let b = b\<lparr>bt := (bt b)\<lparr>ccls := ccls (bt b) @ [ccl]\<rparr>\<rparr>;
                    c \<leftarrow> rd (b_cpus b) cpu_index;
                    c \<leftarrow> c;
                    k \<leftarrow> cpu_p_numa_node c;
                    b \<leftarrow> upd_node k (\<lambda>n. n\<lparr>node_cluster_map := CPU_SET (int i) (node_cluster_map n)\<rparr>) b;
                    Some (0, b) }) })))
              else Some (0, b)) (\<lambda>b. do {
           b \<leftarrow> upd_cpu cpu_index (\<lambda>c. c\<lparr>cpu_p_cluster := Some i\<rparr>) b;
           Some (0, b) }))"

definition topo_parse_cpu_pkg_info :: "sysfs \<Rightarrow> build \<Rightarrow> string \<Rightarrow> nat \<Rightarrow> (int \<times> build) option" where
  "topo_parse_cpu_pkg_info fs b path cpu_index = do {
     on \<leftarrow> online_now fs b (int cpu_index);
     if \<not> on then do {
       b \<leftarrow> upd_cpu cpu_index (\<lambda>c. c\<lparr>cpu_p_package := None\<rparr>) b;
       Some (0, b)
     } else (case topo_path_read_s32 fs path ''physical_package_id'' of
       (ret, None) \<Rightarrow> Some (ret, b)
     | (_, Some pid) \<Rightarrow>
         let i = index_of physical_package_id pid (packages (bt b)) in
         chk (if i = length (packages (bt b)) then
                alloc b (\<lambda>b. alloc b (\<lambda>b. alloc b (\<lambda>b. alloc b (\<lambda>b. do {
                  (ret, m) \<leftarrow> topo_path_read_cpulist fs path ''package_cpus_list'' (kernel_max_cpus (bt b));
                  if ret \<noteq> 0 then Some (ret, b)
                  else do {
                    m \<leftarrow> m;
                    let pkg = \<lparr>physical_package_id = pid, pkg_n_cpus = nat (CPU_COUNT m), pkg_cpu_map = m,
                               numa_map = replicate (set_words (int (n_cpus (bt b)))) 0\<rparr>;
                    Some (0, b\<lparr>bt := (bt b)\<lparr>packages := packages (bt b) @ [pkg]\<rparr>\<rparr>)
                  } }))))
              else Some (0, b)) (\<lambda>b. do {
           b \<leftarrow> upd_cpu cpu_index (\<lambda>c. c\<lparr>cpu_p_package := Some i\<rparr>) b;
           Some (0, b) }))
   }"

definition topo_parse_cpu_core_info :: "sysfs \<Rightarrow> build \<Rightarrow> string \<Rightarrow> nat \<Rightarrow> (int \<times> build) option" where
  "topo_parse_cpu_core_info fs b path cpu_index = do {
     on \<leftarrow> online_now fs b (int cpu_index);
     if \<not> on then do {
       b \<leftarrow> upd_cpu cpu_index (\<lambda>c. c\<lparr>cpu_core_id := - 1, cpu_core_cpus_map := None\<rparr>) b;
       Some (0, b)
     } else (case topo_path_read_s32 fs path ''core_id'' of
       (ret, None) \<Rightarrow> Some (ret, b)
     | (_, Some cid) \<Rightarrow> do {
         b \<leftarrow> upd_cpu cpu_index (\<lambda>c. c\<lparr>cpu_core_id := cid\<rparr>) b;
         alloc b (\<lambda>b. do {
           (ret, m) \<leftarrow> topo_path_read_cpulist fs path ''core_cpus_list'' (kernel_max_cpus (bt b));
           b \<leftarrow> upd_cpu cpu_index (\<lambda>c. c\<lparr>cpu_core_cpus_map := m\<rparr>) b;
           Some (ret, b) })
       })
   }"

text \<open>An attribute string: at most 255 characters, without a trailing newline; empty when it cannot be
  read.\<close>

definition read_attr :: "sysfs \<Rightarrow> string \<Rightarrow> string \<Rightarrow> string" where
  "read_attr fs path name =
     (let (n, buf) = topo_path_read_buffer fs path name 255 in
      if n \<le> 0 then [] else if last buf = CHR 0x0A then butlast buf else buf)"

text \<open>\<^verbatim>\<open>topo_path_read_s32(path, name, (int *)&field)\<close> into an \<^verbatim>\<open>unsigned int\<close> that is 0 before.\<close>

definition read_unsigned :: "sysfs \<Rightarrow> string \<Rightarrow> string \<Rightarrow> int" where
  "read_unsigned fs path name = (case snd (topo_path_read_s32 fs path name) of
       None \<Rightarrow> 0 | Some v \<Rightarrow> uint (word_of_int v :: 32 word))"

definition read_or_minus1 :: "sysfs \<Rightarrow> string \<Rightarrow> string \<Rightarrow> int" where
  "read_or_minus1 fs path name = (case snd (topo_path_read_s32 fs path name) of None \<Rightarrow> - 1 | Some v \<Rightarrow> v)"

text \<open>The return value and the cache; the allocation of its map is done by the caller's \<open>alloc\<close>.\<close>

definition topo_parse_cache_info :: "sysfs \<Rightarrow> string \<Rightarrow> int \<Rightarrow> (int \<times> wayca_cache) option" where
  "topo_parse_cache_info fs path max_cpus = do {
     let cache = \<lparr>cache_id = read_or_minus1 fs path ''id'', level = read_or_minus1 fs path ''level'',
       cache_type = read_attr fs path ''type'', allocation_policy = read_attr fs path ''allocation_policy'',
       write_policy = read_attr fs path ''write_policy'', cache_size = read_attr fs path ''size'',
       ways_of_associativity = read_unsigned fs path ''ways_of_associativity'',
       physical_line_partition = read_unsigned fs path ''physical_line_partition'',
       number_of_sets = read_unsigned fs path ''number_of_sets'',
       coherency_line_size = read_unsigned fs path ''coherency_line_size'',
       shared_cpu_map = []\<rparr>;
     (ret, m) \<leftarrow> topo_path_read_cpulist fs path ''shared_cpu_list'' max_cpus;
     if ret \<noteq> 0 then Some (ret, cache)
     else do {
       m \<leftarrow> m;
       Some (0, cache\<lparr>shared_cpu_map := m\<rparr>)
     }
   }"

definition cache_path :: "nat \<Rightarrow> nat \<Rightarrow> string" where
  "cache_path cpu_index i = WAYCA_SC_CPU_FNAME @ ''/cpu'' @ decimal cpu_index @ ''/cache/index'' @ decimal i"

partial_function (option) count_caches :: "sysfs \<Rightarrow> nat \<Rightarrow> nat \<Rightarrow> nat option" where
  "count_caches fs cpu_index n =
     (if \<not> path_exists fs (cache_path cpu_index n) then Some n else count_caches fs cpu_index (n + 1))"

declare count_caches.simps [code]

fun parse_caches :: "sysfs \<Rightarrow> build \<Rightarrow> nat \<Rightarrow> nat list \<Rightarrow> (int \<times> build) option" where
  "parse_caches fs b cpu_index [] = Some (0, b)"
| "parse_caches fs b cpu_index (i # is) = alloc b (\<lambda>b. do {
     (ret, cache) \<leftarrow> topo_parse_cache_info fs (cache_path cpu_index i) (kernel_max_cpus (bt b));
     if ret \<noteq> 0 then Some (ret, b)
     else do {
       b \<leftarrow> upd_cpu cpu_index (\<lambda>c. c\<lparr>cpu_caches := (cpu_caches c)[i := cache]\<rparr>) b;
       parse_caches fs b cpu_index is
     } })"

definition topo_parse_cpu_cache_info :: "sysfs \<Rightarrow> build \<Rightarrow> nat \<Rightarrow> (int \<times> build) option" where
  "topo_parse_cpu_cache_info fs b cpu_index = do {
     on \<leftarrow> online_now fs b (int cpu_index);
     if \<not> on then do {
       b \<leftarrow> upd_cpu cpu_index (\<lambda>c. c\<lparr>cpu_caches := []\<rparr>) b;
       Some (0, b)
     } else do {
       n \<leftarrow> count_caches fs cpu_index 0;
       if n = 0 then Some (0, b)
       else alloc b (\<lambda>b. do {
         b \<leftarrow> upd_cpu cpu_index (\<lambda>c. c\<lparr>cpu_caches := replicate n zero_cache\<rparr>) b;
         parse_caches fs b cpu_index [0..<n] })
     }
   }"

definition topo_read_cpu_topology :: "sysfs \<Rightarrow> build \<Rightarrow> nat \<Rightarrow> (int \<times> build) option" where
  "topo_read_cpu_topology fs b cpu_index =
     (let path = WAYCA_SC_CPU_FNAME @ ''/cpu'' @ decimal cpu_index @ ''/topology'' in
      alloc b (\<lambda>b. do {
        arr \<leftarrow> wr (b_cpus b) cpu_index (Some (zero_cpu\<lparr>cpu_id := int cpu_index\<rparr>));
        let b = b\<lparr>b_cpus := arr\<rparr>;
        chk (topo_parse_cpu_node_info fs b cpu_index) (\<lambda>b.
        chk (topo_parse_cpu_core_info fs b path cpu_index) (\<lambda>b.
        chk (topo_parse_cpu_cluster_info fs b path cpu_index) (\<lambda>b.
        chk (topo_parse_cpu_pkg_info fs b path cpu_index) (\<lambda>b.
        topo_parse_cpu_cache_info fs b cpu_index)))) }))"

section \<open>Nodes\<close>

text \<open>The sets have the same number of words here, that of \<^verbatim>\<open>CPU_ALLOC(kernel_max_cpus)\<close>. When the list
  could not be read at all and no CPU of the node is online, an unset map is compared.\<close>

definition topo_read_node_topology :: "sysfs \<Rightarrow> build \<Rightarrow> nat \<Rightarrow> (int \<times> build) option" where
  "topo_read_node_topology fs b node_index =
     (let path = WAYCA_SC_NODE_FNAME @ ''/node'' @ decimal node_index in
      alloc b (\<lambda>b. alloc b (\<lambda>b. do {
        arr \<leftarrow> b_nodes b;
        node \<leftarrow> rd arr node_index;
        node \<leftarrow> node;
        let online = CPU_AND (online_cpu_map (bt b)) (node_cpu_map node);
        (ret, m) \<leftarrow> topo_path_read_cpulist fs path ''cpulist'' (kernel_max_cpus (bt b));
        if ret \<noteq> 0 \<and> CPU_COUNT online \<noteq> 0 then Some (ret, b)
        else do {
          m \<leftarrow> m;
          if \<not> CPU_EQUAL m online then Some (- EINVAL, b)
          else alloc b (\<lambda>b.
            let (ret, ds) = topo_path_read_multi_s32 fs path ''distance'' (b_n_nodes b) in
            if ret \<noteq> 0 then Some (ret, b)
            else do {
              b \<leftarrow> upd_node node_index (\<lambda>n. n\<lparr>distance := ds\<rparr>) b;
              alloc b (\<lambda>b. case topo_path_parse_meminfo fs path ''meminfo'' of
                  (ret, None) \<Rightarrow> Some (ret, b)
                | (_, Some kB) \<Rightarrow> do {
                    b \<leftarrow> upd_node node_index (\<lambda>n. n\<lparr>p_meminfo := Some kB\<rparr>) b;
                    Some (0, b) })
            })
        } })))"

text \<open>The packages all of whose CPUs \<dots> the inner loop of \<^verbatim>\<open>topo_construct_numa_topology\<close>: node \<open>i\<close> belongs to
  the packages that contain all its online CPUs, seen through the first \<open>w\<close> words.\<close>

definition link_packages :: "nat \<Rightarrow> nat \<Rightarrow> cpu_set_t \<Rightarrow> wayca_package list \<Rightarrow> wayca_package list" where
  "link_packages w i online = map (\<lambda>p.
     if CPU_EQUAL (CPU_AND (take w (pkg_cpu_map p)) (take w online)) (take w online)
     then p\<lparr>numa_map := CPU_SET (int i) (numa_map p)\<rparr> else p)"

fun read_nodes :: "sysfs \<Rightarrow> build \<Rightarrow> nat list \<Rightarrow> (int \<times> build) option" where
  "read_nodes fs b [] = Some (0, b)"
| "read_nodes fs b (i # is) =
     chk (topo_read_node_topology fs b i) (\<lambda>b.
     alloc b (\<lambda>b. do {
       arr \<leftarrow> b_nodes b;
       node \<leftarrow> rd arr i;
       node \<leftarrow> node;
       let online = CPU_AND (online_cpu_map (bt b)) (node_cpu_map node);
       if CPU_COUNT online = 0 then read_nodes fs b is
       else read_nodes fs (b\<lparr>bt := (bt b)\<lparr>packages :=
              link_packages (set_words (int (n_cpus (bt b)))) i online (packages (bt b))\<rparr>\<rparr>) is }))"

definition topo_construct_numa_topology :: "sysfs \<Rightarrow> build \<Rightarrow> (int \<times> build) option" where
  "topo_construct_numa_topology fs b =
     alloc b (\<lambda>b. do {
       (ret, m) \<leftarrow> topo_path_read_cpulist fs WAYCA_SC_NODE_FNAME ''possible'' (int (n_cpus (bt b)));
       if ret \<noteq> 0 then Some (ret, b)
       else do {
         m \<leftarrow> m;
         if \<not> CPU_EQUAL m (node_map (bt b)) \<or> CPU_COUNT m \<noteq> int (b_n_nodes b) then Some (ret, b)
         else read_nodes fs b [0..<b_n_nodes b]
       } })"

section \<open>Cores\<close>

fun construct_cores :: "build \<Rightarrow> nat list \<Rightarrow> (int \<times> build) option" where
  "construct_cores b [] = Some (0, b)"
| "construct_cores b (i # is) = do {
     c \<leftarrow> rd (b_cpus b) i;
     c \<leftarrow> c;
     if cpu_core_id c = - 1 then construct_cores b is
     else
       let j = index_of core_id (cpu_core_id c) (cores (bt b)) in
       if j < length (cores (bt b)) then construct_cores b is
       else alloc b (\<lambda>b. alloc b (\<lambda>b. do {
         m \<leftarrow> cpu_core_cpus_map c;
         let core = \<lparr>core_id = cpu_core_id c, core_n_cpus = nat (CPU_COUNT m), core_cpus_map = Some m,
                     core_p_cluster = cpu_p_cluster c, core_p_numa_node = cpu_p_numa_node c,
                     core_p_package = cpu_p_package c, core_caches = cpu_caches c\<rparr>;
         let b = b\<lparr>bt := (bt b)\<lparr>cores := cores (bt b) @ [core]\<rparr>\<rparr>;
         b \<leftarrow> (if 0 < length (ccls (bt b)) then do {
                 l \<leftarrow> cpu_p_cluster c;
                 ccl \<leftarrow> rd (ccls (bt b)) l;
                 Some (b\<lparr>bt := (bt b)\<lparr>ccls := (ccls (bt b))[l :=
                   ccl\<lparr>ccl_core_map := CPU_SET (int j) (ccl_core_map ccl)\<rparr>]\<rparr>\<rparr>)
               } else Some b);
         k \<leftarrow> cpu_p_numa_node c;
         b \<leftarrow> upd_node k (\<lambda>n. n\<lparr>node_core_map := CPU_SET (int j) (node_core_map n)\<rparr>) b;
         construct_cores b is }))
   }"

definition topo_construct_core_topology :: "build \<Rightarrow> (int \<times> build) option" where
  "topo_construct_core_topology b =
     (if cores (bt b) \<noteq> [] then Some (- 1, b) else construct_cores b [0..<n_cpus (bt b)])"

section \<open>topo\_init\<close>

definition topo_alloc_cpu :: "sysfs \<Rightarrow> build \<Rightarrow> (int \<times> build) option" where
  "topo_alloc_cpu fs b =
     (let kmax = (case snd (topo_path_read_s32 fs WAYCA_SC_CPU_FNAME ''kernel_max'') of
                    Some v \<Rightarrow> to_int (v + 1) | None \<Rightarrow> 2048);
          b = b\<lparr>bt := (bt b)\<lparr>kernel_max_cpus := kmax, setsize := unat (CPU_ALLOC_SIZE kmax)\<rparr>\<rparr> in
      alloc b (\<lambda>b. do {
        (ret, m) \<leftarrow> topo_path_read_cpulist fs WAYCA_SC_CPU_FNAME ''possible'' kmax;
        if ret \<noteq> 0 then Some (- EINVAL, b)
        else do {
          m \<leftarrow> m;
          let b = b\<lparr>bt := (bt b)\<lparr>n_cpus := nat (CPU_COUNT m), cpu_map := m\<rparr>\<rparr>;
          alloc b (\<lambda>b.
            let b = b\<lparr>b_cpus := replicate (n_cpus (bt b)) None\<rparr> in
            alloc b (\<lambda>b. do {
              (ret, m) \<leftarrow> topo_path_read_cpulist fs WAYCA_SC_CPU_FNAME ''online'' kmax;
              if ret \<noteq> 0 then Some (- EINVAL, b)
              else do {
                m \<leftarrow> m;
                Some (0, b\<lparr>bt := (bt b)\<lparr>online_cpu_map := m\<rparr>\<rparr>)
              } }))
        } }))"

definition topo_alloc_node_map :: "build \<Rightarrow> (int \<times> build) option" where
  "topo_alloc_node_map b = alloc b (\<lambda>b.
     Some (0, b\<lparr>bt := (bt b)\<lparr>node_map := replicate (set_words (int (n_cpus (bt b)))) 0\<rparr>\<rparr>))"

fun read_cpus :: "sysfs \<Rightarrow> build \<Rightarrow> nat list \<Rightarrow> (int \<times> build) option" where
  "read_cpus fs b [] = Some (0, b)"
| "read_cpus fs b (i # is) = chk (topo_read_cpu_topology fs b i) (\<lambda>b. read_cpus fs b is)"

definition topo_construct_cpu_topology :: "sysfs \<Rightarrow> build \<Rightarrow> (int \<times> build) option" where
  "topo_construct_cpu_topology fs b = read_cpus fs b [0..<n_cpus (bt b)]"

text \<open>Everything is freed; the static variable stays.\<close>

definition topo_free :: "wayca_topo \<Rightarrow> wayca_topo" where
  "topo_free t = zero_topo"

text \<open>The finished structure: the objects of the arrays of CPUs and nodes.\<close>

definition finish :: "build \<Rightarrow> wayca_topo option" where
  "finish b = do {
     cs \<leftarrow> (if None \<in> set (b_cpus b) then None else Some (map the (b_cpus b)));
     ns \<leftarrow> (case b_nodes b of None \<Rightarrow> Some []
             | Some arr \<Rightarrow> if None \<in> set (take (b_n_nodes b) arr) then None
                           else Some (map the (take (b_n_nodes b) arr)));
     Some ((bt b)\<lparr>cpu_array := cs, nodes := ns\<rparr>)
   }"

text \<open>\<open>devs\<close> is \<^verbatim>\<open>topo_recursively_read_io_devices\<close> of the theory \<open>Devices\<close>: the return value and the
  structure with the devices added. The environment variable that asks for the interrupts is not
  set. The result is the structure (zeroed after an error) and the static variable.\<close>

definition topo_init ::
    "sysfs \<Rightarrow> (nat \<Rightarrow> wayca_topo \<Rightarrow> (int \<times> wayca_topo) option) \<Rightarrow> nat \<Rightarrow> int \<Rightarrow> (wayca_topo \<times> int) option" where
  "topo_init fs devs memory max_node = do {
     let b = \<lparr>bt = zero_topo, b_cpus = [], b_nodes = None, b_n_nodes = 0, max_node_index = max_node,
              mem = memory\<rparr>;
     (ret, b) \<leftarrow> chk (topo_alloc_cpu fs b) (\<lambda>b.
                 chk (topo_alloc_node_map b) (\<lambda>b.
                 chk (topo_construct_cpu_topology fs b) (\<lambda>b.
                 chk (topo_construct_numa_topology fs b) (\<lambda>b.
                 topo_construct_core_topology b))));
     if ret \<noteq> 0 then Some (topo_free (bt b), max_node_index b)
     else do {
       t \<leftarrow> finish b;
       (ret, t) \<leftarrow> devs (mem b) t;
       Some (if ret \<noteq> 0 then topo_free t else t, max_node_index b)
     }
   }"

end
