(* ===== verification/TopoQuery.thy ===== *)
theory TopoQuery
  imports TopoInit
begin

text \<open>
  The queries of \<^verbatim>\<open>lib/topo.c\<close> on a constructed topology: online status, CPU masks, identifiers,
  memory and cache sizes, interrupts and devices. Most of them first compare the online status of
  the CPUs with the file system and re-create the topology when a CPU has gone on- or offline, so
  they take the environment and return the state. A query that fills a buffer returns its contents;
  a NULL buffer is a false flag.
\<close>

section \<open>State\<close>

record wayca_irq =
  irq_number :: "32 word"
  chip_name :: nat
  irq_type :: nat
  irq_name :: string

text \<open>The environment: the file system, the device discovery and the allocations that succeed.\<close>

record env =
  e_fs :: sysfs
  e_devs :: "nat \<Rightarrow> wayca_topo \<Rightarrow> (int \<times> wayca_topo) option"
  e_mem :: nat

text \<open>The static data of the file: the topology with its counters, the interrupts (\<open>None\<close> before they are
  read) and \<^verbatim>\<open>max_node_index\<close>.\<close>

record topo_env =
  te :: topo_state
  te_irqs :: "wayca_irq list option"
  te_max :: int

abbreviation tt :: "topo_env \<Rightarrow> wayca_topo" where "tt s \<equiv> topo (te s)"

section \<open>Validity and online status\<close>

definition topo_is_valid_core :: "wayca_topo \<Rightarrow> int \<Rightarrow> bool" where
  "topo_is_valid_core t i \<longleftrightarrow> 0 \<le> i \<and> nat i < n_cores t"

definition topo_is_valid_ccl :: "wayca_topo \<Rightarrow> int \<Rightarrow> bool" where
  "topo_is_valid_ccl t i \<longleftrightarrow> 0 \<le> i \<and> nat i < n_clusters t"

definition topo_is_valid_node :: "wayca_topo \<Rightarrow> int \<Rightarrow> bool" where
  "topo_is_valid_node t i \<longleftrightarrow> 0 \<le> i \<and> nat i < n_nodes t"

definition topo_is_valid_package :: "wayca_topo \<Rightarrow> int \<Rightarrow> bool" where
  "topo_is_valid_package t i \<longleftrightarrow> 0 \<le> i \<and> nat i < n_packages t"

definition wayca_sc_get_physical_id :: "topo_env \<Rightarrow> string \<Rightarrow> int \<Rightarrow> int" where
  "wayca_sc_get_physical_id s elem_name i =
     (if elem_name = ''package'' \<and> topo_is_valid_package (tt s) i
      then physical_package_id (packages (tt s) ! nat i)
      else if elem_name = ''cluster'' \<and> topo_is_valid_ccl (tt s) i
      then cluster_id (ccls (tt s) ! nat i)
      else if elem_name = ''core'' \<and> topo_is_valid_core (tt s) i
      then core_id (cores (tt s) ! nat i)
      else - ENODATA)"

definition wayca_sc_is_cpu_online :: "env \<Rightarrow> topo_env \<Rightarrow> int \<Rightarrow> (bool \<times> topo_env) option" where
  "wayca_sc_is_cpu_online e s cpu = do {
     r \<leftarrow> cpu_status (e_fs e) (tt s) cpu;
     case r of
       Inl v \<Rightarrow> Some (v, s)
     | Inr _ \<Rightarrow> do {
         (t, mx) \<leftarrow> topo_init (e_fs e) (e_devs e) (e_mem e) (te_max s);
         Some (CPU_ISSET cpu (online_cpu_map t),
               s\<lparr>te := (te s)\<lparr>topo := t\<rparr>, te_irqs := None, te_max := mx\<rparr>)
       }
   }"

fun update_cpus :: "env \<Rightarrow> topo_env \<Rightarrow> int list \<Rightarrow> topo_env option" where
  "update_cpus e s [] = Some s"
| "update_cpus e s (i # is) = do {
     (_, s) \<leftarrow> wayca_sc_is_cpu_online e s i;
     update_cpus e s is
   }"

definition check_and_update_cpu_status :: "env \<Rightarrow> topo_env \<Rightarrow> topo_env option" where
  "check_and_update_cpu_status e s = update_cpus e s [0..wayca_sc_cpus_in_total (te s) - 1]"

section \<open>Masks\<close>

text \<open>\<^verbatim>\<open>valid = CPU_ALLOC_SIZE(n); if (size < valid) return -EINVAL; CPU_ZERO_S(size, mask);
  CPU_OR_S(valid, mask, mask, src); return 0;\<close> with the sizes in bytes; the source must have as many
  words as are read.\<close>

definition put_mask :: "nat \<Rightarrow> nat \<Rightarrow> cpu_set_t \<Rightarrow> topo_env \<Rightarrow> (int \<times> cpu_set_t option \<times> topo_env) option" where
  "put_mask n sz src s =
     (let w = set_words (int n) in
      if sz < 8 * w then Some (- EINVAL, None, s)
      else if length src < w then None
      else Some (0, Some (take w src @ replicate (sz div 8 - w) 0), s))"

definition wayca_sc_core_cpu_mask ::
    "env \<Rightarrow> topo_env \<Rightarrow> int \<Rightarrow> nat \<Rightarrow> bool \<Rightarrow> (int \<times> cpu_set_t option \<times> topo_env) option" where
  "wayca_sc_core_cpu_mask e s i sz nonnull =
     (if \<not> nonnull \<or> \<not> topo_is_valid_core (tt s) i then Some (- EINVAL, None, s)
      else do {
        s \<leftarrow> check_and_update_cpu_status e s;
        if sz < 8 * set_words (int (n_cpus (tt s))) then Some (- EINVAL, None, s)
        else do {
          c \<leftarrow> rd (cores (tt s)) (nat i);
          m \<leftarrow> core_cpus_map c;
          put_mask (n_cpus (tt s)) sz m s
        }
      })"

text \<open>The other masks differ in the object and the map. \<open>get\<close> reads the map after the update.\<close>

definition obj_mask :: "(wayca_topo \<Rightarrow> int \<Rightarrow> bool) \<Rightarrow> (wayca_topo \<Rightarrow> nat) \<Rightarrow> (wayca_topo \<Rightarrow> nat \<Rightarrow> cpu_set_t option)
    \<Rightarrow> env \<Rightarrow> topo_env \<Rightarrow> int \<Rightarrow> nat \<Rightarrow> bool \<Rightarrow> (int \<times> cpu_set_t option \<times> topo_env) option" where
  "obj_mask valid cnt get e s i sz nonnull =
     (if \<not> nonnull \<or> \<not> valid (tt s) i then Some (- EINVAL, None, s)
      else do {
        s \<leftarrow> check_and_update_cpu_status e s;
        if sz < 8 * set_words (int (cnt (tt s))) then Some (- EINVAL, None, s)
        else do {
          m \<leftarrow> get (tt s) (nat i);
          put_mask (cnt (tt s)) sz m s
        }
      })"

definition wayca_sc_ccl_cpu_mask where
  "wayca_sc_ccl_cpu_mask = obj_mask topo_is_valid_ccl n_cpus (\<lambda>t i. map_option ccl_cpu_map (rd (ccls t) i))"

definition wayca_sc_ccl_core_mask where
  "wayca_sc_ccl_core_mask = obj_mask topo_is_valid_ccl n_cores (\<lambda>t i. map_option ccl_core_map (rd (ccls t) i))"

definition wayca_sc_node_cpu_mask where
  "wayca_sc_node_cpu_mask = obj_mask topo_is_valid_node n_cpus (\<lambda>t i. map_option node_cpu_map (rd (nodes t) i))"

definition wayca_sc_node_core_mask where
  "wayca_sc_node_core_mask = obj_mask topo_is_valid_node n_cores (\<lambda>t i. map_option node_core_map (rd (nodes t) i))"

definition wayca_sc_node_ccl_mask where
  "wayca_sc_node_ccl_mask = obj_mask topo_is_valid_node n_clusters (\<lambda>t i. map_option node_cluster_map (rd (nodes t) i))"

definition wayca_sc_package_cpu_mask where
  "wayca_sc_package_cpu_mask = obj_mask topo_is_valid_package n_cpus (\<lambda>t i. map_option pkg_cpu_map (rd (packages t) i))"

definition wayca_sc_package_node_mask where
  "wayca_sc_package_node_mask = obj_mask topo_is_valid_package n_nodes (\<lambda>t i. map_option numa_map (rd (packages t) i))"

definition wayca_sc_total_cpu_mask where
  "wayca_sc_total_cpu_mask e s = obj_mask (\<lambda>_ _. True) n_cpus (\<lambda>t _. Some (cpu_map t)) e s 0"

definition wayca_sc_total_online_cpu_mask where
  "wayca_sc_total_online_cpu_mask e s = obj_mask (\<lambda>_ _. True) n_cpus (\<lambda>t _. Some (online_cpu_map t)) e s 0"

definition wayca_sc_total_node_mask where
  "wayca_sc_total_node_mask e s = obj_mask (\<lambda>_ _. True) n_nodes (\<lambda>t _. Some (node_map t)) e s 0"

section \<open>Identifiers\<close>

text \<open>\<^verbatim>\<open>for (i = 0; i < n; i++) if (x[i]->id == physical_id) return i; return -EINVAL;\<close>\<close>

definition find_index :: "('a \<Rightarrow> int) \<Rightarrow> int \<Rightarrow> 'a list \<Rightarrow> int" where
  "find_index f v xs = (let i = index_of f v xs in if i < length xs then int i else - EINVAL)"

definition wayca_sc_get_core_id :: "env \<Rightarrow> topo_env \<Rightarrow> int \<Rightarrow> (int \<times> topo_env) option" where
  "wayca_sc_get_core_id e s cpu =
     (if \<not> topo_is_valid_cpu (tt s) cpu then Some (- EINVAL, s)
      else do {
        (on, s) \<leftarrow> wayca_sc_is_cpu_online e s cpu;
        if \<not> on then Some (- ENOENT, s)
        else do {
          c \<leftarrow> rd (cpu_array (tt s)) (nat cpu);
          Some (find_index core_id (cpu_core_id c) (cores (tt s)), s)
        }
      })"

definition wayca_sc_get_ccl_id :: "env \<Rightarrow> topo_env \<Rightarrow> int \<Rightarrow> (int \<times> topo_env) option" where
  "wayca_sc_get_ccl_id e s cpu =
     (if \<not> topo_is_valid_cpu (tt s) cpu then Some (- EINVAL, s)
      else let (n, ts) = wayca_sc_cpus_in_ccl (te s); s = s\<lparr>te := ts\<rparr> in
        if n < 0 then Some (- EINVAL, s)
        else do {
          (on, s) \<leftarrow> wayca_sc_is_cpu_online e s cpu;
          if \<not> on then Some (- ENOENT, s)
          else do {
            c \<leftarrow> rd (cpu_array (tt s)) (nat cpu);
            k \<leftarrow> cpu_p_cluster c;
            ccl \<leftarrow> rd (ccls (tt s)) k;
            Some (find_index cluster_id (cluster_id ccl) (ccls (tt s)), s)
          }
        })"

definition wayca_sc_get_node_id :: "topo_env \<Rightarrow> int \<Rightarrow> int option" where
  "wayca_sc_get_node_id s cpu =
     (if \<not> topo_is_valid_cpu (tt s) cpu then Some (- EINVAL)
      else do {
        c \<leftarrow> rd (cpu_array (tt s)) (nat cpu);
        k \<leftarrow> cpu_p_numa_node c;
        n \<leftarrow> rd (nodes (tt s)) k;
        Some (node_idx n)
      })"

definition wayca_sc_get_package_id :: "env \<Rightarrow> topo_env \<Rightarrow> int \<Rightarrow> (int \<times> topo_env) option" where
  "wayca_sc_get_package_id e s cpu =
     (if \<not> topo_is_valid_cpu (tt s) cpu then Some (- EINVAL, s)
      else do {
        (on, s) \<leftarrow> wayca_sc_is_cpu_online e s cpu;
        if \<not> on then Some (- ENOENT, s)
        else do {
          c \<leftarrow> rd (cpu_array (tt s)) (nat cpu);
          k \<leftarrow> cpu_p_package c;
          p \<leftarrow> rd (packages (tt s)) k;
          Some (find_index physical_package_id (physical_package_id p) (packages (tt s)), s)
        }
      })"

definition wayca_sc_get_node_mem_size :: "topo_env \<Rightarrow> int \<Rightarrow> bool \<Rightarrow> (int \<times> ulong option) option" where
  "wayca_sc_get_node_mem_size s i nonnull =
     (if \<not> nonnull \<or> \<not> topo_is_valid_node (tt s) i then Some (- EINVAL, None)
      else do {
        n \<leftarrow> rd (nodes (tt s)) (nat i);
        kB \<leftarrow> p_meminfo n;
        Some (0, Some kB)
      })"

section \<open>Caches\<close>

definition parse_cache_size :: "string \<Rightarrow> int" where
  "parse_cache_size sstr =
     (let (v, e, _) = strtol sstr; n = to_int v in
      if n < 0 \<or> (case e of [] \<Rightarrow> True | c # _ \<Rightarrow> c \<noteq> CHR ''K'') then - EINVAL else n)"

fun find_cache :: "int \<Rightarrow> string \<Rightarrow> wayca_cache list \<Rightarrow> int" where
  "find_cache lvl ty [] = - ENODATA"
| "find_cache lvl ty (c # cs) =
     (if level c = lvl \<and> cache_type c = ty then parse_cache_size (cache_size c) else find_cache lvl ty cs)"

definition get_cache_size :: "int \<Rightarrow> string \<Rightarrow> env \<Rightarrow> topo_env \<Rightarrow> int \<Rightarrow> (int \<times> topo_env) option" where
  "get_cache_size lvl ty e s cpu =
     (if \<not> topo_is_valid_cpu (tt s) cpu then Some (- EINVAL, s)
      else do {
        (on, s) \<leftarrow> wayca_sc_is_cpu_online e s cpu;
        if \<not> on then Some (0, s)
        else do {
          c \<leftarrow> rd (cpu_array (tt s)) (nat cpu);
          Some (find_cache lvl ty (cpu_caches c), s)
        }
      })"

definition wayca_sc_get_l1i_size where "wayca_sc_get_l1i_size = get_cache_size 1 ''Instruction''"

definition wayca_sc_get_l1d_size where "wayca_sc_get_l1d_size = get_cache_size 1 ''Data''"

definition wayca_sc_get_l2_size where "wayca_sc_get_l2_size = get_cache_size 2 ''Unified''"

definition wayca_sc_get_l3_size where "wayca_sc_get_l3_size = get_cache_size 3 ''Unified''"

section \<open>Interrupts\<close>

fun str2 :: "string list \<Rightarrow> nat \<Rightarrow> string \<Rightarrow> nat" where
  "str2 [] i buf = 0"
| "str2 (n # ns) i buf = (if buf = n then i else str2 ns (i + 1) buf)"

text \<open>The enumeration constants are the positions in the tables.\<close>

definition str2_irq_chip_name :: "string \<Rightarrow> nat" where
  "str2_irq_chip_name = str2 ['''', ''mbigen-v2'', ''ITS-MSI'', ''ITS-pMSI'', ''GICv3''] 0"

definition str2_irq_type :: "string \<Rightarrow> nat" where
  "str2_irq_type = str2 ['''', ''edge'', ''level''] 0"

definition topo_parse_irq_info :: "sysfs \<Rightarrow> string \<Rightarrow> int \<times> wayca_irq" where
  "topo_parse_irq_info fs num =
     (let path = ''/sys/kernel/irq/'' @ num;
          (v, e, err) = strtoul num
      in (if e = num \<or> err \<noteq> 0 then (if err \<noteq> 0 then - err else - EINVAL) else 0,
          \<lparr>irq_number = ucast v,
           chip_name = str2_irq_chip_name (read_attr fs path ''chip_name''),
           irq_type = str2_irq_type (read_attr fs path ''type''),
           irq_name = read_attr fs path ''actions''\<rparr>))"

text \<open>One allocation for the array and one per interrupt; the first failure frees everything.\<close>

fun parse_irqs :: "sysfs \<Rightarrow> nat \<Rightarrow> string list \<Rightarrow> int \<times> wayca_irq list" where
  "parse_irqs fs m [] = (0, [])"
| "parse_irqs fs m (d # ds) =
     (if m = 0 then (- ENOMEM, [])
      else let (ret, irq) = topo_parse_irq_info fs d in
        if ret \<noteq> 0 then (ret, [])
        else let (ret, irqs) = parse_irqs fs (m - 1) ds in (ret, irq # irqs))"

definition topo_get_irq_info :: "env \<Rightarrow> topo_env \<Rightarrow> int \<times> topo_env" where
  "topo_get_irq_info e s =
     (if te_irqs s \<noteq> None then (0, s)
      else case subdirs (e_fs e) ''/proc/irq'' of
        Inl err \<Rightarrow> (- err, s)
      | Inr ds \<Rightarrow>
          if e_mem e = 0 then (- ENOMEM, s)
          else let (ret, irqs) = parse_irqs (e_fs e) (e_mem e - 1) ds in
            if ret \<noteq> 0 then (ret, s) else (0, s\<lparr>te_irqs := Some irqs\<rparr>))"

text \<open>The return value, \<^verbatim>\<open>*num\<close> and the contents of \<^verbatim>\<open>irq\<close> when they are written.\<close>

definition wayca_sc_get_irq_list ::
    "env \<Rightarrow> topo_env \<Rightarrow> bool \<Rightarrow> bool \<Rightarrow> int \<times> (nat \<times> 32 word list option) option \<times> topo_env" where
  "wayca_sc_get_irq_list e s num_nonnull irq_nonnull =
     (if \<not> num_nonnull then (- EINVAL, None, s)
      else let (ret, s) = (if te_irqs s = None then topo_get_irq_info e s else (0, s)) in
        if ret \<noteq> 0 then (ret, None, s)
        else let irqs = the (te_irqs s) in
          (0, Some (length irqs, if irq_nonnull then Some (map irq_number irqs) else None), s))"

definition wayca_sc_get_irq_info ::
    "env \<Rightarrow> topo_env \<Rightarrow> 32 word \<Rightarrow> bool \<Rightarrow> int \<times> wayca_irq option \<times> topo_env" where
  "wayca_sc_get_irq_info e s num nonnull =
     (if \<not> nonnull then (- EINVAL, None, s)
      else let (ret, s) = (if te_irqs s = None then topo_get_irq_info e s else (0, s)) in
        if ret \<noteq> 0 then (ret, None, s)
        else case find (\<lambda>q. irq_number q = num) (the (te_irqs s)) of
            None \<Rightarrow> (- ENOENT, None, s)
          | Some q \<Rightarrow> (0, Some q, s))"

section \<open>Devices\<close>

text \<open>The range of nodes asked for: all of them for a negative number.\<close>

definition node_range :: "wayca_topo \<Rightarrow> int \<Rightarrow> wayca_node list" where
  "node_range t numa_node = (if numa_node < 0 then nodes t else [nodes t ! nat numa_node])"

definition wayca_sc_get_device_list ::
    "topo_env \<Rightarrow> int \<Rightarrow> bool \<Rightarrow> bool \<Rightarrow> int \<times> (nat \<times> string list option) option" where
  "wayca_sc_get_device_list s numa_node num_nonnull name_nonnull =
     (if wayca_sc_nodes_in_total (te s) \<le> numa_node \<or> \<not> num_nonnull then (- EINVAL, None)
      else
        let ns = node_range (tt s) numa_node;
            num = sum_list (map (\<lambda>n. length (pcidevs n) + length (smmus n)) ns)
        in (0, Some (num, if name_nonnull
                then Some (concat (map (\<lambda>n. map smmu_name (smmus n) @ map slot_name (pcidevs n)) ns))
                else None)))"

datatype device_info = SMMU_info wayca_smmu | PCI_info wayca_pci_device

fun find_device :: "string \<Rightarrow> wayca_node list \<Rightarrow> device_info option" where
  "find_device name [] = None"
| "find_device name (n # ns) = (case find (\<lambda>d. smmu_name d = name) (smmus n) of
       Some d \<Rightarrow> Some (SMMU_info d)
     | None \<Rightarrow> (case find (\<lambda>d. slot_name d = name) (pcidevs n) of
         Some d \<Rightarrow> Some (PCI_info d)
       | None \<Rightarrow> find_device name ns))"

definition wayca_sc_get_device_info :: "topo_env \<Rightarrow> string option \<Rightarrow> bool \<Rightarrow> int \<times> device_info option" where
  "wayca_sc_get_device_info s name nonnull = (case name of
       None \<Rightarrow> (- EINVAL, None)
     | Some nm \<Rightarrow>
         if \<not> nonnull then (- EINVAL, None)
         else case find_device nm (nodes (tt s)) of
             None \<Rightarrow> (- ENOENT, None)
           | Some d \<Rightarrow> (0, Some d))"

section \<open>Re-creating the topology\<close>

lemma node_info_no_array:
  assumes "dirents fs (WAYCA_SC_CPU_FNAME @ ''/cpu'' @ decimal c) = Inr ds" "find_node_entry ds = Some k"
    and "0 \<le> k" "k \<le> max_node_index b" "b_nodes b = None" "\<not> CPU_ISSET k (node_map (bt b))"
  shows "topo_parse_cpu_node_info fs b c = None"
  using assms by (simp add: topo_parse_cpu_node_info_def chk_def)

lemma alloc_cpu_frame:
  assumes "topo_alloc_cpu fs b = Some (ret, b')"
  shows "b_nodes b' = b_nodes b \<and> max_node_index b' = max_node_index b"
proof -
  define k where "k = (case snd (topo_path_read_s32 fs WAYCA_SC_CPU_FNAME ''kernel_max'') of
      Some v \<Rightarrow> to_int (v + 1) | None \<Rightarrow> 2048)"
  define P where "P = topo_path_read_cpulist fs WAYCA_SC_CPU_FNAME ''possible'' k"
  define Q where "Q = topo_path_read_cpulist fs WAYCA_SC_CPU_FNAME ''online'' k"
  note eq = assms [unfolded topo_alloc_cpu_def Let_def, folded k_def, folded P_def Q_def]
  then show ?thesis
  proof (cases P)
    case (Some p)
    then show ?thesis
      using eq by (cases p; cases "fst p = 0"; cases "snd p"; cases Q; cases "fst (the Q) = 0")
        (auto simp: alloc_def bind_eq_Some_conv split: if_splits option.splits)
  qed (auto simp: alloc_def split: if_splits)
qed

lemma not_isset_zeros: "\<not> CPU_ISSET c (replicate n 0)"
  by (auto simp: CPU_ISSET_def in_set_range_def abit_def)

text \<open>C35. Re-creating the topology crashes: the static \<^verbatim>\<open>max_node_index\<close> survives \<^verbatim>\<open>topo_free\<close>, so the array of
  nodes is not allocated again and the first node is stored through a NULL pointer. When a CPU has
  gone on- or offline since the construction and CPU 0 belongs to a node that was known before, the
  online query has no outcome.\<close>

theorem recreation_crashes:
  assumes "cpu_status (e_fs e) (tt s) cpu = Some (Inr ())"
    and "topo_alloc_cpu (e_fs e) \<lparr>bt = zero_topo, b_cpus = [], b_nodes = None, b_n_nodes = 0,
           max_node_index = te_max s, mem = e_mem e\<rparr> = Some (0, b)" "2 \<le> mem b" "0 < n_cpus (bt b)"
    and "dirents (e_fs e) (WAYCA_SC_CPU_FNAME @ ''/cpu0'') = Inr ds" "find_node_entry ds = Some k"
    and "0 \<le> k" "k \<le> te_max s"
  shows "wayca_sc_is_cpu_online e s cpu = None"
proof -
  note f = alloc_cpu_frame [OF assms(2), simplified]
  have d: "decimal 0 = ''0''"
    by code_simp
  have "topo_read_cpu_topology (e_fs e) b' 0 = None"
    if "b_nodes b' = None" "max_node_index b' = te_max s" "1 \<le> mem b'" "node_map (bt b') = replicate w 0" for b' w
  proof -
    have "topo_parse_cpu_node_info (e_fs e) (b'\<lparr>mem := x, b_cpus := arr\<rparr>) 0 = None" for x arr
      using that assms(5-8) d by (intro node_info_no_array) (auto simp: not_isset_zeros)
    then show ?thesis
      using that(3) by (simp add: topo_read_cpu_topology_def alloc_def chk_def bind_eq_None_conv)
  qed
  then show ?thesis
    using assms(1-4) f
    by (simp add: wayca_sc_is_cpu_online_def topo_init_def chk_def topo_alloc_node_map_def alloc_def
        topo_construct_cpu_topology_def upt_conv_Cons)
qed

text \<open>Two CPUs in one node; CPU 1 was offline when the topology was constructed.\<close>

definition hotplug_fs :: sysfs where
  "hotplug_fs = \<lparr>sf_file = (\<lambda>_ n. if n = ''possible'' \<or> n = ''online'' then Inr (if n = ''possible'' then ''0-1'' else ''1'')
       else Inl ENOENT),
     dirents = (\<lambda>_. Inr [''cache'', ''node0'']), subdirs = (\<lambda>_. Inl ENOENT), path_exists = (\<lambda>_. False), stale_errno = 0\<rparr>"

definition hotplug_env :: env where
  "hotplug_env = \<lparr>e_fs = hotplug_fs, e_devs = (\<lambda>_ t. Some (0, t)), e_mem = 100\<rparr>"

definition hotplug_state :: topo_env where
  "hotplug_state = \<lparr>te = \<lparr>topo = zero_topo\<lparr>kernel_max_cpus := 2048, setsize := 256, n_cpus := 2,
       cpu_map := 3 # replicate 31 0, online_cpu_map := 1 # replicate 31 0, nodes := [zero_node]\<rparr>,
     max_cores = 0, max_ccls = 0\<rparr>, te_irqs = None, te_max = 0\<rparr>"

lemma hotplug_lists:
  "\<exists>cs. topo_path_read_cpulist hotplug_fs d ''possible'' 2048 = Some (0, Some cs) \<and> CPU_COUNT cs = 2"
  "\<exists>cs. topo_path_read_cpulist hotplug_fs d ''online'' 2048 = Some (0, Some cs)"
proof -
  have p: "print_list [(0, 1)] = ''0-1''" "print_list [(1, 1)] = ''1''"
    by code_simp+
  have sz: "unat (CPU_ALLOC_SIZE 2048) = 256"
    using unat_CPU_ALLOC_SIZE [of 2048] by simp
  have l: "\<exists>cs. cpulist_parse (print_list [(a, 1)]) 256 False = Some (0, cs) \<and> CPU_COUNT cs = 2 - int a"
    if a: "a \<le> 1" for a
  proof -
    obtain cs where cs: "cpulist_parse (print_list [(a, 1)]) 256 False = Some (0, cs)" "cpus cs = {a..1} \<inter> {..<2048}"
      using cpulist_parse_print [of "[(a, 1)]" 256] a by auto
    have "{a..1} \<inter> {..<2048} = {a..1}"
      by (rule Int_absorb2) (auto simp del: lessThan_Suc)
    then show ?thesis
      using cs a by (simp add: CPU_COUNT_card)
  qed
  obtain cs cs' where c: "cpulist_parse ''0-1'' 256 False = Some (0, cs)" "CPU_COUNT cs = 2"
      "cpulist_parse ''1'' 256 False = Some (0, cs')"
    using l [of 0, unfolded p] l [of 1, unfolded p] by auto
  show "\<exists>cs. topo_path_read_cpulist hotplug_fs d ''possible'' 2048 = Some (0, Some cs) \<and> CPU_COUNT cs = 2"
    using c by (simp add: topo_path_read_cpulist_def hotplug_fs_def fgets_def sz)
  show "\<exists>cs. topo_path_read_cpulist hotplug_fs d ''online'' 2048 = Some (0, Some cs)"
    using c by (simp add: topo_path_read_cpulist_def hotplug_fs_def fgets_def sz)
qed

theorem recreation_crashes_witness: "wayca_sc_is_cpu_online hotplug_env hotplug_state 1 = None"
proof -
  have st: "cpu_status (e_fs hotplug_env) (tt hotplug_state) 1 = Some (Inr ())"
    by code_simp
  have k: "snd (topo_path_read_s32 hotplug_fs WAYCA_SC_CPU_FNAME ''kernel_max'') = None"
    by (simp add: topo_path_read_s32_def hotplug_fs_def)
  have n: "find_node_entry [''cache'', ''node0''] = Some 0"
    by (simp add: strtoul0_def scan_number0_def isspace_def hex_to_bin_def Let_def)
  have "\<exists>b. topo_alloc_cpu (e_fs hotplug_env) \<lparr>bt = zero_topo, b_cpus = [], b_nodes = None, b_n_nodes = 0,
           max_node_index = te_max hotplug_state, mem = e_mem hotplug_env\<rparr> = Some (0, b) \<and> 2 \<le> mem b \<and> 0 < n_cpus (bt b)"
    using hotplug_lists [of WAYCA_SC_CPU_FNAME] k
    by (auto simp: topo_alloc_cpu_def hotplug_env_def alloc_def Let_def)
  then show ?thesis
    using recreation_crashes [OF st _ _ _ _ n] by (auto simp: hotplug_env_def hotplug_fs_def hotplug_state_def)
qed

end
