(* ===== verification/Devices.thy ===== *)
theory Devices
  imports TopoQuery
begin

text \<open>
  The discovery of I/O devices, the last part of \<^verbatim>\<open>lib/topo.c\<close>: \<^verbatim>\<open>topo_recursively_read_io_devices\<close> walks
  the tree of directories below \<^verbatim>\<open>/sys/devices\<close> and attaches every directory that has an entry
  \<^verbatim>\<open>numa_node\<close> and belongs to a PCI device or an SMMU to its NUMA node. The tree is an argument, in the order
  \<^verbatim>\<open>readdir\<close> returns it and without \<^verbatim>\<open>.\<close> and \<^verbatim>\<open>..\<close>; a directory that can be opened can also be entered,
  and the names of SMMUs go on after \<^verbatim>\<open>arm-smmu-v3\<close> and \<^verbatim>\<open>smmu3\<close>.
  As in \<open>TopoInit\<close>, \<open>mem\<close> is the number of allocations that succeed. Where a failed allocation
  replaces an array by NULL without clearing its length there is no outcome (\<open>None\<close>).
\<close>

section \<open>The device tree\<close>

text \<open>A directory, one that cannot be opened, another entry, and an entry on which \<^verbatim>\<open>lstat\<close> fails; the
  numbers are values of \<^verbatim>\<open>errno\<close>.\<close>

datatype dtree = Dir string "dtree list" | Closed string int | NonDir string | Gone string int

text \<open>What \<^verbatim>\<open>lstat\<close> and \<^verbatim>\<open>d_type\<close> say of an entry.\<close>

datatype kind = K_dir | K_reg | K_other | K_gone

record devfs =
  d_sys :: sysfs
  d_entries :: "string \<Rightarrow> int + (string \<times> kind) list"
  d_readlink :: "string \<Rightarrow> int + string"

section \<open>Interrupts of a device\<close>

text \<open>The loop over \<^verbatim>\<open>msi_irqs\<close>: the return value and the array, whose elements after a bad name stay 0.\<close>

fun msi_numbers :: "string list \<Rightarrow> int \<times> 32 word list" where
  "msi_numbers [] = (0, [])"
| "msi_numbers (n # ns) =
     (let (v, e, err) = strtol n in
      if e = n \<or> err \<noteq> 0
      then (if err \<noteq> 0 then - err else - EINVAL, word_of_int v # replicate (length ns) 0)
      else let (ret, vs) = msi_numbers ns in (ret, word_of_int v # vs))"

text \<open>The return value, the array and the allocations left. The array is not written when the directory
  cannot be opened.\<close>

definition topo_parse_msi_irq :: "devfs \<Rightarrow> string \<Rightarrow> nat \<Rightarrow> (int \<times> 32 word list \<times> nat) option" where
  "topo_parse_msi_irq f dir m = (case d_entries f (dir @ ''/msi_irqs'') of
       Inl e \<Rightarrow> Some (- e, [], m)
     | Inr es \<Rightarrow>
         let ns = map fst (filter (\<lambda>(_, k). k = K_reg) es) in
         if m = 0 then (if ns = [] then Some (- ENOMEM, [], m) else None)
         else let (ret, vs) = msi_numbers ns in Some (ret, vs, m - 1))"

text \<open>The number that is read only decides whether the array grows: the new element is 0.\<close>

definition topo_parse_irq :: "devfs \<Rightarrow> string \<Rightarrow> 32 word list \<Rightarrow> nat \<Rightarrow> (int \<times> 32 word list \<times> nat) option" where
  "topo_parse_irq f dir vs m =
     (let irq = read_or_minus1 (d_sys f) dir ''irq'';
          num = (if irq < 0 then 0 else word_of_int irq)
      in if num \<in> set vs then Some (0, vs, m)
         else if m = 0 then (if vs = [] then Some (- ENOMEM, [], m) else None)
         else Some (0, vs @ [0], m - 1))"

text \<open>The search for \<^verbatim>\<open>msi_irqs\<close> and \<^verbatim>\<open>irq\<close>; the last component is \<^verbatim>\<open>ret\<close>, which is -1 when the last \<^verbatim>\<open>lstat\<close>
  failed.\<close>

fun find_irq_entries :: "(string \<times> kind) list \<Rightarrow> bool \<Rightarrow> bool \<Rightarrow> int \<Rightarrow> bool \<times> bool \<times> int" where
  "find_irq_entries [] msi irq ret = (msi, irq, ret)"
| "find_irq_entries ((n, k) # es) msi irq ret =
     (if msi \<and> irq then (msi, irq, ret)
      else if k = K_gone then find_irq_entries es msi irq (- 1)
      else if \<not> msi \<and> k = K_dir then find_irq_entries es (n = ''msi_irqs'') irq 0
      else find_irq_entries es msi (irq \<or> n = ''irq'') 0)"

definition topo_parse_device_irqs :: "devfs \<Rightarrow> string \<Rightarrow> nat \<Rightarrow> (int \<times> 32 word list \<times> nat) option" where
  "topo_parse_device_irqs f dir m = (case d_entries f dir of
       Inl e \<Rightarrow> Some (- e, [], m)
     | Inr es \<Rightarrow> (case find_irq_entries es False False 0 of (msi, irq, ret) \<Rightarrow> do {
         (ret, vs, m) \<leftarrow> (if msi then topo_parse_msi_irq f dir m else Some (ret, [], m));
         if msi \<and> ret \<noteq> 0 then Some (ret, vs, m)
         else if irq then topo_parse_irq f dir vs m
         else Some (ret, vs, m)
       }))"

section \<open>PCI devices\<close>

text \<open>\<^verbatim>\<open>strtol(s, NULL, 0)\<close> and \<^verbatim>\<open>sscanf(s, "%x", ...)\<close>.\<close>

definition strtol0 :: "string \<Rightarrow> int" where
  "strtol0 s = (case scan_number0 s of
       None \<Rightarrow> 0
     | Some (neg, n, _) \<Rightarrow> max (- (2 ^ 63)) (min (2 ^ 63 - 1) (if neg then - int n else int n)))"

definition scan_hex :: "string \<Rightarrow> ulong option" where
  "scan_hex s =
     (let s = dropWhile isspace s;
          (neg, s) = (case s of c # r \<Rightarrow> if c = CHR ''-'' then (True, r)
                        else if c = CHR ''+'' then (False, r) else (False, s) | [] \<Rightarrow> (False, s));
          s = (if take 2 s \<in> {''0x'', ''0X''} then drop 2 s else s);
          ds = takeWhile (\<lambda>c. 0 \<le> hex_to_bin c) s;
          n = foldl (\<lambda>n c. 16 * n + hex_to_bin c) 0 ds
      in if ds = [] then None
         else Some (if 2 ^ 64 \<le> n then - 1 else if neg then - word_of_int n else word_of_int n))"

definition read_hex :: "devfs \<Rightarrow> string \<Rightarrow> string \<Rightarrow> ulong" where
  "read_hex f dir name =
     (let (ret, buf) = topo_path_read_buffer (d_sys f) dir name 255 in
      if ret \<le> 0 then 0 else case scan_hex buf of None \<Rightarrow> 0 | Some v \<Rightarrow> v)"

text \<open>The return value and \<^verbatim>\<open>smmu_idx\<close>.\<close>

definition topo_parse_pci_smmu :: "devfs \<Rightarrow> string \<Rightarrow> int \<times> int" where
  "topo_parse_pci_smmu f dir = (case d_readlink f (dir @ ''/iommu'') of
       Inl e \<Rightarrow> (if e = ENOENT then 0 else - e, - 1)
     | Inr l \<Rightarrow> (case strstr (take 4095 l) ''arm-smmu-v3'' of
         None \<Rightarrow> (0, - 1)
       | Some p \<Rightarrow> (0, to_int (strtol0 (drop 12 p)))))"

text \<open>The fields of a PCI device, its interrupts and the allocations left. \<^verbatim>\<open>local_cpu_map\<close> is empty when it was not
  written.\<close>

definition topo_parse_pci_info ::
    "devfs \<Rightarrow> wayca_topo \<Rightarrow> wayca_pci_device \<Rightarrow> string \<Rightarrow> nat \<Rightarrow> (int \<times> wayca_pci_device \<times> nat) option" where
  "topo_parse_pci_info f t dev dir m = do {
     let dev = dev\<lparr>pci_class := ucast (read_hex f dir ''class''), pci_vendor := ucast (read_hex f dir ''vendor''),
                   pci_device := ucast (read_hex f dir ''device'')\<rparr>;
     if m = 0 then Some (- ENOMEM, dev, m)
     else do {
       let m = m - 1;
       (ret, cs) \<leftarrow> topo_path_read_cpulist (d_sys f) dir ''local_cpulist'' (kernel_max_cpus t);
       let dev = dev\<lparr>local_cpu_map := (case cs of None \<Rightarrow> [] | Some cs \<Rightarrow> cs)\<rparr>;
       if ret \<noteq> 0 \<and> CPU_EQUAL (online_cpu_map t) (cpu_map t) then Some (ret, dev, m)
       else do {
         (ret, vs, m) \<leftarrow> topo_parse_device_irqs f dir m;
         let dev = dev\<lparr>irq_numbers := vs\<rparr>;
         if ret < 0 then Some (ret, dev, m)
         else case topo_path_read_s32 (d_sys f) dir ''enable'' of
             (ret, None) \<Rightarrow> Some (ret, dev, m)
           | (ret, Some en) \<Rightarrow> Some (0, dev\<lparr>pci_enable := en\<rparr>, m)
       }
     }
   }"

text \<open>The number of the node and its index in the array of nodes; both kinds of device read it.\<close>

definition device_node :: "devfs \<Rightarrow> wayca_topo \<Rightarrow> string \<Rightarrow> int \<times> nat option" where
  "device_node f t dir =
     (let nb = read_or_minus1 (d_sys f) dir ''numa_node'';
          nb = (if nb < 0 then 0 else nb);
          i = index_of node_idx nb (nodes t)
      in (nb, if i = length (nodes t) then None else Some i))"

definition zero_pci :: wayca_pci_device where
  "zero_pci = \<lparr>pci_numa_node = 0, pci_smmu_idx = 0, pci_enable = 0, absolute_path = [], slot_name = [],
     local_cpu_map = [], pci_class = 0, pci_vendor = 0, pci_device = 0, irq_numbers = []\<rparr>"

definition upd_nodes :: "nat \<Rightarrow> (wayca_node \<Rightarrow> wayca_node) \<Rightarrow> wayca_topo \<Rightarrow> wayca_topo" where
  "upd_nodes i g t = t\<lparr>nodes := (nodes t)[i := g (nodes t ! i)]\<rparr>"

text \<open>The part of the path after its last slash.\<close>

definition last_part :: "string \<Rightarrow> string" where
  "last_part dir = (if CHR ''/'' \<in> set dir then rev (takeWhile (\<lambda>c. c \<noteq> CHR ''/'') (rev dir)) else [])"

definition topo_parse_pci_device ::
    "devfs \<Rightarrow> wayca_topo \<Rightarrow> string \<Rightarrow> nat \<Rightarrow> (int \<times> wayca_topo \<times> nat) option" where
  "topo_parse_pci_device f t dir m =
     (if m = 0 then Some (- ENOMEM, t, m)
      else let m = m - 1 in case device_node f t dir of
        (nb, None) \<Rightarrow> Some (- EINVAL, t, m)
      | (nb, Some i) \<Rightarrow>
          let dev = zero_pci\<lparr>absolute_path := take 4095 dir, slot_name := take 23 (last_part dir), pci_numa_node := nb\<rparr> in
          if m = 0 then (if pcidevs (nodes t ! i) = [] then Some (- ENOMEM, t, m) else None)
          else do {
            (ret, dev, m) \<leftarrow> topo_parse_pci_info f t dev dir (m - 1);
            let (ret, dev) = (if ret \<noteq> 0 then (ret, dev)
              else let (ret, x) = topo_parse_pci_smmu f dir in (ret, dev\<lparr>pci_smmu_idx := x\<rparr>));
            Some (ret, upd_nodes i (\<lambda>n. n\<lparr>pcidevs := pcidevs n @ [dev]\<rparr>) t, m)
          })"

section \<open>SMMUs\<close>

definition zero_smmu :: wayca_smmu where
  "zero_smmu = \<lparr>smmu_idx = 0, smmu_numa_node = 0, base_addr = 0, smmu_name = [], modalias = []\<rparr>"

text \<open>The address in the name of the first entry \<^verbatim>\<open>smmu3.<address>\<close>.\<close>

fun find_base_addr :: "(string \<times> kind) list \<Rightarrow> ulong option" where
  "find_base_addr [] = None"
| "find_base_addr ((n, _) # es) = (case strstr n ''smmu3'' of
       None \<Rightarrow> find_base_addr es
     | Some p \<Rightarrow> Some (fst (strtoul0 (drop 6 p))))"

definition topo_parse_smmu_info :: "devfs \<Rightarrow> wayca_smmu \<Rightarrow> string \<Rightarrow> int \<times> wayca_smmu" where
  "topo_parse_smmu_info f sm dir = (case strstr dir ''arm-smmu-v3'' of
       None \<Rightarrow> (- EIO, sm)
     | Some p \<Rightarrow>
         let sm = sm\<lparr>smmu_name := take 255 p, modalias := read_attr (d_sys f) dir ''modalias'',
                     smmu_idx := to_int (strtol0 (drop 12 p))\<rparr>
         in case d_entries f (dir @ ''/iommu'') of
             Inl e \<Rightarrow> (- e, sm)
           | Inr es \<Rightarrow> (0, case find_base_addr es of None \<Rightarrow> sm | Some a \<Rightarrow> sm\<lparr>base_addr := a\<rparr>))"

definition topo_parse_smmu :: "devfs \<Rightarrow> wayca_topo \<Rightarrow> string \<Rightarrow> nat \<Rightarrow> (int \<times> wayca_topo \<times> nat) option" where
  "topo_parse_smmu f t dir m =
     (if m = 0 then Some (- ENOMEM, t, m)
      else let m = m - 1 in case device_node f t dir of
        (nb, None) \<Rightarrow> Some (- EINVAL, t, m)
      | (nb, Some i) \<Rightarrow>
          if m = 0 then (if smmus (nodes t ! i) = [] then Some (- ENOMEM, t, m) else None)
          else let (ret, sm) = topo_parse_smmu_info f (zero_smmu\<lparr>smmu_numa_node := nb\<rparr>) dir in
            Some (ret, upd_nodes i (\<lambda>n. n\<lparr>smmus := smmus n @ [sm]\<rparr>) t, m - 1))"

section \<open>The walk\<close>

definition is_pci_device_dir :: "devfs \<Rightarrow> string \<Rightarrow> bool" where
  "is_pci_device_dir f dir = (case d_readlink f (dir @ ''/subsystem'') of
       Inl _ \<Rightarrow> False
     | Inr l \<Rightarrow> strstr (take 4095 l) ''bus/pci'' \<noteq> None)"

text \<open>\<^verbatim>\<open>getcwd\<close> returns NULL for a path that does not fit into the buffer.\<close>

definition getcwd :: "string \<Rightarrow> string option" where
  "getcwd dir = (if length dir < 4096 then Some dir else None)"

definition topo_parse_io_device ::
    "devfs \<Rightarrow> wayca_topo \<Rightarrow> string option \<Rightarrow> nat \<Rightarrow> (int \<times> wayca_topo \<times> nat) option" where
  "topo_parse_io_device f t dir m = (case dir of
       None \<Rightarrow> Some (- EINVAL, t, m)
     | Some dir \<Rightarrow>
         if strstr dir ''pci'' \<noteq> None \<and> is_pci_device_dir f dir then topo_parse_pci_device f t dir m
         else if strstr dir ''smmu'' \<noteq> None then topo_parse_smmu f t dir m
         else Some (0, t, m))"

text \<open>The loop over the entries of the directory \<open>dir\<close>. The results of the calls it makes are ignored; a
  failing \<^verbatim>\<open>lstat\<close> ends it.\<close>

fun read_entries :: "devfs \<Rightarrow> string \<Rightarrow> dtree list \<Rightarrow> wayca_topo \<Rightarrow> nat \<Rightarrow> (int \<times> wayca_topo \<times> nat) option" where
  "read_entries f dir [] t m = Some (0, t, m)"
| "read_entries f dir (Gone n e # ts) t m = Some (- e, t, m)"
| "read_entries f dir (Closed n e # ts) t m = read_entries f dir ts t m"
| "read_entries f dir (Dir n us # ts) t m = do {
     (_, t, m) \<leftarrow> read_entries f (dir @ ''/'' @ n) us t m;
     read_entries f dir ts t m
   }"
| "read_entries f dir (NonDir n # ts) t m = do {
     (_, t, m) \<leftarrow> (if n = ''numa_node'' then topo_parse_io_device f t (getcwd dir) m else Some (0, t, m));
     read_entries f dir ts t m
   }"

text \<open>\<open>root\<close> is what \<^verbatim>\<open>opendir\<close> makes of the directory.\<close>

definition topo_recursively_read_io_devices ::
    "devfs \<Rightarrow> string \<Rightarrow> int + dtree list \<Rightarrow> nat \<Rightarrow> wayca_topo \<Rightarrow> (int \<times> wayca_topo) option" where
  "topo_recursively_read_io_devices f dir root m t = (case root of
       Inl e \<Rightarrow> Some (- e, t)
     | Inr ts \<Rightarrow> map_option (\<lambda>(ret, t, _). (ret, t)) (read_entries f dir ts t m))"

text \<open>\<^verbatim>\<open>topo_init\<close> on a whole file system.\<close>

definition topo_init_all ::
    "devfs \<Rightarrow> int + dtree list \<Rightarrow> nat \<Rightarrow> int \<Rightarrow> (wayca_topo \<times> int) option" where
  "topo_init_all f root =
     topo_init (d_sys f) (topo_recursively_read_io_devices f ''/sys/devices'' root)"

section \<open>Which devices are attached\<close>

text \<open>The directories with an entry \<^verbatim>\<open>numa_node\<close>, in the order of the walk, which leaves a directory at the first
  entry on which \<^verbatim>\<open>lstat\<close> fails.\<close>

fun device_dirs :: "string \<Rightarrow> dtree list \<Rightarrow> string list" where
  "device_dirs dir [] = []"
| "device_dirs dir (Gone n e # ts) = []"
| "device_dirs dir (Closed n e # ts) = device_dirs dir ts"
| "device_dirs dir (Dir n us # ts) = device_dirs (dir @ ''/'' @ n) us @ device_dirs dir ts"
| "device_dirs dir (NonDir n # ts) = (if n = ''numa_node'' then [dir] else []) @ device_dirs dir ts"

definition is_pci :: "devfs \<Rightarrow> string \<Rightarrow> bool" where
  "is_pci f d \<longleftrightarrow> length d < 4096 \<and> strstr d ''pci'' \<noteq> None \<and> is_pci_device_dir f d"

definition is_smmu :: "devfs \<Rightarrow> string \<Rightarrow> bool" where
  "is_smmu f d \<longleftrightarrow> length d < 4096 \<and> \<not> is_pci f d \<and> strstr d ''smmu'' \<noteq> None"

definition smmu_label :: "string \<Rightarrow> string" where
  "smmu_label d = (case strstr d ''arm-smmu-v3'' of None \<Rightarrow> [] | Some p \<Rightarrow> take 255 p)"

definition pci_label :: "string \<Rightarrow> string \<times> string" where
  "pci_label d = (d, take 23 (last_part d))"

definition pci_names :: "wayca_pci_device \<Rightarrow> string \<times> string" where
  "pci_names v = (absolute_path v, slot_name v)"

text \<open>\<open>t'\<close> is \<open>t\<close> with the devices \<open>ds\<close> added to their nodes.\<close>

definition attached :: "devfs \<Rightarrow> string list \<Rightarrow> wayca_topo \<Rightarrow> wayca_topo \<Rightarrow> bool" where
  "attached f ds t t' \<longleftrightarrow> kernel_max_cpus t' = kernel_max_cpus t \<and> map node_idx (nodes t') = map node_idx (nodes t)
     \<and> (\<forall>i < length (nodes t).
          map pci_names (pcidevs (nodes t' ! i)) = map pci_names (pcidevs (nodes t ! i))
            @ map pci_label (filter (\<lambda>d. is_pci f d \<and> snd (device_node f t d) = Some i) ds)
        \<and> map smmu_name (smmus (nodes t' ! i)) = map smmu_name (smmus (nodes t ! i))
            @ map smmu_label (filter (\<lambda>d. is_smmu f d \<and> snd (device_node f t d) = Some i) ds))"

lemma index_of_map: "index_of g v xs = index_of (\<lambda>x. x) v (map g xs)"
  by (induction xs) auto

lemma index_of_le: "index_of g v xs \<le> length xs"
  by (induction xs) auto

lemma device_node_cong:
  assumes "map node_idx (nodes t') = map node_idx (nodes t)"
  shows "device_node f t' = device_node f t"
  using assms map_eq_imp_length_eq [OF assms]
  by (auto simp: device_node_def Let_def index_of_map [of node_idx] fun_eq_iff)

lemma device_node_Some: "device_node f t d = (nb, Some i) \<Longrightarrow> i < length (nodes t)"
  using index_of_le [of node_idx _ "nodes t"] by (auto simp: device_node_def Let_def nat_less_le split: if_splits)

lemma attached_refl: "attached f [] t t"
  by (simp add: attached_def)

lemma attached_trans:
  assumes "attached f ds t t1" "attached f es t1 t2"
  shows "attached f (ds @ es) t t2"
proof -
  have "device_node f t1 = device_node f t" "length (nodes t1) = length (nodes t)"
    using assms(1) device_node_cong map_eq_imp_length_eq unfolding attached_def by blast+
  then show ?thesis
    using assms unfolding attached_def by simp
qed

lemma upd_nodes_simps [simp]:
  "length (nodes (upd_nodes i g t)) = length (nodes t)" "kernel_max_cpus (upd_nodes i g t) = kernel_max_cpus t"
  "i < length (nodes t) \<Longrightarrow> nodes (upd_nodes i g t) ! j = (if i = j then g (nodes t ! i) else nodes t ! j)"
  by (simp_all add: upd_nodes_def nth_list_update)

lemma upd_nodes_idx:
  assumes "i < length (nodes t)" "node_idx (g (nodes t ! i)) = node_idx (nodes t ! i)"
  shows "map node_idx (nodes (upd_nodes i g t)) = map node_idx (nodes t)"
  using assms by (simp add: upd_nodes_def map_update) (metis list_update_id map_update nth_map)

text \<open>At most two allocations for the interrupts of a device.\<close>

lemma device_irqs_total:
  assumes "2 \<le> m"
  obtains ret vs m' where "topo_parse_device_irqs f dir m = Some (ret, vs, m')" "m - 2 \<le> m'"
proof -
  have msi: "\<exists>ret vs m'. topo_parse_msi_irq f dir m = Some (ret, vs, m') \<and> m - 1 \<le> m'"
    using assms by (auto simp: topo_parse_msi_irq_def Let_def split: sum.splits prod.splits)
  have irq: "\<exists>ret vs' m''. topo_parse_irq f dir vs m' = Some (ret, vs', m'') \<and> m' - 1 \<le> m''" if "0 < m'" for vs m'
    using that by (auto simp: topo_parse_irq_def Let_def)
  show ?thesis
  proof (cases "d_entries f dir")
    case (Inr es)
    obtain a b ret where fe: "find_irq_entries es False False 0 = (a, b, ret)"
      by (cases "find_irq_entries es False False 0")
    obtain ret1 vs1 m1 where m1: "(if a then topo_parse_msi_irq f dir m else Some (ret, [], m)) = Some (ret1, vs1, m1)"
        "m - 1 \<le> m1"
      using msi by (cases a) auto
    have pos: "0 < m1"
      using m1(2) assms by linarith
    obtain ret2 vs2 m2 where m2: "topo_parse_irq f dir vs1 m1 = Some (ret2, vs2, m2)" "m1 - 1 \<le> m2"
      using irq [of m1 vs1] pos by blast
    have "m - 2 \<le> m1" "m - 2 \<le> m2"
      using m1(2) m2(2) assms by linarith+
    moreover have "topo_parse_device_irqs f dir m
        = (if a \<and> ret1 \<noteq> 0 then Some (ret1, vs1, m1) else if b then Some (ret2, vs2, m2) else Some (ret1, vs1, m1))"
      using Inr fe m1(1) m2(1) by (simp add: topo_parse_device_irqs_def)
    ultimately show ?thesis
      using that by (metis (full_types))
  qed (use that in \<open>auto simp: topo_parse_device_irqs_def\<close>)
qed

definition readable :: "devfs \<Rightarrow> int \<Rightarrow> string \<Rightarrow> bool" where
  "readable f kmax d \<longleftrightarrow> topo_path_read_cpulist (d_sys f) d ''local_cpulist'' kmax \<noteq> None"

lemma pci_info_total:
  assumes "3 \<le> m" "readable f (kernel_max_cpus t) dir"
  obtains ret dev' m' where "topo_parse_pci_info f t dev dir m = Some (ret, dev', m')" "m - 3 \<le> m'"
    "pci_names dev' = pci_names dev"
proof -
  obtain ret cs where c: "topo_path_read_cpulist (d_sys f) dir ''local_cpulist'' (kernel_max_cpus t) = Some (ret, cs)"
    using assms(2) unfolding readable_def by (metis not_None_eq surj_pair)
  have "2 \<le> m - 1"
    using assms(1) by simp
  then obtain ret' vs m' where i: "topo_parse_device_irqs f dir (m - 1) = Some (ret', vs, m')" "m - 1 - 2 \<le> m'"
    by (rule device_irqs_total)
  have m: "m \<noteq> 0" "m - 3 \<le> m - 1" "m - 3 \<le> m'"
    using assms(1) i(2) by simp_all
  have "\<exists>ret dev' m'. topo_parse_pci_info f t dev dir m = Some (ret, dev', m') \<and> m - 3 \<le> m'
      \<and> pci_names dev' = pci_names dev"
    using c i(1) m unfolding topo_parse_pci_info_def Let_def pci_names_def
    by (auto simp del: One_nat_def split: prod.splits option.splits)
  then show ?thesis
    using that by blast
qed

lemma pci_device_attached:
  assumes "5 \<le> m" "readable f (kernel_max_cpus t) d" "is_pci f d"
  shows "\<exists>ret t' m'. topo_parse_pci_device f t d m = Some (ret, t', m') \<and> m - 5 \<le> m' \<and> attached f [d] t t'"
proof (cases "device_node f t d")
  case (Pair nb io)
  have d: "take 4095 d = d" "\<not> is_smmu f d"
    using assms(3) by (simp_all add: is_pci_def is_smmu_def)
  show ?thesis
  proof (cases io)
    case None
    then show ?thesis
      using assms(1) Pair d assms(3) by (auto simp: topo_parse_pci_device_def attached_def)
  next
    case (Some i)
    let ?dev = "zero_pci\<lparr>absolute_path := take 4095 d, slot_name := take 23 (last_part d), pci_numa_node := nb\<rparr>"
    have i: "i < length (nodes t)"
      using device_node_Some Pair Some by blast
    have "3 \<le> m - 1 - 1"
      using assms(1) by simp
    then obtain ret dev m' where p: "topo_parse_pci_info f t ?dev d (m - 1 - 1) = Some (ret, dev, m')"
        "m - 1 - 1 - 3 \<le> m'" "pci_names dev = pci_names ?dev"
      using assms(2) by (rule pci_info_total)
    obtain ret' dev' where r: "(if ret \<noteq> 0 then (ret, dev)
        else let (ret, x) = topo_parse_pci_smmu f d in (ret, dev\<lparr>pci_smmu_idx := x\<rparr>)) = (ret', dev')"
        "pci_names dev' = pci_label d"
      using p(3) d(1) by (cases "topo_parse_pci_smmu f d"; cases "ret = 0") (auto simp: pci_names_def pci_label_def)
    let ?t = "upd_nodes i (\<lambda>n. n\<lparr>pcidevs := pcidevs n @ [dev']\<rparr>) t"
    have "topo_parse_pci_device f t d m = Some (ret', ?t, m')"
      using assms(1) Pair Some p(1) r(1) by (simp add: topo_parse_pci_device_def Let_def del: One_nat_def)
    moreover have "map node_idx (nodes ?t) = map node_idx (nodes t)"
      using i by (intro upd_nodes_idx) simp_all
    then have "attached f [d] t ?t"
      using i r(2) d(2) assms(3) Pair Some by (auto simp: attached_def)
    ultimately show ?thesis
      using p(2) by auto
  qed
qed

lemma smmu_attached:
  assumes "5 \<le> m" "is_smmu f d"
  shows "\<exists>ret t' m'. topo_parse_smmu f t d m = Some (ret, t', m') \<and> m - 5 \<le> m' \<and> attached f [d] t t'"
proof (cases "device_node f t d")
  case (Pair nb io)
  have d: "\<not> is_pci f d"
    using assms(2) by (simp add: is_smmu_def)
  show ?thesis
  proof (cases io)
    case None
    then show ?thesis
      using assms(1) Pair d assms(2) by (auto simp: topo_parse_smmu_def attached_def)
  next
    case (Some i)
    have i: "i < length (nodes t)"
      using device_node_Some Pair Some by blast
    obtain ret sm where sm: "topo_parse_smmu_info f (zero_smmu\<lparr>smmu_numa_node := nb\<rparr>) d = (ret, sm)"
      by (cases "topo_parse_smmu_info f (zero_smmu\<lparr>smmu_numa_node := nb\<rparr>) d")
    have l: "smmu_name sm = smmu_label d"
      using sm by (auto simp: topo_parse_smmu_info_def smmu_label_def zero_smmu_def Let_def
          split: option.splits sum.splits)
    let ?t = "upd_nodes i (\<lambda>n. n\<lparr>smmus := smmus n @ [sm]\<rparr>) t"
    have "topo_parse_smmu f t d m = Some (ret, ?t, m - 1 - 1)"
      using assms(1) Pair Some sm by (simp add: topo_parse_smmu_def Let_def del: One_nat_def)
    moreover have "map node_idx (nodes ?t) = map node_idx (nodes t)"
      using i by (intro upd_nodes_idx) simp_all
    then have "attached f [d] t ?t"
      using i l d assms(2) Pair Some by (auto simp: attached_def)
    ultimately show ?thesis by auto
  qed
qed

lemma io_device_attached:
  assumes "5 \<le> m" "readable f (kernel_max_cpus t) d"
  shows "\<exists>ret t' m'. topo_parse_io_device f t (getcwd d) m = Some (ret, t', m') \<and> m - 5 \<le> m' \<and> attached f [d] t t'"
proof -
  consider (pci) "is_pci f d" | (smmu) "is_smmu f d" | (other) "\<not> is_pci f d" "\<not> is_smmu f d" by blast
  then show ?thesis
  proof cases
    case pci
    then show ?thesis
      using pci_device_attached [OF assms pci] by (simp add: topo_parse_io_device_def getcwd_def is_pci_def)
  next
    case smmu
    then show ?thesis
      using smmu_attached [OF assms(1) smmu, of t]
      by (auto simp: topo_parse_io_device_def getcwd_def is_smmu_def is_pci_def)
  next
    case other
    then have "\<exists>ret. topo_parse_io_device f t (getcwd d) m = Some (ret, t, m)"
      by (auto simp: topo_parse_io_device_def getcwd_def is_pci_def is_smmu_def)
    then show ?thesis
      using other by (auto simp: attached_def)
  qed
qed

lemma read_entries_attached:
  assumes "5 * length (device_dirs dir ts) \<le> m" "\<forall>d \<in> set (device_dirs dir ts). readable f (kernel_max_cpus t) d"
  shows "\<exists>ret t' m'. read_entries f dir ts t m = Some (ret, t', m')
    \<and> m - 5 * length (device_dirs dir ts) \<le> m' \<and> attached f (device_dirs dir ts) t t'"
  using assms
proof (induction f dir ts t m rule: read_entries.induct)
  case (4 f dir n us ts t m)
  let ?us = "device_dirs (dir @ ''/'' @ n) us"
  obtain ret1 t1 m1 where 1: "read_entries f (dir @ ''/'' @ n) us t m = Some (ret1, t1, m1)"
      "m - 5 * length ?us \<le> m1" "attached f ?us t t1"
    using "4.IH"(1) "4.prems" by auto
  have k: "kernel_max_cpus t1 = kernel_max_cpus t"
    using 1(3) by (simp add: attached_def)
  have le: "5 * length (device_dirs dir ts) \<le> m1"
    and rd: "\<forall>d \<in> set (device_dirs dir ts). readable f (kernel_max_cpus t1) d"
    using "4.prems" 1(2) k by simp_all
  obtain ret2 t2 m2 where 2: "read_entries f dir ts t1 m1 = Some (ret2, t2, m2)"
      "m1 - 5 * length (device_dirs dir ts) \<le> m2" "attached f (device_dirs dir ts) t1 t2"
    using "4.IH"(2) [OF 1(1) refl refl] le rd by blast
  show ?case
    using 1 2 attached_trans [OF 1(3) 2(3)] by auto
next
  case (5 f dir n ts t m)
  show ?case
  proof (cases "n = ''numa_node''")
    case True
    then have "5 \<le> m" "readable f (kernel_max_cpus t) dir"
      using "5.prems" by auto
    then obtain ret1 t1 m1 where 1: "topo_parse_io_device f t (getcwd dir) m = Some (ret1, t1, m1)"
        "m - 5 \<le> m1" "attached f [dir] t t1"
      using io_device_attached by blast
    have k: "kernel_max_cpus t1 = kernel_max_cpus t" and le: "5 * length (device_dirs dir ts) \<le> m1"
      using 1(2,3) "5.prems"(1) True by (simp_all add: attached_def)
    obtain ret2 t2 m2 where 2: "read_entries f dir ts t1 m1 = Some (ret2, t2, m2)"
        "m1 - 5 * length (device_dirs dir ts) \<le> m2" "attached f (device_dirs dir ts) t1 t2"
      using "5.IH" [of "(ret1, t1, m1)" ret1 "(t1, m1)" t1 m1] le "5.prems" 1 k True by auto
    show ?thesis
      using True 1 2 attached_trans [OF 1(3) 2(3)] by auto
  next
    case False
    then show ?thesis
      using "5.IH" [of "(0, t, m)" 0 "(t, m)" t m] "5.prems" by auto
  qed
qed (auto simp: attached_refl)

section \<open>Properties\<close>

text \<open>C17. Discovery is complete and exact: the walk ends, and to each node it adds, in the order of the walk and
  each once, the PCI devices and SMMUs whose \<^verbatim>\<open>numa_node\<close> names that node, and nothing else. It needs at most five
  allocations per device.\<close>

theorem devices_attached:
  assumes "5 * length (device_dirs dir ts) \<le> m" "\<forall>d \<in> set (device_dirs dir ts). readable f (kernel_max_cpus t) d"
  shows "\<exists>ret t'. topo_recursively_read_io_devices f dir (Inr ts) m t = Some (ret, t')
    \<and> length (nodes t') = length (nodes t)
    \<and> (\<forall>i < length (nodes t).
          map pci_names (pcidevs (nodes t' ! i)) = map pci_names (pcidevs (nodes t ! i))
            @ map pci_label (filter (\<lambda>d. is_pci f d \<and> snd (device_node f t d) = Some i) (device_dirs dir ts))
        \<and> map smmu_name (smmus (nodes t' ! i)) = map smmu_name (smmus (nodes t ! i))
            @ map smmu_label (filter (\<lambda>d. is_smmu f d \<and> snd (device_node f t d) = Some i) (device_dirs dir ts)))"
proof -
  obtain ret t' m' where r: "read_entries f dir ts t m = Some (ret, t', m')" "attached f (device_dirs dir ts) t t'"
    using read_entries_attached [OF assms] by blast
  moreover have "length (nodes t') = length (nodes t)"
    using r(2) map_eq_imp_length_eq by (auto simp: attached_def)
  ultimately show ?thesis
    by (auto simp: topo_recursively_read_io_devices_def attached_def)
qed

text \<open>The list of devices of a node: after the discovery on a topology without devices,
  \<^verbatim>\<open>wayca_sc_get_device_list\<close> returns the names of the node's SMMUs and then the slots of its PCI devices, in
  the order of the walk, and their number.\<close>

theorem device_list_complete:
  assumes "5 * length (device_dirs dir ts) \<le> m" "\<forall>d \<in> set (device_dirs dir ts). readable f (kernel_max_cpus (tt s)) d"
    and "\<forall>n \<in> set (nodes (tt s)). pcidevs n = [] \<and> smmus n = []" "i < length (nodes (tt s))"
  shows "\<exists>ret t' names. topo_recursively_read_io_devices f dir (Inr ts) m (tt s) = Some (ret, t')
    \<and> wayca_sc_get_device_list (s\<lparr>te := (te s)\<lparr>topo := t'\<rparr>\<rparr>) (int i) True True
        = (0, Some (length names, Some names))
    \<and> names = map smmu_label (filter (\<lambda>d. is_smmu f d \<and> snd (device_node f (tt s) d) = Some i) (device_dirs dir ts))
        @ map (\<lambda>d. take 23 (last_part d))
            (filter (\<lambda>d. is_pci f d \<and> snd (device_node f (tt s) d) = Some i) (device_dirs dir ts))"
proof -
  obtain ret t' m' where r: "read_entries f dir ts (tt s) m = Some (ret, t', m')"
      "attached f (device_dirs dir ts) (tt s) t'"
    using read_entries_attached [OF assms(1,2)] by blast
  have l: "length (nodes t') = length (nodes (tt s))"
    using r(2) map_eq_imp_length_eq by (auto simp: attached_def)
  have z: "pcidevs (nodes (tt s) ! i) = []" "smmus (nodes (tt s) ! i) = []"
    using assms(3,4) by auto
  have p: "map pci_names (pcidevs (nodes t' ! i))
      = map pci_label (filter (\<lambda>d. is_pci f d \<and> snd (device_node f (tt s) d) = Some i) (device_dirs dir ts))"
    and q: "map smmu_name (smmus (nodes t' ! i))
      = map smmu_label (filter (\<lambda>d. is_smmu f d \<and> snd (device_node f (tt s) d) = Some i) (device_dirs dir ts))"
    using r(2) assms(4) z by (simp_all add: attached_def)
  have "map slot_name (pcidevs (nodes t' ! i)) = map (\<lambda>d. take 23 (last_part d))
      (filter (\<lambda>d. is_pci f d \<and> snd (device_node f (tt s) d) = Some i) (device_dirs dir ts))"
    using arg_cong [OF p, of "map snd"] by (simp add: pci_names_def pci_label_def comp_def)
  then show ?thesis
    using r(1) l q assms(4) map_eq_imp_length_eq [OF q] map_eq_imp_length_eq [OF p]
    by (cases "nodes t'") (simp_all add: topo_recursively_read_io_devices_def wayca_sc_get_device_list_def
        node_range_def wayca_sc_nodes_in_total_def)
qed

text \<open>The legacy interrupt of a device is lost: whatever number the file \<^verbatim>\<open>irq\<close> holds, a device without message
  signalled interrupts is recorded with the single interrupt 0.\<close>

theorem legacy_irq_lost:
  assumes "d_entries f dir = Inr es" "(''irq'', K_reg) \<in> set es" "\<forall>(n, k) \<in> set es. n \<noteq> ''msi_irqs'' \<and> k \<noteq> K_gone"
  shows "topo_parse_device_irqs f dir (Suc m) = Some (0, [0], m)"
proof -
  have "find_irq_entries es False irq 0 = (False, irq \<or> (\<exists>(n, k) \<in> set es. n = ''irq'' \<and> k \<noteq> K_dir), 0)"
    if "\<forall>(n, k) \<in> set es. n \<noteq> ''msi_irqs'' \<and> k \<noteq> K_gone" for es irq
    using that by (induction es arbitrary: irq) auto
  then have "find_irq_entries es False False 0 = (False, True, 0)"
    using assms(2,3) by force
  then show ?thesis
    using assms(1) by (simp add: topo_parse_device_irqs_def topo_parse_irq_def Let_def)
qed

section \<open>Witnesses\<close>

text \<open>A machine with two nodes, a PCI device on node 1 and an SMMU on node 0.\<close>

definition sample_tree :: "dtree list" where
  "sample_tree =
     [Dir ''pci0000:00'' [Dir ''0000:05:00.0'' [NonDir ''irq'', NonDir ''numa_node''], Closed ''x'' 13],
      Dir ''platform'' [NonDir ''uevent'', Dir ''arm-smmu-v3.3.auto'' [NonDir ''numa_node'']]]"

definition sample_devfs :: devfs where
  "sample_devfs =
     (let pci = ''/sys/devices/pci0000:00/0000:05:00.0'' in
      \<lparr>d_sys = \<lparr>sf_file = (\<lambda>d n. if d = pci then
                 (if n = ''numa_node'' then Inr ''1'' else if n = ''local_cpulist'' then Inr ''0-3''
                  else if n = ''irq'' then Inr ''42'' else Inl 2)
               else if n = ''local_cpulist'' then Inr ''0'' else Inl 2),
               dirents = (\<lambda>_. Inl 2), subdirs = (\<lambda>_. Inl 2), path_exists = (\<lambda>_. False), stale_errno = 0\<rparr>,
       d_entries = (\<lambda>d. if d = pci then Inr [(''irq'', K_reg), (''numa_node'', K_reg)] else Inl 2),
       d_readlink = (\<lambda>d. if d = pci @ ''/subsystem'' then Inr ''../../../bus/pci'' else Inl 2)\<rparr>)"

definition two_nodes :: wayca_topo where
  "two_nodes = zero_topo\<lparr>kernel_max_cpus := 4, setsize := 8, n_cpus := 4, cpu_map := [15], online_cpu_map := [15],
     nodes := [zero_node, zero_node\<lparr>node_idx := 1\<rparr>]\<rparr>"

lemma sample_dirs:
  "device_dirs ''/sys/devices'' sample_tree
     = [''/sys/devices/pci0000:00/0000:05:00.0'', ''/sys/devices/platform/arm-smmu-v3.3.auto'']"
  "readable sample_devfs 4 d"
proof -
  have p: "print_list [(0, 3)] = ''0-3''" "print_list [(0, 0)] = ''0''"
    by code_simp+
  have "\<exists>cs. cpulist_parse (print_list [(0, b)]) sz False = Some (0, cs)" if "b < 2 ^ 32 - 1" for b sz
    using cpulist_parse_print [of "[(0, b)]" sz] that by auto
  from this [of 3 "unat (CPU_ALLOC_SIZE 4)"] this [of 0 "unat (CPU_ALLOC_SIZE 4)"] show "readable sample_devfs 4 d"
    unfolding p by (auto simp: readable_def topo_path_read_cpulist_def sample_devfs_def fgets_def Let_def
        split: option.splits)
  show "device_dirs ''/sys/devices'' sample_tree
     = [''/sys/devices/pci0000:00/0000:05:00.0'', ''/sys/devices/platform/arm-smmu-v3.3.auto'']"
    by (simp add: sample_tree_def)
qed

lemma sample_kinds:
  "strstr ''/sys/devices/pci0000:00/0000:05:00.0'' ''pci'' \<noteq> None"
  "strstr ''../../../bus/pci'' ''bus/pci'' \<noteq> None"
  "strstr ''/sys/devices/platform/arm-smmu-v3.3.auto'' ''pci'' = None"
  "strstr ''/sys/devices/platform/arm-smmu-v3.3.auto'' ''smmu'' \<noteq> None"
  "smmu_label ''/sys/devices/platform/arm-smmu-v3.3.auto'' = ''arm-smmu-v3.3.auto''"
  "snd (device_node sample_devfs two_nodes ''/sys/devices/pci0000:00/0000:05:00.0'') = Some 1"
  "snd (device_node sample_devfs two_nodes ''/sys/devices/platform/arm-smmu-v3.3.auto'') = Some 0"
  by code_simp+

lemma sample_owners:
  "is_pci sample_devfs ''/sys/devices/pci0000:00/0000:05:00.0''"
  "\<not> is_smmu sample_devfs ''/sys/devices/pci0000:00/0000:05:00.0''"
  "\<not> is_pci sample_devfs ''/sys/devices/platform/arm-smmu-v3.3.auto''"
  "is_smmu sample_devfs ''/sys/devices/platform/arm-smmu-v3.3.auto''"
  using sample_kinds(1-4) by (simp_all add: is_pci_def is_smmu_def is_pci_device_dir_def sample_devfs_def Let_def)

lemmas sample_device_simps = sample_dirs(2) sample_owners sample_kinds(5-7) filter.simps list.map append.simps
  simp_thms if_True if_False option.inject One_nat_def zero_neq_one one_neq_zero

theorem devices_attached_witness:
  "\<exists>ret t'. topo_recursively_read_io_devices sample_devfs ''/sys/devices'' (Inr sample_tree) 10 two_nodes = Some (ret, t')
    \<and> map pci_names (pcidevs (nodes t' ! 1)) = [pci_label ''/sys/devices/pci0000:00/0000:05:00.0'']
    \<and> map smmu_name (smmus (nodes t' ! 0)) = [''arm-smmu-v3.3.auto'']"
proof -
  have n: "length (nodes two_nodes) = 2" "kernel_max_cpus two_nodes = 4"
    "pcidevs (nodes two_nodes ! 1) = []" "smmus (nodes two_nodes ! 0) = []"
    by (simp_all add: two_nodes_def zero_node_def)
  have h: "5 * length (device_dirs ''/sys/devices'' sample_tree) \<le> 10"
    "\<forall>d \<in> set (device_dirs ''/sys/devices'' sample_tree). readable sample_devfs (kernel_max_cpus two_nodes) d"
    unfolding sample_dirs(1) n by (simp_all add: sample_dirs(2))
  obtain ret t' where r: "topo_recursively_read_io_devices sample_devfs ''/sys/devices'' (Inr sample_tree) 10 two_nodes
      = Some (ret, t')"
    and a: "\<forall>i < 2. map pci_names (pcidevs (nodes t' ! i)) = map pci_names (pcidevs (nodes two_nodes ! i))
            @ map pci_label (filter (\<lambda>d. is_pci sample_devfs d \<and> snd (device_node sample_devfs two_nodes d) = Some i)
                (device_dirs ''/sys/devices'' sample_tree))
        \<and> map smmu_name (smmus (nodes t' ! i)) = map smmu_name (smmus (nodes two_nodes ! i))
            @ map smmu_label (filter (\<lambda>d. is_smmu sample_devfs d \<and> snd (device_node sample_devfs two_nodes d) = Some i)
                (device_dirs ''/sys/devices'' sample_tree))"
    using devices_attached [OF h] unfolding n by blast
  show ?thesis
    using r a [rule_format, of 1] a [rule_format, of 0] n(3,4) unfolding sample_dirs(1)
    by (simp only: sample_device_simps) simp
qed

theorem device_list_complete_witness:
  "\<exists>ret t'. topo_recursively_read_io_devices sample_devfs ''/sys/devices'' (Inr sample_tree) 10 two_nodes = Some (ret, t')
    \<and> wayca_sc_get_device_list \<lparr>te = \<lparr>topo = t', max_cores = 0, max_ccls = 0\<rparr>, te_irqs = None, te_max = 1\<rparr> 0 True True
        = (0, Some (1, Some [''arm-smmu-v3.3.auto'']))"
proof -
  let ?s = "\<lparr>te = \<lparr>topo = two_nodes, max_cores = 0, max_ccls = 0\<rparr>, te_irqs = None, te_max = 1\<rparr>"
  have n: "0 < length (nodes (tt ?s))" "kernel_max_cpus (tt ?s) = 4"
    "\<forall>n \<in> set (nodes (tt ?s)). pcidevs n = [] \<and> smmus n = []"
    by (simp_all add: two_nodes_def zero_node_def)
  have h: "5 * length (device_dirs ''/sys/devices'' sample_tree) \<le> 10"
    "\<forall>d \<in> set (device_dirs ''/sys/devices'' sample_tree). readable sample_devfs (kernel_max_cpus (tt ?s)) d"
    unfolding sample_dirs(1) n by (simp_all add: sample_dirs(2))
  show ?thesis
    using device_list_complete [OF h n(3,1)] unfolding sample_dirs(1)
    by (simp only: sample_device_simps topo_env.simps topo_state.simps) auto
qed

theorem legacy_irq_lost_witness:
  "topo_parse_device_irqs sample_devfs ''/sys/devices/pci0000:00/0000:05:00.0'' 1 = Some (0, [0], 0)
    \<and> read_or_minus1 (d_sys sample_devfs) ''/sys/devices/pci0000:00/0000:05:00.0'' ''irq'' = 42"
proof
  show "topo_parse_device_irqs sample_devfs ''/sys/devices/pci0000:00/0000:05:00.0'' 1 = Some (0, [0], 0)"
    unfolding One_nat_def
    by (rule legacy_irq_lost [of _ _ "[(''irq'', K_reg), (''numa_node'', K_reg)]"]) (simp_all add: sample_devfs_def Let_def)
  show "read_or_minus1 (d_sys sample_devfs) ''/sys/devices/pci0000:00/0000:05:00.0'' ''irq'' = 42"
    by code_simp
qed

end
