(* ===== verification/Bind.thy ===== *)
theory Bind
  imports TopoQuery Threadpool ThreadsInv
begin

text \<open>
  Binding threads and processes to parts of the machine and the initialisation of the thread library:
  \<^verbatim>\<open>lib/threads.c\<close> up to \<^verbatim>\<open>wayca_thread_exit\<close>. The kernel is a record of the results of its
  system calls and of the calls made: the affinities set, in order.
\<close>

section \<open>Lists of CPUs\<close>

text \<open>\<^verbatim>\<open>for (int i = start; i <= end; i += stride) CPU_SET_S(i, cpusetsize, mask);\<close>: \<open>i\<close> is an
  \<^verbatim>\<open>int\<close> that is compared and added as \<^verbatim>\<open>unsigned long\<close>. A stride of 0 never ends.\<close>

partial_function (option) set_stride :: "int \<Rightarrow> ulong \<Rightarrow> ulong \<Rightarrow> cpu_set_t \<Rightarrow> cpu_set_t option" where
  "set_stride i fin stride cmask =
     (if word_of_int i \<le> fin
      then set_stride (to_int (uint (word_of_int i + stride))) fin stride (CPU_SET i cmask)
      else Some cmask)"

declare set_stride.simps [code]

text \<open>One element of the list: start, end, stride, the rest of the string and \<^verbatim>\<open>errno\<close>.\<close>

definition or_errno :: "int \<Rightarrow> int \<Rightarrow> int" where
  "or_errno old new = (if new \<noteq> 0 then new else old)"

definition scan_element :: "string \<Rightarrow> ulong \<times> ulong \<times> ulong \<times> string \<times> int" where
  "scan_element s =
     (let (start, s, err) = strtoul s in
      case s of
        c # r \<Rightarrow>
          if c = CHR ''-'' then
            let (fin, s, err') = strtoul r; err = or_errno err err' in
            case s of
              c # r \<Rightarrow>
                if c = CHR '':'' then
                  let (stride, s, err') = strtoul r in (start, fin, stride, s, or_errno err err')
                else (start, fin, 1, s, err)
            | [] \<Rightarrow> (start, fin, 1, s, err)
          else (start, start, 1, s, err)
      | [] \<Rightarrow> (start, start, 1, s, err))"

partial_function (option) list_to_mask_loop :: "int \<Rightarrow> string \<Rightarrow> cpu_set_t \<Rightarrow> (int \<times> cpu_set_t) option" where
  "list_to_mask_loop cr_in_total s cmask =
     (case scan_element s of (start, fin, stride, s, errno) \<Rightarrow>
        if (s \<noteq> [] \<and> hd s \<noteq> CHR '','') \<or> word_of_int (cr_in_total sdiv 2) \<le> stride
           \<or> errno \<noteq> 0 \<or> word_of_int cr_in_total \<le> fin
        then Some (- errno, cmask)
        else do {
          cmask \<leftarrow> set_stride (to_int (uint start)) fin stride cmask;
          if s = [] then Some (0, cmask) else list_to_mask_loop cr_in_total (tl s) cmask
        })"

declare list_to_mask_loop.simps [code]

definition list_to_mask :: "topo_state \<Rightarrow> string \<Rightarrow> nat \<Rightarrow> (int \<times> cpu_set_t) option" where
  "list_to_mask ts s cpusetsize =
     list_to_mask_loop (wayca_sc_cpus_in_total ts) s (replicate (cpusetsize div 8) 0)"

section \<open>Binding\<close>

record kernel =
  k_setaff :: "int \<Rightarrow> cpu_set_t \<Rightarrow> int"
  k_tasks :: "int \<Rightarrow> int + string list"
  k_aff :: "(int \<times> cpu_set_t) list"

text \<open>The result of the system call, a negative error number when it fails.\<close>

definition thread_sched_setaffinity :: "kernel \<Rightarrow> int \<Rightarrow> cpu_set_t \<Rightarrow> int \<times> kernel" where
  "thread_sched_setaffinity k pid cmask = (k_setaff k pid cmask, k\<lparr>k_aff := k_aff k @ [(pid, cmask)]\<rparr>)"

text \<open>The entries of \<^verbatim>\<open>/proc/<pid>/task\<close> in directory order, up to the first failure.\<close>

fun set_all :: "kernel \<Rightarrow> cpu_set_t \<Rightarrow> int \<Rightarrow> string list \<Rightarrow> int \<times> kernel" where
  "set_all k cmask ret [] = (ret, k)"
| "set_all k cmask ret (d # ds) =
     (if d = ''.'' \<or> d = ''..'' then set_all k cmask ret ds
      else let (ret, k) = thread_sched_setaffinity k (to_int (uint (fst (strtoul d)))) cmask in
        if ret < 0 then (ret, k) else set_all k cmask ret ds)"

definition process_sched_setaffinity :: "kernel \<Rightarrow> int \<Rightarrow> cpu_set_t \<Rightarrow> int \<times> kernel" where
  "process_sched_setaffinity k pid cmask = (case k_tasks k pid of
       Inl e \<Rightarrow> (- e, k)
     | Inr ds \<Rightarrow> set_all k cmask (- ENOENT) ds)"

definition thread_bind_cpu :: "kernel \<Rightarrow> int \<Rightarrow> int \<Rightarrow> int \<times> kernel" where
  "thread_bind_cpu k pid cpu = thread_sched_setaffinity k pid (CPU_SET cpu CPU_ZERO)"

definition process_bind_cpu :: "kernel \<Rightarrow> int \<Rightarrow> int \<Rightarrow> int \<times> kernel" where
  "process_bind_cpu k pid cpu = process_sched_setaffinity k pid (CPU_SET cpu CPU_ZERO)"

text \<open>\<^verbatim>\<open>ret = <query>(.., sizeof(cpu_set_t), &mask); if (ret < 0) return ret; return <set>(pid, &mask);\<close>\<close>

definition bind_query :: "(kernel \<Rightarrow> int \<Rightarrow> cpu_set_t \<Rightarrow> int \<times> kernel) \<Rightarrow> kernel \<Rightarrow> int
    \<Rightarrow> (int \<times> cpu_set_t option \<times> topo_env) option \<Rightarrow> (int \<times> topo_env \<times> kernel) option" where
  "bind_query setaff k pid query = do {
     (ret, cmask, s) \<leftarrow> query;
     if ret < 0 then Some (ret, s, k)
     else do {
       cmask \<leftarrow> cmask;
       let (ret, k) = setaff k pid cmask;
       Some (ret, s, k)
     }
   }"

definition thread_bind_ccl where
  "thread_bind_ccl e s k pid ccl =
     bind_query thread_sched_setaffinity k pid (wayca_sc_ccl_cpu_mask e s ccl 128 True)"

definition thread_bind_node where
  "thread_bind_node e s k pid node =
     bind_query thread_sched_setaffinity k pid (wayca_sc_node_cpu_mask e s node 128 True)"

definition thread_bind_package where
  "thread_bind_package e s k pid package =
     bind_query thread_sched_setaffinity k pid (wayca_sc_package_cpu_mask e s package 128 True)"

definition thread_unbind where
  "thread_unbind e s k pid =
     bind_query thread_sched_setaffinity k pid (wayca_sc_total_cpu_mask e s 128 True)"

definition process_bind_ccl where
  "process_bind_ccl e s k pid ccl =
     bind_query process_sched_setaffinity k pid (wayca_sc_ccl_cpu_mask e s ccl 128 True)"

definition process_bind_node where
  "process_bind_node e s k pid node =
     bind_query process_sched_setaffinity k pid (wayca_sc_node_cpu_mask e s node 128 True)"

definition process_bind_package where
  "process_bind_package e s k pid package =
     bind_query process_sched_setaffinity k pid (wayca_sc_package_cpu_mask e s package 128 True)"

definition process_unbind where
  "process_unbind e s k pid =
     bind_query process_sched_setaffinity k pid (wayca_sc_total_cpu_mask e s 128 True)"

definition thread_bind_cpulist :: "topo_state \<Rightarrow> kernel \<Rightarrow> int \<Rightarrow> string \<Rightarrow> (int \<times> kernel) option" where
  "thread_bind_cpulist ts k pid s = do {
     (ret, cmask) \<leftarrow> list_to_mask ts s 128;
     if ret \<noteq> 0 then Some (- EINVAL, k) else Some (thread_sched_setaffinity k pid cmask)
   }"

text \<open>Only the thread \<open>pid\<close> is bound.\<close>

definition process_bind_cpulist :: "topo_state \<Rightarrow> kernel \<Rightarrow> int \<Rightarrow> string \<Rightarrow> (int \<times> kernel) option" where
  "process_bind_cpulist ts k pid s = do {
     (ret, cmask) \<leftarrow> list_to_mask ts s 128;
     if ret \<noteq> 0 then Some (- EINVAL, k) else Some (thread_sched_setaffinity k pid cmask)
   }"

definition process_bind_cpumask :: "kernel \<Rightarrow> int \<Rightarrow> cpu_set_t \<Rightarrow> int \<times> kernel" where
  "process_bind_cpumask k pid cmask = process_sched_setaffinity k pid cmask"

definition thread_bind_cpumask :: "kernel \<Rightarrow> int \<Rightarrow> cpu_set_t \<Rightarrow> int \<times> kernel" where
  "thread_bind_cpumask k pid cmask = thread_sched_setaffinity k pid cmask"

section \<open>Initialisation\<close>

definition is_env_invalid :: "ulong \<Rightarrow> bool" where
  "is_env_invalid num \<longleftrightarrow> num = 0 \<or> (- 1) div 8 \<le> num"

definition wayca_thread_init_from_envs :: "ulong \<Rightarrow> string option \<Rightarrow> ulong" where
  "wayca_thread_init_from_envs dflt p = (case p of
       None \<Rightarrow> dflt
     | Some p \<Rightarrow> let (num, _, err) = strtoul p in if err \<noteq> 0 \<or> is_env_invalid num then dflt else num)"

text \<open>The static data before the constructors run: no arrays, no objects.\<close>

definition library :: "topo_state \<Rightarrow> pools" where
  "library ts = \<lparr>sc = \<lparr>theap = (\<lambda>_. None), gheap = (\<lambda>_. None), threads_array = [], groups_array = [],
       cpu_loads = [], total_cpu_set = CPU_ZERO, tstate = ts, affinity = []\<rparr>,
     pheap = (\<lambda>_. None), kheap = (\<lambda>_. None), pools_array = []\<rparr>"

text \<open>\<open>env\<close> is the environment, \<open>m1\<close> to \<open>m4\<close> say which of the four \<^verbatim>\<open>malloc\<close> calls succeed. An array
  whose size variable is 0 is the empty list.\<close>

definition wayca_thread_init ::
    "topo_state \<Rightarrow> (string \<Rightarrow> string option) \<Rightarrow> bool \<Rightarrow> bool \<Rightarrow> bool \<Rightarrow> bool \<Rightarrow> pools" where
  "wayca_thread_init ts env m1 m2 m3 m4 =
     (let w = library ts; total_cpu_cnt = wayca_sc_cpus_in_total ts in
      if total_cpu_cnt < 0 then w
      else let w = w\<lparr>sc := (sc w)\<lparr>total_cpu_set := fold CPU_SET [0..total_cpu_cnt - 1] CPU_ZERO\<rparr>\<rparr> in
        if \<not> m1 then w
        else let w = w\<lparr>sc := (sc w)\<lparr>cpu_loads := replicate (nat total_cpu_cnt) 0\<rparr>\<rparr>;
                 num = wayca_thread_init_from_envs 32760 (env ''WAYCA_SC_THREADS_NUMBER'') in
          if \<not> m2 then w
          else let w = w\<lparr>sc := (sc w)\<lparr>threads_array := replicate (unat num) None\<rparr>\<rparr>;
                   num = wayca_thread_init_from_envs 256 (env ''WAYCA_SC_GROUPS_NUMBER'') in
            if \<not> m3 then w\<lparr>sc := (sc w)\<lparr>threads_array := []\<rparr>\<rparr>
            else let w = w\<lparr>sc := (sc w)\<lparr>groups_array := replicate (unat num) None\<rparr>\<rparr>;
                     num = wayca_thread_init_from_envs 256 (env ''WAYCA_SC_THREADPOOLS_NUMBER'') in
              if \<not> m4 then w
              else w\<lparr>pools_array := replicate (unat num) None\<rparr>)"

text \<open>The arrays are freed, not the objects they point to.\<close>

definition wayca_thread_exit :: "pools \<Rightarrow> pools" where
  "wayca_thread_exit w = w\<lparr>sc := (sc w)\<lparr>cpu_loads := [], threads_array := [], groups_array := []\<rparr>,
     pools_array := []\<rparr>"

section \<open>Lists that are read back\<close>

text \<open>Ranges with a stride, in the format of \<^verbatim>\<open>taskset\<close>.\<close>

definition strided :: "nat \<times> nat \<times> nat \<Rightarrow> nat set" where
  "strided = (\<lambda>(a, b, s). {c. a \<le> c \<and> c \<le> b \<and> s dvd c - a})"

definition print_strided :: "nat \<times> nat \<times> nat \<Rightarrow> string" where
  "print_strided = (\<lambda>(a, b, s). decimal a @ (if a = b \<and> s = 1 then []
     else CHR ''-'' # decimal b @ (if s = 1 then [] else CHR '':'' # decimal s)))"

fun print_strides :: "(nat \<times> nat \<times> nat) list \<Rightarrow> string" where
  "print_strides [] = []"
| "print_strides [x] = print_strided x"
| "print_strides (x # y # xs) = print_strided x @ CHR '','' # print_strides (y # xs)"

lemma print_strides_split:
  "print_strides (x # rs) = print_strided x @ (if rs = [] then [] else CHR '','' # print_strides rs)"
  by (cases rs) auto

lemma strtoul_decimal: "stops r \<Longrightarrow> n < 2 ^ 64 \<Longrightarrow> strtoul (decimal n @ r) = (of_nat n, r, 0)"
  by (simp add: strtoul_def scan_number_decimal)

lemma strtoul_decimal_end: "n < 2 ^ 64 \<Longrightarrow> strtoul (decimal n) = (of_nat n, [], 0)"
  using strtoul_decimal [of "[]" n] by (simp add: stops_def)

lemma stops_simps [simp]: "stops []" "stops (CHR ''-'' # r)" "stops (CHR '':'' # r)" "stops (CHR '','' # r)"
  by (simp_all add: stops_def isdigit_def)

lemma scan_element_strided:
  assumes "a < 2 ^ 64" "b < 2 ^ 64" "s < 2 ^ 64" "r = [] \<or> hd r = CHR '',''"
  shows "scan_element (print_strided (a, b, s) @ r) = (of_nat a, of_nat b, of_nat s, r, 0)"
proof -
  have "stops r"
    using assms(4) by (cases r) auto
  then show ?thesis
    using assms
    by (cases r) (auto simp: scan_element_def print_strided_def strtoul_decimal strtoul_decimal_end or_errno_def)
qed

lemma to_int_small: "a < 2 ^ 31 \<Longrightarrow> to_int (uint (of_nat a :: ulong)) = int a"
  by (simp add: to_int_def uint_nat unat_of_nat sint_uint unsigned_of_int signed_take_bit_int_eq_self)

lemma strided_step:
  assumes "0 < s" "a \<le> b"
  shows "strided (a, b, s) = insert a (strided (a + s, b, s))"
proof -
  have "s dvd c - a \<longleftrightarrow> c = a \<or> a + s \<le> c \<and> s dvd c - (a + s)" if "a \<le> c" for c
  proof
    assume "s dvd c - a"
    then obtain k where k: "c - a = s * k" by blast
    show "c = a \<or> a + s \<le> c \<and> s dvd c - (a + s)"
    proof (cases k)
      case (Suc m)
      then have "c = a + s + s * m" using k that by simp
      then show ?thesis by simp
    qed (use k that in simp)
  next
    assume "c = a \<or> a + s \<le> c \<and> s dvd c - (a + s)"
    then show "s dvd c - a"
      using that by (auto simp: dvd_diff_nat elim!: dvdE) (metis add.assoc add_diff_cancel_left' dvd_add dvd_refl dvd_triv_left le_Suc_ex)
  qed
  then show ?thesis
    using assms by (auto simp: strided_def)
qed

lemma set_stride_sets:
  assumes "0 < s" "b + s < 2 ^ 31" "a < 2 ^ 31"
  shows "\<exists>m'. set_stride (int a) (of_nat b) (of_nat s) m = Some m' \<and> length m' = length m
    \<and> cpus m' = cpus m \<union> (strided (a, b, s) \<inter> {..<64 * length m})"
  using assms
proof (induction "b + 1 - a" arbitrary: a m rule: less_induct)
  case less
  have le: "(word_of_int (int a) :: ulong) \<le> of_nat b \<longleftrightarrow> a \<le> b"
    using less.prems by (simp add: word_le_nat_alt unat_of_nat)
  show ?case
  proof (cases "a \<le> b")
    case False
    then have "strided (a, b, s) = {}"
      by (auto simp: strided_def)
    then show ?thesis
      using False le by (subst set_stride.simps) simp
  next
    case True
    have nx: "to_int (uint (word_of_int (int a) + of_nat s :: ulong)) = int (a + s)"
      using to_int_small [of "a + s"] True less.prems by simp
    have "b + 1 - (a + s) < b + 1 - a" "a + s < 2 ^ 31"
      using True less.prems by simp_all
    from less.hyps [OF this(1) less.prems(1,2) this(2), of "CPU_SET (int a) m"] obtain m' where
      "set_stride (int (a + s)) (of_nat b) (of_nat s) (CPU_SET (int a) m) = Some m'" "length m' = length m"
      "cpus m' = cpus (CPU_SET (int a) m) \<union> (strided (a + s, b, s) \<inter> {..<64 * length m})"
      by auto
    then show ?thesis
      using le True nx strided_step [OF less.prems(1) True]
      by (subst set_stride.simps) (auto simp: cpus_CPU_SET_gen)
  qed
qed

lemma set_stride_zero:
  assumes "a \<le> b" "b < 2 ^ 31"
  shows "set_stride (int a) (of_nat b) 0 m = None"
proof (rule ccontr)
  assume "set_stride (int a) (of_nat b) 0 m \<noteq> None"
  then obtain y where "set_stride (int a) (of_nat b) 0 m = Some y" by auto
  then have "int a = int a \<longrightarrow> (of_nat b :: ulong) = of_nat b \<longrightarrow> (0 :: ulong) = 0 \<longrightarrow> False"
  proof (rule set_stride.raw_induct [where P = "\<lambda>i l s m y. i = int a \<longrightarrow> l = of_nat b \<longrightarrow> s = 0 \<longrightarrow> False", rotated],
      goal_cases)
    case (1 loop i l s m y)
    show ?case
    proof (intro impI)
      assume e: "i = int a" "l = of_nat b" "s = 0"
      have "(word_of_int i :: ulong) \<le> l"
        using e assms by (simp add: word_le_nat_alt unat_of_nat)
      moreover have "to_int (uint (word_of_int i + s :: ulong)) = i"
        using to_int_small [of a] assms e by simp
      ultimately have "loop i l s (CPU_SET i m) = Some y"
        using 1(2) by simp
      from 1(1) [OF this] e show False by blast
    qed
  qed
  then show False by simp
qed

lemma half_word: "(word_of_int (int n sdiv 2) :: ulong) = of_nat (n div 2)"
proof -
  have "int n sdiv 2 = int (n div 2)"
    by (cases "n = 0") (simp_all add: signed_divide_int_def zdiv_int)
  then show ?thesis
    by (simp only: of_int_of_nat_eq)
qed

text \<open>An element of a list that is accepted on a machine with \<open>n\<close> CPUs: it ends before CPU \<open>n\<close> and its stride is below half the
  number of CPUs.\<close>

definition accepted :: "nat \<Rightarrow> nat \<times> nat \<times> nat \<Rightarrow> bool" where
  "accepted n = (\<lambda>(a, b, s). b < n \<and> s < n div 2)"

definition range_ok :: "nat \<times> nat \<times> nat \<Rightarrow> bool" where
  "range_ok = (\<lambda>(a, b, s). a \<le> b \<and> b < 2 ^ 64 \<and> 0 < s \<and> s < 2 ^ 64)"

lemma refused_words:
  assumes "n \<le> 2 ^ 30" "b < 2 ^ 64" "s < 2 ^ 64"
  shows "(word_of_int (int n sdiv 2) :: ulong) \<le> of_nat s \<or> (word_of_int (int n) :: ulong) \<le> of_nat b \<longleftrightarrow> \<not> accepted n (a, b, s)"
  using assms by (auto simp: accepted_def half_word word_le_nat_alt unat_of_nat)

lemma list_to_mask_loop_list:
  assumes "n \<le> 2 ^ 30" "rs \<noteq> []" "\<forall>x \<in> set rs. range_ok x"
  shows "\<exists>m'. list_to_mask_loop (int n) (print_strides rs) m = Some (0, m') \<and> length m' = length m
    \<and> cpus m' = cpus m \<union> ((\<Union>x \<in> set (takeWhile (accepted n) rs). strided x) \<inter> {..<64 * length m})"
  using assms(2,3)
proof (induction rs arbitrary: m)
  case (Cons x rs)
  obtain a b s where x: "x = (a, b, s)" by (cases x) auto
  have ab: "a \<le> b" "b < 2 ^ 64" "0 < s" "s < 2 ^ 64"
    using Cons.prems(2) x by (auto simp: range_ok_def)
  let ?r = "if rs = [] then [] else CHR '','' # print_strides rs"
  have el: "scan_element (print_strides (x # rs)) = (of_nat a, of_nat b, of_nat s, ?r, 0)"
    unfolding print_strides_split x using ab by (intro scan_element_strided) auto
  note refused = refused_words [OF assms(1) ab(2,4), of a]
  show ?case
  proof (cases "accepted n x")
    case False
    then show ?thesis
      using el refused x by (subst list_to_mask_loop.simps) auto
  next
    case True
    then have n: "b < n" "s < n div 2" using x by (simp_all add: accepted_def)
    have i: "to_int (uint (of_nat a :: ulong)) = int a"
      using ab n assms(1) by (intro to_int_small) simp
    have "b + s < 2 ^ 31" "a < 2 ^ 31"
      using ab n assms(1) by simp_all
    then obtain m1 where m1: "set_stride (int a) (of_nat b) (of_nat s) m = Some m1" "length m1 = length m"
        "cpus m1 = cpus m \<union> (strided (a, b, s) \<inter> {..<64 * length m})"
      using set_stride_sets [OF ab(3), of b a m] by blast
    show ?thesis
    proof (cases "rs = []")
      case True
      then show ?thesis
        using el i refused \<open>accepted n x\<close> m1 x by (subst list_to_mask_loop.simps) auto
    next
      case False
      from Cons.IH [OF False, of m1] Cons.prems(2) obtain m2 where
        "list_to_mask_loop (int n) (print_strides rs) m1 = Some (0, m2)" "length m2 = length m1"
        "cpus m2 = cpus m1 \<union> ((\<Union>x \<in> set (takeWhile (accepted n) rs). strided x) \<inter> {..<64 * length m1})"
        by auto
      then show ?thesis
        using el i refused \<open>accepted n x\<close> m1 x False by (subst list_to_mask_loop.simps) auto
    qed
  qed
qed simp

text \<open>A machine with \<open>n\<close> CPUs, for concrete instances.\<close>

definition sample_ts :: "nat \<Rightarrow> topo_state" where
  "sample_ts n = \<lparr>topo = sample_topo\<lparr>n_cpus := n\<rparr>, max_cores = 0, max_ccls = 0\<rparr>"

lemma sample_ts_cpus: "0 < n \<Longrightarrow> wayca_sc_cpus_in_total (sample_ts n) = int n"
  by (simp add: wayca_sc_cpus_in_total_def sample_ts_def)

text \<open>C16. Reading back printed non-empty lists of ranges with positive strides, all numbers below \<open>2\<^sup>64\<close>, on a machine with
  \<open>n \<le> 2\<^sup>30\<close> CPUs: \<^verbatim>\<open>list_to_mask\<close> returns 0 and the mask
  holds exactly the CPUs, as far as they fit into it, of the elements before the first one that is refused: one that ends at CPU
  \<open>n\<close> or later or has a stride of \<open>n / 2\<close> or more. In particular a list without such elements is read back completely.\<close>

theorem list_to_mask_printed:
  assumes "wayca_sc_cpus_in_total ts = int n" "n \<le> 2 ^ 30" "rs \<noteq> []" "\<forall>x \<in> set rs. range_ok x"
  shows "\<exists>m. list_to_mask ts (print_strides rs) sz = Some (0, m) \<and> length m = sz div 8
    \<and> cpus m = (\<Union>x \<in> set (takeWhile (accepted n) rs). strided x) \<inter> {..<64 * (sz div 8)}
    \<and> ((\<forall>x \<in> set rs. accepted n x) \<longrightarrow> cpus m = (\<Union>x \<in> set rs. strided x) \<inter> {..<64 * (sz div 8)})"
proof -
  have all: "takeWhile (accepted n) rs = rs" if "\<forall>x \<in> set rs. accepted n x"
    using that by (simp add: takeWhile_eq_all_conv)
  have "cpus (replicate k 0) = {}" for k
    by (auto simp: cpus_def abit_def)
  then show ?thesis
    using list_to_mask_loop_list [OF assms(2-4), of "replicate (sz div 8) 0"] assms(1)
    by (auto simp: list_to_mask_def all)
qed

theorem list_to_mask_printed_witness:
  "(\<exists>m. list_to_mask (sample_ts 8) ''1-6:3,7'' 128 = Some (0, m) \<and> cpus m = {1, 4} \<union> {7})
     \<and> (\<exists>m. list_to_mask (sample_ts 8) ''7,0-8,1'' 128 = Some (0, m) \<and> cpus m = {7})"
proof -
  have p: "print_strides [(1, 6, 3), (7, 7, 1)] = ''1-6:3,7''" "print_strides [(7, 7, 1), (0, 8, 1), (1, 1, 1)] = ''7,0-8,1''"
    by code_simp+
  have "strided (1, 6, 3) = {1, 4}"
    by (auto simp: strided_def) presburger
  moreover have "strided (7, 7, 1) = {7}"
    by (auto simp: strided_def)
  ultimately show ?thesis
    using list_to_mask_printed [of "sample_ts 8" 8 "[(1, 6, 3), (7, 7, 1)]" 128]
      list_to_mask_printed [of "sample_ts 8" 8 "[(7, 7, 1), (0, 8, 1), (1, 1, 1)]" 128] unfolding p
    by (simp add: sample_ts_cpus accepted_def range_ok_def) blast
qed

text \<open>A malformed list is not an error: when the first character can start no number and is no
  separator, \<^verbatim>\<open>list_to_mask\<close> returns 0 and \<^verbatim>\<open>thread_bind_cpulist\<close> goes on to bind the thread to the
  empty set.\<close>

theorem malformed_list_accepted:
  assumes "\<not> isspace c" "\<not> isdigit c" "c \<notin> {CHR ''+'', CHR ''-'', CHR '',''}"
  shows "thread_bind_cpulist ts k pid (c # r) = Some (thread_sched_setaffinity k pid CPU_ZERO)"
proof -
  have "strtoul (c # r) = (0, c # r, 0)"
    using assms by (simp add: strtoul_def scan_number_def Let_def)
  then have "scan_element (c # r) = (0, 0, 1, c # r, 0)"
    using assms by (simp add: scan_element_def)
  then have "list_to_mask ts (c # r) 128 = Some (0, CPU_ZERO)"
    using assms by (simp add: list_to_mask_def list_to_mask_loop.simps CPU_ZERO_def)
  then show ?thesis
    by (simp add: thread_bind_cpulist_def)
qed

definition sample_kernel :: kernel where
  "sample_kernel = \<lparr>k_setaff = (\<lambda>_ m. if m = CPU_ZERO then - EINVAL else 0), k_tasks = (\<lambda>_. Inr [''7'', ''8'']),
     k_aff = []\<rparr>"

theorem malformed_list_accepted_witness:
  "\<exists>k. thread_bind_cpulist (sample_ts 8) sample_kernel 7 ''x0-3'' = Some (- EINVAL, k) \<and> k_aff k = [(7, CPU_ZERO)]"
  using malformed_list_accepted [of "CHR ''x''" "sample_ts 8" sample_kernel 7 "''0-3''"]
  by (simp add: isspace_def isdigit_def thread_sched_setaffinity_def sample_kernel_def)

text \<open>On a machine with at most three CPUs every list is refused and the refusal is reported as
  success: for every printed list \<^verbatim>\<open>list_to_mask\<close> returns 0 with an empty mask.\<close>

theorem few_cpus_no_list:
  assumes "wayca_sc_cpus_in_total ts = int n" "n \<le> 3" "rs \<noteq> []" "\<forall>(a, b, s) \<in> set rs. a < n \<and> b < n \<and> s = 1"
  shows "list_to_mask ts (print_strides rs) sz = Some (0, replicate (sz div 8) 0)"
proof -
  obtain a b rs' where rs: "rs = (a, b, 1) # rs'" "a < n" "b < n"
    using assms(3,4) by (cases rs) auto
  have "scan_element (print_strides rs)
      = (of_nat a, of_nat b, of_nat 1, if rs' = [] then [] else CHR '','' # print_strides rs', 0)"
    unfolding rs(1) print_strides_split using rs(2,3) assms(2) by (intro scan_element_strided) auto
  moreover have "(word_of_int (int n sdiv 2) :: ulong) \<le> 1"
    using assms(2) unfolding half_word by (simp add: word_le_nat_alt unat_of_nat)
  ultimately show ?thesis
    using assms(1) by (simp add: list_to_mask_def list_to_mask_loop.simps)
qed

theorem few_cpus_no_list_witness:
  "list_to_mask (sample_ts 2) ''0-1'' 128 = Some (0, replicate 16 0)"
proof -
  have p: "print_strides [(0, 1, 1)] = ''0-1''"
    by code_simp
  show ?thesis
    using few_cpus_no_list [of "sample_ts 2" 2 "[(0, 1, 1)]" 128] unfolding p by (simp add: sample_ts_cpus)
qed

text \<open>A stride of 0 makes \<^verbatim>\<open>list_to_mask\<close> loop forever.\<close>

theorem stride_zero_diverges:
  assumes "wayca_sc_cpus_in_total ts = int n" "2 \<le> n" "n \<le> 2 ^ 30" "a \<le> b" "b < n"
  shows "list_to_mask ts (print_strides [(a, b, 0)]) sz = None"
proof -
  have "scan_element (print_strided (a, b, 0) @ []) = (of_nat a, of_nat b, of_nat 0, [], 0)"
    using assms by (intro scan_element_strided) auto
  moreover have "\<not> (word_of_int (int n sdiv 2) :: ulong) \<le> 0" "\<not> (word_of_int (int n) :: ulong) \<le> of_nat b"
    using assms(2,3,5) unfolding half_word by (simp_all add: word_le_nat_alt unat_of_nat)
  moreover have "to_int (uint (of_nat a :: ulong)) = int a"
    using assms by (intro to_int_small) simp
  moreover have "set_stride (int a) (of_nat b) 0 m = None" for m
    using assms(3-5) by (intro set_stride_zero) simp_all
  ultimately show ?thesis
    using assms(1) by (simp add: list_to_mask_def list_to_mask_loop.simps)
qed

theorem stride_zero_diverges_witness: "list_to_mask (sample_ts 8) ''2-5:0'' 128 = None"
proof -
  have p: "print_strides [(2, 5, 0)] = ''2-5:0''"
    by code_simp
  show ?thesis
    using stride_zero_diverges [of "sample_ts 8" 8 2 5 128] unfolding p by (simp add: sample_ts_cpus)
qed

section \<open>What initialisation establishes\<close>

lemma fold_CPU_SET:
  "length (fold CPU_SET xs m) = length m"
  "cpus (fold CPU_SET xs m) = cpus m \<union> {nat c |c. c \<in> set xs \<and> 0 \<le> c \<and> nat c < 64 * length m}"
  by (induction xs arbitrary: m) (auto simp: cpus_CPU_SET_gen)

text \<open>The sizes of the object tables, whatever the environment variables hold: at least one entry, and
  the size in bytes passed to \<^verbatim>\<open>malloc\<close> and \<^verbatim>\<open>memset\<close> does not wrap.\<close>

theorem table_size_bounds:
  assumes "0 < unat dflt" "unat dflt \<le> 32760"
  shows "0 < unat (wayca_thread_init_from_envs dflt p)
    \<and> unat (8 * wayca_thread_init_from_envs dflt p) = 8 * unat (wayca_thread_init_from_envs dflt p)"
proof -
  let ?n = "wayca_thread_init_from_envs dflt p"
  have "unat ((- 1 :: ulong) div 8) = (2 ^ 64 - 1) div 8"
    by (simp add: unat_div)
  then have "0 < unat num \<and> 8 * unat num < 2 ^ 64" if "\<not> is_env_invalid num" for num
    using that by (auto simp: is_env_invalid_def word_le_nat_alt unat_gt_0)
  then have n: "0 < unat ?n \<and> 8 * unat ?n < 2 ^ 64"
    using assms by (auto simp: wayca_thread_init_from_envs_def split: option.splits prod.splits)
  then have "unat (8 * ?n) = 8 * unat ?n"
    by (simp add: unat_word_ariths)
  with n show ?thesis by blast
qed

theorem table_size_bounds_witness:
  "wayca_thread_init_from_envs 256 (Some ''0'') = 256
   \<and> unat (8 * wayca_thread_init_from_envs 256 (Some ''0'')) = 8 * unat (wayca_thread_init_from_envs 256 (Some ''0''))"
proof -
  have e: "wayca_thread_init_from_envs 256 (Some ''0'') = 256"
    by (simp add: wayca_thread_init_from_envs_def strtoul_def scan_number_def isspace_def isdigit_def
        number_def digit_def is_env_invalid_def Let_def)
  show ?thesis
    using table_size_bounds [of 256 "Some ''0''"] unfolding e by simp
qed

text \<open>C33. The constructor of the thread library establishes the start state of the API: for every
  environment and every outcome of the allocations the tables are empty and no object exists; when
  the array of loads was allocated it has a zero for each CPU, and the set of all CPUs holds
  exactly the CPUs of the machine.\<close>

theorem thread_init_establishes:
  assumes "0 < n_cpus (topo ts)" "n_cpus (topo ts) \<le> 1024"
  shows "start_state (sc (wayca_thread_init ts env m1 m2 m3 m4))
    \<and> cpu_loads (sc (wayca_thread_init ts env m1 m2 m3 m4)) = (if m1 then replicate (n_cpus (topo ts)) 0 else [])
    \<and> cs_ok (total_cpu_set (sc (wayca_thread_init ts env m1 m2 m3 m4)))
    \<and> cpus (total_cpu_set (sc (wayca_thread_init ts env m1 m2 m3 m4))) = {..<n_cpus (topo ts)}
    \<and> set (pools_array (wayca_thread_init ts env m1 m2 m3 m4)) \<subseteq> {None}"
proof -
  let ?n = "n_cpus (topo ts)"
  have n: "wayca_sc_cpus_in_total ts = int ?n"
    using assms by (simp add: wayca_sc_cpus_in_total_def)
  have z: "cpus CPU_ZERO = {}" "length CPU_ZERO = 16"
    by (simp_all add: cpus_const) (simp add: CPU_ZERO_def)
  have "{nat c |c. 0 \<le> c \<and> c \<le> int ?n - 1 \<and> nat c < 1024} = {..<?n}"
    using assms(2) by (auto intro!: exI [of _ "int _"])
  then have "cs_ok (fold CPU_SET [0..int ?n - 1] CPU_ZERO)"
    "cpus (fold CPU_SET [0..int ?n - 1] CPU_ZERO) = {..<?n}"
    by (simp_all add: fold_CPU_SET z cs_ok_def conj_ac)
  then show ?thesis
    using n
    by (cases m1; cases m2; cases m3; cases m4)
      (simp_all add: wayca_thread_init_def Let_def library_def start_state_def set_replicate_conv_if)
qed

theorem thread_init_establishes_witness:
  "start_state (sc (wayca_thread_init (sample_ts 4) (\<lambda>_. None) True True True True))
   \<and> cpu_loads (sc (wayca_thread_init (sample_ts 4) (\<lambda>_. None) True True True True)) = replicate 4 0"
  using thread_init_establishes [of "sample_ts 4" "\<lambda>_. None" True True True True]
  by (simp add: sample_ts_def)

section \<open>Binding a whole process\<close>

definition task_ids :: "string list \<Rightarrow> int list" where
  "task_ids ds = map (\<lambda>d. to_int (uint (fst (strtoul d)))) (filter (\<lambda>d. d \<noteq> ''.'' \<and> d \<noteq> ''..'') ds)"

lemma task_ids_simps [simp]:
  "task_ids [] = []"
  "task_ids (d # ds) = (if d = ''.'' \<or> d = ''..'' then task_ids ds else to_int (uint (fst (strtoul d))) # task_ids ds)"
  by (auto simp: task_ids_def)

lemma set_all_ok:
  assumes "\<forall>t \<in> set (task_ids ds). 0 \<le> k_setaff k t m"
  shows "set_all k m ret ds = (if task_ids ds = [] then ret else k_setaff k (last (task_ids ds)) m,
    k\<lparr>k_aff := k_aff k @ map (\<lambda>t. (t, m)) (task_ids ds)\<rparr>)"
  using assms
proof (induction ds arbitrary: k ret)
  case (Cons d ds)
  show ?case
  proof (cases "d = ''.'' \<or> d = ''..''")
    case True
    then show ?thesis using Cons by (simp add: tids_def)
  next
    case False
    let ?t = "to_int (uint (fst (strtoul d)))" and ?k = "\<lambda>t. k\<lparr>k_aff := k_aff k @ [(t, m)]\<rparr>"
    have t: "task_ids (d # ds) = ?t # task_ids ds"
      using False by (simp add: tids_def)
    have "\<forall>t \<in> set (task_ids ds). 0 \<le> k_setaff (?k ?t) t m" "0 \<le> k_setaff k ?t m"
      using Cons.prems t by simp_all
    then show ?thesis
      using False t Cons.IH [of "?k ?t" "k_setaff k ?t m"] by (simp add: thread_sched_setaffinity_def)
  qed
qed (simp add: tids_def)

lemma set_all_fail:
  assumes "task_ids ds = xs @ t # ys" "\<forall>t \<in> set xs. 0 \<le> k_setaff k t m" "k_setaff k t m < 0"
  shows "set_all k m ret ds = (k_setaff k t m, k\<lparr>k_aff := k_aff k @ map (\<lambda>t. (t, m)) (xs @ [t])\<rparr>)"
  using assms
proof (induction ds arbitrary: k ret xs)
  case (Cons d ds)
  show ?case
  proof (cases "d = ''.'' \<or> d = ''..''")
    case True
    then show ?thesis using Cons by (simp add: tids_def)
  next
    case False
    then have t: "to_int (uint (fst (strtoul d))) # task_ids ds = xs @ t # ys"
      using Cons.prems(1) by (simp add: tids_def)
    show ?thesis
    proof (cases xs)
      case Nil
      then show ?thesis
        using False t Cons.prems(3) by (simp add: thread_sched_setaffinity_def)
    next
      case (Cons x xs')
      then have "\<not> k_setaff k x m < 0" "task_ids ds = xs' @ t # ys" "to_int (uint (fst (strtoul d))) = x"
        using t Cons.prems(2) by (simp_all add: not_less)
      then show ?thesis
        using False Cons Cons.prems(2,3) Cons.IH [of xs' "k\<lparr>k_aff := k_aff k @ [(x, m)]\<rparr>" "k_setaff k x m"]
        by (simp add: thread_sched_setaffinity_def)
    qed
  qed
qed (simp add: tids_def)

text \<open>Binding a process sets the affinity of every thread listed under \<^verbatim>\<open>/proc/<pid>/task\<close>, in that
  order, each once, when no call fails, and stops at the first call that fails, returning its error;
  without threads it returns \<^verbatim>\<open>-ENOENT\<close>.\<close>

theorem process_bind_all_threads:
  assumes "k_tasks k pid = Inr ds"
  shows "((\<forall>t \<in> set (task_ids ds). 0 \<le> k_setaff k t m) \<longrightarrow>
      process_sched_setaffinity k pid m = (if task_ids ds = [] then - ENOENT else k_setaff k (last (task_ids ds)) m,
        k\<lparr>k_aff := k_aff k @ map (\<lambda>t. (t, m)) (task_ids ds)\<rparr>))
    \<and> (\<forall>xs t ys. task_ids ds = xs @ t # ys \<longrightarrow> (\<forall>t \<in> set xs. 0 \<le> k_setaff k t m) \<longrightarrow> k_setaff k t m < 0 \<longrightarrow>
      process_sched_setaffinity k pid m
        = (k_setaff k t m, k\<lparr>k_aff := k_aff k @ map (\<lambda>t. (t, m)) (xs @ [t])\<rparr>))"
  using assms set_all_ok [of ds k m "- ENOENT"] set_all_fail [of ds _ _ _ k m "- ENOENT"]
  by (simp add: process_sched_setaffinity_def)

theorem process_bind_all_threads_witness:
  "process_sched_setaffinity sample_kernel 7 sample_cpus
     = (0, sample_kernel\<lparr>k_aff := [(7, sample_cpus), (8, sample_cpus)]\<rparr>)"
proof -
  have "task_ids [''7'', ''8''] = [7, 8]"
    by (simp add: strtoul_def scan_number_def isspace_def isdigit_def number_def digit_def Let_def to_int_def)
  moreover have "sample_cpus \<noteq> CPU_ZERO"
    using sample_cpus(2) cpus_const by (metis lessThan_iff empty_iff zero_less_numeral)
  ultimately show ?thesis
    using process_bind_all_threads [of sample_kernel 7 "[''7'', ''8'']" sample_cpus]
    by (simp add: sample_kernel_def)
qed

end
