(* ===== verification/Managed.thy ===== *)
theory Managed
  imports Bind
begin

text \<open>
  Managed threads, \<^verbatim>\<open>lib/managed_threads.c\<close>: the map from tasks to CPUs that is parsed from a string
  like \<^verbatim>\<open>1,3@c1$1 2,4@n0-1$2\<close>, the CPU set of a task, and the creation of threads with it.
\<close>

section \<open>The map\<close>

record task_cpu_map =
  m_tasks :: cpu_set_t
  m_cpus :: cpu_set_t
  m_nodes :: cpu_set_t
  m_cpu_util :: int

abbreviation MAX_MANAGED_MAPS :: nat where "MAX_MANAGED_MAPS \<equiv> 100"

text \<open>\<^verbatim>\<open>for (i..nr_in_total) if (NODE_ISSET(i, node_mask)) for (j..cr_in_node) CPU_SET(i * cr_in_node + j, cpu_mask);\<close>\<close>

definition nodemask_to_cpumask :: "topo_state \<Rightarrow> cpu_set_t \<Rightarrow> cpu_set_t" where
  "nodemask_to_cpumask ts node_mask =
     (let cr_in_node = wayca_sc_cpus_in_node ts; nr_in_total = wayca_sc_nodes_in_total ts in
      fold (\<lambda>i m. if \<not> CPU_ISSET i node_mask then m
                  else fold (\<lambda>j. CPU_SET (i * cr_in_node + j)) [0..cr_in_node - 1] m)
        [0..nr_in_total - 1] CPU_ZERO)"

text \<open>\<^verbatim>\<open>strchr(s, c)\<close> with the character overwritten by NUL: the part before it and the part after it.\<close>

definition split_at :: "char \<Rightarrow> string \<Rightarrow> (string \<times> string) option" where
  "split_at c s = (case dropWhile (\<lambda>x. x \<noteq> c) s of
       [] \<Rightarrow> None
     | _ # r \<Rightarrow> Some (takeWhile (\<lambda>x. x \<noteq> c) s, r))"

lemma split_at_shorter: "split_at c s = Some (a, b) \<Longrightarrow> length a + length b < length s"
proof -
  assume "split_at c s = Some (a, b)"
  then have "a = takeWhile (\<lambda>x. x \<noteq> c) s" "dropWhile (\<lambda>x. x \<noteq> c) s = c # b"
    by (auto simp: split_at_def dropWhile_eq_Cons_conv split: list.splits)
  then have "s = a @ c # b"
    using takeWhile_dropWhile_id [of "\<lambda>x. x \<noteq> c" s] by simp
  then show ?thesis by simp
qed

text \<open>One element: \<open>tasks\<close> is the text before \<^verbatim>\<open>@\<close>, \<open>q\<close> the text after it up to the next space. The
  return values of \<^verbatim>\<open>list_to_mask\<close> are dropped. The flag is false for a bad element.\<close>

definition parse_map :: "topo_state \<Rightarrow> string \<Rightarrow> string \<Rightarrow> task_cpu_map \<Rightarrow> (bool \<times> task_cpu_map) option" where
  "parse_map ts tasks q mp = do {
     (_, t) \<leftarrow> list_to_mask ts tasks 128;
     let mp = mp\<lparr>m_tasks := t\<rparr>;
     let (q, mp) = (case split_at CHR ''$'' q of
         None \<Rightarrow> (q, mp)
       | Some (q, r) \<Rightarrow> (q, mp\<lparr>m_cpu_util := to_int (uint (fst (strtoul r)))\<rparr>));
     case q of
       [] \<Rightarrow> Some (False, mp)
     | c # q \<Rightarrow>
         if c = CHR ''c'' then do {
           (_, m) \<leftarrow> list_to_mask ts q 128;
           Some (True, mp\<lparr>m_cpus := m\<rparr>)
         } else if c = CHR ''n'' then do {
           (_, m) \<leftarrow> list_to_mask ts q 128;
           Some (True, mp\<lparr>m_nodes := m, m_cpus := nodemask_to_cpumask ts m\<rparr>)
         } else Some (False, mp)
   }"

text \<open>The loop over the elements, \<open>i\<close> the index of the next one. The result is the return value and the
  array.\<close>

function parse_maps :: "topo_state \<Rightarrow> string \<Rightarrow> nat \<Rightarrow> task_cpu_map list \<Rightarrow> (int \<times> task_cpu_map list) option" where
  "parse_maps ts p i maps =
     (if MAX_MANAGED_MAPS \<le> i then Some (0, maps)
      else (case split_at CHR ''@'' p of
          None \<Rightarrow> Some (0, maps)
        | Some (tasks, q) \<Rightarrow> do {
            mp \<leftarrow> rd maps i;
            let (q, p') = (case split_at CHR '' '' q of None \<Rightarrow> (q, None) | Some (q, p) \<Rightarrow> (q, Some p));
            (ok, mp) \<leftarrow> parse_map ts tasks q mp;
            maps \<leftarrow> wr maps i mp;
            if \<not> ok then Some (- 1, maps)
            else (case p' of None \<Rightarrow> Some (0, maps) | Some p \<Rightarrow> parse_maps ts p (i + 1) maps)
          }))"
  by auto
termination
  by (relation "measure (\<lambda>(ts, p, i, maps). length p)")
    (auto split: option.splits dest!: split_at_shorter)

declare parse_maps.simps [simp del]

definition to_task_cpu_map :: "topo_state \<Rightarrow> string option \<Rightarrow> task_cpu_map list \<Rightarrow> (int \<times> task_cpu_map list) option" where
  "to_task_cpu_map ts cpu_list maps = (case cpu_list of
       None \<Rightarrow> Some (0, maps)
     | Some p \<Rightarrow> parse_maps ts p 0 maps)"

definition zero_map :: task_cpu_map where
  "zero_map = \<lparr>m_tasks = CPU_ZERO, m_cpus = CPU_ZERO, m_nodes = CPU_ZERO, m_cpu_util = 0\<rparr>"

text \<open>\<open>p\<close> is the value of \<^verbatim>\<open>MANAGED_THREADS\<close>; the static array is zeroed.\<close>

definition wayca_managed_thread_init :: "topo_state \<Rightarrow> string option \<Rightarrow> task_cpu_map list option" where
  "wayca_managed_thread_init ts p = map_option snd (to_task_cpu_map ts p (replicate MAX_MANAGED_MAPS zero_map))"

section \<open>Creating threads\<close>

definition wayca_managed_thread_cpumask :: "task_cpu_map list \<Rightarrow> int \<Rightarrow> int \<times> cpu_set_t option" where
  "wayca_managed_thread_cpumask maps tid = (case find (\<lambda>mp. CPU_ISSET tid (m_tasks mp)) maps of
       Some mp \<Rightarrow> (0, Some (m_cpus mp))
     | None \<Rightarrow> (- 1, None))"

text \<open>What creating a thread does, as seen from outside: the result of \<^verbatim>\<open>pthread_create\<close> and the affinity
  it is given, if it is.\<close>

definition wayca_managed_thread_create :: "task_cpu_map list \<Rightarrow> int \<Rightarrow> int \<Rightarrow> int \<times> cpu_set_t option" where
  "wayca_managed_thread_create maps created tid =
     (created,
      if created = 0 then let (err, m) = wayca_managed_thread_cpumask maps tid in if err \<noteq> 0 then None else m
      else None)"

text \<open>\<open>created\<close> has the results of \<^verbatim>\<open>pthread_create\<close> for the threads, one for each of the \<open>num\<close>.\<close>

fun create_pool :: "task_cpu_map list \<Rightarrow> int \<Rightarrow> int list \<Rightarrow> cpu_set_t option list" where
  "create_pool maps tid [] = []"
| "create_pool maps tid (c # cs) =
     (let (ret, m) = wayca_managed_thread_create maps c tid in
      if ret \<noteq> 0 then [] else m # create_pool maps (tid + 1) cs)"

definition wayca_managed_threadpool_create ::
    "task_cpu_map list \<Rightarrow> int \<Rightarrow> int \<Rightarrow> int list \<Rightarrow> int \<times> cpu_set_t option list" where
  "wayca_managed_threadpool_create maps tid num created =
     (if num \<le> 0 then (- 1, [])
      else let ms = create_pool maps tid (take (nat num) created) in (int (length ms), ms))"

section \<open>Maps that are read back\<close>

text \<open>An element in the format of the comment: the tasks, whether nodes or CPUs follow, these, and the utilisation.\<close>

type_synonym map_spec = "(nat \<times> nat \<times> nat) list \<times> bool \<times> (nat \<times> nat \<times> nat) list \<times> nat"

definition print_map :: "map_spec \<Rightarrow> string" where
  "print_map = (\<lambda>(t, on_nodes, c, u). print_strides t @ CHR ''@'' # (if on_nodes then CHR ''n'' else CHR ''c'') # print_strides c @ CHR ''$'' # decimal u)"

fun print_maps :: "map_spec list \<Rightarrow> string" where
  "print_maps [] = []"
| "print_maps [x] = print_map x"
| "print_maps (x # y # xs) = print_map x @ CHR '' '' # print_maps (y # xs)"

definition map_ok :: "map_spec \<Rightarrow> bool" where
  "map_ok = (\<lambda>(t, on_nodes, c, u). t \<noteq> [] \<and> c \<noteq> [] \<and> (\<forall>x \<in> set t \<union> set c. range_ok x) \<and> u < 2 ^ 31)"

text \<open>What is read of a list: the elements before the first that is refused.\<close>

definition list_cpus :: "nat \<Rightarrow> (nat \<times> nat \<times> nat) list \<Rightarrow> nat set" where
  "list_cpus n rs = (\<Union>x \<in> set (takeWhile (accepted n) rs). strided x) \<inter> {..<1024}"

text \<open>The entry of the array that belongs to an element.\<close>

definition describes :: "topo_state \<Rightarrow> nat \<Rightarrow> map_spec \<Rightarrow> task_cpu_map \<Rightarrow> bool" where
  "describes ts n = (\<lambda>(t, on_nodes, c, u) mp. cpus (m_tasks mp) = list_cpus n t \<and> cs_ok (m_tasks mp) \<and> m_cpu_util mp = int u
     \<and> (if on_nodes then cpus (m_nodes mp) = list_cpus n c \<and> m_cpus mp = nodemask_to_cpumask ts (m_nodes mp)
        else cpus (m_cpus mp) = list_cpus n c \<and> cs_ok (m_cpus mp)))"

lemma list_to_mask_list:
  assumes "wayca_sc_cpus_in_total ts = int n" "n \<le> 2 ^ 30" "rs \<noteq> []" "\<forall>x \<in> set rs. range_ok x"
  shows "\<exists>m. list_to_mask ts (print_strides rs) 128 = Some (0, m) \<and> cs_ok m \<and> cpus m = list_cpus n rs"
  using list_to_mask_loop_list [OF assms(2-4), of "replicate 16 0"] assms(1)
  by (auto simp: list_cpus_def list_to_mask_def cs_ok_def cpus_const(1) [unfolded CPU_ZERO_def])

lemma print_strides_other:
  assumes "\<not> isdigit c" "c \<notin> {CHR '','', CHR ''-'', CHR '':''}"
  shows "c \<notin> set (print_strides rs)"
proof -
  have "c \<notin> set (decimal a)" for a
    using decimal_digits [of a] assms(1) by blast
  then have "c \<notin> set (print_strided x)" for x
    using assms(2) by (cases x) (auto simp: print_strided_def)
  then show ?thesis
    using assms(2) by (induction rs rule: print_strides.induct) auto
qed

lemma print_strides_chars: "c \<in> {CHR ''@'', CHR ''$'', CHR '' ''} \<Longrightarrow> c \<notin> set (print_strides rs)"
  by (rule print_strides_other) (auto simp: isdigit_def)

lemma split_at_here: "c \<notin> set a \<Longrightarrow> split_at c (a @ c # b) = Some (a, b)"
  by (induction a) (auto simp: split_at_def split: list.splits)

lemma split_at_none: "c \<notin> set a \<Longrightarrow> split_at c a = None"
proof -
  assume "c \<notin> set a"
  then have "\<forall>x \<in> set a. x \<noteq> c" by auto
  then have "dropWhile (\<lambda>x. x \<noteq> c) a = []"
    by (simp only: dropWhile_eq_Nil_conv)
  then show ?thesis
    unfolding split_at_def by (simp only: list.case)
qed

lemma parse_map_spec:
  assumes "wayca_sc_cpus_in_total ts = int n" "n \<le> 2 ^ 30" "map_ok (t, on_nodes, c, u)"
  shows "\<exists>mp'. parse_map ts (print_strides t) ((if on_nodes then CHR ''n'' else CHR ''c'') # print_strides c @ CHR ''$'' # decimal u) mp
      = Some (True, mp') \<and> describes ts n (t, on_nodes, c, u) mp'"
proof -
  let ?k = "if on_nodes then CHR ''n'' else CHR ''c''"
  obtain m1 where m1: "list_to_mask ts (print_strides t) 128 = Some (0, m1)" "cs_ok m1" "cpus m1 = list_cpus n t"
    using list_to_mask_list [OF assms(1,2), of t] assms(3) by (auto simp: map_ok_def)
  obtain m2 where m2: "list_to_mask ts (print_strides c) 128 = Some (0, m2)" "cs_ok m2" "cpus m2 = list_cpus n c"
    using list_to_mask_list [OF assms(1,2), of c] assms(3) by (auto simp: map_ok_def)
  have sp: "split_at CHR ''$'' (?k # print_strides c @ CHR ''$'' # decimal u) = Some (?k # print_strides c, decimal u)"
    using split_at_here [of "CHR ''$''" "?k # print_strides c"] print_strides_chars by simp
  have "to_int (uint (fst (strtoul (decimal u)))) = int u"
    using assms(3) by (simp add: map_ok_def strtoul_decimal_end to_int_small)
  then show ?thesis
    using m1 m2 sp by (cases on_nodes) (simp_all add: parse_map_def describes_def)
qed

lemma print_maps_split: "print_maps (x # xs) = print_map x @ (if xs = [] then [] else CHR '' '' # print_maps xs)"
  by (cases xs) auto

lemma parse_maps_specs:
  assumes "wayca_sc_cpus_in_total ts = int n" "n \<le> 2 ^ 30"
  shows "es \<noteq> [] \<Longrightarrow> \<forall>e \<in> set es. map_ok e \<Longrightarrow> i + length es \<le> 100 \<Longrightarrow> length maps = 100 \<Longrightarrow>
    \<exists>maps'. parse_maps ts (print_maps es) i maps = Some (0, maps') \<and> length maps' = 100
      \<and> (\<forall>j < length es. describes ts n (es ! j) (maps' ! (i + j)))
      \<and> (\<forall>j < 100. j < i \<or> i + length es \<le> j \<longrightarrow> maps' ! j = maps ! j)"
proof (induction es arbitrary: i maps)
  case (Cons e es)
  obtain t on_nodes c u where e: "e = (t, on_nodes, c, u)" by (cases e) auto
  let ?q = "(if on_nodes then CHR ''n'' else CHR ''c'') # print_strides c @ CHR ''$'' # decimal u"
  let ?r = "if es = [] then [] else CHR '' '' # print_maps es"
  have at: "split_at CHR ''@'' (print_maps (e # es)) = Some (print_strides t, ?q @ ?r)"
    using split_at_here [of "CHR ''@''" "print_strides t"] print_strides_chars [of "CHR ''@''" t]
    by (simp add: print_maps_split print_map_def e)
  have q: "CHR '' '' \<notin> set ?q"
    using print_strides_chars [of "CHR '' ''" c] decimal_digits [of u] by (auto simp: isdigit_def)
  obtain mp where mp: "parse_map ts (print_strides t) ?q (maps ! i) = Some (True, mp)" "describes ts n e mp"
    using parse_map_spec [OF assms, of t on_nodes c u] Cons.prems(2) e by auto
  have i: "i < 100" using Cons.prems(3) by simp
  show ?case
  proof (cases "es = []")
    case True
    then have "parse_maps ts (print_maps (e # es)) i maps = Some (0, maps[i := mp])"
      using at split_at_none [OF q] mp(1) i Cons.prems(4) by (subst parse_maps.simps) (simp add: rd_def wr_def)
    then show ?thesis
      using True mp(2) i Cons.prems(4) by simp
  next
    case False
    then have sp: "split_at CHR '' '' (?q @ ?r) = Some (?q, print_maps es)"
      using split_at_here [OF q] by simp
    from Cons.IH [OF False, of "i + 1" "maps[i := mp]"] Cons.prems obtain maps' where
      m: "parse_maps ts (print_maps es) (i + 1) (maps[i := mp]) = Some (0, maps')" "length maps' = 100"
        "\<forall>j < length es. describes ts n (es ! j) (maps' ! (i + 1 + j))"
        "\<forall>j < 100. j < i + 1 \<or> i + 1 + length es \<le> j \<longrightarrow> maps' ! j = maps[i := mp] ! j"
      by auto
    have "parse_maps ts (print_maps (e # es)) i maps = Some (0, maps')"
      using at sp mp(1) i Cons.prems(4) m(1) by (subst parse_maps.simps) (simp add: rd_def wr_def)
    moreover have "describes ts n ((e # es) ! j) (maps' ! (i + j))" if "j < length (e # es)" for j
      using that m(3,4) mp(2) i Cons.prems(4) by (cases j) auto
    moreover have "maps' ! j = maps ! j" if "j < 100" "j < i \<or> i + length (e # es) \<le> j" for j
      using that m(4) by auto
    ultimately show ?thesis
      using m(2) by blast
  qed
qed simp

text \<open>C28. Reading back a task map: on a machine with \<open>n \<le> 2\<^sup>30\<close> CPUs, for 1 to 100 elements \<^verbatim>\<open>tasks@cCPUs$utilisation\<close> or
  \<^verbatim>\<open>tasks@nnodes$utilisation\<close> whose lists are non-empty lists of ranges with
  positive strides and numbers below \<open>2\<^sup>64\<close>, with utilisations below \<open>2\<^sup>31\<close>, the constructor fills one entry of the array per
  element and leaves the rest zero. An entry has the utilisation of its element; its tasks and its CPUs, or nodes, are those of the
  listed ranges before the first that is refused (one that ends at number \<open>n\<close> or later or has a stride of \<open>n / 2\<close> or more),
  so that task numbers too are kept only below the number of CPUs; the CPUs of nodes are those that \<^verbatim>\<open>nodemask_to_cpumask\<close> gives.\<close>

theorem managed_map_printed:
  assumes "wayca_sc_cpus_in_total ts = int n" "n \<le> 2 ^ 30" "es \<noteq> []" "\<forall>e \<in> set es. map_ok e" "length es \<le> 100"
  shows "\<exists>maps. wayca_managed_thread_init ts (Some (print_maps es)) = Some maps \<and> length maps = 100
    \<and> (\<forall>j < length es. describes ts n (es ! j) (maps ! j)) \<and> (\<forall>j < 100. length es \<le> j \<longrightarrow> maps ! j = zero_map)"
  using parse_maps_specs [OF assms(1-4), of 0 "replicate 100 zero_map"] assms(5)
  by (auto simp: wayca_managed_thread_init_def to_task_cpu_map_def)

text \<open>The last of the three elements has a task number that is refused on eight CPUs.\<close>

theorem managed_map_printed_witness:
  "\<exists>maps. wayca_managed_thread_init (sample_ts 8) (Some ''1,3@c0-7:3$1 2,4@n0-1$2 9@c1$1'') = Some maps
     \<and> cpus (m_tasks (maps ! 0)) = list_cpus 8 [(1, 1, 1), (3, 3, 1)] \<and> cpus (m_cpus (maps ! 0)) = list_cpus 8 [(0, 7, 3)]
     \<and> cpus (m_nodes (maps ! 1)) = list_cpus 8 [(0, 1, 1)] \<and> m_cpus (maps ! 1) = nodemask_to_cpumask (sample_ts 8) (m_nodes (maps ! 1))
     \<and> m_cpu_util (maps ! 1) = 2 \<and> cpus (m_tasks (maps ! 2)) = {}"
proof -
  let ?es = "[([(1, 1, 1), (3, 3, 1)], False, [(0, 7, 3)], 1), ([(2, 2, 1), (4, 4, 1)], True, [(0, 1, 1)], 2),
    ([(9, 9, 1)], False, [(1, 1, 1)], 1)] :: map_spec list"
  have p: "print_maps ?es = ''1,3@c0-7:3$1 2,4@n0-1$2 9@c1$1''"
    by code_simp
  have "\<exists>maps. wayca_managed_thread_init (sample_ts 8) (Some (print_maps ?es)) = Some maps \<and> length maps = 100
    \<and> (\<forall>j < length ?es. describes (sample_ts 8) 8 (?es ! j) (maps ! j)) \<and> (\<forall>j < 100. length ?es \<le> j \<longrightarrow> maps ! j = zero_map)"
    by (rule managed_map_printed) (simp_all add: sample_ts_cpus map_ok_def range_ok_def)
  then obtain maps where m: "wayca_managed_thread_init (sample_ts 8) (Some ''1,3@c0-7:3$1 2,4@n0-1$2 9@c1$1'') = Some maps"
      "\<forall>j < length ?es. describes (sample_ts 8) 8 (?es ! j) (maps ! j)"
    unfolding p by blast
  have "list_cpus 8 [(9, 9, 1)] = {}" by (simp add: list_cpus_def accepted_def)
  then show ?thesis
    using m(1) spec [OF m(2), of 0] spec [OF m(2), of 1] spec [OF m(2), of 2]
    by (intro exI [of _ maps]) (simp add: describes_def)
qed

text \<open>The CPU set of a managed thread is that of the first entry whose tasks contain its number, and
  \<^verbatim>\<open>-1\<close> is returned exactly when no entry does.\<close>

theorem managed_cpumask_first:
  "case wayca_managed_thread_cpumask maps tid of
     (ret, Some m) \<Rightarrow> ret = 0 \<and> (\<exists>i < length maps. CPU_ISSET tid (m_tasks (maps ! i)) \<and> m = m_cpus (maps ! i)
       \<and> (\<forall>j < i. \<not> CPU_ISSET tid (m_tasks (maps ! j))))
   | (ret, None) \<Rightarrow> ret = - 1 \<and> (\<forall>mp \<in> set maps. \<not> CPU_ISSET tid (m_tasks mp))"
  by (auto simp: wayca_managed_thread_cpumask_def find_None_iff find_Some_iff split: option.splits)

theorem managed_cpumask_first_witness:
  "wayca_managed_thread_cpumask [zero_map, zero_map\<lparr>m_tasks := sample_cpus, m_cpus := sample_cpus\<rparr>] 3
     = (0, Some sample_cpus)"
proof -
  let ?maps = "[zero_map, zero_map\<lparr>m_tasks := sample_cpus, m_cpus := sample_cpus\<rparr>]"
  have "\<not> CPU_ISSET 3 CPU_ZERO" "CPU_ISSET 3 sample_cpus"
    by code_simp+
  then show ?thesis
    using managed_cpumask_first [of ?maps 3]
    by (simp add: zero_map_def wayca_managed_thread_cpumask_def)
qed

end
