(* ===== verification/Mem.thy ===== *)
theory Mem
  imports TopoQuery
begin

text \<open>
  Memory policies, \<^verbatim>\<open>lib/mem.c\<close>. The kernel is the results of the three system calls, a parameter, and
  the list of calls made, which the properties talk about. A mask passed to the kernel is the set of
  node numbers; \<^verbatim>\<open>node_set_t\<close> is \<^verbatim>\<open>cpu_set_t\<close>.
\<close>

section \<open>The system calls\<close>

abbreviation (input) MPOL_DEFAULT :: int where "MPOL_DEFAULT \<equiv> 0"
abbreviation (input) MPOL_PREFERRED :: int where "MPOL_PREFERRED \<equiv> 1"
abbreviation (input) MPOL_BIND :: int where "MPOL_BIND \<equiv> 2"
abbreviation (input) MPOL_INTERLEAVE :: int where "MPOL_INTERLEAVE \<equiv> 3"

datatype mem_call =
    Set_mempolicy int "cpu_set_t option" int
  | Migrate_pages int int cpu_set_t cpu_set_t

text \<open>A failing call gives a negative error number. \<^verbatim>\<open>get_mempolicy\<close> gives the mode and the mask.\<close>

record mem_kernel =
  mk_result :: "mem_call \<Rightarrow> int"
  mk_policy :: "nat \<Rightarrow> int + int \<times> cpu_set_t"
  mk_calls :: "mem_call list"

definition mem_syscall :: "mem_kernel \<Rightarrow> mem_call \<Rightarrow> int \<times> mem_kernel" where
  "mem_syscall k c = (mk_result k c, k\<lparr>mk_calls := mk_calls k @ [c]\<rparr>)"

definition set_mempolicy :: "mem_kernel \<Rightarrow> int \<Rightarrow> cpu_set_t option \<Rightarrow> int \<Rightarrow> int \<times> mem_kernel" where
  "set_mempolicy k mode nodemask maxnode = mem_syscall k (Set_mempolicy mode nodemask maxnode)"

definition migrate_pages :: "mem_kernel \<Rightarrow> int \<Rightarrow> int \<Rightarrow> cpu_set_t \<Rightarrow> cpu_set_t \<Rightarrow> int \<times> mem_kernel" where
  "migrate_pages k pid maxnode frommask tomask = mem_syscall k (Migrate_pages pid maxnode frommask tomask)"

definition get_mempolicy :: "mem_kernel \<Rightarrow> nat \<Rightarrow> int + int \<times> cpu_set_t" where
  "get_mempolicy k maxnode = mk_policy k maxnode"

definition set_node_mask :: "int \<Rightarrow> cpu_set_t" where
  "set_node_mask node = CPU_SET node CPU_ZERO"

section \<open>The operations\<close>

text \<open>\<^verbatim>\<open>ret = <query>(sizeof(node_set_t), &mask); if (ret < 0) return ret;\<close>\<close>

definition with_mask :: "(int \<times> cpu_set_t option \<times> topo_env) option
    \<Rightarrow> (cpu_set_t \<Rightarrow> topo_env \<Rightarrow> (int \<times> topo_env \<times> mem_kernel) option) \<Rightarrow> mem_kernel
    \<Rightarrow> (int \<times> topo_env \<times> mem_kernel) option" where
  "with_mask query cont k = do {
     (ret, m, s) \<leftarrow> query;
     if ret < 0 then Some (ret, s, k) else do { m \<leftarrow> m; cont m s }
   }"

definition wayca_sc_mem_interleave_in_package where
  "wayca_sc_mem_interleave_in_package e s k package =
     with_mask (wayca_sc_package_node_mask e s package 128 True) (\<lambda>m s.
       let (ret, k) = set_mempolicy k MPOL_INTERLEAVE (Some m) (wayca_sc_nodes_in_total (te s) + 1)
       in Some (ret, s, k)) k"

definition wayca_sc_mem_interleave_in_all where
  "wayca_sc_mem_interleave_in_all e s k =
     with_mask (wayca_sc_total_node_mask e s 128 True) (\<lambda>m s.
       let (ret, k) = set_mempolicy k MPOL_INTERLEAVE (Some m) (wayca_sc_nodes_in_total (te s) + 1)
       in Some (ret, s, k)) k"

definition wayca_sc_mem_bind_node :: "topo_env \<Rightarrow> mem_kernel \<Rightarrow> int \<Rightarrow> int \<times> mem_kernel" where
  "wayca_sc_mem_bind_node s k node =
     (if node < 0 \<or> wayca_sc_nodes_in_total (te s) \<le> node then (- EINVAL, k)
      else set_mempolicy k MPOL_BIND (Some (set_node_mask node)) (wayca_sc_nodes_in_total (te s) + 1))"

definition wayca_sc_mem_bind_package where
  "wayca_sc_mem_bind_package e s k package =
     with_mask (wayca_sc_package_node_mask e s package 128 True) (\<lambda>m s.
       let (ret, k) = set_mempolicy k MPOL_BIND (Some m) (wayca_sc_nodes_in_total (te s) + 1)
       in Some (ret, s, k)) k"

definition wayca_sc_mem_unbind :: "topo_env \<Rightarrow> mem_kernel \<Rightarrow> int \<times> mem_kernel" where
  "wayca_sc_mem_unbind s k = set_mempolicy k MPOL_DEFAULT None (wayca_sc_nodes_in_total (te s))"

text \<open>The return value, and the mask when the call wrote it.\<close>

definition wayca_sc_get_mem_bind_nodes :: "mem_kernel \<Rightarrow> nat \<Rightarrow> int \<times> cpu_set_t option" where
  "wayca_sc_get_mem_bind_nodes k maxnode = (case get_mempolicy k maxnode of
       Inl ret \<Rightarrow> (ret, None)
     | Inr (mode, m) \<Rightarrow>
         (if (word_of_int mode :: 32 word) AND word_of_int (MPOL_BIND OR MPOL_INTERLEAVE) \<noteq> 0
          then 0 else - ENODATA, Some m))"

definition wayca_sc_mem_migrate_to_node where
  "wayca_sc_mem_migrate_to_node e s k pid node =
     with_mask (wayca_sc_total_node_mask e s 128 True) (\<lambda>all_mask s.
       let (ret, k) = migrate_pages k pid (wayca_sc_nodes_in_total (te s) + 1) all_mask (set_node_mask node)
       in Some (ret, s, k)) k"

definition wayca_sc_mem_migrate_to_package where
  "wayca_sc_mem_migrate_to_package e s k pid package =
     with_mask (wayca_sc_total_node_mask e s 128 True) (\<lambda>all_mask s.
       with_mask (wayca_sc_package_node_mask e s package 128 True) (\<lambda>pack_mask s.
         let (ret, k) = migrate_pages k pid (wayca_sc_nodes_in_total (te s) + 1) all_mask pack_mask
         in Some (ret, s, k)) k) k"

section \<open>What the kernel is asked\<close>

text \<open>The nodes the kernel sees in a mask of \<open>maxnode\<close> bits: it reads \<^verbatim>\<open>maxnode - 1\<close> of them.\<close>

definition nodes_seen :: "cpu_set_t \<Rightarrow> int \<Rightarrow> nat set" where
  "nodes_seen m maxnode = cpus m \<inter> {..<nat (maxnode - 1)}"

text \<open>C29. Binding memory to a node: for a node of the machine exactly one policy is set, binding to a mask
  in which the kernel sees exactly that node, and its result is returned; for any other number
  \<^verbatim>\<open>-EINVAL\<close> is returned and the kernel is not called.\<close>

theorem mem_bind_node_correct:
  assumes "n_nodes (tt s) \<le> 1024"
  shows "if 0 \<le> node \<and> node < int (n_nodes (tt s)) then
      \<exists>m mx. wayca_sc_mem_bind_node s k node
          = (mk_result k (Set_mempolicy MPOL_BIND (Some m) mx), k\<lparr>mk_calls := mk_calls k @ [Set_mempolicy MPOL_BIND (Some m) mx]\<rparr>)
        \<and> nodes_seen m mx = {nat node}
    else wayca_sc_mem_bind_node s k node = (- EINVAL, k)"
proof (cases "0 \<le> node \<and> node < int (n_nodes (tt s))")
  case True
  then have n: "wayca_sc_nodes_in_total (te s) = int (n_nodes (tt s))"
    by (auto simp: wayca_sc_nodes_in_total_def)
  have "nodes_seen (set_node_mask node) (int (n_nodes (tt s)) + 1) = {nat node}"
    using True assms
    by (auto simp: nodes_seen_def set_node_mask_def cpus_CPU_SET_gen cpus_const CPU_ZERO_def [THEN arg_cong, of length])
  then show ?thesis
    using True n by (auto simp: wayca_sc_mem_bind_node_def set_mempolicy_def mem_syscall_def)
next
  case False
  then show ?thesis
    by (auto simp: wayca_sc_mem_bind_node_def wayca_sc_nodes_in_total_def)
qed

definition sample_mem :: mem_kernel where
  "sample_mem = \<lparr>mk_result = (\<lambda>_. 0), mk_policy = (\<lambda>_. Inr (MPOL_PREFERRED, CPU_ZERO)), mk_calls = []\<rparr>"

definition sample_env :: topo_env where
  "sample_env = \<lparr>te = \<lparr>topo = zero_topo\<lparr>nodes := [zero_node, zero_node]\<rparr>, max_cores = 0, max_ccls = 0\<rparr>,
     te_irqs = None, te_max = 1\<rparr>"

theorem mem_bind_node_correct_witness:
  "\<exists>m mx. wayca_sc_mem_bind_node sample_env sample_mem 1
      = (0, sample_mem\<lparr>mk_calls := [Set_mempolicy MPOL_BIND (Some m) mx]\<rparr>) \<and> nodes_seen m mx = {1}"
  using mem_bind_node_correct [of sample_env 1 sample_mem] by (simp add: sample_env_def sample_mem_def)

text \<open>\<^verbatim>\<open>wayca_sc_get_mem_bind_nodes\<close> tests the mode bit by bit: it reports a binding for the policies
  that bind and interleave, but also for a process whose policy only prefers a node.\<close>

theorem get_mem_bind_nodes_modes:
  "mk_policy k mx = Inr (mode, m) \<Longrightarrow> 0 \<le> mode \<Longrightarrow> mode \<le> 3 \<Longrightarrow>
     wayca_sc_get_mem_bind_nodes k mx
       = (if mode = MPOL_BIND \<or> mode = MPOL_INTERLEAVE \<or> mode = MPOL_PREFERRED then 0 else - ENODATA, Some m)"
proof -
  assume a: "mk_policy k mx = Inr (mode, m)" "0 \<le> mode" "mode \<le> 3"
  then have "mode = 0 \<or> mode = 1 \<or> mode = 2 \<or> mode = 3" by linarith
  then show ?thesis
    using a(1) by (auto simp: wayca_sc_get_mem_bind_nodes_def get_mempolicy_def)
qed

theorem get_mem_bind_nodes_modes_witness:
  "wayca_sc_get_mem_bind_nodes sample_mem 128 = (0, Some CPU_ZERO)"
  using get_mem_bind_nodes_modes [of sample_mem 128 MPOL_PREFERRED CPU_ZERO] by (simp add: sample_mem_def)

end
