(* ===== verification/Irq.thy ===== *)
theory Irq
  imports TopoQuery
begin

text \<open>
  The affinity of interrupts, \<^verbatim>\<open>lib/irq.c\<close>: printing a CPU set as comma separated hexadecimal groups
  for \<^verbatim>\<open>/proc/irq/<n>/smp_affinity\<close>, reading such a string back, and the two functions of the
  library that write and read that file. The file system is a parameter.
\<close>

section \<open>Printing\<close>

definition hex_char :: "nat \<Rightarrow> char" where
  "hex_char d = char_of (if d < 10 then 48 + d else 87 + d)"

fun hex :: "nat \<Rightarrow> string" where
  "hex n = (if n < 16 then [hex_char n] else hex (n div 16) @ [hex_char (n mod 16)])"

declare hex.simps [simp del]

text \<open>The conversion \<^verbatim>\<open>%0*lx\<close>.\<close>

definition pad_hex :: "nat \<Rightarrow> nat \<Rightarrow> string" where
  "pad_hex w n = replicate (w - length (hex n)) CHR ''0'' @ hex n"

text \<open>The loop over the groups, from the one at bit \<open>i\<close> down. \<open>first\<close> is true until a group has been
  printed; the separator is empty as long. The buffer is large enough for the at most 32 groups
  that 16 words have (\<open>scnprintf_fits\<close>).\<close>

function scnprintf_loop :: "cpu_set_t \<Rightarrow> int \<Rightarrow> nat \<Rightarrow> bool \<Rightarrow> string option" where
  "scnprintf_loop maskp i chunksz first =
     (if i < 0 then Some []
      else do {
        w \<leftarrow> rd maskp (nat i div 64);
        let val = drop_bit (nat i mod 64) w AND (push_bit chunksz 1 - 1);
        if val \<noteq> 0 \<or> \<not> first \<or> i = 0 then do {
          rest \<leftarrow> scnprintf_loop maskp (i - 32) 32 False;
          Some ((if first then [] else [CHR '','']) @ pad_hex ((chunksz + 3) div 4) (unat val) @ rest)
        } else scnprintf_loop maskp (i - 32) 32 True
      })"
  by auto
termination
  by (relation "measure (\<lambda>(_, i, _). nat (i + 32))") auto

declare scnprintf_loop.simps [simp del]

text \<open>\<open>i\<close> is an \<^verbatim>\<open>int\<close> computed from unsigned numbers.\<close>

definition bitmap_scnprintf :: "cpu_set_t \<Rightarrow> int \<Rightarrow> string option" where
  "bitmap_scnprintf maskp nmaskbits =
     (let n = word_of_int nmaskbits :: 32 word;
          chunksz = unat (n AND 31);
          chunksz = (if chunksz = 0 then 32 else chunksz);
          i = sint (((n + 31) AND NOT 31) - 32)
      in scnprintf_loop maskp i chunksz True)"

section \<open>Reading\<close>

text \<open>The \<^verbatim>\<open>unsigned int\<close> at position \<open>pos\<close> of the set, on a little-endian machine.\<close>

definition or32 :: "cpu_set_t \<Rightarrow> nat \<Rightarrow> ulong \<Rightarrow> cpu_set_t option" where
  "or32 m pos v = do {
     w \<leftarrow> rd m (pos div 2);
     wr m (pos div 2) (w OR push_bit (32 * (pos mod 2)) v)
   }"

text \<open>The characters before the newline, last one first.\<close>

fun mask_loop :: "string \<Rightarrow> nat \<Rightarrow> nat \<Rightarrow> cpu_set_t \<Rightarrow> (int \<times> cpu_set_t) option" where
  "mask_loop [] i pos m = Some (0, m)"
| "mask_loop (c # cs) i pos m =
     (if c = CHR '','' \<or> c = CHR 0x0A then mask_loop cs i pos m
      else let num = hex_to_bin c in
        if num < 0 then Some (- EINVAL, m)
        else do {
          m \<leftarrow> or32 m pos (push_bit i (word_of_int num));
          if 32 \<le> i + 4 then mask_loop cs 0 (pos + 1) m else mask_loop cs (i + 4) pos m
        })"

text \<open>\<open>errno\<close> is its value at the call; the set is written when a newline was found.\<close>

definition bitmap_str_to_cpumask :: "int \<Rightarrow> string \<Rightarrow> nat \<Rightarrow> (int \<times> cpu_set_t option) option" where
  "bitmap_str_to_cpumask errno start len =
     (if len = 0 then Some (- errno, None)
      else if CHR 0x0A \<notin> set start then Some (- EINVAL, None)
      else map_option (\<lambda>(ret, m). (ret, Some m))
             (mask_loop (rev (takeWhile (\<lambda>c. c \<noteq> CHR 0x0A) start)) 0 0 CPU_ZERO))"

section \<open>The files\<close>

text \<open>\<^verbatim>\<open>/proc/irq/<n>/smp_affinity\<close>: its contents or the error number of opening or reading it, and the
  error number of opening it for writing (0 when it can be opened) and of writing a string.\<close>

record irq_files =
  irq_contents :: "int \<Rightarrow> int + string"
  irq_open :: "int \<Rightarrow> int"
  irq_write :: "int \<Rightarrow> string \<Rightarrow> int"

definition irq_path :: "int \<Rightarrow> string" where
  "irq_path irq = ''/proc/irq/'' @ decimal_int irq @ ''/smp_affinity''"

text \<open>The return value and what is written. Without a CPU count the loop prints nothing and the buffer
  still holds the path.\<close>

definition wayca_sc_irq_bind_cpu :: "irq_files \<Rightarrow> topo_state \<Rightarrow> int \<Rightarrow> int \<Rightarrow> (int \<times> string option) option" where
  "wayca_sc_irq_bind_cpu f ts irq cpu =
     (let cmask = CPU_SET cpu CPU_ZERO in
      if irq_open f irq \<noteq> 0 then Some (- irq_open f irq, None)
      else do {
        str \<leftarrow> bitmap_scnprintf cmask (wayca_sc_cpus_in_total ts);
        let buf = (if str = [] then irq_path irq else str);
        Some (if irq_write f irq buf \<noteq> 0 then - irq_write f irq buf else 0, Some buf)
      })"

definition wayca_sc_get_irq_bind_cpu ::
    "irq_files \<Rightarrow> topo_state \<Rightarrow> int \<Rightarrow> int \<Rightarrow> nat \<Rightarrow> bool \<Rightarrow> (int \<times> cpu_set_t option) option" where
  "wayca_sc_get_irq_bind_cpu f ts errno irq cpusetsize nonnull =
     (if \<not> nonnull then Some (- EINVAL, None)
      else case irq_contents f irq of
        Inl e \<Rightarrow> Some (- e, None)
      | Inr contents \<Rightarrow> (let buf = take 4095 contents in do {
          (ret, cmask) \<leftarrow> bitmap_str_to_cpumask errno (takeWhile (\<lambda>c. c \<noteq> CHR 0x00) buf) (length buf);
          if ret \<noteq> 0 then Some (ret, None)
          else if cpusetsize < unat (CPU_ALLOC_SIZE (wayca_sc_cpus_in_total ts)) then Some (- EINVAL, None)
          else do {
            m \<leftarrow> cmask;
            if length m < cpusetsize div 8 then None
            else Some (0, Some (take (cpusetsize div 8) m))
          }
        }))"

section \<open>Printed sets are read back\<close>

text \<open>The digits of a number in a fixed width.\<close>

fun hex_fixed :: "nat \<Rightarrow> nat \<Rightarrow> string" where
  "hex_fixed 0 n = []"
| "hex_fixed (Suc w) n = hex_fixed w (n div 16) @ [hex_char (n mod 16)]"

lemma length_hex_fixed [simp]: "length (hex_fixed w n) = w"
  by (induction w arbitrary: n) auto

lemma hex_fixed_eq_Nil [simp]: "hex_fixed w n = [] \<longleftrightarrow> w = 0"
  by (cases w) auto

lemma hex_fixed_0: "hex_fixed w 0 = replicate w CHR ''0''"
proof -
  have "hex_char 0 = CHR ''0''" by code_simp
  then show ?thesis
    by (induction w) (simp_all add: replicate_append_same)
qed

lemma pad_hex_fixed: "n < 16 ^ w \<Longrightarrow> 0 < w \<Longrightarrow> pad_hex w n = hex_fixed w n \<and> length (hex n) \<le> w"
proof (induction w arbitrary: n)
  case (Suc w)
  show ?case
  proof (cases "n < 16")
    case True
    then show ?thesis
      by (simp add: pad_hex_def hex.simps [of n] hex_fixed_0)
  next
    case False
    have "n div 16 < 16 ^ w" "0 < w"
      using Suc.prems False by (auto simp: less_mult_imp_div_less intro: Suc_lessI gr0I)
    then show ?thesis
      using Suc.IH [of "n div 16"] False by (auto simp: pad_hex_def hex.simps [of n])
  qed
qed simp

lemma hex_char_reads:
  assumes "d < 16"
  shows "hex_to_bin (hex_char d) = int d" and "hex_char d \<notin> {CHR '','', CHR 0x0A, CHR 0x00}"
proof -
  have "d \<in> set [0..<16]"
    using assms by simp
  moreover have "list_all (\<lambda>d. hex_to_bin (hex_char d) = int d
      \<and> hex_char d \<notin> {CHR '','', CHR 0x0A, CHR 0x00}) [0..<16]"
    by code_simp
  ultimately show "hex_to_bin (hex_char d) = int d" "hex_char d \<notin> {CHR '','', CHR 0x0A, CHR 0x00}"
    by (simp_all add: list_all_iff del: upt_conv_Cons set_upt)
qed

lemma or32_some: "pos div 2 < length m \<Longrightarrow> \<exists>m'. or32 m pos v = Some m' \<and> length m' = length m"
  by (simp add: or32_def rd_def wr_def)

lemma or32_or32: "or32 m pos v \<bind> (\<lambda>m. or32 m pos u) = or32 m pos (v OR u)"
  by (simp add: or32_def rd_def wr_def push_bit_or or.assoc)

lemma nibbles: "(of_nat n :: ulong) = of_nat (n mod 16) OR push_bit 4 (of_nat (n div 16))"
proof -
  have "n mod 16 OR push_bit 4 (n div 16) = n"
    by (rule bit_eqI)
      (auto simp: bit_or_iff bit_push_bit_iff bit_simps take_bit_eq_mod [of 4, simplified, symmetric]
        drop_bit_eq_div [of 4, simplified, symmetric] not_less intro: ccontr)
  then show ?thesis
    by (metis of_nat_or_eq push_bit_of_nat)
qed

text \<open>Reading a fixed number of digits sets the bits of the number they print.\<close>

lemma mask_loop_digits:
  assumes "i + 4 * w \<le> 32" "0 < w" "n < 16 ^ w"
  shows "mask_loop (rev (hex_fixed w n) @ cs) i pos m
    = or32 m pos (push_bit i (of_nat n)) \<bind>
        (\<lambda>m. if i + 4 * w = 32 then mask_loop cs 0 (pos + 1) m else mask_loop cs (i + 4 * w) pos m)"
  using assms
proof (induction w arbitrary: n i m)
  case (Suc w)
  have d: "hex_to_bin (hex_char (n mod 16)) = int (n mod 16)"
      "hex_char (n mod 16) \<noteq> CHR '',''" "hex_char (n mod 16) \<noteq> CHR 0x0A"
    using hex_char_reads [of "n mod 16"] by auto
  show ?case
  proof (cases w)
    case 0
    then have "n mod 16 = n" using Suc.prems by simp
    then show ?thesis
      using d 0 Suc.prems by (auto simp: Let_def intro!: Option.bind_cong)
  next
    case (Suc w')
    have e: "i + 4 * Suc w = i + 4 + 4 * w" by simp
    have "n div 16 < 16 ^ w"
      using Suc.prems(3) by (simp add: less_mult_imp_div_less)
    moreover have "i + 4 + 4 * w \<le> 32" "0 < w" "\<not> 32 \<le> i + 4"
      using Suc.prems(1) Suc by simp_all
    ultimately have "mask_loop (rev (hex_fixed (Suc w) n) @ cs) i pos m
        = or32 m pos (push_bit i (of_nat (n mod 16))) \<bind> (\<lambda>m. or32 m pos (push_bit (i + 4) (of_nat (n div 16)))
            \<bind> (\<lambda>m. if i + 4 * Suc w = 32 then mask_loop cs 0 (pos + 1) m else mask_loop cs (i + 4 * Suc w) pos m))"
      using d Suc.IH [of "i + 4" "n div 16"] unfolding e by (simp add: Let_def)
    also have "\<dots> = (or32 m pos (push_bit i (of_nat (n mod 16))) \<bind> (\<lambda>m. or32 m pos (push_bit (i + 4) (of_nat (n div 16)))))
            \<bind> (\<lambda>m. if i + 4 * Suc w = 32 then mask_loop cs 0 (pos + 1) m else mask_loop cs (i + 4 * Suc w) pos m)"
      by (simp add: bind_assoc)
    also have "\<dots> = or32 m pos (push_bit i (of_nat n))
            \<bind> (\<lambda>m. if i + 4 * Suc w = 32 then mask_loop cs 0 (pos + 1) m else mask_loop cs (i + 4 * Suc w) pos m)"
      unfolding or32_or32 by (subst (3) nibbles) (simp add: push_bit_or)
    finally show ?thesis .
  qed
qed simp

text \<open>The 32 bits that group \<open>k\<close> prints, and setting the first \<open>k\<close> groups.\<close>

definition chunk :: "cpu_set_t \<Rightarrow> nat \<Rightarrow> ulong" where
  "chunk src k = take_bit 32 (drop_bit (32 * (k mod 2)) (src ! (k div 2)))"

fun or_chunks :: "cpu_set_t \<Rightarrow> nat \<Rightarrow> cpu_set_t \<Rightarrow> cpu_set_t option" where
  "or_chunks src 0 m = Some m"
| "or_chunks src (Suc k) m = do { m \<leftarrow> or_chunks src k m; or32 m k (chunk src k) }"

lemma take_bit_fits: "unat (take_bit c (w :: ulong)) < 16 ^ ((c + 3) div 4)"
proof -
  have "unat (take_bit c w) < 2 ^ c"
    by (simp add: unsigned_take_bit_eq)
  also have "(2 :: nat) ^ c \<le> 2 ^ (4 * ((c + 3) div 4))"
    by (rule power_increasing) auto
  finally show ?thesis
    by (simp add: power_mult)
qed

lemma scnprintf_step:
  assumes "k div 2 < length src" "0 < c" "c \<le> 32"
  shows "scnprintf_loop src (32 * int k) c first =
    (let v = take_bit c (drop_bit (32 * (k mod 2)) (src ! (k div 2))) in
     if v \<noteq> 0 \<or> \<not> first \<or> k = 0 then do {
       rest \<leftarrow> scnprintf_loop src (32 * int k - 32) 32 False;
       Some ((if first then [] else [CHR '','']) @ hex_fixed ((c + 3) div 4) (unat v) @ rest)
     } else scnprintf_loop src (32 * int k - 32) 32 True)"
proof -
  have i: "nat (32 * int k) div 64 = k div 2" "nat (32 * int k) mod 64 = 32 * (k mod 2)"
    using div_mult_mult1 [of 32 k 2] mult_mod_right [of 32 k 2] by (simp_all add: nat_mult_distrib)
  have m: "w AND (push_bit c 1 - 1) = take_bit c w" for w :: ulong
    by (simp add: take_bit_eq_mask mask_eq_exp_minus_1 push_bit_eq_mult)
  have "pad_hex ((c + 3) div 4) (unat (take_bit c w)) = hex_fixed ((c + 3) div 4) (unat (take_bit c w))"
    for w :: ulong
    using pad_hex_fixed [OF take_bit_fits [of c w]] assms(2) by simp
  note pad = this
  have "\<not> 32 * int k < 0" "32 * int k = 0 \<longleftrightarrow> k = 0"
    by simp_all
  then show ?thesis
    by (subst scnprintf_loop.simps) (simp only: i m pad rd_def assms(1) Let_def if_True if_False
        Option.bind.simps)
qed

lemma scnprintf_rest:
  assumes "k \<le> 2 * length src" "length src \<le> length m"
  shows "\<exists>str. scnprintf_loop src (32 * int k - 32) 32 False = Some str
    \<and> (\<forall>cs. mask_loop (rev str @ cs) 0 0 m = or_chunks src k m \<bind> mask_loop cs 0 k)
    \<and> length str = 9 * k"
  using assms
proof (induction k)
  case 0
  then show ?case by (simp add: scnprintf_loop.simps)
next
  case (Suc k)
  then obtain str where str: "scnprintf_loop src (32 * int k - 32) 32 False = Some str"
      "\<And>cs. mask_loop (rev str @ cs) 0 0 m = or_chunks src k m \<bind> mask_loop cs 0 k" "length str = 9 * k"
    by auto
  let ?v = "chunk src k"
  have k: "k div 2 < length src" using Suc.prems by simp
  have "scnprintf_loop src (32 * int (Suc k) - 32) 32 False
      = Some (CHR '','' # hex_fixed 8 (unat ?v) @ str)"
    using scnprintf_step [OF k, of 32 False] str(1) by (simp add: chunk_def Let_def algebra_simps)
  moreover have "mask_loop (rev (CHR '','' # hex_fixed 8 (unat ?v) @ str) @ cs) 0 0 m
      = or_chunks src (Suc k) m \<bind> mask_loop cs 0 (Suc k)" for cs
  proof -
    have "unat ?v < 16 ^ 8"
      using take_bit_fits [of 32] by (simp add: chunk_def)
    then have "mask_loop (rev (hex_fixed 8 (unat ?v)) @ CHR '','' # cs) 0 k
        = (\<lambda>m. or32 m k ?v \<bind> mask_loop cs 0 (Suc k))"
      using mask_loop_digits [of 0 8 "unat ?v" "CHR '','' # cs" k] by (intro ext) simp
    then show ?thesis
      using str(2) [of "rev (hex_fixed 8 (unat ?v)) @ CHR '','' # cs"] by simp
  qed
  ultimately show ?case
    using str(3) by simp
qed

lemma or32_zero: "pos div 2 < length m \<Longrightarrow> or32 m pos 0 = Some m"
  by (simp add: or32_def rd_def wr_def)

lemma or_chunks_some:
  "k \<le> 2 * length m \<Longrightarrow> \<exists>m'. or_chunks src k m = Some m' \<and> length m' = length m"
proof (induction k)
  case (Suc k)
  then obtain m1 where "or_chunks src k m = Some m1" "length m1 = length m" by auto
  then show ?case
    using or32_some [of k m1 "chunk src k"] Suc.prems by auto
qed simp

lemma scnprintf_first:
  assumes "k div 2 < length src" "length src \<le> length m" "0 < c" "c \<le> 32"
  shows "\<exists>str. scnprintf_loop src (32 * int k) c True = Some str \<and> str \<noteq> [] \<and> length str \<le> 9 * k + 8
    \<and> mask_loop (rev str) 0 0 m = or_chunks src k m
        \<bind> (\<lambda>m. or32 m k (take_bit c (drop_bit (32 * (k mod 2)) (src ! (k div 2))))) \<bind> (\<lambda>m. Some (0, m))"
  using assms
proof (induction k arbitrary: c)
  case 0
  let ?v = "take_bit c (src ! 0)"
  have "mask_loop (rev (hex_fixed ((c + 3) div 4) (unat ?v)) @ []) 0 0 m
      = or32 m 0 ?v \<bind> (\<lambda>m. Some (0, m))"
    using 0 mask_loop_digits [OF _ _ take_bit_fits [of c "src ! 0"], of 0 "[]" 0 m]
    by (cases "4 * ((c + 3) div 4) = 32") simp_all
  moreover have "scnprintf_loop src (32 * int 0) c True = Some (hex_fixed ((c + 3) div 4) (unat ?v))"
    using scnprintf_step [OF 0(1,3,4), of True] by (simp add: scnprintf_loop.simps Let_def)
  moreover have "hex_fixed ((c + 3) div 4) (unat ?v) \<noteq> []" "(c + 3) div 4 \<le> 8"
    using 0 by simp_all
  ultimately show ?case by simp
next
  case (Suc k)
  let ?v = "take_bit c (drop_bit (32 * (Suc k mod 2)) (src ! (Suc k div 2)))"
  have i: "32 * int (Suc k) - 32 = 32 * int k" by simp
  show ?case
  proof (cases "?v = 0")
    case True
    have k: "k div 2 < length src"
      using Suc.prems(1) by linarith
    from Suc.IH [OF k Suc.prems(2), of 32] obtain str where
      str: "scnprintf_loop src (32 * int k) 32 True = Some str" "str \<noteq> []" "length str \<le> 9 * k + 8"
      "mask_loop (rev str) 0 0 m = or_chunks src k m \<bind> (\<lambda>m. or32 m k (chunk src k)) \<bind> (\<lambda>m. Some (0, m))"
      by (auto simp: chunk_def)
    have "Suc k \<le> 2 * length m"
      using Suc.prems by linarith
    from or_chunks_some [OF this, of src] obtain m' where m': "or_chunks src (Suc k) m = Some m'" "length m' = length m"
      by blast
    have "or32 m' (Suc k) ?v = Some m'"
      unfolding True using m' Suc.prems by (intro or32_zero) simp
    moreover have "mask_loop (rev str) 0 0 m = Some (0, m')"
      unfolding str(4) using m'(1) by simp
    ultimately show ?thesis
      using True str(1-3) m'(1) scnprintf_step [OF Suc.prems(1,3,4), of True] unfolding i
      by (simp add: Let_def del: Option.bind_assoc or_chunks.simps)
  next
    case False
    have k: "Suc k \<le> 2 * length src"
      using Suc.prems(1) by linarith
    from scnprintf_rest [OF k Suc.prems(2)] obtain str where
      str: "scnprintf_loop src (32 * int k) 32 False = Some str" "length str = 9 * Suc k"
      "\<And>cs. mask_loop (rev str @ cs) 0 0 m = or_chunks src (Suc k) m \<bind> mask_loop cs 0 (Suc k)"
      unfolding i by blast
    have d: "mask_loop (rev (hex_fixed ((c + 3) div 4) (unat ?v)) @ []) 0 (Suc k)
        = (\<lambda>m. or32 m (Suc k) ?v \<bind> (\<lambda>m. Some (0, m)))"
      using Suc.prems(3,4) mask_loop_digits [of 0 "(c + 3) div 4" "unat ?v" "[]" "Suc k"] take_bit_fits
      by (intro ext) (cases "4 * ((c + 3) div 4) = 32"; simp)
    have "(c + 3) div 4 \<le> 8" "str \<noteq> []"
      using Suc.prems(4) str(2) by auto
    then show ?thesis
      using False str scnprintf_step [OF Suc.prems(1,3,4), of True] d unfolding i
      by (simp add: Let_def bind_assoc)
  qed
qed

lemma halves:
  fixes p :: nat
  shows "p div 64 = p div 32 div 2" and "p mod 64 = 32 * (p div 32 mod 2) + p mod 32"
  using div_mult2_eq [of p 32 2] mod_mult2_eq [of p 32 2] by simp_all

lemma abit_or32:
  assumes "or32 m pos v = Some m'" "take_bit 32 v = v" "p < 64 * length m"
  shows "abit m' p \<longleftrightarrow> abit m p \<or> p div 32 = pos \<and> bit v (p mod 32)"
proof -
  have m': "pos div 2 < length m" "m' = m[pos div 2 := m ! (pos div 2) OR push_bit (32 * (pos mod 2)) v]"
    using assms(1) by (auto simp: or32_def rd_def wr_def split: if_splits)
  have b: "bit v i \<Longrightarrow> i < 32" for i
    using assms(2) by (metis bit_take_bit_iff)
  have "bit (push_bit (32 * (pos mod 2)) v) (p mod 64) \<longleftrightarrow> p div 32 = pos \<and> bit v (p mod 32)"
    if e: "p div 32 div 2 = pos div 2"
  proof (cases "p div 32 = pos")
    case True
    have "32 * (pos mod 2) + p mod 32 < 64"
      using mod_less_divisor [of 2 pos] mod_less_divisor [of 32 p] by linarith
    then show ?thesis using True by (simp add: halves bit_push_bit_iff)
  next
    case False
    then have "p div 32 mod 2 \<noteq> pos mod 2"
      using e by (metis div_mult_mod_eq)
    then have "p div 32 mod 2 = 1 \<and> pos mod 2 = 0 \<or> p div 32 mod 2 = 0 \<and> pos mod 2 = 1"
      by auto
    then show ?thesis
      using False b [of "32 + p mod 32"] by (auto simp: halves bit_push_bit_iff)
  qed
  then show ?thesis
    using assms(3) m' by (auto simp: abit_def nth_list_update bit_or_iff halves(1))
qed

lemma bit_chunk:
  "p div 32 = k \<Longrightarrow> bit (take_bit c (drop_bit (32 * (k mod 2)) (src ! (k div 2)))) (p mod 32)
     \<longleftrightarrow> p mod 32 < c \<and> abit src p"
  by (auto simp: bit_take_bit_iff bit_drop_bit_eq abit_def halves add.commute)

lemma abit_or_chunks:
  "or_chunks src k m = Some m' \<Longrightarrow> p < 64 * length m \<Longrightarrow> k \<le> 2 * length m
     \<Longrightarrow> abit m' p \<longleftrightarrow> abit m p \<or> p div 32 < k \<and> abit src p"
proof (induction k arbitrary: m')
  case (Suc k)
  obtain m1 where m1: "or_chunks src k m = Some m1" "length m1 = length m"
    using or_chunks_some [of k m src] Suc.prems(3) by auto
  then have "or32 m1 k (chunk src k) = Some m'"
    using Suc.prems(1) by simp
  from abit_or32 [OF this, of p] m1(2) Suc.prems(2)
  have "abit m' p \<longleftrightarrow> abit m1 p \<or> p div 32 = k \<and> bit (chunk src k) (p mod 32)"
    by (simp add: chunk_def)
  then show ?case
    using Suc.IH [OF m1(1) Suc.prems(2)] Suc.prems(3) bit_chunk [of p k 32 src]
    by (auto simp: chunk_def less_Suc_eq)
qed simp

lemma hex_chars: "c \<in> set (hex n) \<Longrightarrow> c \<noteq> CHR 0x0A \<and> c \<noteq> CHR 0x00"
proof (induction n rule: hex.induct)
  case (1 n)
  then show ?case
    using hex_char_reads(2) [of n] hex_char_reads(2) [of "n mod 16"]
    by (cases "n < 16") (auto simp: hex.simps [of n])
qed

lemma scnprintf_chars: "scnprintf_loop src i c first = Some str \<Longrightarrow> CHR 0x0A \<notin> set str \<and> CHR 0x00 \<notin> set str"
proof (induction src i c first arbitrary: str rule: scnprintf_loop.induct)
  case (1 src i c first)
  let ?w = "src ! (nat i div 64)"
  let ?v = "drop_bit (nat i mod 64) ?w AND (push_bit c 1 - 1)"
  show ?case
  proof (cases "i < 0")
    case True
    then show ?thesis using "1.prems" by (simp add: scnprintf_loop.simps)
  next
    case False
    then have w: "rd src (nat i div 64) = Some ?w"
      using "1.prems" by (subst (asm) scnprintf_loop.simps) (auto simp: rd_def split: if_splits)
    show ?thesis
    proof (cases "?v \<noteq> 0 \<or> \<not> first \<or> i = 0")
      case True
      then obtain rest where r: "scnprintf_loop src (i - 32) 32 False = Some rest"
          "str = (if first then [] else [CHR '','']) @ pad_hex ((c + 3) div 4) (unat ?v) @ rest"
        using "1.prems" False w unfolding scnprintf_loop.simps [of src i]
        by (simp only: if_True if_False Option.bind.simps Let_def bind_eq_Some_conv option.inject) metis
      have "CHR 0x0A \<notin> set rest \<and> CHR 0x00 \<notin> set rest"
        by (rule "1.IH"(1) [OF False w refl True r(1)])
      then show ?thesis
        using r(2) by (auto simp: pad_hex_def dest: hex_chars)
    next
      case skip: False
      then have "scnprintf_loop src (i - 32) 32 True = Some str"
        using "1.prems" False w unfolding scnprintf_loop.simps [of src i]
        by (simp only: if_True if_False Option.bind.simps Let_def)
      then show ?thesis
        by (rule "1.IH"(2) [OF False w refl skip])
    qed
  qed
qed

lemma le_div_mod: "(p :: nat) \<le> x \<longleftrightarrow> p div 32 < x div 32 \<or> p div 32 = x div 32 \<and> p mod 32 < x mod 32 + 1"
proof -
  have "p = 32 * (p div 32) + p mod 32" "x = 32 * (x div 32) + x mod 32" "p mod 32 < 32" "x mod 32 < 32"
    by simp_all
  then show ?thesis by linarith
qed

text \<open>The start of the loop for \<open>n\<close> bits: the last group and its size.\<close>

lemma scnprintf_start:
  assumes "0 < n" "n \<le> 1024"
  shows "bitmap_scnprintf src (int n)
    = scnprintf_loop src (32 * int ((n - 1) div 32)) ((n - 1) mod 32 + 1) True"
proof -
  let ?w = "word_of_int (int n) :: 32 word"
  have w: "word_of_int x AND 31 = (word_of_int (x mod 32) :: 32 word)"
      "word_of_int x AND NOT 31 = (word_of_int (x - x mod 32) :: 32 word)" for x :: int
  proof -
    have "x AND 31 = x mod 32"
      using take_bit_eq_mask [of 5 x] by (simp add: mask_eq_exp_minus_1 take_bit_eq_mod)
    then show "word_of_int x AND 31 = (word_of_int (x mod 32) :: 32 word)"
      by (metis of_int_and_eq of_int_numeral)
    have "x AND NOT (mask 5) = push_bit 5 (drop_bit 5 x)"
      by (rule bit_eqI) (auto simp: bit_simps)
    then have "x AND NOT 31 = x - x mod 32"
      by (simp add: mask_eq_exp_minus_1 push_bit_eq_mult drop_bit_eq_div minus_mod_eq_div_mult)
    then show "word_of_int x AND NOT 31 = (word_of_int (x - x mod 32) :: 32 word)"
      by (metis of_int_and_eq of_int_numeral of_int_not_eq)
  qed
  have "unat (?w AND 31) = n mod 32"
  proof -
    have "int n mod 32 = int (n mod 32)"
      by (simp add: zmod_int)
    moreover have "n mod 32 < 2 ^ 32"
      by (rule less_trans [OF mod_less_divisor [of 32 n]]) simp_all
    ultimately show ?thesis
      unfolding w by (simp add: unat_of_nat)
  qed
  moreover have "sint (((?w + 31) AND NOT 31) - 32) = 32 * int ((n - 1) div 32)"
  proof -
    have "?w + 31 = word_of_int (int (n - 1) + 32)"
      using assms(1) by (simp add: of_nat_diff)
    then have "((?w + 31) AND NOT 31) - 32 = word_of_int (int (n - 1) - int (n - 1) mod 32)"
      by (simp only: w) simp
    also have "int (n - 1) - int (n - 1) mod 32 = 32 * int ((n - 1) div 32)"
      by (simp add: minus_mod_eq_mult_div zdiv_int)
    finally have e: "((?w + 31) AND NOT 31) - 32 = word_of_int (32 * int ((n - 1) div 32))" .
    have "(n - 1) div 32 < 2 ^ 20"
      using assms(2) by simp
    then have "32 * int ((n - 1) div 32) < 2 ^ 31"
      by (simp add: nat_less_iff [symmetric])
    then show ?thesis
      unfolding e by (subst sint_sbintrunc') (simp add: signed_take_bit_int_eq_self)
  qed
  moreover have "(if n mod 32 = 0 then 32 else n mod 32) = (n - 1) mod 32 + 1"
    using assms(1) mod_Suc [of "n - 1" 32] by auto
  ultimately show ?thesis
    by (auto simp: bitmap_scnprintf_def Let_def split: if_splits)
qed

lemma scnprintf_read:
  assumes "cs_ok src" "cpus src \<subseteq> {..<n}" "0 < n" "n \<le> 1024"
  shows "\<exists>str. bitmap_scnprintf src (int n) = Some str \<and> str \<noteq> [] \<and> length str \<le> 287
    \<and> mask_loop (rev str) 0 0 CPU_ZERO = Some (0, src)"
proof -
  let ?k = "(n - 1) div 32" and ?c = "(n - 1) mod 32 + 1"
  let ?v = "take_bit ?c (drop_bit (32 * (?k mod 2)) (src ! (?k div 2)))"
  have len: "length src = 16" "length CPU_ZERO = 16" and k: "?k \<le> 31"
    using assms(1,4) by (simp_all add: cs_ok_def CPU_ZERO_def)
  obtain str where str: "bitmap_scnprintf src (int n) = Some str" "str \<noteq> []" "length str \<le> 9 * ?k + 8"
      "mask_loop (rev str) 0 0 CPU_ZERO = or_chunks src ?k CPU_ZERO \<bind> (\<lambda>m. or32 m ?k ?v) \<bind> (\<lambda>m. Some (0, m))"
  proof -
    have "?k div 2 < length src" "length src \<le> length CPU_ZERO" "0 < ?c" "?c \<le> 32"
      using len k mod_less_divisor [of 32 "n - 1"] by linarith+
    from scnprintf_first [OF this] that show ?thesis
      unfolding scnprintf_start [OF assms(3,4)] by blast
  qed
  obtain m1 where m1: "or_chunks src ?k CPU_ZERO = Some m1" "length m1 = 16"
    using or_chunks_some [of ?k CPU_ZERO src] len k that by auto
  obtain m2 where m2: "or32 m1 ?k ?v = Some m2" "length m2 = 16"
  proof -
    have "?k div 2 < length m1" using m1(2) k by linarith
    from or32_some [OF this] m1(2) that show ?thesis by auto
  qed
  have "abit m2 p \<longleftrightarrow> abit src p" if p: "p < 1024" for p
  proof -
    have "abit m2 p \<longleftrightarrow> abit m1 p \<or> p div 32 = ?k \<and> bit ?v (p mod 32)"
      using abit_or32 [OF m2(1), of p] m1(2) p by simp
    also have "abit m1 p \<longleftrightarrow> p div 32 < ?k \<and> abit src p"
      using abit_or_chunks [OF m1(1), of p] len p k by (simp add: CPU_ZERO_def abit_def)
    also have "p div 32 = ?k \<and> bit ?v (p mod 32) \<longleftrightarrow> p div 32 = ?k \<and> p mod 32 < ?c \<and> abit src p"
      using bit_chunk [of p ?k ?c src] by blast
    also have "p div 32 < ?k \<and> abit src p \<or> p div 32 = ?k \<and> p mod 32 < ?c \<and> abit src p
        \<longleftrightarrow> p < n \<and> abit src p"
    proof -
      have "p < n \<longleftrightarrow> p \<le> n - 1" using assms(3) by linarith
      also have "\<dots> \<longleftrightarrow> p div 32 < ?k \<or> p div 32 = ?k \<and> p mod 32 < ?c"
        by (rule le_div_mod)
      finally show ?thesis by blast
    qed
    finally show ?thesis
      using assms(2) p len by (auto simp: cpus_def)
  qed
  then have "m2 = src"
    using m2(2) len by (intro cpus_inj) (auto simp: cpus_def)
  then show ?thesis
    using str m1(1) m2(1) k by (intro exI [of _ str]) simp
qed

text \<open>C23. Affinity masks are read back: for a set of CPUs of a machine with at most 1024 CPUs, the string
  \<^verbatim>\<open>bitmap_scnprintf\<close> prints, with the newline the kernel adds, is read by
  \<^verbatim>\<open>bitmap_str_to_cpumask\<close> as the same set, with return value 0.\<close>

theorem affinity_mask_roundtrip:
  assumes "cs_ok src" "cpus src \<subseteq> {..<n}" "0 < n" "n \<le> 1024"
  shows "\<exists>str. bitmap_scnprintf src (int n) = Some str
    \<and> bitmap_str_to_cpumask errno (str @ [CHR 0x0A]) (length str + 1) = Some (0, Some src)"
proof -
  obtain str where str: "bitmap_scnprintf src (int n) = Some str" "mask_loop (rev str) 0 0 CPU_ZERO = Some (0, src)"
    using scnprintf_read [OF assms] by blast
  have "CHR 0x0A \<notin> set str"
    using str(1) by (auto simp: bitmap_scnprintf_def Let_def dest: scnprintf_chars)
  then have "takeWhile (\<lambda>c. c \<noteq> CHR 0x0A) (str @ [CHR 0x0A]) = str"
    by (subst takeWhile_append2) auto
  then show ?thesis
    using str by (intro exI [of _ str]) (simp add: bitmap_str_to_cpumask_def)
qed

theorem affinity_mask_roundtrip_witness:
  "\<exists>str. bitmap_scnprintf (CPU_SET 40 (CPU_SET 3 CPU_ZERO)) (int 48) = Some str
    \<and> bitmap_str_to_cpumask 0 (str @ [CHR 0x0A]) (length str + 1) = Some (0, Some (CPU_SET 40 (CPU_SET 3 CPU_ZERO)))"
  by (rule affinity_mask_roundtrip)
    (auto simp: cs_ok_def CPU_ZERO_def [THEN arg_cong, of length] cpus_CPU_SET_gen cpus_const)

text \<open>The printed mask fits: at most 287 characters, so with the final NUL it fits into the buffer of
  \<^verbatim>\<open>PATH_MAX\<close> bytes and is never truncated, and the loop never reads outside the set.\<close>

theorem scnprintf_fits:
  assumes "cs_ok src" "0 < n" "n \<le> 1024"
  shows "\<exists>str. bitmap_scnprintf src (int n) = Some str \<and> 0 < length str \<and> length str \<le> 287"
proof -
  let ?k = "(n - 1) div 32" and ?c = "(n - 1) mod 32 + 1"
  have k: "?k \<le> 31"
    using assms(3) by simp
  have "?k div 2 < length src" "length src \<le> length CPU_ZERO" "0 < ?c" "?c \<le> 32"
    using assms(1) k mod_less_divisor [of 32 "n - 1"] by (auto simp: cs_ok_def CPU_ZERO_def)
  from scnprintf_first [OF this] obtain str where
    "bitmap_scnprintf src (int n) = Some str" "str \<noteq> []" "length str \<le> 9 * ?k + 8"
    unfolding scnprintf_start [OF assms(2,3)] by blast
  then show ?thesis
    using k by (intro exI [of _ str]) simp
qed

theorem scnprintf_fits_witness:
  "\<exists>str. bitmap_scnprintf CPU_FULL (int 1024) = Some str \<and> 0 < length str \<and> length str \<le> 287"
  by (rule scnprintf_fits) (simp_all add: cs_ok_def CPU_FULL_def)

text \<open>C24. Binding an interrupt and asking for its binding agree: on a machine with at most 1024 CPUs,
  \<^verbatim>\<open>wayca_sc_irq_bind_cpu\<close> on a CPU of the machine writes a mask, and when the file then holds that
  mask, \<^verbatim>\<open>wayca_sc_get_irq_bind_cpu\<close> returns 0 and the set with exactly that CPU.\<close>

theorem irq_bind_then_get:
  assumes "wayca_sc_cpus_in_total ts = int n" "0 < n" "n \<le> 1024" "0 \<le> cpu" "cpu < int n"
    and "irq_open f irq = 0" "\<forall>str. irq_write f irq str = 0"
  shows "\<exists>str. wayca_sc_irq_bind_cpu f ts irq cpu = Some (0, Some str)
    \<and> (irq_contents f' irq = Inr (str @ [CHR 0x0A]) \<longrightarrow>
        (\<exists>m. wayca_sc_get_irq_bind_cpu f' ts errno irq 128 True = Some (0, Some m) \<and> cpus m = {nat cpu}))"
proof -
  let ?m = "CPU_SET cpu CPU_ZERO"
  have m: "cs_ok ?m" "cpus ?m = {nat cpu}"
    using assms(3-5) by (simp_all add: cs_ok_def CPU_ZERO_def [THEN arg_cong, of length] cpus_CPU_SET_gen cpus_const)
  obtain str where str: "bitmap_scnprintf ?m (int n) = Some str" "str \<noteq> []" "length str \<le> 287"
      "mask_loop (rev str) 0 0 CPU_ZERO = Some (0, ?m)"
  proof -
    have "cpus ?m \<subseteq> {..<n}"
      using m(2) assms(4,5) by (simp add: nat_less_iff)
    from scnprintf_read [OF m(1) this assms(2,3)] that show ?thesis by blast
  qed
  have c: "CHR 0x0A \<notin> set str \<and> CHR 0x00 \<notin> set str"
    using str(1) unfolding bitmap_scnprintf_def Let_def by (rule scnprintf_chars)
  have t: "takeWhile (\<lambda>c. c \<noteq> CHR 0x0A) (str @ [CHR 0x0A]) = str"
      "takeWhile (\<lambda>c. c \<noteq> CHR 0x00) (str @ [CHR 0x0A]) = str @ [CHR 0x0A]"
    using c by (subst takeWhile_append2; auto)+
  have "unat (CPU_ALLOC_SIZE (int n)) \<le> 128"
    using assms(3) by (simp add: unat_CPU_ALLOC_SIZE)
  then have "wayca_sc_get_irq_bind_cpu f' ts errno irq 128 True = Some (0, Some ?m)"
    if "irq_contents f' irq = Inr (str @ [CHR 0x0A])"
    using that str t m(1) assms(1)
    by (simp add: wayca_sc_get_irq_bind_cpu_def bitmap_str_to_cpumask_def cs_ok_def)
  then show ?thesis
    using str(1,2) assms(1,6,7) m(2) by (auto simp: wayca_sc_irq_bind_cpu_def)
qed

definition sample_irqs :: irq_files where
  "sample_irqs = \<lparr>irq_contents = (\<lambda>_. Inr (''0008'' @ [CHR 0x0A])), irq_open = (\<lambda>_. 0), irq_write = (\<lambda>_ _. 0)\<rparr>"

theorem irq_bind_then_get_witness:
  "wayca_sc_irq_bind_cpu sample_irqs \<lparr>topo = zero_topo\<lparr>n_cpus := 16\<rparr>, max_cores = 0, max_ccls = 0\<rparr> 5 3
      = Some (0, Some ''0008'')
   \<and> (\<exists>m. wayca_sc_get_irq_bind_cpu sample_irqs
           \<lparr>topo = zero_topo\<lparr>n_cpus := 16\<rparr>, max_cores = 0, max_ccls = 0\<rparr> 0 5 128 True = Some (0, Some m)
         \<and> cpus m = {3})"
proof -
  let ?ts = "\<lparr>topo = zero_topo\<lparr>n_cpus := 16\<rparr>, max_cores = 0, max_ccls = 0\<rparr>"
  have n: "wayca_sc_cpus_in_total ?ts = int 16"
    by (simp add: wayca_sc_cpus_in_total_def)
  have e: "wayca_sc_irq_bind_cpu sample_irqs ?ts 5 3 = Some (0, Some ''0008'')"
    by code_simp
  show ?thesis
    using irq_bind_then_get [OF n, of 3 sample_irqs 5 sample_irqs 0] e
    by (simp add: sample_irqs_def)
qed

end
