(* ===== verification/Deployer.thy ===== *)
theory Deployer
  imports Managed Mem Irq
begin

text \<open>
  The program descriptions the deployer and its daemon share (\<^verbatim>\<open>common.h\<close>), and the deployer itself
  (\<^verbatim>\<open>deployer.c\<close>): reading a configuration file into a description and starting the program.
\<close>

section \<open>Descriptions\<close>

text \<open>The enumerations are their numbers; \<^verbatim>\<open>mem_band\<close> is -1 when the file does not give it.\<close>

abbreviation (input) LOW :: int where "LOW \<equiv> 0"
abbreviation (input) DIE :: int where "DIE \<equiv> 1"
abbreviation (input) PACKAGE :: int where "PACKAGE \<equiv> 2"
abbreviation (input) ALL_BAND :: int where "ALL_BAND \<equiv> 3"
abbreviation (input) AUTO :: int where "AUTO \<equiv> 0"
abbreviation (input) COARSE :: int where "COARSE \<equiv> 1"
abbreviation (input) FINE :: int where "FINE \<equiv> 2"

abbreviation MAX_IRQS_BIND :: nat where "MAX_IRQS_BIND \<equiv> 20"

record program =
  pr_pid :: int
  pr_exec :: string
  pr_cpu_list :: string
  pr_irq_bind :: "(int \<times> int) list"
  pr_cpu_util :: int
  pr_io_node :: int
  pr_task_bind_mode :: int
  pr_mem_band :: int

definition memband_string :: "string list" where
  "memband_string = [''LOW'', ''DIE'', ''PACKAGE'', ''ALL'']"

definition cpubind_string :: "string list" where
  "cpubind_string = [''AUTO'', ''DIE'', ''FINE'']"

text \<open>The text after the first \<^verbatim>\<open>=\<close> of the line, without the newline and cut to the size of the buffer;
  \<open>None\<close> when there is none and \<^verbatim>\<open>-1\<close> is returned.\<close>

definition cfg_strtostr :: "string \<Rightarrow> string option" where
  "cfg_strtostr buf =
     map_option (\<lambda>(_, v). take 4095 v) (split_at CHR ''='' (takeWhile (\<lambda>c. c \<noteq> CHR 0x0A) buf))"

definition str_start_with :: "string \<Rightarrow> string \<Rightarrow> bool" where
  "str_start_with str start \<longleftrightarrow> take (length start) str = start"

text \<open>The position of the string in the table, the old value when it is not in it.\<close>

fun cfg_strtoenum :: "string \<Rightarrow> string list \<Rightarrow> int \<Rightarrow> int \<Rightarrow> int" where
  "cfg_strtoenum str [] i old = old"
| "cfg_strtoenum str (n # ns) i old = (if str = n then i else cfg_strtoenum str ns (i + 1) old)"

definition cfg_strtocpubind :: "string \<Rightarrow> int \<Rightarrow> int" where
  "cfg_strtocpubind str old = cfg_strtoenum str cpubind_string 0 old"

definition cfg_strtomemband :: "string \<Rightarrow> int \<Rightarrow> int" where
  "cfg_strtomemband str old = cfg_strtoenum str memband_string 0 old"

section \<open>The configuration of a program\<close>

definition ulong_to_int :: "string \<Rightarrow> int" where
  "ulong_to_int s = to_int (uint (fst (strtoul s)))"

definition cfg_strtoul :: "string \<Rightarrow> int" where
  "cfg_strtoul buf = (case split_at CHR ''='' buf of None \<Rightarrow> - 1 | Some (_, v) \<Rightarrow> ulong_to_int v)"

text \<open>The pairs after the \<^verbatim>\<open>=\<close>: a missing \<^verbatim>\<open>@\<close> dereferences a null pointer, more than 20 pairs are
  written outside the array.\<close>

function parse_pairs :: "string \<Rightarrow> nat \<Rightarrow> (int \<times> int) list \<Rightarrow> (int \<times> int) list option" where
  "parse_pairs p i pair = (case split_at CHR ''@'' p of
       None \<Rightarrow> None
     | Some (_, q) \<Rightarrow> do {
         pair \<leftarrow> wr pair i (ulong_to_int p, ulong_to_int q);
         case split_at CHR '' '' q of
           None \<Rightarrow> Some pair
         | Some (_, p) \<Rightarrow> parse_pairs p (i + 1) pair
       })"
  by auto
termination
  by (relation "measure (\<lambda>(p, _). length p)") (auto dest!: split_at_shorter)

declare parse_pairs.simps [simp del]

definition cfg_strtopair :: "string \<Rightarrow> (int \<times> int) list \<Rightarrow> (int \<times> (int \<times> int) list) option" where
  "cfg_strtopair buf pair = (case split_at CHR ''='' buf of
       None \<Rightarrow> Some (- 1, pair)
     | Some (_, p) \<Rightarrow> map_option (\<lambda>pair. (0, pair)) (parse_pairs p 0 pair))"

text \<open>A new description; the fields that are not set hold what was in memory.\<close>

definition new_program :: "program \<Rightarrow> program" where
  "new_program junk = junk\<lparr>pr_exec := [], pr_irq_bind := replicate MAX_IRQS_BIND (- 1, - 1), pr_io_node := - 1,
     pr_cpu_util := - 1, pr_mem_band := - 1, pr_cpu_list := []\<rparr>"

text \<open>The lines inside the section. The value of \<^verbatim>\<open>mem_bandwidth\<close> is compared even when it was not
  written, which has no defined result.\<close>

definition set_field :: "string \<Rightarrow> program \<Rightarrow> program option" where
  "set_field p prog =
     (if str_start_with p ''exec'' then
        Some (case cfg_strtostr p of None \<Rightarrow> prog | Some v \<Rightarrow> prog\<lparr>pr_exec := v\<rparr>)
      else if str_start_with p ''cpu_util'' then Some (prog\<lparr>pr_cpu_util := cfg_strtoul p\<rparr>)
      else if str_start_with p ''io_node'' then Some (prog\<lparr>pr_io_node := cfg_strtoul p\<rparr>)
      else if str_start_with p ''task_bind'' then
        if strstr p ''AUTO'' \<noteq> None then Some (prog\<lparr>pr_task_bind_mode := AUTO\<rparr>)
        else let prog = (case cfg_strtostr p of None \<Rightarrow> prog | Some v \<Rightarrow> prog\<lparr>pr_cpu_list := v\<rparr>) in
          Some (prog\<lparr>pr_task_bind_mode := if strstr (pr_cpu_list prog) ''@'' \<noteq> None then FINE else COARSE\<rparr>)
      else if str_start_with p ''irq_bind'' then
        map_option (\<lambda>(_, pair). prog\<lparr>pr_irq_bind := pair\<rparr>) (cfg_strtopair p (pr_irq_bind prog))
      else if str_start_with p ''mem_bandwidth'' then
        (case cfg_strtostr p of
           None \<Rightarrow> None
         | Some v \<Rightarrow> Some (prog\<lparr>pr_mem_band :=
             (if v = ''LOW'' then LOW else if v = ''DIE'' then DIE else if v = ''PACKAGE'' then PACKAGE
              else if v = ''ALL'' then ALL_BAND else pr_mem_band prog)\<rparr>))
      else Some prog)"

text \<open>The lines of the file, \<open>m\<close> the result of \<^verbatim>\<open>malloc\<close>. The result is the return value and the
  description that is started.\<close>

function parse_cfg :: "program option \<Rightarrow> string \<Rightarrow> program option \<Rightarrow> (int \<times> program option) option" where
  "parse_cfg m txt prog =
     (if txt = [] then Some (0, prog)
      else let (p, r) = fgets 4096 txt in
        if str_start_with p ''[PROG]'' \<and> prog \<noteq> None then Some (- 1, None)
        else if str_start_with p ''[PROG]'' \<and> m = None then Some (- 1, None)
        else let prog = (if str_start_with p ''[PROG]'' then map_option new_program m else prog) in
          if str_start_with p ''[/PROG]'' then Some (if prog = None then - 1 else 0, prog)
          else (case prog of
              None \<Rightarrow> parse_cfg m r None
            | Some pr \<Rightarrow> (case set_field p pr of None \<Rightarrow> None | Some pr \<Rightarrow> parse_cfg m r (Some pr))))"
  by pat_completeness auto
termination
proof -
  have "length r < length t" if "t \<noteq> []" "(p, r) = fgets 4096 t" for t p r :: string
    using length_fgets [OF that(1), of 4096] that(2) by (metis one_less_numeral_iff semiring_norm(76) snd_conv)
  then show ?thesis
    by (relation "measure (\<lambda>(m, t, prog). length t)") auto
qed

declare parse_cfg.simps [simp del]

text \<open>\<open>file\<close> is \<open>None\<close> when it cannot be opened: the null stream is read.\<close>

definition parse_cfg_and_run :: "program option \<Rightarrow> string option \<Rightarrow> (int \<times> program option) option" where
  "parse_cfg_and_run m contents = (case contents of None \<Rightarrow> None | Some txt \<Rightarrow> parse_cfg m txt None)"

section \<open>Starting a program\<close>

text \<open>The socket of the deployer: \<open>None\<close> when \<^verbatim>\<open>socket_fd\<close> is negative, otherwise the results a write and
  a read on it will have. After a failed \<^verbatim>\<open>connect\<close> the descriptor is closed but kept, so that both
  fail.\<close>

definition init_socket :: "bool \<Rightarrow> bool \<Rightarrow> int \<times> int \<Rightarrow> int \<times> (int \<times> int) option" where
  "init_socket created connected io =
     (if \<not> created then (- 1, None)
      else if \<not> connected then (- 1, Some (- 1, - 1))
      else (0, Some io))"

text \<open>\<open>sock\<close> is \<open>None\<close> without a connection to the daemon, otherwise the results of writing the description
  and of reading the answer. The result is the description sent, and the environment with which the
  program is executed, \<open>None\<close> when the process exits instead.\<close>

definition start_program :: "env \<Rightarrow> topo_env \<Rightarrow> mem_kernel \<Rightarrow> int \<Rightarrow> (int \<times> int) option \<Rightarrow> program
    \<Rightarrow> (program option \<times> string option \<times> topo_env \<times> mem_kernel) option" where
  "start_program e s k pid sock prog = do {
     let prog = prog\<lparr>pr_pid := pid\<rparr>;
     (s, k) \<leftarrow> (if pr_mem_band prog = PACKAGE
                then map_option snd (wayca_sc_mem_interleave_in_package e s k (pr_io_node prog))
                else if pr_mem_band prog = ALL_BAND then map_option snd (wayca_sc_mem_interleave_in_all e s k)
                else Some (s, k));
     let sent = (if sock = None then None else Some prog);
     case sock of
       Some (written, _) \<Rightarrow>
         if written \<le> 0 then Some (sent, None, s, k)
         else Some (sent, Some (if pr_cpu_list prog \<noteq> [] \<and> pr_task_bind_mode prog = FINE
                                then ''MANAGED_THREADS='' @ pr_cpu_list prog else []), s, k)
     | None \<Rightarrow> Some (sent, Some (if pr_cpu_list prog \<noteq> [] \<and> pr_task_bind_mode prog = FINE
                                then ''MANAGED_THREADS='' @ pr_cpu_list prog else []), s, k)
   }"

text \<open>Without the daemon nothing is started: when the connection fails, the deployer still tries to send
  the description over the closed socket and exits instead of executing the program.\<close>

theorem no_daemon_no_program:
  assumes "start_program e s k pid (snd (init_socket True False io)) prog = Some (sent, environ, s', k')"
  shows "environ = None"
  using assms by (auto simp: start_program_def init_socket_def bind_eq_Some_conv Let_def split: if_splits)

definition sample_program :: program where
  "sample_program = \<lparr>pr_pid = 0, pr_exec = ''a.out'', pr_cpu_list = ''0-3'', pr_irq_bind = replicate 20 (- 1, - 1),
     pr_cpu_util = 1, pr_io_node = 0, pr_task_bind_mode = COARSE, pr_mem_band = LOW\<rparr>"

definition sample_fs :: sysfs where
  "sample_fs = \<lparr>sf_file = (\<lambda>_ _. Inl ENOENT), dirents = (\<lambda>_. Inl ENOENT), subdirs = (\<lambda>_. Inl ENOENT),
     path_exists = (\<lambda>_. False), stale_errno = 0\<rparr>"

definition sample_e :: env where
  "sample_e = \<lparr>e_fs = sample_fs, e_devs = (\<lambda>_ t. Some (0, t)), e_mem = 0\<rparr>"

theorem no_daemon_no_program_witness:
  "\<exists>sent s k. start_program sample_e sample_env sample_mem 7 (snd (init_socket True False (1, 1))) sample_program
     = Some (sent, None, s, k)"
proof -
  have "\<exists>sent environ s k. start_program sample_e sample_env sample_mem 7 (snd (init_socket True False (1, 1)))
      sample_program = Some (sent, environ, s, k)"
    by (simp add: start_program_def sample_program_def init_socket_def)
  then show ?thesis
    using no_daemon_no_program by blast
qed

section \<open>Configurations are read back\<close>

record cfg =
  c_exec :: string
  c_util :: nat
  c_node :: nat
  c_cpus :: "(nat \<times> nat \<times> nat) list"
  c_irqs :: "(nat \<times> nat) list"
  c_band :: nat

abbreviation NL :: string where "NL \<equiv> [CHR 0x0A]"

fun print_pairs :: "(nat \<times> nat) list \<Rightarrow> string" where
  "print_pairs [] = []"
| "print_pairs [(a, b)] = decimal a @ CHR ''@'' # decimal b"
| "print_pairs ((a, b) # x # xs) = decimal a @ CHR ''@'' # decimal b @ CHR '' '' # print_pairs (x # xs)"

definition print_cfg :: "cfg \<Rightarrow> string" where
  "print_cfg c = ''[PROG]'' @ NL @ ''exec='' @ c_exec c @ NL @ ''cpu_util='' @ decimal (c_util c) @ NL
     @ ''io_node='' @ decimal (c_node c) @ NL @ ''task_bind='' @ print_strides (c_cpus c) @ NL
     @ ''irq_bind='' @ print_pairs (c_irqs c) @ NL @ ''mem_bandwidth='' @ memband_string ! c_band c @ NL
     @ ''[/PROG]'' @ NL"

definition cfg_ok :: "cfg \<Rightarrow> bool" where
  "cfg_ok c \<longleftrightarrow> CHR 0x0A \<notin> set (c_exec c) \<and> length (c_exec c) \<le> 4000 \<and> c_util c < 2 ^ 31 \<and> c_node c < 2 ^ 31
     \<and> length (print_strides (c_cpus c)) \<le> 4000 \<and> c_irqs c \<noteq> [] \<and> length (c_irqs c) \<le> 20
     \<and> length (print_pairs (c_irqs c)) \<le> 4000
     \<and> (\<forall>(a, b) \<in> set (c_irqs c). a < 2 ^ 31 \<and> b < 2 ^ 31) \<and> c_band c < 4"

definition program_of :: "program \<Rightarrow> cfg \<Rightarrow> program" where
  "program_of junk c = junk\<lparr>pr_exec := c_exec c, pr_cpu_list := print_strides (c_cpus c),
     pr_irq_bind := map (\<lambda>(a, b). (int a, int b)) (c_irqs c) @ replicate (20 - length (c_irqs c)) (- 1, - 1),
     pr_cpu_util := int (c_util c), pr_io_node := int (c_node c), pr_task_bind_mode := COARSE,
     pr_mem_band := int (c_band c)\<rparr>"

lemma fgets_line:
  "CHR 0x0A \<notin> set l \<Longrightarrow> length l \<le> 4094 \<Longrightarrow> fgets 4096 (l @ NL @ r) = (l @ NL, r)"
proof -
  assume a: "CHR 0x0A \<notin> set l" "length l \<le> 4094"
  have "takeWhile (\<lambda>c. c \<noteq> CHR 0x0A) (l @ NL @ r) = l"
    using a(1) by (subst takeWhile_append2) auto
  then show ?thesis
    using a(2) by (simp add: fgets_def Let_def)
qed

text \<open>One line of the section.\<close>

lemma parse_cfg_line:
  assumes "CHR 0x0A \<notin> set l" "length l \<le> 4094" "l \<noteq> []" "hd l \<noteq> CHR ''[''" "set_field (l @ NL) pr = Some pr'"
  shows "parse_cfg m (l @ NL @ r) (Some pr) = parse_cfg m r (Some pr')"
proof -
  have "\<not> str_start_with (l @ NL) ''[PROG]''" "\<not> str_start_with (l @ NL) ''[/PROG]''"
    using assms(3,4) by (cases l; auto simp: str_start_with_def)+
  then show ?thesis
    using assms(5) fgets_line [OF assms(1,2), of r] by (subst parse_cfg.simps) simp
qed

lemma cut_newline: "CHR 0x0A \<notin> set l \<Longrightarrow> takeWhile (\<lambda>c. c \<noteq> CHR 0x0A) (l @ NL) = l"
  by (subst takeWhile_append2) auto

lemma cfg_strtostr_line:
  "CHR ''='' \<notin> set key \<Longrightarrow> CHR 0x0A \<notin> set key \<Longrightarrow> CHR 0x0A \<notin> set v \<Longrightarrow> length v \<le> 4095
     \<Longrightarrow> cfg_strtostr (key @ CHR ''='' # v @ NL) = Some v"
  using cut_newline [of "key @ CHR ''='' # v"] by (simp add: cfg_strtostr_def split_at_here)

lemma ulong_to_int_decimal: "stops r \<Longrightarrow> u < 2 ^ 31 \<Longrightarrow> ulong_to_int (decimal u @ r) = int u"
  by (simp add: ulong_to_int_def strtoul_decimal to_int_small)

lemma cfg_strtoul_line:
  "CHR ''='' \<notin> set key \<Longrightarrow> u < 2 ^ 31 \<Longrightarrow> cfg_strtoul (key @ CHR ''='' # decimal u @ NL) = int u"
  by (simp add: cfg_strtoul_def split_at_here ulong_to_int_decimal stops_def isdigit_def)

lemma strstr_none: "c \<notin> set hay \<Longrightarrow> strstr hay (c # cs) = None"
proof (induction hay)
  case Nil
  then show ?case by (subst strstr.simps) simp
next
  case (Cons x hay)
  then show ?case by (subst strstr.simps) auto
qed

lemma print_pairs_chars:
  assumes "\<not> isdigit c" "c \<notin> {CHR ''@'', CHR '' ''}"
  shows "c \<notin> set (print_pairs xs)"
proof -
  have "c \<notin> set (decimal n)" for n
    using assms(1) decimal_digits by blast
  then show ?thesis
    using assms(2) by (induction xs rule: print_pairs.induct) auto
qed

lemma parse_pairs_printed:
  assumes "xs \<noteq> []" "\<forall>(a, b) \<in> set xs. a < 2 ^ 31 \<and> b < 2 ^ 31" "length xs \<le> length ys"
  shows "parse_pairs (print_pairs xs @ NL) (length zs) (zs @ ys)
    = Some (zs @ map (\<lambda>(a, b). (int a, int b)) xs @ drop (length xs) ys)"
  using assms
proof (induction xs arbitrary: zs ys rule: print_pairs.induct)
  case (2 a b)
  then obtain y ys' where y: "ys = y # ys'" by (cases ys) auto
  have at: "split_at CHR ''@'' (decimal a @ CHR ''@'' # decimal b @ NL) = Some (decimal a, decimal b @ NL)"
    using decimal_digits [of a] by (intro split_at_here) (auto simp: isdigit_def)
  have sp: "split_at CHR '' '' (decimal b @ NL) = None"
    using decimal_digits [of b] by (intro split_at_none) (auto simp: isdigit_def)
  have "ulong_to_int (decimal a @ CHR ''@'' # decimal b @ NL) = int a" "ulong_to_int (decimal b @ NL) = int b"
    using 2 by (intro ulong_to_int_decimal; simp add: stops_def isdigit_def)+
  then show ?case
    using at sp y by (subst parse_pairs.simps) (simp add: wr_def)
next
  case (3 a b x xs)
  then obtain y ys' where y: "ys = y # ys'" by (cases ys) auto
  let ?q = "decimal b @ CHR '' '' # print_pairs (x # xs) @ NL"
  have at: "split_at CHR ''@'' (decimal a @ CHR ''@'' # ?q) = Some (decimal a, ?q)"
    using decimal_digits [of a] by (intro split_at_here) (auto simp: isdigit_def)
  have sp: "split_at CHR '' '' ?q = Some (decimal b, print_pairs (x # xs) @ NL)"
    using decimal_digits [of b] by (intro split_at_here) (auto simp: isdigit_def)
  have n: "ulong_to_int (decimal a @ CHR ''@'' # ?q) = int a" "ulong_to_int ?q = int b"
    using 3 by (intro ulong_to_int_decimal; simp add: stops_def isdigit_def)+
  have "parse_pairs (print_pairs (x # xs) @ NL) (length (zs @ [(int a, int b)])) ((zs @ [(int a, int b)]) @ ys')
      = Some ((zs @ [(int a, int b)]) @ map (\<lambda>(a, b). (int a, int b)) (x # xs) @ drop (length (x # xs)) ys')"
    using 3 y by (intro "3.IH") auto
  then show ?case
    using at sp n y by (subst parse_pairs.simps) (simp add: wr_def)
qed simp

text \<open>The lines of a printed configuration.\<close>

lemma set_field_lines:
  assumes "cfg_ok c"
  shows "set_field ((''exec='' @ c_exec c) @ NL) pr = Some (pr\<lparr>pr_exec := c_exec c\<rparr>)"
    and "set_field ((''cpu_util='' @ decimal (c_util c)) @ NL) pr = Some (pr\<lparr>pr_cpu_util := int (c_util c)\<rparr>)"
    and "set_field ((''io_node='' @ decimal (c_node c)) @ NL) pr = Some (pr\<lparr>pr_io_node := int (c_node c)\<rparr>)"
    and "set_field ((''task_bind='' @ print_strides (c_cpus c)) @ NL) pr
      = Some (pr\<lparr>pr_cpu_list := print_strides (c_cpus c), pr_task_bind_mode := COARSE\<rparr>)"
    and "pr_irq_bind pr = replicate 20 (- 1, - 1) \<Longrightarrow> set_field ((''irq_bind='' @ print_pairs (c_irqs c)) @ NL) pr
      = Some (pr\<lparr>pr_irq_bind := map (\<lambda>(a, b). (int a, int b)) (c_irqs c) @ replicate (20 - length (c_irqs c)) (- 1, - 1)\<rparr>)"
    and "set_field ((''mem_bandwidth='' @ memband_string ! c_band c) @ NL) pr = Some (pr\<lparr>pr_mem_band := int (c_band c)\<rparr>)"
proof -
  note ok = assms [unfolded cfg_ok_def]
  show "set_field ((''exec='' @ c_exec c) @ NL) pr = Some (pr\<lparr>pr_exec := c_exec c\<rparr>)"
    using ok cfg_strtostr_line [of "''exec''" "c_exec c"] by (simp add: set_field_def str_start_with_def)
  show "set_field ((''cpu_util='' @ decimal (c_util c)) @ NL) pr = Some (pr\<lparr>pr_cpu_util := int (c_util c)\<rparr>)"
    using ok cfg_strtoul_line [of "''cpu_util''" "c_util c"] by (simp add: set_field_def str_start_with_def)
  show "set_field ((''io_node='' @ decimal (c_node c)) @ NL) pr = Some (pr\<lparr>pr_io_node := int (c_node c)\<rparr>)"
    using ok cfg_strtoul_line [of "''io_node''" "c_node c"] by (simp add: set_field_def str_start_with_def)
  have no: "x \<notin> set (print_strides (c_cpus c))" if "x \<in> {CHR 0x0A, CHR ''A'', CHR ''@''}" for x
    using that by (intro print_strides_other) (auto simp: isdigit_def)
  have "strstr ((''task_bind='' @ print_strides (c_cpus c)) @ NL) ''AUTO'' = None"
    using no by (intro strstr_none) simp
  moreover have "strstr (print_strides (c_cpus c)) ''@'' = None"
    using no by (intro strstr_none) simp
  ultimately show "set_field ((''task_bind='' @ print_strides (c_cpus c)) @ NL) pr
      = Some (pr\<lparr>pr_cpu_list := print_strides (c_cpus c), pr_task_bind_mode := COARSE\<rparr>)"
    using ok no cfg_strtostr_line [of "''task_bind''" "print_strides (c_cpus c)"]
    by (simp add: set_field_def str_start_with_def)
  have "split_at CHR ''='' (''irq_bind='' @ print_pairs (c_irqs c) @ NL) = Some (''irq_bind'', print_pairs (c_irqs c) @ NL)"
    using split_at_here [of "CHR ''=''" "''irq_bind''"] by simp
  then show "set_field ((''irq_bind='' @ print_pairs (c_irqs c)) @ NL) pr
      = Some (pr\<lparr>pr_irq_bind := map (\<lambda>(a, b). (int a, int b)) (c_irqs c) @ replicate (20 - length (c_irqs c)) (- 1, - 1)\<rparr>)"
    if "pr_irq_bind pr = replicate 20 (- 1, - 1)"
    using that ok parse_pairs_printed [of "c_irqs c" "replicate 20 (- 1, - 1)" "[]"]
    by (simp add: set_field_def str_start_with_def cfg_strtopair_def)
  have "c_band c \<in> {0, 1, 2, 3}" using ok by auto
  then show "set_field ((''mem_bandwidth='' @ memband_string ! c_band c) @ NL) pr = Some (pr\<lparr>pr_mem_band := int (c_band c)\<rparr>)"
    using cfg_strtostr_line [of "''mem_bandwidth''" "memband_string ! c_band c"]
    by (auto simp: set_field_def str_start_with_def memband_string_def)
qed

lemma length_decimal: "n < 10 ^ k \<Longrightarrow> 0 < k \<Longrightarrow> length (decimal n) \<le> k"
proof (induction k arbitrary: n)
  case (Suc k)
  show ?case
  proof (cases "n < 10")
    case True
    then show ?thesis by (subst decimal.simps) simp
  next
    case False
    then have "n div 10 < 10 ^ k" "0 < k"
      using Suc.prems(1) by (auto simp: less_mult_imp_div_less intro: gr0I)
    then show ?thesis
      using Suc.IH [of "n div 10"] False by (subst decimal.simps) simp
  qed
qed simp

lemma parse_cfg_open:
  "parse_cfg (Some junk) (''[PROG]'' @ NL @ r) None = parse_cfg (Some junk) r (Some (new_program junk))"
  using fgets_line [of "''[PROG]''" r]
  by (subst parse_cfg.simps) (simp add: str_start_with_def set_field_def)

lemma parse_cfg_close: "parse_cfg m (''[/PROG]'' @ NL) (Some pr) = Some (0, Some pr)"
  using fgets_line [of "''[/PROG]''" "[]"] by (subst parse_cfg.simps) (simp add: str_start_with_def)

text \<open>C30. Reading back a configuration: for a description with a command, a utilisation, an I/O node, a CPU
  list, up to 20 interrupt bindings and a bandwidth, the printed file is parsed without an error
  into exactly that description, bound as a whole to its CPUs.\<close>

theorem cfg_printed:
  assumes "cfg_ok c"
  shows "parse_cfg_and_run (Some junk) (Some (print_cfg c)) = Some (0, Some (program_of junk c))"
proof -
  note ok = assms [unfolded cfg_ok_def] and f = set_field_lines [OF assms]
  have d: "CHR 0x0A \<notin> set (decimal n) \<and> length (decimal n) \<le> 4000" if "n < 2 ^ 31" for n
    using that decimal_digits [of n] length_decimal [of n 10] by (auto simp: isdigit_def)
  note du = d [of "c_util c"] and dn = d [of "c_node c"]
  have s: "CHR 0x0A \<notin> set (print_strides (c_cpus c))" "CHR 0x0A \<notin> set (print_pairs (c_irqs c))"
    by (rule print_strides_other print_pairs_chars; auto simp: isdigit_def)+
  have b: "CHR 0x0A \<notin> set (memband_string ! c_band c)" "length (memband_string ! c_band c) \<le> 10"
  proof -
    have "c_band c \<in> {0, 1, 2, 3}" using ok by auto
    then show "CHR 0x0A \<notin> set (memband_string ! c_band c)" "length (memband_string ! c_band c) \<le> 10"
      by (auto simp: memband_string_def)
  qed
  let ?m = "Some junk" and ?p0 = "new_program junk"
  let ?p1 = "?p0\<lparr>pr_exec := c_exec c\<rparr>"
  let ?p2 = "?p1\<lparr>pr_cpu_util := int (c_util c)\<rparr>"
  let ?p3 = "?p2\<lparr>pr_io_node := int (c_node c)\<rparr>"
  let ?p4 = "?p3\<lparr>pr_cpu_list := print_strides (c_cpus c), pr_task_bind_mode := COARSE\<rparr>"
  let ?p5 = "?p4\<lparr>pr_irq_bind := map (\<lambda>(a, b). (int a, int b)) (c_irqs c) @ replicate (20 - length (c_irqs c)) (- 1, - 1)\<rparr>"
  have p: "pr_irq_bind ?p4 = replicate 20 (- 1, - 1)"
    by (simp add: new_program_def)
  have l1: "parse_cfg ?m ((''exec='' @ c_exec c) @ NL @ r) (Some ?p0) = parse_cfg ?m r (Some ?p1)" for r
    by (rule parse_cfg_line [OF _ _ _ _ f(1)]) (use ok in auto)
  have l2: "parse_cfg ?m ((''cpu_util='' @ decimal (c_util c)) @ NL @ r) (Some ?p1) = parse_cfg ?m r (Some ?p2)" for r
    by (rule parse_cfg_line [OF _ _ _ _ f(2)]) (use ok du in auto)
  have l3: "parse_cfg ?m ((''io_node='' @ decimal (c_node c)) @ NL @ r) (Some ?p2) = parse_cfg ?m r (Some ?p3)" for r
    by (rule parse_cfg_line [OF _ _ _ _ f(3)]) (use ok dn in auto)
  have l4: "parse_cfg ?m ((''task_bind='' @ print_strides (c_cpus c)) @ NL @ r) (Some ?p3) = parse_cfg ?m r (Some ?p4)" for r
    by (rule parse_cfg_line [OF _ _ _ _ f(4)]) (use ok s in auto)
  have l5: "parse_cfg ?m ((''irq_bind='' @ print_pairs (c_irqs c)) @ NL @ r) (Some ?p4) = parse_cfg ?m r (Some ?p5)" for r
    by (rule parse_cfg_line [OF _ _ _ _ f(5) [OF p]]) (use ok s in auto)
  have l6: "parse_cfg ?m ((''mem_bandwidth='' @ memband_string ! c_band c) @ NL @ r) (Some ?p5)
      = parse_cfg ?m r (Some (?p5\<lparr>pr_mem_band := int (c_band c)\<rparr>))" for r
    by (rule parse_cfg_line [OF _ _ _ _ f(6)]) (use b in auto)
  have "?p5\<lparr>pr_mem_band := int (c_band c)\<rparr> = program_of junk c"
    by (simp add: program_of_def new_program_def)
  then show ?thesis
    unfolding parse_cfg_and_run_def print_cfg_def option.case
    unfolding parse_cfg_open l1 [unfolded append_assoc] l2 [unfolded append_assoc] l3 [unfolded append_assoc]
      l4 [unfolded append_assoc] l5 [unfolded append_assoc] l6 [unfolded append_assoc] parse_cfg_close
    by simp
qed

definition sample_cfg :: cfg where
  "sample_cfg = \<lparr>c_exec = ''a.out'', c_util = 2, c_node = 1, c_cpus = [(0, 3, 1)], c_irqs = [(33, 2), (34, 3)],
     c_band = 2\<rparr>"

theorem cfg_printed_witness:
  "parse_cfg_and_run (Some sample_program) (Some (print_cfg sample_cfg))
     = Some (0, Some (program_of sample_program sample_cfg))"
proof (rule cfg_printed)
  have "length (print_strides (c_cpus sample_cfg)) \<le> 4000" "length (print_pairs (c_irqs sample_cfg)) \<le> 4000"
    by (simp_all add: sample_cfg_def print_strided_def decimal.simps)
  then show "cfg_ok sample_cfg"
    by (simp add: cfg_ok_def) (simp add: sample_cfg_def)
qed

end
