(* ===== verification/Deployd.thy ===== *)
theory Deployd
  imports Deployer
begin

text \<open>
  The deployer daemon, \<^verbatim>\<open>deployd.c\<close>: it keeps the load of each cluster and node, places the programs
  that its clients describe, binds interrupts, and serves many clients through one \<^verbatim>\<open>select\<close> loop.
  The loads are unbounded integers; the kernel, the interrupt files and the sockets are parameters.
\<close>

section \<open>State\<close>

abbreviation NR_CPUS :: nat where "NR_CPUS \<equiv> 1024"

record deployd =
  ccl_cpus_load :: "int list"
  node_cpus_load :: "int list"
  d_topo :: topo_env
  d_kernel :: kernel
  d_irq_writes :: "(int \<times> string option) list"
  default_task_bind :: int
  default_mem_bandwidth :: int

abbreviation d_ts :: "deployd \<Rightarrow> topo_state" where "d_ts d \<equiv> te (d_topo d)"

definition cpus_in_ccl :: "deployd \<Rightarrow> int" where
  "cpus_in_ccl d = fst (wayca_sc_cpus_in_ccl (d_ts d))"

text \<open>\<^verbatim>\<open>wayca_sc_cpus_in_ccl\<close> also updates a static counter.\<close>

definition after_ccl_query :: "deployd \<Rightarrow> deployd" where
  "after_ccl_query d = d\<lparr>d_topo := (d_topo d)\<lparr>te := snd (wayca_sc_cpus_in_ccl (d_ts d))\<rparr>\<rparr>"

definition add_ccl :: "int \<Rightarrow> int \<Rightarrow> deployd \<Rightarrow> deployd option" where
  "add_ccl i x d = do {
     l \<leftarrow> rdi (ccl_cpus_load d) i;
     ls \<leftarrow> wri (ccl_cpus_load d) i (l + x);
     Some (d\<lparr>ccl_cpus_load := ls\<rparr>)
   }"

definition add_node :: "int \<Rightarrow> int \<Rightarrow> deployd \<Rightarrow> deployd option" where
  "add_node i x d = do {
     l \<leftarrow> rdi (node_cpus_load d) i;
     ls \<leftarrow> wri (node_cpus_load d) i (l + x);
     Some (d\<lparr>node_cpus_load := ls\<rparr>)
   }"

definition ccl_idle_cpu_cores :: "deployd \<Rightarrow> int \<Rightarrow> int option" where
  "ccl_idle_cpu_cores d ccl = map_option (\<lambda>l. cpus_in_ccl d - l) (rdi (ccl_cpus_load d) ccl)"

definition node_idle_cpu_cores :: "deployd \<Rightarrow> int \<Rightarrow> int option" where
  "node_idle_cpu_cores d node = map_option (\<lambda>l. wayca_sc_cpus_in_node (d_ts d) - l) (rdi (node_cpus_load d) node)"

section \<open>Placing a program\<close>

text \<open>\<^verbatim>\<open>for (i = 0; i < cr_in_total; i++) if (CPU_ISSET(i, &mask)) { ccl_cpus_load[i / cr_in_ccl]++;
  node_cpus_load[i / cr_in_node]++; }\<close>\<close>

fun count_cpus :: "int \<Rightarrow> int \<Rightarrow> cpu_set_t \<Rightarrow> int list \<Rightarrow> deployd \<Rightarrow> deployd option" where
  "count_cpus cr_in_ccl cr_in_node m [] d = Some d"
| "count_cpus cr_in_ccl cr_in_node m (i # is) d =
     (if CPU_ISSET i m then do {
        c \<leftarrow> c_div i cr_in_ccl;
        d \<leftarrow> add_ccl c 1 d;
        n \<leftarrow> c_div i cr_in_node;
        d \<leftarrow> add_node n 1 d;
        count_cpus cr_in_ccl cr_in_node m is d
      } else count_cpus cr_in_ccl cr_in_node m is d)"

definition occupied_cpu_to_load :: "deployd \<Rightarrow> string \<Rightarrow> (int \<times> deployd) option" where
  "occupied_cpu_to_load d s = do {
     let cr_in_ccl = cpus_in_ccl d;
     let d = after_ccl_query d;
     (_, m) \<leftarrow> list_to_mask (d_ts d) s 128;
     d \<leftarrow> count_cpus cr_in_ccl (wayca_sc_cpus_in_node (d_ts d)) m [0..wayca_sc_cpus_in_total (d_ts d) - 1] d;
     Some (0, d)
   }"

definition process_cpulist_bind :: "deployd \<Rightarrow> program \<Rightarrow> (int \<times> deployd) option" where
  "process_cpulist_bind d prog = do {
     let cr_in_ccl = cpus_in_ccl d;
     let d = after_ccl_query d;
     (_, m) \<leftarrow> list_to_mask (d_ts d) (pr_cpu_list prog) 128;
     d \<leftarrow> count_cpus cr_in_ccl (wayca_sc_cpus_in_node (d_ts d)) m [0..wayca_sc_cpus_in_total (d_ts d) - 1] d;
     (_, k) \<leftarrow> thread_bind_cpulist (d_ts d) (d_kernel d) (pr_pid prog) (pr_cpu_list prog);
     Some (0, d\<lparr>d_kernel := k\<rparr>)
   }"

text \<open>The loads of managed threads. The array comes from \<^verbatim>\<open>malloc\<close>; \<open>junk\<close> is what it holds.\<close>

fun load_nodes :: "task_cpu_map \<Rightarrow> int \<Rightarrow> int list \<Rightarrow> deployd \<Rightarrow> deployd option" where
  "load_nodes mp ns [] d = Some d"
| "load_nodes mp ns (j # js) d =
     (if CPU_ISSET j (m_nodes mp) then do {
        x \<leftarrow> c_div (m_cpu_util mp) ns;
        d \<leftarrow> add_node j x d;
        load_nodes mp ns js d
      } else load_nodes mp ns js d)"

fun load_cpus :: "task_cpu_map \<Rightarrow> int \<Rightarrow> int list \<Rightarrow> deployd \<Rightarrow> deployd option" where
  "load_cpus mp cs [] d = Some d"
| "load_cpus mp cs (j # js) d =
     (if CPU_ISSET j (m_cpus mp) then do {
        x \<leftarrow> c_div (m_cpu_util mp) cs;
        n \<leftarrow> c_div j (wayca_sc_cpus_in_node (d_ts d));
        d \<leftarrow> add_node n x d;
        c \<leftarrow> c_div j (cpus_in_ccl d);
        d \<leftarrow> add_ccl c x (after_ccl_query d);
        load_cpus mp cs js d
      } else load_cpus mp cs js d)"

fun load_maps :: "task_cpu_map list \<Rightarrow> deployd \<Rightarrow> deployd option" where
  "load_maps [] d = Some d"
| "load_maps (mp # mps) d = do {
     d \<leftarrow> (if 0 < CPU_COUNT (m_tasks mp) then
            let ns = CPU_COUNT (m_nodes mp); cs = CPU_COUNT (m_cpus mp) in
            if 0 < ns then load_nodes mp ns [0..wayca_sc_nodes_in_total (d_ts d) - 1] d
            else load_cpus mp cs [0..wayca_sc_cpus_in_total (d_ts d) - 1] d
          else Some d);
     load_maps mps d
   }"

definition process_managed_threads_bind ::
    "deployd \<Rightarrow> program \<Rightarrow> task_cpu_map list option \<Rightarrow> (int \<times> deployd) option" where
  "process_managed_threads_bind d prog junk = (case junk of
       None \<Rightarrow> Some (- 1, d)
     | Some maps \<Rightarrow> do {
         (_, maps) \<leftarrow> to_task_cpu_map (d_ts d) (Some (pr_cpu_list prog)) maps;
         d \<leftarrow> load_maps maps d;
         Some (0, d)
       })"

text \<open>The search for a cluster with room: \<open>i\<close> and the cluster, \<open>Some None\<close> when there is none.\<close>

partial_function (option) find_ccl :: "deployd \<Rightarrow> int \<Rightarrow> int \<Rightarrow> int \<Rightarrow> int \<Rightarrow> int \<Rightarrow> (int \<times> int) option option" where
  "find_ccl d cr_in_pack cr_in_ccl cpu util i =
     (if i < cr_in_pack then do {
        ccl \<leftarrow> c_div (i + cpu) cr_in_ccl;
        room \<leftarrow> ccl_idle_cpu_cores d ccl;
        if util \<le> room then Some (Some (i, ccl))
        else find_ccl d cr_in_pack cr_in_ccl cpu util (i + cr_in_ccl)
      } else Some None)"

declare find_ccl.simps [code]

text \<open>Calling a binding function for its effect: the result is dropped.\<close>

definition bind_effect :: "(int \<times> topo_env \<times> kernel) option \<Rightarrow> deployd \<Rightarrow> deployd option" where
  "bind_effect r d = map_option (\<lambda>(_, s, k). d\<lparr>d_topo := s, d_kernel := k\<rparr>) r"

definition bind_die :: "env \<Rightarrow> deployd \<Rightarrow> program \<Rightarrow> deployd option" where
  "bind_die e d prog = do {
     room \<leftarrow> node_idle_cpu_cores d (pr_io_node prog);
     if pr_cpu_util prog \<le> room then do {
       d \<leftarrow> bind_effect (thread_bind_node e (d_topo d) (d_kernel d) (pr_pid prog) (pr_io_node prog)) d;
       add_node (pr_io_node prog) (pr_cpu_util prog) d
     } else bind_effect (thread_bind_package e (d_topo d) (d_kernel d) (pr_pid prog) (pr_io_node prog)) d
   }"

text \<open>The case \<^verbatim>\<open>LOW\<close> falls through to \<^verbatim>\<open>DIE\<close> when no cluster has room.\<close>

definition process_auto_bind :: "env \<Rightarrow> deployd \<Rightarrow> program \<Rightarrow> (int \<times> deployd) option" where
  "process_auto_bind e d prog = do {
     let cr_in_pack = wayca_sc_cpus_in_package (d_ts d);
     let cr_in_ccl = cpus_in_ccl d;
     let d = after_ccl_query d;
     let cr_in_node = wayca_sc_cpus_in_node (d_ts d);
     let cpu = cr_in_node * pr_io_node prog;
     if pr_io_node prog < 0 then Some (0, d)
     else map_option (\<lambda>d. (0, d))
       (if pr_mem_band prog = LOW then do {
          r \<leftarrow> find_ccl d cr_in_pack cr_in_ccl cpu (pr_cpu_util prog) 0;
          case r of
            Some (i, ccl) \<Rightarrow> do {
              d \<leftarrow> bind_effect (thread_bind_ccl e (d_topo d) (d_kernel d) (pr_pid prog) (i + cpu)) d;
              d \<leftarrow> add_ccl ccl (pr_cpu_util prog) d;
              n \<leftarrow> c_div (i + cpu) cr_in_node;
              add_node n (pr_cpu_util prog) d
            }
          | None \<Rightarrow> bind_die e d prog
        }
        else if pr_mem_band prog = DIE then bind_die e d prog
        else if pr_mem_band prog = ALL_BAND
        then bind_effect (thread_unbind e (d_topo d) (d_kernel d) (pr_pid prog)) d
        else bind_effect (thread_bind_package e (d_topo d) (d_kernel d) (pr_pid prog) (pr_io_node prog)) d)
   }"

fun bind_irqs :: "irq_files \<Rightarrow> (int \<times> int) list \<Rightarrow> deployd \<Rightarrow> deployd option" where
  "bind_irqs f [] d = Some d"
| "bind_irqs f ((irq, cpu) # ps) d =
     (if irq \<noteq> - 1 then do {
        (_, str) \<leftarrow> wayca_sc_irq_bind_cpu f (d_ts d) irq cpu;
        bind_irqs f ps (d\<lparr>d_irq_writes := d_irq_writes d @ [(irq, str)]\<rparr>)
      } else bind_irqs f ps d)"

text \<open>The answer to the client is written at the end, so a result means that it has been attempted.\<close>

definition deploy_program ::
    "env \<Rightarrow> irq_files \<Rightarrow> task_cpu_map list option \<Rightarrow> deployd \<Rightarrow> program \<Rightarrow> (int \<times> deployd) option" where
  "deploy_program e f junk d prog = do {
     let n = length (pr_cpu_list prog);
     d \<leftarrow> (if pr_task_bind_mode prog = AUTO then map_option snd (process_auto_bind e d prog)
          else if pr_task_bind_mode prog = COARSE \<and> 0 < n then map_option snd (process_cpulist_bind d prog)
          else if pr_task_bind_mode prog = FINE \<and> 0 < n
          then map_option snd (process_managed_threads_bind d prog junk)
          else Some d);
     d \<leftarrow> bind_irqs f (take MAX_IRQS_BIND (pr_irq_bind prog)) d;
     Some (0, d)
   }"

section \<open>The configuration\<close>

text \<open>One line of the section \<^verbatim>\<open>[SYS]\<close>.\<close>

definition sys_line :: "string \<Rightarrow> deployd \<Rightarrow> deployd option" where
  "sys_line p d =
     (if str_start_with p ''occupied_cpus'' then
        (case cfg_strtostr p of None \<Rightarrow> Some d | Some v \<Rightarrow> map_option snd (occupied_cpu_to_load d v))
      else if str_start_with p ''occupied_io_nodes'' then Some d
      else if str_start_with p ''default_task_bind'' then
        Some (case cfg_strtostr p of
            None \<Rightarrow> d
          | Some v \<Rightarrow> d\<lparr>default_task_bind := cfg_strtocpubind v (default_task_bind d)\<rparr>)
      else if str_start_with p ''default_mem_bandwidth'' then
        Some (case cfg_strtostr p of
            None \<Rightarrow> d
          | Some v \<Rightarrow> d\<lparr>default_mem_bandwidth := cfg_strtomemband v (default_mem_bandwidth d)\<rparr>)
      else Some d)"

text \<open>The lines \<^verbatim>\<open>getline\<close> returns, with their newlines.\<close>

function lines :: "string \<Rightarrow> string list" where
  "lines txt =
     (if txt = [] then []
      else let l = takeWhile (\<lambda>c. c \<noteq> CHR 0x0A) txt; r = dropWhile (\<lambda>c. c \<noteq> CHR 0x0A) txt in
        (l @ take 1 r) # lines (drop 1 r))"
  by auto
termination
proof (relation "measure length", simp)
  fix t l r :: string
  assume *: "t \<noteq> []" "l = takeWhile (\<lambda>c. c \<noteq> CHR 0x0A) t" "r = dropWhile (\<lambda>c. c \<noteq> CHR 0x0A) t"
  have "length l + length r = length t"
    unfolding *(2,3) by (simp flip: length_append)
  moreover have "l = [] \<Longrightarrow> r \<noteq> []"
    using * takeWhile_dropWhile_id [of "\<lambda>c. c \<noteq> CHR 0x0A" t] by auto
  ultimately show "(drop 1 r, t) \<in> measure length"
    using *(1) by (cases r; cases l) auto
qed

declare lines.simps [simp del]

fun sys_lines :: "string list \<Rightarrow> deployd \<Rightarrow> deployd option" where
  "sys_lines [] d = Some d"
| "sys_lines (p # ps) d = do { d \<leftarrow> sys_line p d; sys_lines ps d }"

definition parse_cfg_file :: "string option \<Rightarrow> deployd \<Rightarrow> (int \<times> deployd) option" where
  "parse_cfg_file contents d = (case contents of
       None \<Rightarrow> Some (- 1, d)
     | Some t \<Rightarrow>
         if t = [] then Some (0, d)
         else let (p, r) = fgets 4096 t in
           if \<not> str_start_with p ''[SYS]'' then Some (- 1, d)
           else map_option (\<lambda>d. (0, d)) (sys_lines (lines r) d))"

section \<open>Serving clients\<close>

text \<open>The state of \<^verbatim>\<open>main\<close>: the table of client descriptors (-1 when free), the set passed to \<^verbatim>\<open>select\<close> and
  its largest element.\<close>

record server =
  sv_d :: deployd
  sv_socket :: int
  sv_client :: "int list"
  sv_allset :: "int set"
  sv_maxfd :: int

datatype read_result = Read_EOF | Read_program program

definition server_start :: "deployd \<Rightarrow> int \<Rightarrow> server" where
  "server_start d fd = \<lparr>sv_d = d, sv_socket = fd, sv_client = replicate 1024 (- 1), sv_allset = {fd}, sv_maxfd = fd\<rparr>"

text \<open>The first free entry of the table.\<close>

fun free_slot :: "int list \<Rightarrow> nat" where
  "free_slot [] = 0"
| "free_slot (c # cs) = (if c < 0 then 0 else Suc (free_slot cs))"

text \<open>A new client; with a full table the daemon exits, and a failed \<^verbatim>\<open>accept\<close> puts -1 into a descriptor
  set, which is undefined, as is a descriptor of \<^verbatim>\<open>FD_SETSIZE\<close> or more.\<close>

definition accept_client :: "int \<Rightarrow> server \<Rightarrow> server option" where
  "accept_client cli_fd sv =
     (let i = free_slot (sv_client sv) in
      if i = length (sv_client sv) \<or> cli_fd < 0 \<or> 1024 \<le> cli_fd then None
      else Some (sv\<lparr>sv_client := (sv_client sv)[i := cli_fd], sv_allset := insert cli_fd (sv_allset sv),
        sv_maxfd := max (sv_maxfd sv) cli_fd\<rparr>))"

text \<open>The clients with data, in the order of the table, at most \<open>events\<close> of them.\<close>

fun serve_clients :: "env \<Rightarrow> irq_files \<Rightarrow> task_cpu_map list option \<Rightarrow> (int \<Rightarrow> bool) \<Rightarrow> (int \<Rightarrow> read_result)
    \<Rightarrow> nat list \<Rightarrow> int \<Rightarrow> server \<Rightarrow> server option" where
  "serve_clients e f junk rset rd_fd [] events sv = Some sv"
| "serve_clients e f junk rset rd_fd (i # is) events sv =
     (let fd = sv_client sv ! i in
      if 0 \<le> fd \<and> rset fd then do {
        sv \<leftarrow> (case rd_fd fd of
            Read_EOF \<Rightarrow> Some (sv\<lparr>sv_allset := sv_allset sv - {fd}, sv_client := (sv_client sv)[i := - 1]\<rparr>)
          | Read_program prog \<Rightarrow> map_option (\<lambda>(_, d). sv\<lparr>sv_d := d\<rparr>) (deploy_program e f junk (sv_d sv) prog));
        if events - 1 = 0 then Some sv else serve_clients e f junk rset rd_fd is (events - 1) sv
      } else serve_clients e f junk rset rd_fd is events sv)"

text \<open>One iteration of the loop, after \<^verbatim>\<open>select\<close> has returned the number of ready descriptors and the
  ready ones.\<close>

definition select_iter :: "env \<Rightarrow> irq_files \<Rightarrow> task_cpu_map list option \<Rightarrow> (int \<Rightarrow> bool) \<Rightarrow> (int \<Rightarrow> read_result)
    \<Rightarrow> int \<Rightarrow> int \<Rightarrow> server \<Rightarrow> server option" where
  "select_iter e f junk rset rd_fd events cli_fd sv =
     (if events < 0 then None
      else if rset (sv_socket sv) then do {
        sv \<leftarrow> accept_client cli_fd sv;
        if events - 1 = 0 then Some sv
        else serve_clients e f junk rset rd_fd [0..<length (sv_client sv)] (events - 1) sv
      } else serve_clients e f junk rset rd_fd [0..<length (sv_client sv)] events sv)"

section \<open>The table of clients\<close>

definition open_fds :: "int list \<Rightarrow> int list" where
  "open_fds cs = filter (\<lambda>c. 0 \<le> c) cs"

text \<open>The descriptors watched are the listening socket and the clients in the table, each once, and all
  of them are at most \<^verbatim>\<open>maxfd\<close>.\<close>

definition server_inv :: "server \<Rightarrow> bool" where
  "server_inv sv \<longleftrightarrow> length (sv_client sv) = 1024 \<and> 0 \<le> sv_socket sv \<and> distinct (open_fds (sv_client sv))
     \<and> sv_socket sv \<notin> set (open_fds (sv_client sv))
     \<and> sv_allset sv = insert (sv_socket sv) (set (open_fds (sv_client sv)))
     \<and> (\<forall>fd \<in> sv_allset sv. fd \<le> sv_maxfd sv)"

lemma free_slot_le: "free_slot cs \<le> length cs"
  by (induction cs) auto

lemma free_slot_neg: "free_slot cs < length cs \<Longrightarrow> cs ! free_slot cs < 0"
  by (induction cs) auto

lemma open_fds_fill:
  assumes "i < length cs" "cs ! i < 0" "0 \<le> fd"
  shows "set (open_fds (cs[i := fd])) = insert fd (set (open_fds cs))"
    and "distinct (open_fds cs) \<Longrightarrow> fd \<notin> set (open_fds cs) \<Longrightarrow> distinct (open_fds (cs[i := fd]))"
proof -
  have cs: "cs = take i cs @ cs ! i # drop (Suc i) cs"
    using assms(1) by (rule id_take_nth_drop)
  have o: "open_fds cs = open_fds (take i cs) @ open_fds (drop (Suc i) cs)"
    by (subst cs) (use assms(2) in \<open>simp add: open_fds_def\<close>)
  have u: "open_fds (cs[i := fd]) = open_fds (take i cs) @ fd # open_fds (drop (Suc i) cs)"
    using assms(1,3) by (simp add: upd_conv_take_nth_drop open_fds_def)
  show "set (open_fds (cs[i := fd])) = insert fd (set (open_fds cs))"
    unfolding o u by auto
  show "distinct (open_fds (cs[i := fd]))" if "distinct (open_fds cs)" "fd \<notin> set (open_fds cs)"
    using that unfolding o u by auto
qed

lemma open_fds_clear:
  assumes "i < length cs" "0 \<le> cs ! i" "distinct (open_fds cs)"
  shows "set (open_fds (cs[i := - 1])) = set (open_fds cs) - {cs ! i}" and "distinct (open_fds (cs[i := - 1]))"
proof -
  have cs: "cs = take i cs @ cs ! i # drop (Suc i) cs"
    using assms(1) by (rule id_take_nth_drop)
  have o: "open_fds cs = open_fds (take i cs) @ cs ! i # open_fds (drop (Suc i) cs)"
    by (subst cs) (use assms(2) in \<open>simp add: open_fds_def\<close>)
  have u: "open_fds (cs[i := - 1]) = open_fds (take i cs) @ open_fds (drop (Suc i) cs)"
    using assms(1) by (simp add: upd_conv_take_nth_drop open_fds_def)
  show "set (open_fds (cs[i := - 1])) = set (open_fds cs) - {cs ! i}" "distinct (open_fds (cs[i := - 1]))"
    using assms(3) unfolding o u by auto
qed

lemma accept_client_inv:
  assumes "server_inv sv" "cli_fd \<notin> sv_allset sv" "accept_client cli_fd sv = Some sv'"
  shows "server_inv sv'"
proof -
  let ?i = "free_slot (sv_client sv)"
  have i: "?i < length (sv_client sv)" "0 \<le> cli_fd"
    "sv' = sv\<lparr>sv_client := (sv_client sv)[?i := cli_fd], sv_allset := insert cli_fd (sv_allset sv),
      sv_maxfd := max (sv_maxfd sv) cli_fd\<rparr>"
    using assms(3) free_slot_le [of "sv_client sv"] by (auto simp: accept_client_def Let_def split: if_splits)
  note o = open_fds_fill [OF i(1) free_slot_neg [OF i(1)] i(2)]
  show ?thesis
    using assms(1,2) o i(3) unfolding server_inv_def by (auto intro: max.coboundedI1)
qed

lemma serve_clients_inv:
  assumes "serve_clients e f junk rset rd_fd is events sv = Some sv'" "server_inv sv" "\<forall>i \<in> set is. i < 1024"
  shows "server_inv sv'"
  using assms
proof (induction "is" arbitrary: sv events)
  case (Cons i "is")
  let ?fd = "sv_client sv ! i"
  show ?case
  proof (cases "0 \<le> ?fd \<and> rset ?fd")
    case False
    then have "serve_clients e f junk rset rd_fd is events sv = Some sv'"
      using Cons.prems(1) by (auto simp: Let_def)
    then show ?thesis
      using Cons by auto
  next
    case True
    then obtain sv1 where sv1: "(case rd_fd ?fd of
            Read_EOF \<Rightarrow> Some (sv\<lparr>sv_allset := sv_allset sv - {?fd}, sv_client := (sv_client sv)[i := - 1]\<rparr>)
          | Read_program prog \<Rightarrow> map_option (\<lambda>(_, d). sv\<lparr>sv_d := d\<rparr>) (deploy_program e f junk (sv_d sv) prog)) = Some sv1"
        "(if events - 1 = 0 then Some sv1 else serve_clients e f junk rset rd_fd is (events - 1) sv1) = Some sv'"
      using Cons.prems(1) by (auto simp: Let_def bind_eq_Some_conv simp del: diff_eq_diff_eq)
    have "server_inv sv1"
    proof (cases "rd_fd ?fd")
      case Read_EOF
      have "i < length (sv_client sv)"
        using Cons.prems(2,3) by (simp add: server_inv_def)
      note o = open_fds_clear [OF this]
      have fd: "?fd \<in> set (open_fds (sv_client sv))"
        using True \<open>i < length (sv_client sv)\<close> by (simp add: open_fds_def)
      show ?thesis
        using Cons.prems(2) o True fd sv1(1) Read_EOF unfolding server_inv_def by auto
    next
      case (Read_program prog)
      then show ?thesis
        using sv1(1) Cons.prems(2) by (auto simp: server_inv_def)
    qed
    then show ?thesis
      using sv1(2) Cons.IH [of "events - 1" sv1] Cons.prems(3) by (auto split: if_splits)
  qed
qed simp

inductive served :: "deployd \<Rightarrow> int \<Rightarrow> server \<Rightarrow> bool" for d0 sock where
  start: "served d0 sock (server_start d0 sock)"
| iter: "served d0 sock sv \<Longrightarrow> cli_fd \<notin> sv_allset sv
    \<Longrightarrow> select_iter e f junk rset rd_fd events cli_fd sv = Some sv' \<Longrightarrow> served d0 sock sv'"

text \<open>C25. In every state of the daemon's loop, whatever the clients send: the descriptors watched are
  exactly the listening socket and the clients in the table, each in one entry, and none of them is
  above \<^verbatim>\<open>maxfd\<close>, so that \<^verbatim>\<open>select\<close> watches all of them. A new connection has a descriptor that is not
  in use.\<close>

theorem served_inv:
  assumes "served d0 sock sv" "0 \<le> sock"
  shows "server_inv sv"
  using assms
proof (induction rule: served.induct)
  case start
  have "open_fds (replicate n (- 1)) = []" for n
    by (simp add: open_fds_def)
  then show ?case
    using start by (simp add: server_inv_def server_start_def)
next
  case (iter sv cli_fd e f junk rset rd_fd events sv')
  then have inv: "server_inv sv" by simp
  have len: "\<forall>i \<in> set [0..<length (sv_client s)]. i < 1024" if "server_inv s" for s
    using that by (simp add: server_inv_def)
  show ?case
  proof (cases "rset (sv_socket sv)")
    case False
    then show ?thesis
      using iter.hyps(3) serve_clients_inv [OF _ inv len [OF inv]] by (auto simp: select_iter_def split: if_splits)
  next
    case True
    then obtain sv1 where sv1: "accept_client cli_fd sv = Some sv1"
        "(if events - 1 = 0 then Some sv1
          else serve_clients e f junk rset rd_fd [0..<length (sv_client sv1)] (events - 1) sv1) = Some sv'"
      using iter.hyps(3) by (auto simp: select_iter_def bind_eq_Some_conv simp del: diff_eq_diff_eq split: if_splits)
    have inv1: "server_inv sv1"
      by (rule accept_client_inv [OF inv iter.hyps(2) sv1(1)])
    show ?thesis
      using sv1(2) inv1 serve_clients_inv [OF _ inv1 len [OF inv1]] by (auto split: if_splits)
  qed
qed

section \<open>Automatic placement\<close>

lemma find_ccl_room:
  assumes "find_ccl d pack ccl cpu util i = Some (Some (i', c))"
  shows "\<exists>room. ccl_idle_cpu_cores d c = Some room \<and> util \<le> room"
    and "0 \<le> ccl \<Longrightarrow> i \<le> i'" and "c_div (i' + cpu) ccl = Some c"
proof -
  have "(\<exists>room. ccl_idle_cpu_cores d c = Some room \<and> util \<le> room) \<and> (0 \<le> ccl \<longrightarrow> i \<le> i')
      \<and> c_div (i' + cpu) ccl = Some c"
  proof (rule find_ccl.raw_induct [where P = "\<lambda>d pack ccl cpu util i r. \<forall>i' c. r = Some (i', c) \<longrightarrow>
      (\<exists>room. ccl_idle_cpu_cores d c = Some room \<and> util \<le> room) \<and> (0 \<le> ccl \<longrightarrow> i \<le> i')
      \<and> c_div (i' + cpu) ccl = Some c", OF _ assms, rule_format], goal_cases)
    case (1 loop d pack ccl cpu util i r i' c)
    then show ?case
      by (auto simp: bind_eq_Some_conv split: if_splits) force+
  qed simp
  then show "\<exists>room. ccl_idle_cpu_cores d c = Some room \<and> util \<le> room" "0 \<le> ccl \<Longrightarrow> i \<le> i'"
    "c_div (i' + cpu) ccl = Some c"
    by blast+
qed

lemma bind_effect_loads:
  "bind_effect r d = Some d' \<Longrightarrow> ccl_cpus_load d' = ccl_cpus_load d \<and> node_cpus_load d' = node_cpus_load d"
  by (auto simp: bind_effect_def)

lemma add_ccl_loads:
  "add_ccl c x d = Some d' \<Longrightarrow> 0 \<le> c \<and> nat c < length (ccl_cpus_load d)
     \<and> ccl_cpus_load d' = (ccl_cpus_load d)[nat c := ccl_cpus_load d ! nat c + x]
     \<and> d_kernel d' = d_kernel d"
  by (auto simp: add_ccl_def rdi_def wri_def rd_def wr_def bind_eq_Some_conv split: if_splits)

lemma add_node_loads:
  "add_node n x d = Some d' \<Longrightarrow> ccl_cpus_load d' = ccl_cpus_load d \<and> d_kernel d' = d_kernel d"
  by (auto simp: add_node_def bind_eq_Some_conv)

lemma bind_die_loads: "bind_die e d prog = Some d' \<Longrightarrow> ccl_cpus_load d' = ccl_cpus_load d"
  by (auto simp: bind_die_def bind_eq_Some_conv dest!: bind_effect_loads add_node_loads split: if_splits)

lemma cpus_in_ccl_again: "cpus_in_ccl (after_ccl_query d) = cpus_in_ccl d"
  by (simp add: cpus_in_ccl_def after_ccl_query_def wayca_sc_cpus_in_ccl_def wayca_sc_ccls_in_total_def Let_def)

lemma after_ccl_query_simps [simp]:
  "ccl_cpus_load (after_ccl_query d) = ccl_cpus_load d" "node_cpus_load (after_ccl_query d) = node_cpus_load d"
  "d_kernel (after_ccl_query d) = d_kernel d" "te_irqs (d_topo (after_ccl_query d)) = te_irqs (d_topo d)"
  by (simp_all add: after_ccl_query_def)

lemma topo_after_query: "topo (d_ts (after_ccl_query d)) = topo (d_ts d)"
  by (simp add: after_ccl_query_def wayca_sc_cpus_in_ccl_def wayca_sc_ccls_in_total_def Let_def)

lemma node_after_query [simp]: "wayca_sc_cpus_in_node (d_ts (after_ccl_query d)) = wayca_sc_cpus_in_node (d_ts d)"
  by (simp add: wayca_sc_cpus_in_node_def topo_after_query)

text \<open>The cluster with room that the search finds for a program, if any.\<close>

abbreviation ccl_search :: "deployd \<Rightarrow> program \<Rightarrow> (int \<times> int) option option" where
  "ccl_search d prog \<equiv> find_ccl (after_ccl_query d) (wayca_sc_cpus_in_package (d_ts d)) (cpus_in_ccl d)
     (wayca_sc_cpus_in_node (d_ts d) * pr_io_node prog) (pr_cpu_util prog) 0"

text \<open>The branch in which a cluster is chosen.\<close>

lemma auto_bind_low:
  assumes "process_auto_bind e d prog = Some (r, d')" "0 \<le> pr_io_node prog" "pr_mem_band prog = LOW"
  obtains (none) "bind_die e (after_ccl_query d) prog = Some d'" "ccl_search d prog = Some None"
  | (chosen) i c s' k' r' d2 d3 where
      "ccl_search d prog = Some (Some (i, c))"
      "thread_bind_ccl e (d_topo (after_ccl_query d)) (d_kernel d) (pr_pid prog)
         (i + wayca_sc_cpus_in_node (d_ts d) * pr_io_node prog) = Some (r', s', k')"
      "d2 = (after_ccl_query d)\<lparr>d_topo := s', d_kernel := k'\<rparr>" "add_ccl c (pr_cpu_util prog) d2 = Some d3"
      "ccl_cpus_load d' = ccl_cpus_load d3" "d_kernel d' = k'"
proof -
  obtain x where x: "ccl_search d prog = Some x"
    using assms by (auto simp: process_auto_bind_def Let_def bind_eq_Some_conv)
  show thesis
  proof (cases x)
    case None
    then show thesis
      using assms x none by (auto simp: process_auto_bind_def Let_def)
  next
    case (Some ic)
    obtain i c where ic: "ic = (i, c)" by fastforce
    obtain d2 d3 n where d2: "bind_effect (thread_bind_ccl e (d_topo (after_ccl_query d)) (d_kernel (after_ccl_query d)) (pr_pid prog)
         (i + wayca_sc_cpus_in_node (d_ts d) * pr_io_node prog)) (after_ccl_query d) = Some d2"
        and d3: "add_ccl c (pr_cpu_util prog) d2 = Some d3" "add_node n (pr_cpu_util prog) d3 = Some d'"
      using assms x Some ic by (auto simp: process_auto_bind_def Let_def bind_eq_Some_conv)
    from d2 obtain r' s' k' where b: "thread_bind_ccl e (d_topo (after_ccl_query d)) (d_kernel d) (pr_pid prog)
         (i + wayca_sc_cpus_in_node (d_ts d) * pr_io_node prog) = Some (r', s', k')"
        "d2 = (after_ccl_query d)\<lparr>d_topo := s', d_kernel := k'\<rparr>"
      by (auto simp: bind_effect_def)
    show thesis
      using chosen [OF x [unfolded Some ic] b d3(1)] add_node_loads [OF d3(2)] add_ccl_loads [OF d3(1)] b(2) by simp
  qed
qed

text \<open>C26. Automatic placement never overcommits a cluster: it charges at most one cluster with the
  program's utilisation, and only one whose load stays within its number of CPUs.\<close>

theorem auto_bind_no_overcommit:
  assumes "process_auto_bind e d prog = Some (r, d')"
  shows "r = 0 \<and> (ccl_cpus_load d' = ccl_cpus_load d \<or>
    (\<exists>c < length (ccl_cpus_load d). ccl_cpus_load d' = (ccl_cpus_load d)[c := ccl_cpus_load d ! c + pr_cpu_util prog]
       \<and> ccl_cpus_load d ! c + pr_cpu_util prog \<le> cpus_in_ccl d))"
proof -
  have r: "r = 0"
    using assms by (auto simp: process_auto_bind_def Let_def split: if_splits)
  show ?thesis
  proof (cases "0 \<le> pr_io_node prog \<and> pr_mem_band prog = LOW")
    case False
    then show ?thesis
      using assms r
      by (auto simp: process_auto_bind_def Let_def split: if_splits dest!: bind_die_loads bind_effect_loads)
  next
    case True
    then have "0 \<le> pr_io_node prog" "pr_mem_band prog = LOW" by auto
    from assms this show ?thesis
    proof (cases rule: auto_bind_low)
      case none
      then show ?thesis using r bind_die_loads by simp
    next
      case (chosen i c s' k' r' d2 d3)
      obtain room where room: "ccl_idle_cpu_cores (after_ccl_query d) c = Some room" "pr_cpu_util prog \<le> room"
        using find_ccl_room(1) [OF chosen(1)] by blast
      note a = add_ccl_loads [OF chosen(4)]
      have "room = cpus_in_ccl d - ccl_cpus_load d ! nat c"
        using room(1) a chosen(3) by (auto simp: ccl_idle_cpu_cores_def cpus_in_ccl_again rdi_def rd_def split: if_splits)
      then show ?thesis
        using r room(2) a chosen(3,5) by (intro conjI disjI2 exI [of _ "nat c"]) auto
    qed
  qed
qed

text \<open>Automatic placement passes a CPU number where \<^verbatim>\<open>thread_bind_ccl\<close> expects a cluster: when the first
  CPU of the I/O node is not below the number of clusters and a cluster has room, no affinity is set
  at all, and yet the cluster is charged.\<close>

theorem auto_bind_charges_without_binding:
  assumes "process_auto_bind e d prog = Some (r, d')" "0 \<le> pr_io_node prog" "pr_mem_band prog = LOW"
    and "0 \<le> cpus_in_ccl d" "int (n_clusters (tt (d_topo d))) \<le> wayca_sc_cpus_in_node (d_ts d) * pr_io_node prog"
    and "ccl_search d prog \<noteq> Some None"
  shows "d_kernel d' = d_kernel d \<and> (\<exists>c < length (ccl_cpus_load d). ccl_cpus_load d' ! c = ccl_cpus_load d ! c + pr_cpu_util prog)"
  using assms(1-3)
proof (cases rule: auto_bind_low)
  case none
  then show ?thesis using assms(6) by blast
next
  case (chosen i c s' k' r' d2 d3)
  have t: "topo (d_ts (after_ccl_query d)) = topo (d_ts d)"
    by (rule topo_after_query)
  have "\<not> topo_is_valid_ccl (tt (d_topo (after_ccl_query d)))
      (i + wayca_sc_cpus_in_node (d_ts d) * pr_io_node prog)"
    using find_ccl_room(2) [OF chosen(1) assms(4)] assms(5) t by (simp add: topo_is_valid_ccl_def)
  then have "k' = d_kernel d"
    using chosen(2) by (simp add: thread_bind_ccl_def wayca_sc_ccl_cpu_mask_def obj_mask_def bind_query_def)
  then show ?thesis
    using chosen(3,5,6) add_ccl_loads [OF chosen(4)] by auto
qed

section \<open>Instances\<close>

text \<open>A machine with eight CPUs, two clusters, two nodes and one package.\<close>

definition sample_ccl :: "int \<Rightarrow> wayca_cluster" where
  "sample_ccl i = \<lparr>cluster_id = i, ccl_n_cpus = 4, ccl_cpu_map = [15], ccl_core_map = [15]\<rparr>"

definition sample_deployd :: deployd where
  "sample_deployd = \<lparr>ccl_cpus_load = [0, 0, 0, 0], node_cpus_load = [0, 0, 0, 0],
     d_topo = \<lparr>te = \<lparr>topo = zero_topo\<lparr>n_cpus := 8, ccls := [sample_ccl 0, sample_ccl 1], nodes := [zero_node, zero_node],
         packages := [\<lparr>physical_package_id = 0, pkg_n_cpus = 8, pkg_cpu_map = [255], numa_map = [3]\<rparr>]\<rparr>,
         max_cores = 0, max_ccls = 0\<rparr>, te_irqs = None, te_max = 1\<rparr>,
     d_kernel = sample_kernel, d_irq_writes = [], default_task_bind = AUTO, default_mem_bandwidth = ALL_BAND\<rparr>"

lemma sample_auto_bind:
  "\<exists>d'. process_auto_bind sample_e sample_deployd (sample_program\<lparr>pr_io_node := 1\<rparr>) = Some (0, d')
     \<and> ccl_cpus_load d' = [0, 1, 0, 0]"
  "cpus_in_ccl sample_deployd = 4" "wayca_sc_cpus_in_node (d_ts sample_deployd) = 4"
  "ccl_search sample_deployd (sample_program\<lparr>pr_io_node := 1\<rparr>) = Some (Some (0, 1))"
proof -
  have "map_option (\<lambda>(r, d'). (r, ccl_cpus_load d'))
      (process_auto_bind sample_e sample_deployd (sample_program\<lparr>pr_io_node := 1\<rparr>)) = Some (0, [0, 1, 0, 0])"
    by code_simp
  then show "\<exists>d'. process_auto_bind sample_e sample_deployd (sample_program\<lparr>pr_io_node := 1\<rparr>) = Some (0, d')
     \<and> ccl_cpus_load d' = [0, 1, 0, 0]" by auto
  show "cpus_in_ccl sample_deployd = 4" "wayca_sc_cpus_in_node (d_ts sample_deployd) = 4"
    "ccl_search sample_deployd (sample_program\<lparr>pr_io_node := 1\<rparr>) = Some (Some (0, 1))"
    by code_simp+
qed

theorem auto_bind_no_overcommit_witness:
  "\<exists>d' c. process_auto_bind sample_e sample_deployd (sample_program\<lparr>pr_io_node := 1\<rparr>) = Some (0, d')
     \<and> c < 4 \<and> ccl_cpus_load d' = (ccl_cpus_load sample_deployd)[c := ccl_cpus_load sample_deployd ! c + 1]
     \<and> ccl_cpus_load sample_deployd ! c + 1 \<le> 4"
proof -
  obtain d' where d': "process_auto_bind sample_e sample_deployd (sample_program\<lparr>pr_io_node := 1\<rparr>) = Some (0, d')"
      "ccl_cpus_load d' = [0, 1, 0, 0]"
    using sample_auto_bind(1) by blast
  have l: "length (ccl_cpus_load sample_deployd) = 4" "ccl_cpus_load sample_deployd \<noteq> [0, 1, 0, 0]"
    "pr_cpu_util (sample_program\<lparr>pr_io_node := 1\<rparr>) = 1"
    by (simp_all add: sample_deployd_def sample_program_def)
  then show ?thesis
    using auto_bind_no_overcommit [OF d'(1)] d' unfolding sample_auto_bind(2) l by metis
qed

theorem auto_bind_charges_without_binding_witness:
  "\<exists>d'. process_auto_bind sample_e sample_deployd (sample_program\<lparr>pr_io_node := 1\<rparr>) = Some (0, d')
     \<and> k_aff (d_kernel d') = [] \<and> ccl_cpus_load d' = [0, 1, 0, 0]"
proof -
  obtain d' where d': "process_auto_bind sample_e sample_deployd (sample_program\<lparr>pr_io_node := 1\<rparr>) = Some (0, d')"
      "ccl_cpus_load d' = [0, 1, 0, 0]"
    using sample_auto_bind(1) by blast
  have "d_kernel d' = d_kernel sample_deployd"
    using auto_bind_charges_without_binding [OF d'(1)] sample_auto_bind(2-4)
    by (simp add: sample_program_def) (simp add: sample_deployd_def)
  then show ?thesis
    using d' by (simp add: sample_deployd_def sample_kernel_def)
qed

theorem served_inv_witness:
  "\<exists>sv. select_iter sample_e sample_irqs None (\<lambda>fd. fd = 3) (\<lambda>_. Read_EOF) 1 5 (server_start sample_deployd 3) = Some sv
     \<and> server_inv sv \<and> sv_allset sv = {3, 5}"
proof -
  have f: "free_slot (replicate n (- 1)) = 0" for n
    by (cases n) auto
  have i: "\<exists>sv. select_iter sample_e sample_irqs None (\<lambda>fd. fd = 3) (\<lambda>_. Read_EOF) 1 5 (server_start sample_deployd 3) = Some sv
     \<and> sv_allset sv = {3, 5}"
    by (auto simp: select_iter_def accept_client_def server_start_def f)
  then obtain sv where sv: "select_iter sample_e sample_irqs None (\<lambda>fd. fd = 3) (\<lambda>_. Read_EOF) 1 5 (server_start sample_deployd 3) = Some sv"
      "sv_allset sv = {3, 5}"
    by blast
  have "served sample_deployd 3 sv"
    using served.iter [OF served.start _ sv(1)] by (simp add: server_start_def)
  then show ?thesis
    using served_inv sv by auto
qed

end
