(* ===== verification/Commands.thy ===== *)
theory Commands
  imports Mem Irq Bind
begin

text \<open>
  The command line tools around the library: \<^verbatim>\<open>irqdump.c\<close>, \<^verbatim>\<open>irqdeploy.c\<close> and \<^verbatim>\<open>taskdeploy.c\<close>. The options are the
  results of \<^verbatim>\<open>getopt_long\<close>, each with its argument; the contents of \<^verbatim>\<open>/proc/interrupts\<close> are an
  argument. What is printed for a user and the profiling with \<^verbatim>\<open>perf\<close> are left out, except for the table of
  \<^verbatim>\<open>irqdump\<close>, which is its result.
\<close>

section \<open>irqdump\<close>

definition trim_leadspace :: "string \<Rightarrow> string" where
  "trim_leadspace s = dropWhile isspace s"

definition remove_newline :: "string \<Rightarrow> string" where
  "remove_newline s = (if s \<noteq> [] \<and> last s = CHR 0x0A then butlast s else s)"

lemma scan_number_shorter:
  assumes "scan_number s = Some (neg, n, r)"
  shows "length r < length s"
proof -
  let ?s = "dropWhile isspace s"
  define u where "u = (case ?s of c # r \<Rightarrow> if c = CHR ''-'' then (True, r)
      else if c = CHR ''+'' then (False, r) else (False, ?s) | [] \<Rightarrow> (False, ?s))"
  have u: "length (snd u) \<le> length ?s"
    unfolding u_def by (auto split: list.splits)
  have r: "r = dropWhile isdigit (snd u)" "takeWhile isdigit (snd u) \<noteq> []"
    using assms unfolding scan_number_def Let_def u_def [symmetric] by (auto split: prod.splits if_splits)
  then have "length r < length (snd u)"
    by (metis length_append length_greater_0_conv less_add_same_cancel2 takeWhile_dropWhile_id)
  then show ?thesis
    using u length_dropWhile_le [of isspace s] by linarith
qed

text \<open>The loop that adds up the counts: the sum, which wraps at 64 bits, and the rest of the line.\<close>

function sum_counts :: "string \<Rightarrow> ulong \<Rightarrow> ulong \<times> string" where
  "sum_counts p count =
     (let p = trim_leadspace p in
      case p of
        [] \<Rightarrow> (count, p)
      | c # _ \<Rightarrow> if \<not> isdigit c then (count, p)
               else let (v, r, _) = strtoul p in sum_counts r (count + v))"
  by auto
termination
proof (relation "measure (\<lambda>(p, _). length p)", simp)
  fix p q :: string and count :: ulong and c cs x v y r e
  assume *: "q = trim_leadspace p" "q = c # cs" "\<not> \<not> isdigit c" "x = strtoul q" "(v, y) = x" "(r, e) = y"
  have "\<exists>neg n r'. scan_number q = Some (neg, n, r')"
    using *(2,3) isdigit_not [of c] by (auto simp: scan_number_def)
  then obtain neg n r' where n: "scan_number q = Some (neg, n, r')" by blast
  have "r = r'"
    using *(4-6) n by (auto simp: strtoul_def split: if_splits)
  then have "length r < length q"
    using scan_number_shorter [OF n] by simp
  then show "((r, count + v), (p, count)) \<in> measure (\<lambda>(p, _). length p)"
    using length_dropWhile_le [of isspace p] *(1) by (simp add: trim_leadspace_def)
qed

declare sum_counts.simps [simp del]

text \<open>One line of the file: number, count and name, \<open>None\<close> when it is skipped.\<close>

definition irq_line :: "string \<Rightarrow> (int \<times> int \<times> string) option" where
  "irq_line buf =
     (let buf = remove_newline buf; p = trim_leadspace buf in
      if p = [] \<or> \<not> isdigit (hd p) then None
      else case dropWhile (\<lambda>c. c \<noteq> CHR '':'') buf of
        [] \<Rightarrow> None
      | _ # p \<Rightarrow>
          let irqno = to_int (uint (fst (strtoul (takeWhile (\<lambda>c. c \<noteq> CHR '':'') buf))));
              (count, p) = sum_counts p 0
          in Some (irqno, sint count, trim_leadspace p))"

function irq_lines :: "string \<Rightarrow> string option \<Rightarrow> (int \<times> int \<times> string) list" where
  "irq_lines txt i_name =
     (if txt = [] then []
      else let (buf, rest) = fgets 4096 txt in
        (case irq_line buf of
           None \<Rightarrow> []
         | Some (irqno, count, p) \<Rightarrow>
             if (case i_name of None \<Rightarrow> True | Some nm \<Rightarrow> strstr p nm \<noteq> None) then [(irqno, count, p)] else [])
        @ irq_lines rest i_name)"
  by pat_completeness auto
termination
proof (relation "measure (\<lambda>(t, _). length t)", simp)
  fix t :: string and i_name :: "string option" and x l r
  assume *: "t \<noteq> []" "x = fgets 4096 t" "(l, r) = x"
  have "length (snd (fgets 4096 t)) < length t"
    using *(1) by (rule length_fgets) simp
  then show "((r, i_name), (t, i_name)) \<in> measure (\<lambda>(t, _). length t)"
    using *(2,3) by (metis (no_types, lifting) case_prod_conv in_measure snd_conv)
qed

declare irq_lines.simps [simp del]

text \<open>Reading from a file that could not be opened has no outcome.\<close>

definition irq_dump :: "string option \<Rightarrow> string option \<Rightarrow> (int \<times> int \<times> string) list option" where
  "irq_dump contents i_name = map_option (\<lambda>txt. irq_lines txt i_name) contents"

definition irqdump_main :: "string option \<Rightarrow> string list \<Rightarrow> (int \<times> int \<times> string) list list option" where
  "irqdump_main contents args =
     (if args = [] then map_option (\<lambda>x. [x]) (irq_dump contents None)
      else map_option (\<lambda>txt. map (\<lambda>nm. irq_lines txt (Some nm)) args) contents)"

section \<open>irqdeploy\<close>

text \<open>A number on the command line: \<^verbatim>\<open>(int)strtoul(optarg, NULL, 10)\<close>.\<close>

definition arg_int :: "string \<Rightarrow> int" where
  "arg_int s = to_int (uint (fst (strtoul s)))"

text \<open>The options: an exit code, or the CPU and the interrupt.\<close>

fun irq_options :: "(char \<times> string) list \<Rightarrow> int \<Rightarrow> int \<Rightarrow> int + int \<times> int" where
  "irq_options [] cpu irq = Inr (cpu, irq)"
| "irq_options ((opt, optarg) # os) cpu irq =
     (if opt = CHR ''h'' \<or> opt = CHR ''V'' then Inl 0
      else if opt = CHR ''c'' then irq_options os (arg_int optarg) irq
      else if opt = CHR ''i'' then irq_options os cpu (arg_int optarg)
      else irq_options os cpu irq)"

text \<open>The exit code, or the result of the binding with the string written.\<close>

definition irqdeploy :: "irq_files \<Rightarrow> topo_state \<Rightarrow> (char \<times> string) list \<Rightarrow> (int + int \<times> string option) option" where
  "irqdeploy f ts opts = (case irq_options opts (- 1) (- 1) of
       Inl x \<Rightarrow> Some (Inl x)
     | Inr (cpu, irq) \<Rightarrow>
         if cpu = - 1 \<or> irq = - 1 then Some (Inl 1)
         else map_option Inr (wayca_sc_irq_bind_cpu f ts irq cpu))"

section \<open>taskdeploy\<close>

record task_opts =
  to_all :: bool
  to_exec :: bool
  to_pid :: int
  to_mem_node :: int
  to_cpulist :: string

fun task_options :: "(char \<times> string) list \<Rightarrow> task_opts \<Rightarrow> int + task_opts" where
  "task_options [] t = Inr t"
| "task_options ((opt, optarg) # os) t =
     (if opt = CHR ''h'' \<or> opt = CHR ''V'' then Inl 0
      else task_options os
        (if opt = CHR ''c'' then t\<lparr>to_cpulist := take 199 optarg\<rparr>
         else if opt = CHR ''p'' then t\<lparr>to_pid := arg_int optarg\<rparr>
         else if opt = CHR ''m'' then t\<lparr>to_mem_node := arg_int optarg\<rparr>
         else if opt = CHR ''a'' then t\<lparr>to_all := True\<rparr>
         else if opt = CHR ''e'' then t\<lparr>to_exec := True\<rparr>
         else t))"

text \<open>How the tool ends: with an exit code, by binding another task, or by replacing itself with the
  program to start.\<close>

datatype task_end = Exit int | Bound | Exec

definition taskdeploy :: "env \<Rightarrow> topo_env \<Rightarrow> kernel \<Rightarrow> mem_kernel \<Rightarrow> (char \<times> string) list
    \<Rightarrow> (task_end \<times> topo_env \<times> kernel \<times> mem_kernel) option" where
  "taskdeploy e s k mk opts =
     (case task_options opts \<lparr>to_all = False, to_exec = False, to_pid = - 1, to_mem_node = - 1, to_cpulist = []\<rparr> of
        Inl x \<Rightarrow> Some (Exit x, s, k, mk)
      | Inr t \<Rightarrow>
          let pid = (if to_exec t then 0 else to_pid t) in
          if to_cpulist t = [] \<or> pid = - 1 then Some (Exit 1, s, k, mk)
          else if pid \<noteq> 0 then do {
            (_, k) \<leftarrow> (if to_all t \<and> pid \<noteq> 0 then process_bind_cpulist (te s) k pid (to_cpulist t)
                      else thread_bind_cpulist (te s) k pid (to_cpulist t));
            (s, mk) \<leftarrow> (if to_mem_node t \<noteq> - 1
                       then map_option snd (wayca_sc_mem_migrate_to_node e s mk pid (to_mem_node t))
                       else Some (s, mk));
            Some (Bound, s, k, mk)
          }
          else do {
            (_, k) \<leftarrow> thread_bind_cpulist (te s) k pid (to_cpulist t);
            let mk = (if to_mem_node t \<noteq> - 1 then snd (wayca_sc_mem_bind_node s mk (to_mem_node t)) else mk);
            Some (Exec, s, k, mk)
          })"

section \<open>Printed interrupt tables are read back\<close>

text \<open>A line of \<^verbatim>\<open>/proc/interrupts\<close>: the number, a count for each CPU, with the spaces before it, and the name.\<close>

record irq_entry =
  ie_pad :: nat
  ie_irq :: nat
  ie_counts :: "(nat \<times> nat) list"
  ie_gap :: nat
  ie_name :: string

definition print_count :: "nat \<times> nat \<Rightarrow> string" where
  "print_count = (\<lambda>(k, n). replicate k CHR '' '' @ decimal n)"

definition irq_text :: "irq_entry \<Rightarrow> string" where
  "irq_text l = replicate (ie_pad l) CHR '' '' @ decimal (ie_irq l) @ '':'' @ concat (map print_count (ie_counts l))
     @ replicate (ie_gap l) CHR '' '' @ ie_name l @ [CHR 0x0A]"

definition ie_total :: "irq_entry \<Rightarrow> nat" where
  "ie_total l = sum_list (map snd (ie_counts l))"

definition entry_ok :: "irq_entry \<Rightarrow> bool" where
  "entry_ok l \<longleftrightarrow> ie_irq l < 2 ^ 31 \<and> ie_total l < 2 ^ 63 \<and> (\<forall>(k, _) \<in> set (ie_counts l). 0 < k)
     \<and> (ie_name l = [] \<or> \<not> isspace (hd (ie_name l)) \<and> \<not> isdigit (hd (ie_name l)))
     \<and> CHR 0x0A \<notin> set (ie_name l) \<and> length (irq_text l) < 4096"

lemma dropWhile_pad [simp]: "dropWhile isspace (replicate k CHR '' '' @ s) = dropWhile isspace s"
  by (induction k) (auto simp: isspace_def)

lemma scan_number_pad: "scan_number (replicate k CHR '' '' @ s) = scan_number s"
  by (simp add: scan_number_def)

lemma dropWhile_decimal: "dropWhile isspace (decimal n @ s) = decimal n @ s" "isdigit (hd (decimal n @ s))"
proof -
  obtain c cs where "decimal n = c # cs" "isdigit c"
    using decimal_digits [of n] decimal_ne [of n] by (cases "decimal n") auto
  then show "dropWhile isspace (decimal n @ s) = decimal n @ s" "isdigit (hd (decimal n @ s))"
    using isdigit_not [of c] by simp_all
qed

lemma sum_counts_step:
  assumes "stops r" "n < 2 ^ 64"
  shows "sum_counts (replicate k CHR '' '' @ decimal n @ r) count = sum_counts r (count + of_nat n)"
proof -
  obtain c cs where c: "decimal n @ r = c # cs" "isdigit c"
    using dropWhile_decimal(2) [of n r] by (cases "decimal n @ r") auto
  have "trim_leadspace (replicate k CHR '' '' @ decimal n @ r) = c # cs"
    using dropWhile_decimal(1) [of n r] c(1) by (simp add: trim_leadspace_def)
  moreover have "strtoul (c # cs) = (of_nat n, r, 0)"
    using strtoul_decimal [OF assms] c(1) by simp
  ultimately show ?thesis
    using c(2) by (subst sum_counts.simps) simp
qed

lemma sum_counts_print:
  assumes "\<forall>(k, n) \<in> set cs. 0 < k \<and> n < 2 ^ 64" "name = [] \<or> \<not> isspace (hd name) \<and> \<not> isdigit (hd name)"
  shows "sum_counts (concat (map print_count cs) @ replicate gap CHR '' '' @ name) count
    = (count + of_nat (sum_list (map snd cs)), name)"
  using assms(1)
proof (induction cs arbitrary: count)
  case Nil
  have "trim_leadspace (replicate gap CHR '' '' @ name) = name"
    using assms(2) by (cases name) (simp_all add: trim_leadspace_def isspace_def)
  then show ?case
    using assms(2) by (subst sum_counts.simps) (cases name; simp)
next
  case (Cons x cs)
  obtain k n where x: "x = (k, n)" by (cases x)
  have "stops (concat (map print_count cs) @ replicate gap CHR '' '' @ name)"
  proof (cases cs)
    case Nil
    then show ?thesis
      using assms(2) by (cases gap; cases name) (auto simp: stops_def isdigit_def)
  next
    case (Cons y ys)
    then obtain k' n' where "y = (Suc k', n')"
      using Cons.prems by (cases y) (auto simp: gr0_conv_Suc)
    then show ?thesis
      using Cons by (simp add: stops_def print_count_def isdigit_def)
  qed
  then show ?case
    using sum_counts_step [of _ n k count] Cons x by (simp add: print_count_def add.assoc)
qed

lemma takeWhile_colon:
  assumes "CHR '':'' \<notin> set xs"
  shows "takeWhile (\<lambda>c. c \<noteq> CHR '':'') (xs @ CHR '':'' # r) = xs" "dropWhile (\<lambda>c. c \<noteq> CHR '':'') (xs @ CHR '':'' # r) = CHR '':'' # r"
  using assms by (induction xs) auto

lemma irq_line_text:
  assumes "entry_ok l"
  shows "irq_line (irq_text l) = Some (int (ie_irq l), int (ie_total l), ie_name l)"
proof -
  let ?r = "concat (map print_count (ie_counts l)) @ replicate (ie_gap l) CHR '' '' @ ie_name l"
  let ?x = "replicate (ie_pad l) CHR '' '' @ decimal (ie_irq l)"
  have buf: "remove_newline (irq_text l) = ?x @ CHR '':'' # ?r"
    by (simp add: irq_text_def remove_newline_def butlast_append)
  have t: "trim_leadspace (?x @ CHR '':'' # ?r) = decimal (ie_irq l) @ CHR '':'' # ?r"
    using dropWhile_decimal(1) by (simp add: trim_leadspace_def)
  have "CHR '':'' \<notin> set ?x"
    using decimal_digits [of "ie_irq l"] isdigit_not by auto
  note w = takeWhile_colon [OF this]
  have n: "ie_irq l < 2 ^ 31"
    using assms by (simp add: entry_ok_def)
  have "strtoul ?x = (of_nat (ie_irq l), [], 0)"
    using scan_number_decimal [of "[]" "ie_irq l"] n by (simp add: stops_def strtoul_def scan_number_pad)
  then have irq: "to_int (uint (fst (strtoul ?x))) = int (ie_irq l)"
    using to_int_small [OF n] by (simp only: fst_conv)
  have "\<forall>(k, n) \<in> set (ie_counts l). 0 < k \<and> n < 2 ^ 64"
  proof clarify
    fix k n assume kn: "(k, n) \<in> set (ie_counts l)"
    then have "n \<le> ie_total l"
      unfolding ie_total_def using member_le_sum_list [of n "map snd (ie_counts l)"] by force
    then show "0 < k \<and> n < 2 ^ 64"
      using assms kn by (auto simp: entry_ok_def)
  qed
  then have s: "sum_counts ?r 0 = (of_nat (ie_total l), ie_name l)"
    using sum_counts_print [of "ie_counts l" "ie_name l" "ie_gap l" 0] assms by (simp add: entry_ok_def ie_total_def)
  have "sint (of_nat (ie_total l) :: ulong) = int (ie_total l)"
    using assms by (simp add: entry_ok_def signed_of_nat signed_take_bit_int_eq_self)
  moreover have "trim_leadspace (ie_name l) = ie_name l"
    using assms by (cases "ie_name l") (auto simp: entry_ok_def trim_leadspace_def)
  ultimately show ?thesis
    using dropWhile_decimal(2) irq s w unfolding irq_line_def buf t Let_def by simp
qed

lemma fgets_text_line:
  assumes "CHR 0x0A \<notin> set l" "length l < 4095"
  shows "fgets 4096 (l @ CHR 0x0A # r) = (l @ [CHR 0x0A], r)"
proof -
  have "takeWhile (\<lambda>c. c \<noteq> CHR 0x0A) (l @ CHR 0x0A # r) = l"
    using assms(1) by (induction l) auto
  then show ?thesis
    using assms(2) by (simp add: fgets_def Let_def)
qed

definition named :: "string option \<Rightarrow> string \<Rightarrow> bool" where
  "named i_name p = (case i_name of None \<Rightarrow> True | Some nm \<Rightarrow> strstr p nm \<noteq> None)"

lemma irq_lines_line:
  assumes "CHR 0x0A \<notin> set l" "length l < 4095"
  shows "irq_lines (l @ CHR 0x0A # r) i_name
    = (case irq_line (l @ [CHR 0x0A]) of None \<Rightarrow> []
       | Some (n, c, p) \<Rightarrow> if named i_name p then [(n, c, p)] else []) @ irq_lines r i_name"
  using fgets_text_line [OF assms] by (subst irq_lines.simps) (simp add: named_def split: option.splits)

lemma irq_lines_text:
  assumes "\<forall>l \<in> set ls. entry_ok l"
  shows "irq_lines (concat (map irq_text ls)) i_name
    = map (\<lambda>l. (int (ie_irq l), int (ie_total l), ie_name l)) (filter (\<lambda>l. named i_name (ie_name l)) ls)"
  using assms
proof (induction ls)
  case Nil
  then show ?case by (subst irq_lines.simps) simp
next
  case (Cons l ls)
  let ?l = "butlast (irq_text l)"
  have t: "irq_text l = ?l @ [CHR 0x0A]"
    by (simp add: irq_text_def butlast_append)
  have nl: "CHR 0x0A \<notin> set (decimal n)" for n
    using decimal_digits [of n] by (auto simp: isdigit_def)
  then have "CHR 0x0A \<notin> set (print_count x)" for x
    by (cases x) (auto simp: print_count_def)
  then have "CHR 0x0A \<notin> set ?l"
    using Cons.prems nl [of "ie_irq l"] by (auto simp: irq_text_def butlast_append entry_ok_def)
  moreover have "length ?l < 4095"
  proof -
    have "length (irq_text l) < 4096" "0 < length (irq_text l)"
      using Cons.prems by (simp_all add: entry_ok_def) (simp add: irq_text_def)
    then show ?thesis
      unfolding length_butlast by linarith
  qed
  ultimately have "irq_lines (?l @ CHR 0x0A # concat (map irq_text ls)) i_name
      = (if named i_name (ie_name l) then [(int (ie_irq l), int (ie_total l), ie_name l)] else [])
        @ irq_lines (concat (map irq_text ls)) i_name"
    using irq_line_text [of l] Cons.prems unfolding t [symmetric] by (simp add: irq_lines_line t [symmetric])
  moreover have "irq_text l @ x = ?l @ CHR 0x0A # x" for x
    by (subst t) simp
  ultimately show ?case
    using Cons.IH Cons.prems by (simp only: list.map concat.simps filter.simps list.set_intros append.simps
        simp_thms ball_simps set_simps split: if_splits)
qed

text \<open>C32. \<^verbatim>\<open>irqdump\<close> reads back a printed interrupt table: it skips the heading and prints for every line that
  matches the name, in order, the number of the interrupt, the sum of its counts over all CPUs and its
  name.\<close>

theorem irq_dump_printed:
  assumes "CHR 0x0A \<notin> set heading" "length heading < 4095"
    and "trim_leadspace heading = [] \<or> \<not> isdigit (hd (trim_leadspace heading))" "\<forall>l \<in> set ls. entry_ok l"
  shows "irq_dump (Some (heading @ CHR 0x0A # concat (map irq_text ls))) i_name
    = Some (map (\<lambda>l. (int (ie_irq l), int (ie_total l), ie_name l))
        (filter (\<lambda>l. case i_name of None \<Rightarrow> True | Some nm \<Rightarrow> strstr (ie_name l) nm \<noteq> None) ls))"
proof -
  have "irq_line (heading @ [CHR 0x0A]) = None"
    using assms(3) by (auto simp: irq_line_def remove_newline_def Let_def)
  then show ?thesis
    using irq_lines_line [OF assms(1,2)] irq_lines_text [OF assms(4)] by (simp add: irq_dump_def named_def)
qed

theorem irq_dump_printed_witness:
  "irq_dump (Some (''       CPU0  CPU1'' @ CHR 0x0A # '' 17:   3  9470  GICv3  eth0'' @ [CHR 0x0A])) (Some ''eth'')
    = Some [(17, 9473, ''GICv3  eth0'')]"
proof -
  let ?l = "\<lparr>ie_pad = 1, ie_irq = 17, ie_counts = [(3, 3), (2, 9470)], ie_gap = 2, ie_name = ''GICv3  eth0''\<rparr>"
  have d: "decimal 17 = ''17''" "decimal 3 = ''3''" "decimal 9470 = ''9470''"
    by (simp_all add: decimal.simps char_of_def bit_iff_odd)
  have r3: "replicate 3 c = [c, c, c]" for c :: char
    by (simp add: numeral_3_eq_3)
  have t: "irq_text ?l = '' 17:   3  9470  GICv3  eth0'' @ [CHR 0x0A]"
    by (simp add: irq_text_def print_count_def numeral_2_eq_2 r3 d)
  have ok: "entry_ok ?l"
    unfolding entry_ok_def t by (simp add: ie_total_def isspace_def isdigit_def)
  have s: "strstr ''GICv3  eth0'' ''eth'' \<noteq> None"
    by code_simp
  have h: "trim_leadspace ''       CPU0  CPU1'' = ''CPU0  CPU1''"
    by (simp add: trim_leadspace_def isspace_def)
  show ?thesis
    using irq_dump_printed [of "''       CPU0  CPU1''" "[?l]" "Some ''eth''"] ok s unfolding h
    by (simp add: t [unfolded One_nat_def] ie_total_def isdigit_def)
qed

end
