(* ===== verification/XmlLib.thy ===== *)
theory XmlLib
  imports Prelude
begin

text \<open>
  The part of libxml2 that \<^verbatim>\<open>tools/wayca-sc-info\<close> calls. The library is not part of the repository, so
  its functions are the fields of a record the model is given; \<open>libxml_laws\<close> states what its documentation
  says of them. The documents of the program and their nodes are the values of a state \<open>'x\<close>, nodes and
  documents are pointers \<open>'n\<close> and \<open>'d\<close>. A record of node tables satisfies the laws.
\<close>

section \<open>The functions\<close>

text \<open>Declarations of a DTD: an element with its content (\<open>None\<close> for EMPTY, the chain of names of a MIXED
  content otherwise) or a required attribute of an element.\<close>

datatype decl = Elem_decl string "string list option" | Attr_decl string string

text \<open>\<open>xml_valid\<close> tells which pointers are nodes that have not been freed; the next four fields are read
  directly in the program as members of \<^verbatim>\<open>xmlNode\<close>. Constructors return \<open>None\<close> or \<open>False\<close> without memory.\<close>

record ('x, 'n, 'd) libxml =
  xml_valid :: "'x \<Rightarrow> 'n \<Rightarrow> bool"
  node_name :: "'x \<Rightarrow> 'n \<Rightarrow> string"
  is_element :: "'x \<Rightarrow> 'n \<Rightarrow> bool"
  node_children :: "'x \<Rightarrow> 'n \<Rightarrow> 'n option"
  node_next :: "'x \<Rightarrow> 'n \<Rightarrow> 'n option"
  xmlGetProp :: "'x \<Rightarrow> 'n \<Rightarrow> string \<Rightarrow> string option"
  xmlHasProp :: "'x \<Rightarrow> 'n \<Rightarrow> string \<Rightarrow> bool"
  xmlFirstElementChild :: "'x \<Rightarrow> 'n \<Rightarrow> 'n option"
  xmlNextElementSibling :: "'x \<Rightarrow> 'n \<Rightarrow> 'n option"
  xmlNewChild :: "'x \<Rightarrow> 'n \<Rightarrow> string \<Rightarrow> 'n option \<times> 'x"
  xmlNewProp :: "'x \<Rightarrow> 'n \<Rightarrow> string \<Rightarrow> string \<Rightarrow> bool \<times> 'x"
  xmlNewDoc :: "'x \<Rightarrow> 'd option \<times> 'x"
  xmlNewNode :: "'x \<Rightarrow> string \<Rightarrow> 'n option \<times> 'x"
  xmlDocSetRootElement :: "'x \<Rightarrow> 'd \<Rightarrow> 'n \<Rightarrow> 'x"
  xmlDocGetRootElement :: "'x \<Rightarrow> 'd \<Rightarrow> 'n option"
  xmlUnlinkNode :: "'x \<Rightarrow> 'n \<Rightarrow> 'x"
  xmlFreeNode :: "'x \<Rightarrow> 'n \<Rightarrow> 'x"
  xmlFreeDoc :: "'x \<Rightarrow> 'd \<Rightarrow> 'x"
  xmlReadFile :: "'x \<Rightarrow> string \<Rightarrow> 'd option \<times> 'x"
  xmlDocDump :: "'x \<Rightarrow> 'd \<Rightarrow> string option"
  xmlNewValidCtxt :: bool
  xmlNewDtd :: bool
  xmlNewDocElementContent :: "string \<Rightarrow> bool"
  xmlAddAttributeDecl :: "decl list \<Rightarrow> string \<Rightarrow> string \<Rightarrow> bool"
  xmlValidateDtd :: "'x \<Rightarrow> 'd \<Rightarrow> decl list \<Rightarrow> int"

section \<open>Trees\<close>

text \<open>A node with what it holds and the nodes below it, and the same without the addresses.\<close>

datatype 'n ptree = PT (pt_node: 'n) (pt_elem: bool) (pt_name: string) (pt_props: "string \<Rightarrow> string option")
    (pt_subs: "'n ptree list")

datatype elem = Elem (el_name: string) (el_props: "string \<Rightarrow> string option") (el_subs: "elem list")

fun pt_nodes :: "'n ptree \<Rightarrow> 'n list" where
  "pt_nodes (PT n el nm ps ts) = n # concat (map pt_nodes ts)"

text \<open>The tree of elements: nodes of other types, such as the white space of a file, are dropped.\<close>

fun erase :: "'n ptree \<Rightarrow> elem" where
  "erase (PT n el nm ps ts) = Elem nm ps (map erase (filter pt_elem ts))"

definition hd_opt :: "'a list \<Rightarrow> 'a option" where
  "hd_opt xs = (case xs of [] \<Rightarrow> None | x # _ \<Rightarrow> Some x)"

lemma hd_opt_simps [simp]: "hd_opt [] = None" "hd_opt (x # xs) = Some x"
  by (simp_all add: hd_opt_def)

text \<open>What a node holds, apart from the nodes below it, is the same in two states.\<close>

definition same_node :: "('x, 'n, 'd) libxml \<Rightarrow> 'x \<Rightarrow> 'x \<Rightarrow> 'n \<Rightarrow> bool" where
  "same_node L x x' m \<longleftrightarrow> is_element L x' m = is_element L x m \<and> node_name L x' m = node_name L x m
     \<and> xmlGetProp L x' m = xmlGetProp L x m"

text \<open>The nodes at and below the root of \<open>t\<close> hold in the state what \<open>t\<close> says, where \<open>sub\<close> gives the
  children of a node.\<close>

primrec xshape :: "('x, 'n, 'd) libxml \<Rightarrow> ('x \<Rightarrow> 'n \<Rightarrow> 'n list) \<Rightarrow> 'x \<Rightarrow> 'n ptree \<Rightarrow> bool" where
  "xshape L sub x (PT n el nm ps ts) \<longleftrightarrow> xml_valid L x n \<and> is_element L x n = el \<and> node_name L x n = nm
     \<and> xmlGetProp L x n = ps \<and> sub x n = map pt_node ts \<and> list_all id (map (xshape L sub x) ts)"

text \<open>After the root of a document there are only comments and the like, up to the end.\<close>

fun misc_after :: "('x, 'n, 'd) libxml \<Rightarrow> ('x \<Rightarrow> 'n \<Rightarrow> 'n list) \<Rightarrow> 'x \<Rightarrow> 'n \<Rightarrow> 'n list \<Rightarrow> bool" where
  "misc_after L sub x n [] \<longleftrightarrow> node_next L x n = None"
| "misc_after L sub x n (b # bs) \<longleftrightarrow> node_next L x n = Some b \<and> xml_valid L x b \<and> \<not> is_element L x b \<and> sub x b = []
     \<and> misc_after L sub x b bs"

section \<open>What the documentation promises\<close>

text \<open>\<open>sub\<close> gives the children of a node in order; \<open>wf\<close> holds of the states that the functions of the
  library produce. \<^verbatim>\<open>xmlNewProp\<close> is only used for attributes the node does not have yet.\<close>

locale libxml_laws =
  fixes L :: "('x, 'n, 'd) libxml"
    and wf :: "'x \<Rightarrow> bool"
    and sub :: "'x \<Rightarrow> 'n \<Rightarrow> 'n list"
  assumes sub_valid: "wf x \<Longrightarrow> xml_valid L x n \<Longrightarrow> m \<in> set (sub x n) \<Longrightarrow> xml_valid L x m"
    and sub_distinct: "wf x \<Longrightarrow> xml_valid L x n \<Longrightarrow> distinct (sub x n)"
    and one_parent: "wf x \<Longrightarrow> xml_valid L x p \<Longrightarrow> xml_valid L x q \<Longrightarrow> m \<in> set (sub x p) \<Longrightarrow> m \<in> set (sub x q) \<Longrightarrow> p = q"
    and children: "wf x \<Longrightarrow> xml_valid L x n \<Longrightarrow> node_children L x n = hd_opt (sub x n)"
    and next_node: "wf x \<Longrightarrow> xml_valid L x n \<Longrightarrow> sub x n = as @ a # bs \<Longrightarrow> node_next L x a = hd_opt bs"
    and first_element: "wf x \<Longrightarrow> xml_valid L x n \<Longrightarrow> xmlFirstElementChild L x n = find (is_element L x) (sub x n)"
    and next_element: "wf x \<Longrightarrow> xml_valid L x n \<Longrightarrow> sub x n = as @ a # bs
      \<Longrightarrow> xmlNextElementSibling L x a = find (is_element L x) bs"
    and has_prop: "wf x \<Longrightarrow> xml_valid L x n \<Longrightarrow> xmlHasProp L x n k \<longleftrightarrow> xmlGetProp L x n k \<noteq> None"
    and root_alone: "wf x \<Longrightarrow> xmlDocGetRootElement L x d = Some r
      \<Longrightarrow> xml_valid L x r \<and> is_element L x r \<and> xmlNextElementSibling L x r = None \<and> (\<exists>bs. misc_after L sub x r bs)
        \<and> (\<forall>p. xml_valid L x p \<longrightarrow> r \<notin> set (sub x p))"
    and new_child: "wf x \<Longrightarrow> xml_valid L x n \<Longrightarrow> xmlNewChild L x n nm = (Some c, x')
      \<Longrightarrow> wf x' \<and> \<not> xml_valid L x c \<and> (\<forall>m. xml_valid L x' m \<longleftrightarrow> xml_valid L x m \<or> m = c)
        \<and> is_element L x' c \<and> node_name L x' c = nm \<and> xmlGetProp L x' c = Map.empty \<and> sub x' c = []
        \<and> sub x' n = sub x n @ [c]
        \<and> (\<forall>m. xml_valid L x m \<longrightarrow> same_node L x x' m \<and> (m \<noteq> n \<longrightarrow> sub x' m = sub x m))
        \<and> xmlDocGetRootElement L x' = xmlDocGetRootElement L x"
    and new_prop: "wf x \<Longrightarrow> xml_valid L x n \<Longrightarrow> xmlGetProp L x n k = None
      \<Longrightarrow> xmlNewProp L x n k v = (True, x')
      \<Longrightarrow> wf x' \<and> xml_valid L x' = xml_valid L x \<and> sub x' = sub x
        \<and> is_element L x' n = is_element L x n \<and> node_name L x' n = node_name L x n
        \<and> xmlGetProp L x' n = (xmlGetProp L x n)(k \<mapsto> v)
        \<and> (\<forall>m. xml_valid L x m \<and> m \<noteq> n \<longrightarrow> same_node L x x' m)
        \<and> xmlDocGetRootElement L x' = xmlDocGetRootElement L x"
    and new_root: "wf x \<Longrightarrow> xmlNewDoc L x = (Some d, x1) \<Longrightarrow> xmlNewNode L x1 nm = (Some r, x2)
      \<Longrightarrow> x' = xmlDocSetRootElement L x2 d r
      \<Longrightarrow> wf x' \<and> xmlDocGetRootElement L x' d = Some r \<and> xml_valid L x' r \<and> is_element L x' r
        \<and> node_name L x' r = nm \<and> xmlGetProp L x' r = Map.empty \<and> sub x' r = []"
    and unlink_free: "wf x \<Longrightarrow> xml_valid L x p \<Longrightarrow> a \<in> set (sub x p) \<Longrightarrow> x' = xmlFreeNode L (xmlUnlinkNode L x a) a
      \<Longrightarrow> wf x' \<and> \<not> xml_valid L x' a \<and> sub x' p = remove1 a (sub x p)
        \<and> (\<forall>m. xml_valid L x' m \<longrightarrow> xml_valid L x m \<and> same_node L x x' m \<and> (m \<noteq> p \<longrightarrow> sub x' m = sub x m))
        \<and> (\<forall>m. xml_valid L x m \<and> (m, a) \<notin> {(c, q). xml_valid L x q \<and> c \<in> set (sub x q)}\<^sup>* \<longrightarrow> xml_valid L x' m)
        \<and> xmlDocGetRootElement L x' = xmlDocGetRootElement L x"
    and free_root: "wf x \<Longrightarrow> xmlDocGetRootElement L x d = Some r
      \<Longrightarrow> \<not> xml_valid L (xmlFreeNode L (xmlUnlinkNode L x r) r) r"

text \<open>\<open>x'\<close> is \<open>x\<close> with the attributes \<open>pm\<close> added to the node \<open>n\<close> and new children \<open>ids\<close>, leaves that hold what \<open>cs\<close>
  says: name and attributes.\<close>

definition leaf :: "('x, 'n, 'd) libxml \<Rightarrow> 'x \<Rightarrow> 'n \<Rightarrow> string \<times> (string \<Rightarrow> string option)" where
  "leaf L x i = (node_name L x i, xmlGetProp L x i)"

definition grows :: "('x, 'n, 'd) libxml \<Rightarrow> ('x \<Rightarrow> bool) \<Rightarrow> ('x \<Rightarrow> 'n \<Rightarrow> 'n list) \<Rightarrow> 'x \<Rightarrow> 'n \<Rightarrow> 'x
    \<Rightarrow> (string \<Rightarrow> string option) \<Rightarrow> 'n list \<Rightarrow> (string \<times> (string \<Rightarrow> string option)) list \<Rightarrow> bool" where
  "grows L W sub x n x' pm ids cs \<longleftrightarrow> W x' \<and> xml_valid L x n
     \<and> is_element L x' n = is_element L x n \<and> node_name L x' n = node_name L x n
     \<and> xmlGetProp L x' n = xmlGetProp L x n ++ pm \<and> sub x' n = sub x n @ ids \<and> map (leaf L x') ids = cs
     \<and> distinct ids \<and> (\<forall>i \<in> set ids. \<not> xml_valid L x i \<and> xml_valid L x' i \<and> is_element L x' i \<and> sub x' i = [])
     \<and> (\<forall>m. xml_valid L x m \<longrightarrow> xml_valid L x' m \<and> (m \<noteq> n \<longrightarrow> same_node L x x' m \<and> sub x' m = sub x m))
     \<and> xmlDocGetRootElement L x' = xmlDocGetRootElement L x"

context libxml_laws
begin

lemma grows_refl: "wf x \<Longrightarrow> xml_valid L x n \<Longrightarrow> grows L wf sub x n x Map.empty [] []"
  by (simp add: grows_def same_node_def)

lemma grows_trans:
  assumes 1: "grows L wf sub x n x1 pm ids cs" and 2: "grows L wf sub x1 n x2 pm' ids' cs'"
  shows "grows L wf sub x n x2 (pm ++ pm') (ids @ ids') (cs @ cs')"
proof -
  have fresh: "n \<notin> set ids" "set ids \<inter> set ids' = {}"
    using 1 2 by (auto simp: grows_def)
  have "leaf L x2 i = leaf L x1 i" if "i \<in> set ids" for i
  proof -
    have "xml_valid L x1 i" "i \<noteq> n" using 1 that fresh by (auto simp: grows_def)
    then show ?thesis using 2 by (simp add: grows_def leaf_def same_node_def)
  qed
  then have "map (leaf L x2) ids = map (leaf L x1) ids" by simp
  then show ?thesis
    using 1 2 fresh unfolding grows_def same_node_def
    by (simp add: Ball_def) metis
qed

lemma grows_prop:
  assumes "wf x" "xml_valid L x n" "xmlGetProp L x n k = None" "xmlNewProp L x n k v = (True, x')"
  shows "grows L wf sub x n x' [k \<mapsto> v] [] []"
  using new_prop [OF assms] assms(2) by (simp add: grows_def)

lemma grows_child:
  assumes "wf x" "xml_valid L x n" "xmlNewChild L x n nm = (Some c, x')"
  shows "grows L wf sub x n x' Map.empty [c] [(nm, Map.empty)]"
  using new_child [OF assms] assms(2) by (simp add: grows_def leaf_def same_node_def)

text \<open>An attribute given to a child that has just been made.\<close>

lemma grows_child_prop:
  assumes g: "grows L wf sub x n x1 Map.empty [c] [(nm, ps)]"
    and "ps k = None" "xmlNewProp L x1 c k v = (True, x2)"
  shows "grows L wf sub x n x2 Map.empty [c] [(nm, ps(k \<mapsto> v))]"
proof -
  have c: "wf x1" "xml_valid L x1 c" "xmlGetProp L x1 c = ps" "n \<noteq> c" "\<not> xml_valid L x c" "xml_valid L x1 n"
    using g by (auto simp: grows_def leaf_def)
  note p = new_prop [OF c(1,2) _ assms(3)]
  show ?thesis
    using g p c assms(2) unfolding grows_def leaf_def same_node_def by simp metis
qed

end

section \<open>Frames\<close>

text \<open>Nodes outside of \<open>S\<close> are not touched, no node is freed and no document gets another root.\<close>

definition keeps :: "('x, 'n, 'd) libxml \<Rightarrow> ('x \<Rightarrow> 'n \<Rightarrow> 'n list) \<Rightarrow> 'x \<Rightarrow> 'x \<Rightarrow> 'n set \<Rightarrow> bool" where
  "keeps L sub x x' S \<longleftrightarrow>
     (\<forall>m. xml_valid L x m \<longrightarrow> xml_valid L x' m \<and> (m \<notin> S \<longrightarrow> same_node L x x' m \<and> sub x' m = sub x m))
     \<and> xmlDocGetRootElement L x' = xmlDocGetRootElement L x"

lemma keeps_refl [simp]: "keeps L sub x x S"
  by (simp add: keeps_def same_node_def)

lemma keeps_trans: "keeps L sub x x1 S \<Longrightarrow> keeps L sub x1 x2 S' \<Longrightarrow> keeps L sub x x2 (S \<union> S')"
  unfolding keeps_def same_node_def by simp

lemma keeps_mono:
  assumes "keeps L sub x x' S" "\<And>m. m \<in> S \<Longrightarrow> xml_valid L x m \<Longrightarrow> m \<in> S'"
  shows "keeps L sub x x' S'"
  using assms unfolding keeps_def by blast

lemma keepsD:
  assumes "keeps L sub x x' S" "xml_valid L x m"
  shows "xml_valid L x' m" "m \<notin> S \<Longrightarrow> sub x' m = sub x m" "m \<notin> S \<Longrightarrow> leaf L x' m = leaf L x m"
    "m \<notin> S \<Longrightarrow> is_element L x' m = is_element L x m" "m \<notin> S \<Longrightarrow> node_name L x' m = node_name L x m"
    "m \<notin> S \<Longrightarrow> xmlGetProp L x' m = xmlGetProp L x m"
  using assms by (auto simp: keeps_def same_node_def leaf_def)

lemma grows_keeps: "grows L W sub x n x' pm ids cs \<Longrightarrow> keeps L sub x x' {n}"
  by (simp add: grows_def keeps_def)

lemma xshape_valid: "xshape L sub x t \<Longrightarrow> m \<in> set (pt_nodes t) \<Longrightarrow> xml_valid L x m"
  by (induction t) (auto simp: list_all_iff)

lemma xshape_keeps: "xshape L sub x t \<Longrightarrow> keeps L sub x x' S \<Longrightarrow> set (pt_nodes t) \<inter> S = {} \<Longrightarrow> xshape L sub x' t"
proof (induction t)
  case (PT n el nm ps ts)
  have "xshape L sub x' t" if "t \<in> set ts" for t
    by (rule PT.IH [OF that]) (use PT.prems that in \<open>auto simp: list_all_iff\<close>)
  then show ?case
    using PT.prems keepsD [OF PT.prems(2), of n] by (auto simp: list_all_iff)
qed

text \<open>The nodes of a list follow each other below a common parent, or there is one and it is a root.\<close>

definition linked :: "('x, 'n, 'd) libxml \<Rightarrow> ('x \<Rightarrow> 'n \<Rightarrow> 'n list) \<Rightarrow> 'x \<Rightarrow> 'n list \<Rightarrow> bool" where
  "linked L sub x ids \<longleftrightarrow> (\<exists>p as. xml_valid L x p \<and> p \<notin> set ids \<and> sub x p = as @ ids)
     \<or> (\<exists>d r. ids = [r] \<and> xmlDocGetRootElement L x d = Some r)"

lemma linked_keeps:
  assumes "linked L sub x ids" "keeps L sub x x' S" "\<And>p. p \<in> S \<Longrightarrow> xml_valid L x p \<Longrightarrow> p \<in> set ids"
  shows "linked L sub x' ids"
  using assms(1) unfolding linked_def
proof (elim disjE exE conjE)
  fix p as assume p: "xml_valid L x p" "p \<notin> set ids" "sub x p = as @ ids"
  then have "xml_valid L x' p" "sub x' p = as @ ids"
    using keepsD(1,2) [OF assms(2) p(1)] assms(3) by auto
  then show "(\<exists>p as. xml_valid L x' p \<and> p \<notin> set ids \<and> sub x' p = as @ ids)
      \<or> (\<exists>d r. ids = [r] \<and> xmlDocGetRootElement L x' d = Some r)"
    using p(2) by blast
qed (use assms(2) in \<open>auto simp: keeps_def\<close>)

lemma linked_tl: "linked L sub x (n # ns) \<Longrightarrow> ns \<noteq> [] \<Longrightarrow> linked L sub x ns"
  unfolding linked_def by (metis append_Cons append.assoc append_Nil list.inject list.set_intros(2))

context libxml_laws
begin

lemma linked_next:
  assumes "wf x" "linked L sub x (n # ns)" "\<forall>i \<in> set ns. is_element L x i"
  shows "xmlNextElementSibling L x n = hd_opt ns"
  using assms(2) unfolding linked_def
proof (elim disjE exE conjE)
  fix p as assume "xml_valid L x p" "sub x p = as @ n # ns"
  then show ?thesis
    using next_element [OF assms(1)] assms(3) by (cases ns) auto
next
  fix d r assume "n # ns = [r]" "xmlDocGetRootElement L x d = Some r"
  then show ?thesis
    using root_alone [OF assms(1)] by auto
qed

lemma first_elements:
  assumes "wf x" "xml_valid L x n" "\<forall>i \<in> set (sub x n). is_element L x i"
  shows "xmlFirstElementChild L x n = hd_opt (sub x n)"
  using first_element [OF assms(1,2)] assms(3) by (cases "sub x n") auto

end

section \<open>A table of nodes\<close>

text \<open>Nodes are numbered in the order of their creation; a node is behind its parent in this order.\<close>

record cell =
  cl_elem :: bool
  cl_name :: string
  cl_props :: "(string \<times> string) list"
  cl_subs :: "nat list"

record table =
  tb_cells :: "nat \<Rightarrow> cell option"
  tb_next :: nat
  tb_docs :: "nat \<Rightarrow> nat option"
  tb_ndocs :: nat

definition tb_sub :: "table \<Rightarrow> nat \<Rightarrow> nat list" where
  "tb_sub x n = (case tb_cells x n of None \<Rightarrow> [] | Some c \<Rightarrow> cl_subs c)"

definition tb_parent :: "table \<Rightarrow> nat \<Rightarrow> nat option" where
  "tb_parent x a = find (\<lambda>p. a \<in> set (tb_sub x p)) [0..<tb_next x]"

definition tb_after :: "table \<Rightarrow> nat \<Rightarrow> nat list" where
  "tb_after x a = (case tb_parent x a of None \<Rightarrow> [] | Some p \<Rightarrow> tl (dropWhile (\<lambda>m. m \<noteq> a) (tb_sub x p)))"

definition tb_elem :: "table \<Rightarrow> nat \<Rightarrow> bool" where
  "tb_elem x n = (case tb_cells x n of None \<Rightarrow> False | Some c \<Rightarrow> cl_elem c)"

definition tb_prop :: "table \<Rightarrow> nat \<Rightarrow> string \<Rightarrow> string option" where
  "tb_prop x n k = (case tb_cells x n of None \<Rightarrow> None | Some c \<Rightarrow> map_of (cl_props c) k)"

definition tb_new :: "table \<Rightarrow> string \<Rightarrow> table" where
  "tb_new x nm = x\<lparr>tb_cells := (tb_cells x)(tb_next x \<mapsto> \<lparr>cl_elem = True, cl_name = nm, cl_props = [], cl_subs = []\<rparr>),
     tb_next := tb_next x + 1\<rparr>"

definition tb_upd :: "table \<Rightarrow> nat \<Rightarrow> (cell \<Rightarrow> cell) \<Rightarrow> table" where
  "tb_upd x n f = x\<lparr>tb_cells := (tb_cells x)(n := map_option f (tb_cells x n))\<rparr>"

definition tb_unlink :: "table \<Rightarrow> nat \<Rightarrow> table" where
  "tb_unlink x a = (case tb_parent x a of None \<Rightarrow> x | Some p \<Rightarrow> tb_upd x p (\<lambda>c. c\<lparr>cl_subs := remove1 a (cl_subs c)\<rparr>))"

text \<open>\<open>m\<close> is \<open>a\<close> or below it: found by following the parents.\<close>

function tb_above :: "table \<Rightarrow> nat \<Rightarrow> nat \<Rightarrow> bool" where
  "tb_above x a m = (m = a \<or> (case tb_parent x m of None \<Rightarrow> False | Some p \<Rightarrow> if p < m then tb_above x a p else False))"
  by pat_completeness auto
termination
  by (relation "measure (\<lambda>(x, a, m). m)") auto

declare tb_above.simps [simp del]

definition tb_free :: "table \<Rightarrow> nat \<Rightarrow> table" where
  "tb_free x a = x\<lparr>tb_cells := (\<lambda>m. if tb_above x a m then None else tb_cells x m)\<rparr>"

text \<open>A library over such tables in which memory does not run out; \<open>dtd\<close> decides whether a document is valid and
  \<open>files\<close> holds the documents that can be read.\<close>

definition table_lib :: "(table \<Rightarrow> nat \<Rightarrow> decl list \<Rightarrow> int) \<Rightarrow> (string \<Rightarrow> nat option) \<Rightarrow> (table, nat, nat) libxml" where
  "table_lib dtd files = \<lparr>
     xml_valid = (\<lambda>x n. tb_cells x n \<noteq> None),
     node_name = (\<lambda>x n. case tb_cells x n of None \<Rightarrow> [] | Some c \<Rightarrow> cl_name c),
     is_element = tb_elem,
     node_children = (\<lambda>x n. hd_opt (tb_sub x n)),
     node_next = (\<lambda>x n. hd_opt (tb_after x n)),
     xmlGetProp = tb_prop,
     xmlHasProp = (\<lambda>x n k. tb_prop x n k \<noteq> None),
     xmlFirstElementChild = (\<lambda>x n. find (tb_elem x) (tb_sub x n)),
     xmlNextElementSibling = (\<lambda>x n. find (tb_elem x) (tb_after x n)),
     xmlNewChild = (\<lambda>x n nm. (Some (tb_next x), tb_upd (tb_new x nm) n (\<lambda>c. c\<lparr>cl_subs := cl_subs c @ [tb_next x]\<rparr>))),
     xmlNewProp = (\<lambda>x n k v. (True, tb_upd x n (\<lambda>c. c\<lparr>cl_props := cl_props c @ [(k, v)]\<rparr>))),
     xmlNewDoc = (\<lambda>x. (Some (tb_ndocs x), x\<lparr>tb_ndocs := tb_ndocs x + 1\<rparr>)),
     xmlNewNode = (\<lambda>x nm. (Some (tb_next x), tb_new x nm)),
     xmlDocSetRootElement = (\<lambda>x d r. x\<lparr>tb_docs := (tb_docs x)(d \<mapsto> r)\<rparr>),
     xmlDocGetRootElement = tb_docs,
     xmlUnlinkNode = tb_unlink,
     xmlFreeNode = tb_free,
     xmlFreeDoc = (\<lambda>x d. (case tb_docs x d of None \<Rightarrow> x | Some r \<Rightarrow> tb_free x r)\<lparr>tb_docs := (tb_docs x)(d := None)\<rparr>),
     xmlReadFile = (\<lambda>x f. (files f, x)),
     xmlDocDump = (\<lambda>x d. Some []),
     xmlNewValidCtxt = True,
     xmlNewDtd = True,
     xmlNewDocElementContent = (\<lambda>_. True),
     xmlAddAttributeDecl = (\<lambda>_ _ _. True),
     xmlValidateDtd = dtd\<rparr>"

definition tb_wf :: "table \<Rightarrow> bool" where
  "tb_wf x \<longleftrightarrow> (\<forall>n. tb_cells x n \<noteq> None \<longrightarrow> n < tb_next x)
     \<and> (\<forall>n. distinct (tb_sub x n) \<and> (\<forall>m \<in> set (tb_sub x n). n < m \<and> tb_cells x m \<noteq> None))
     \<and> (\<forall>n p m. m \<in> set (tb_sub x n) \<longrightarrow> m \<in> set (tb_sub x p) \<longrightarrow> n = p)
     \<and> (\<forall>d r. tb_docs x d = Some r \<longrightarrow> tb_elem x r \<and> (\<forall>n. r \<notin> set (tb_sub x n)))"

lemma tb_sub_cell: "m \<in> set (tb_sub x n) \<Longrightarrow> tb_cells x n \<noteq> None"
  by (cases "tb_cells x n") (simp_all add: tb_sub_def)

lemma tb_parent_iff:
  assumes "tb_wf x"
  shows "tb_parent x a = Some p \<longleftrightarrow> a \<in> set (tb_sub x p)"
proof
  assume "tb_parent x a = Some p"
  then show "a \<in> set (tb_sub x p)"
    by (auto simp: tb_parent_def find_Some_iff)
next
  assume p: "a \<in> set (tb_sub x p)"
  then have "p < tb_next x"
    using assms tb_sub_cell [of a x p] by (simp add: tb_wf_def)
  then obtain q where q: "tb_parent x a = Some q"
    using p by (cases "tb_parent x a") (auto simp: tb_parent_def find_None_iff)
  then have "a \<in> set (tb_sub x q)"
    by (auto simp: tb_parent_def find_Some_iff)
  then show "tb_parent x a = Some p"
    using assms p q unfolding tb_wf_def by blast
qed

lemma tb_after_split:
  assumes "tb_wf x" "tb_sub x n = as @ a # bs"
  shows "tb_after x a = bs"
proof -
  have "tb_parent x a = Some n"
    using assms by (simp add: tb_parent_iff)
  moreover have "distinct (tb_sub x n)"
    using assms(1) by (simp add: tb_wf_def)
  ultimately show ?thesis
    using assms(2) by (auto simp: tb_after_def dropWhile_append)
qed

lemma tb_sub_new [simp]: "tb_wf x \<Longrightarrow> tb_sub (tb_new x nm) n = tb_sub x n"
  by (cases "tb_cells x n") (auto simp: tb_sub_def tb_new_def tb_wf_def)

lemma tb_wf_fresh [simp]: "tb_wf x \<Longrightarrow> tb_cells x (tb_next x) = None"
  unfolding tb_wf_def by (metis less_irrefl)

lemma tb_fresh_sub [simp]: "tb_wf x \<Longrightarrow> tb_next x \<notin> set (tb_sub x n)"
  using tb_wf_fresh unfolding tb_wf_def by metis

lemma tb_elem_new: "tb_elem (tb_new x nm) n = (if n = tb_next x then True else tb_elem x n)"
  by (simp add: tb_elem_def tb_new_def)

lemma tb_elem_fresh [simp]: "tb_wf x \<Longrightarrow> \<not> tb_elem x (tb_next x)"
  by (simp add: tb_elem_def)

lemma tb_cells_new [simp]: "tb_cells (tb_new x nm) m
    = (if m = tb_next x then Some \<lparr>cl_elem = True, cl_name = nm, cl_props = [], cl_subs = []\<rparr> else tb_cells x m)"
  by (simp add: tb_new_def)

lemma tb_new_fields [simp]: "tb_next (tb_new x nm) = tb_next x + 1" "tb_docs (tb_new x nm) = tb_docs x"
  by (simp_all add: tb_new_def)

lemma tb_wfD:
  assumes "tb_wf x"
  shows "tb_cells x n = Some c \<Longrightarrow> n < tb_next x" and "distinct (tb_sub x n)"
    and "m \<in> set (tb_sub x n) \<Longrightarrow> n < m" and "m \<in> set (tb_sub x n) \<Longrightarrow> \<exists>c. tb_cells x m = Some c"
    and "m \<in> set (tb_sub x n) \<Longrightarrow> m \<in> set (tb_sub x p) \<Longrightarrow> n = p"
    and "tb_docs x d = Some r \<Longrightarrow> tb_elem x r" and "tb_docs x d = Some r \<Longrightarrow> r \<notin> set (tb_sub x n)"
  using assms unfolding tb_wf_def not_None_eq by blast+

lemma tb_wfI:
  assumes "\<And>n c. tb_cells x n = Some c \<Longrightarrow> n < tb_next x" and "\<And>n. distinct (tb_sub x n)"
    and "\<And>n m. m \<in> set (tb_sub x n) \<Longrightarrow> n < m \<and> (\<exists>c. tb_cells x m = Some c)"
    and "\<And>n m p. m \<in> set (tb_sub x n) \<Longrightarrow> m \<in> set (tb_sub x p) \<Longrightarrow> n = p"
    and "\<And>d r n. tb_docs x d = Some r \<Longrightarrow> tb_elem x r \<and> r \<notin> set (tb_sub x n)"
  shows "tb_wf x"
  unfolding tb_wf_def not_None_eq using assms by blast

lemma tb_wf_new: "tb_wf x \<Longrightarrow> tb_wf (tb_new x nm)"
  by (rule tb_wfI) (auto simp: tb_elem_new dest: tb_wfD less_SucI split: if_splits)

lemma tb_upd_fields [simp]: "tb_next (tb_upd x n f) = tb_next x" "tb_docs (tb_upd x n f) = tb_docs x"
  "tb_cells (tb_upd x n f) m = (if m = n then map_option f (tb_cells x m) else tb_cells x m)"
  by (simp_all add: tb_upd_def)

lemmas tb_reads = tb_sub_def tb_elem_def tb_prop_def

lemma tb_sub_child:
  assumes "tb_wf x" "tb_cells x n \<noteq> None"
  shows "tb_sub (tb_upd (tb_new x nm) n (\<lambda>c. c\<lparr>cl_subs := cl_subs c @ [tb_next x]\<rparr>)) m
    = tb_sub x m @ (if m = n then [tb_next x] else [])"
  using assms by (cases "m = tb_next x") (auto simp: tb_sub_def split: option.splits)

lemma tb_wf_child:
  assumes "tb_wf x" "tb_cells x n \<noteq> None"
  shows "tb_wf (tb_upd (tb_new x nm) n (\<lambda>c. c\<lparr>cl_subs := cl_subs c @ [tb_next x]\<rparr>))" (is "tb_wf ?x")
proof (rule tb_wfI)
  fix d r m assume "tb_docs ?x d = Some r"
  then have "tb_elem x r" "r \<notin> set (tb_sub x m)"
    using tb_wfD [OF assms(1)] by auto
  moreover from this have "r \<noteq> tb_next x"
    using assms(1) by auto
  ultimately show "tb_elem ?x r \<and> r \<notin> set (tb_sub ?x m)"
    by (auto simp: tb_sub_child [OF assms] tb_elem_def split: option.splits)
qed (use assms tb_wfD [OF assms(1)] in \<open>auto simp: tb_sub_child [OF assms] less_SucI split: if_splits\<close>)

lemma tb_sub_prop [simp]: "tb_sub (tb_upd x n (\<lambda>c. c\<lparr>cl_props := f c\<rparr>)) = tb_sub x"
  by (auto simp: fun_eq_iff tb_sub_def split: option.splits)

lemma tb_elem_prop [simp]: "tb_elem (tb_upd x n (\<lambda>c. c\<lparr>cl_props := f c\<rparr>)) = tb_elem x"
  by (auto simp: fun_eq_iff tb_elem_def split: option.splits)

lemma tb_wf_prop: "tb_wf x \<Longrightarrow> tb_wf (tb_upd x n (\<lambda>c. c\<lparr>cl_props := f c\<rparr>))"
  by (rule tb_wfI) (auto dest: tb_wfD split: if_splits)

lemma tb_unlink_fields [simp]: "tb_next (tb_unlink x a) = tb_next x" "tb_docs (tb_unlink x a) = tb_docs x"
  "tb_cells (tb_unlink x a) m = None \<longleftrightarrow> tb_cells x m = None"
  by (auto simp: tb_unlink_def split: option.splits)

lemma tb_elem_unlink [simp]: "tb_elem (tb_unlink x a) = tb_elem x"
  by (auto simp: fun_eq_iff tb_unlink_def tb_elem_def split: option.splits)

lemma tb_prop_unlink [simp]: "tb_prop (tb_unlink x a) = tb_prop x"
  by (auto simp: fun_eq_iff tb_unlink_def tb_prop_def split: option.splits)

lemma tb_sub_unlink: "tb_wf x \<Longrightarrow> tb_sub (tb_unlink x a) m = remove1 a (tb_sub x m)"
proof (cases "tb_parent x a")
  case None
  assume "tb_wf x"
  then have "a \<notin> set (tb_sub x m)"
    using None tb_parent_iff [of x a m] by auto
  then show ?thesis
    using None by (simp add: tb_unlink_def remove1_idem)
next
  case (Some p)
  assume wf: "tb_wf x"
  then have "m \<noteq> p \<Longrightarrow> a \<notin> set (tb_sub x m)"
    using Some tb_parent_iff [of x a] by fastforce
  then show ?thesis
    using Some by (auto simp: tb_unlink_def tb_sub_def remove1_idem split: option.splits)
qed

lemma tb_wf_unlink:
  assumes "tb_wf x"
  shows "tb_wf (tb_unlink x a)"
proof (rule tb_wfI)
  fix n show "distinct (tb_sub (tb_unlink x a) n)"
    using tb_wfD(2) [OF assms] by (simp add: tb_sub_unlink [OF assms] distinct_remove1)
next
  fix n m assume "m \<in> set (tb_sub (tb_unlink x a) n)"
  then have "m \<in> set (tb_sub x n)"
    using set_remove1_subset [of a] by (auto simp: tb_sub_unlink [OF assms])
  then show "n < m \<and> (\<exists>c. tb_cells (tb_unlink x a) m = Some c)"
    using tb_wfD(3,4) [OF assms] tb_unlink_fields(3) [of x a m] by fastforce
next
  fix n m p assume "m \<in> set (tb_sub (tb_unlink x a) n)" "m \<in> set (tb_sub (tb_unlink x a) p)"
  then have "m \<in> set (tb_sub x n)" "m \<in> set (tb_sub x p)"
    using set_remove1_subset [of a] by (auto simp: tb_sub_unlink [OF assms])
  then show "n = p"
    by (rule tb_wfD(5) [OF assms])
next
  fix d r n assume "tb_docs (tb_unlink x a) d = Some r"
  then show "tb_elem (tb_unlink x a) r \<and> r \<notin> set (tb_sub (tb_unlink x a) n)"
    using tb_wfD(6,7) [OF assms, of d r] set_remove1_subset [of a] by (auto simp: tb_sub_unlink [OF assms])
next
  fix n c assume "tb_cells (tb_unlink x a) n = Some c"
  then show "n < tb_next (tb_unlink x a)"
    using tb_wfD(1) [OF assms, of n] tb_unlink_fields(3) [of x a n] by fastforce
qed

text \<open>Freeing a node that has been taken out of its parent.\<close>

lemma tb_above_sub:
  assumes "tb_wf x" "c \<in> set (tb_sub x q)"
  shows "tb_above x a c \<longleftrightarrow> c = a \<or> tb_above x a q"
  using assms tb_wfD(3) [OF assms] by (subst tb_above.simps) (simp add: tb_parent_iff [THEN iffD2])

lemma tb_sub_free: "tb_sub (tb_free x a) m = (if tb_above x a m then [] else tb_sub x m)"
  by (simp add: tb_sub_def tb_free_def)

lemma tb_free_fields [simp]: "tb_next (tb_free x a) = tb_next x" "tb_docs (tb_free x a) = tb_docs x"
  "tb_cells (tb_free x a) m = (if tb_above x a m then None else tb_cells x m)"
  by (simp_all add: tb_free_def)

lemma tb_free_reads: "tb_elem (tb_free x a) m = (\<not> tb_above x a m \<and> tb_elem x m)"
  "tb_prop (tb_free x a) m k = (if tb_above x a m then None else tb_prop x m k)"
  by (simp_all add: tb_elem_def tb_prop_def)

lemma tb_wf_free:
  assumes wf: "tb_wf x" and "tb_parent x a = None" "a \<notin> ran (tb_docs x)"
  shows "tb_wf (tb_free x a)"
proof (rule tb_wfI)
  fix n m assume m: "m \<in> set (tb_sub (tb_free x a) n)"
  then have n: "m \<in> set (tb_sub x n)" "\<not> tb_above x a n"
    by (auto simp: tb_sub_free split: if_splits)
  have "m \<noteq> a"
    using assms n(1) tb_parent_iff [OF wf, of a n] by auto
  then have "\<not> tb_above x a m"
    using tb_above_sub [OF wf n(1)] n(2) by simp
  then show "n < m \<and> (\<exists>c. tb_cells (tb_free x a) m = Some c)"
    using tb_wfD(3,4) [OF wf n(1)] by simp
next
  fix d r n assume r: "tb_docs (tb_free x a) d = Some r"
  then have "r \<noteq> a"
    using assms(3) by (auto simp: ran_def)
  moreover have "tb_parent x r = None"
    using tb_wfD(7) [OF wf, of d r] r tb_parent_iff [OF wf, of r] by (cases "tb_parent x r") auto
  ultimately have "\<not> tb_above x a r"
    by (subst tb_above.simps) simp
  then show "tb_elem (tb_free x a) r \<and> r \<notin> set (tb_sub (tb_free x a) n)"
    using tb_wfD(6,7) [OF wf, of d r] r by (auto simp: tb_sub_free tb_elem_def)
qed (use tb_wfD [OF wf] in \<open>auto simp: tb_sub_free split: if_splits\<close>)

lemma tb_above_below:
  assumes "tb_wf x" "tb_above (tb_unlink x a) a m"
  shows "(m, a) \<in> {(c, q). tb_cells x q \<noteq> None \<and> c \<in> set (tb_sub x q)}\<^sup>*"
  using assms(2)
proof (induction m rule: less_induct)
  case (less m)
  show ?case
  proof (cases "m = a")
    case False
    then obtain p where p: "tb_parent (tb_unlink x a) m = Some p" "p < m" "tb_above (tb_unlink x a) a p"
      using less.prems by (subst (asm) tb_above.simps) (auto split: option.splits if_splits)
    then have "m \<in> set (tb_sub x p)"
      using set_remove1_subset [of a "tb_sub x p"]
      by (auto simp: tb_parent_iff [OF tb_wf_unlink [OF assms(1)]] tb_sub_unlink [OF assms(1)])
    then have "(m, p) \<in> {(c, q). tb_cells x q \<noteq> None \<and> c \<in> set (tb_sub x q)}"
      using tb_sub_cell by simp
    then show ?thesis
      using less.IH [OF p(2,3)] by (rule converse_rtrancl_into_rtrancl)
  qed simp
qed

lemma tb_unlink_parent:
  assumes "tb_wf x"
  shows "tb_parent (tb_unlink x a) a = None"
proof (rule ccontr)
  assume "tb_parent (tb_unlink x a) a \<noteq> None"
  then obtain p where "a \<in> set (remove1 a (tb_sub x p))"
    using tb_parent_iff [OF tb_wf_unlink [OF assms]] tb_sub_unlink [OF assms] by auto
  then show False
    using tb_wfD(2) [OF assms] by (simp add: set_remove1_eq)
qed

lemma tb_name_unlink:
  "(case tb_cells (tb_unlink x a) m of None \<Rightarrow> [] | Some c \<Rightarrow> cl_name c)
   = (case tb_cells x m of None \<Rightarrow> [] | Some c \<Rightarrow> cl_name c)"
  by (auto simp: tb_unlink_def split: option.splits)

lemma table_unlink_free:
  assumes "tb_wf x" "a \<in> set (tb_sub x p)" and x': "x' = tb_free (tb_unlink x a) a"
  shows "tb_wf x'" "tb_cells x' a = None" "tb_sub x' p = remove1 a (tb_sub x p)"
    and "tb_cells x' m \<noteq> None \<Longrightarrow> tb_cells x m \<noteq> None \<and> same_node (table_lib dtd files) x x' m
      \<and> (m \<noteq> p \<longrightarrow> tb_sub x' m = tb_sub x m)"
    and "tb_cells x m \<noteq> None \<Longrightarrow> (m, a) \<notin> {(c, q). tb_cells x q \<noteq> None \<and> c \<in> set (tb_sub x q)}\<^sup>*
      \<Longrightarrow> tb_cells x' m \<noteq> None"
    and "tb_docs x' = tb_docs x"
proof -
  have "a \<notin> ran (tb_docs x)"
    using tb_wfD(7) [OF assms(1)] assms(2) by (auto simp: ran_def)
  then show "tb_wf x'"
    using tb_wf_free [OF tb_wf_unlink [OF assms(1)]] tb_unlink_parent [OF assms(1)] by (simp add: x')
  show "tb_cells x' a = None"
    by (simp add: x' tb_above.simps [of _ a a])
  have "\<not> tb_above (tb_unlink x a) a p"
  proof
    assume above: "tb_above (tb_unlink x a) a p"
    have "q \<le> m" if "(m, q) \<in> {(c, q). tb_cells x q \<noteq> None \<and> c \<in> set (tb_sub x q)}\<^sup>*" for m q
      using that by induction (use tb_wfD(3) [OF assms(1)] in \<open>force\<close>)+
    then show False
      using tb_above_below [OF assms(1) above] tb_wfD(3) [OF assms(1,2)] by fastforce
  qed
  then show "tb_sub x' p = remove1 a (tb_sub x p)"
    by (simp add: x' tb_sub_free tb_sub_unlink [OF assms(1)])
  show "tb_cells x' m \<noteq> None \<Longrightarrow> tb_cells x m \<noteq> None \<and> same_node (table_lib dtd files) x x' m
      \<and> (m \<noteq> p \<longrightarrow> tb_sub x' m = tb_sub x m)"
  proof -
    assume m: "tb_cells x' m \<noteq> None"
    then have above: "\<not> tb_above (tb_unlink x a) a m" and cell: "tb_cells x m \<noteq> None"
      using tb_unlink_fields(3) [of x a m] by (auto simp del: tb_unlink_fields(3) simp: x' split: if_splits)
    have "same_node (table_lib dtd files) x x' m"
      using above tb_name_unlink [of x a m]
      by (auto simp: same_node_def table_lib_def x' tb_free_reads fun_eq_iff)
    moreover have "m \<noteq> p \<Longrightarrow> a \<notin> set (tb_sub x m)"
      using tb_wfD(5) [OF assms(1,2), of m] by blast
    then have "m \<noteq> p \<Longrightarrow> tb_sub x' m = tb_sub x m"
      using above by (simp add: x' tb_sub_free tb_sub_unlink [OF assms(1)] remove1_idem)
    ultimately show ?thesis using cell by simp
  qed
  show "tb_cells x m \<noteq> None \<Longrightarrow> (m, a) \<notin> {(c, q). tb_cells x q \<noteq> None \<and> c \<in> set (tb_sub x q)}\<^sup>*
      \<Longrightarrow> tb_cells x' m \<noteq> None"
    using tb_above_below [OF assms(1), of a m] tb_unlink_fields(3) [of x a m] by (auto simp: x')
  show "tb_docs x' = tb_docs x"
    by (simp add: x')
qed

lemma tb_root_alone: "tb_wf x \<Longrightarrow> tb_docs x d = Some r \<Longrightarrow> tb_after x r = []"
proof -
  assume wf: "tb_wf x" and r: "tb_docs x d = Some r"
  have "tb_parent x r = None"
    using tb_wfD(7) [OF wf r] tb_parent_iff [OF wf, of r] by (cases "tb_parent x r") auto
  then show ?thesis by (simp add: tb_after_def)
qed

interpretation tables: libxml_laws "table_lib dtd files" tb_wf tb_sub
proof unfold_locales
  fix x n and as bs :: "nat list" and a
  assume wf: "tb_wf x" and n: "xml_valid (table_lib dtd files) x n"
  show "distinct (tb_sub x n)"
    by (rule tb_wfD(2) [OF wf])
  show "tb_sub x n = as @ a # bs \<Longrightarrow> node_next (table_lib dtd files) x a = hd_opt bs"
    using tb_after_split [OF wf, of n as a bs] by (simp add: table_lib_def)
  show "tb_sub x n = as @ a # bs \<Longrightarrow> xmlNextElementSibling (table_lib dtd files) x a
      = find (is_element (table_lib dtd files) x) bs"
    using tb_after_split [OF wf, of n as a bs] by (simp add: table_lib_def)
  show "m \<in> set (tb_sub x n) \<Longrightarrow> xml_valid (table_lib dtd files) x m" for m
    using tb_wfD(4) [OF wf] by (auto simp: table_lib_def)
  show "m \<in> set (tb_sub x n) \<Longrightarrow> m \<in> set (tb_sub x q) \<Longrightarrow> n = q" for m q
    by (rule tb_wfD(5) [OF wf])
next
  fix x d r assume wf: "tb_wf x" and "xmlDocGetRootElement (table_lib dtd files) x d = Some r"
  then have r: "tb_docs x d = Some r" by (simp add: table_lib_def)
  then have "misc_after (table_lib dtd files) tb_sub x r []"
    using tb_root_alone [OF wf r] by (simp add: table_lib_def)
  then show "xml_valid (table_lib dtd files) x r \<and> is_element (table_lib dtd files) x r
      \<and> xmlNextElementSibling (table_lib dtd files) x r = None \<and> (\<exists>bs. misc_after (table_lib dtd files) tb_sub x r bs)
      \<and> (\<forall>p. xml_valid (table_lib dtd files) x p \<longrightarrow> r \<notin> set (tb_sub x p))"
    using tb_wfD(6,7) [OF wf r] tb_root_alone [OF wf r]
    by (intro conjI exI [of _ "[]"]) (auto simp: table_lib_def tb_elem_def split: option.splits)
next
  fix x n nm c x'
  assume wf: "tb_wf x" and "xml_valid (table_lib dtd files) x n"
    and "xmlNewChild (table_lib dtd files) x n nm = (Some c, x')"
  then have n: "tb_cells x n \<noteq> None" and c: "c = tb_next x"
    and x': "x' = tb_upd (tb_new x nm) n (\<lambda>c. c\<lparr>cl_subs := cl_subs c @ [tb_next x]\<rparr>)"
    by (auto simp: table_lib_def)
  then have "n \<noteq> tb_next x" using wf by auto
  moreover have "same_node (table_lib dtd files) x x' m" if "tb_cells x m \<noteq> None" for m
  proof -
    have "m \<noteq> tb_next x" using that wf by auto
    then show ?thesis
      by (auto simp: same_node_def table_lib_def x' tb_elem_def tb_prop_def fun_eq_iff split: option.splits)
  qed
  ultimately show "tb_wf x' \<and> \<not> xml_valid (table_lib dtd files) x c
     \<and> (\<forall>m. xml_valid (table_lib dtd files) x' m \<longleftrightarrow> xml_valid (table_lib dtd files) x m \<or> m = c)
     \<and> is_element (table_lib dtd files) x' c \<and> node_name (table_lib dtd files) x' c = nm
     \<and> xmlGetProp (table_lib dtd files) x' c = Map.empty \<and> tb_sub x' c = [] \<and> tb_sub x' n = tb_sub x n @ [c]
     \<and> (\<forall>m. xml_valid (table_lib dtd files) x m
         \<longrightarrow> same_node (table_lib dtd files) x x' m \<and> (m \<noteq> n \<longrightarrow> tb_sub x' m = tb_sub x m))
     \<and> xmlDocGetRootElement (table_lib dtd files) x' = xmlDocGetRootElement (table_lib dtd files) x"
    using n wf tb_wf_child [OF wf n] tb_sub_child [OF wf n]
    by (auto simp: c x' table_lib_def tb_elem_def tb_prop_def tb_sub_def [of x "tb_next x"] fun_eq_iff)
next
  fix x n k v x'
  assume wf: "tb_wf x" and n: "xml_valid (table_lib dtd files) x n"
    and k: "xmlGetProp (table_lib dtd files) x n k = None"
    and "xmlNewProp (table_lib dtd files) x n k v = (True, x')"
  then have x': "x' = tb_upd x n (\<lambda>c. c\<lparr>cl_props := cl_props c @ [(k, v)]\<rparr>)"
    by (simp add: table_lib_def)
  show "tb_wf x' \<and> xml_valid (table_lib dtd files) x' = xml_valid (table_lib dtd files) x \<and> tb_sub x' = tb_sub x
     \<and> is_element (table_lib dtd files) x' n = is_element (table_lib dtd files) x n
     \<and> node_name (table_lib dtd files) x' n = node_name (table_lib dtd files) x n
     \<and> xmlGetProp (table_lib dtd files) x' n = (xmlGetProp (table_lib dtd files) x n)(k \<mapsto> v)
     \<and> (\<forall>m. xml_valid (table_lib dtd files) x m \<and> m \<noteq> n \<longrightarrow> same_node (table_lib dtd files) x x' m)
     \<and> xmlDocGetRootElement (table_lib dtd files) x' = xmlDocGetRootElement (table_lib dtd files) x"
    using n k tb_wf_prop [OF wf]
    by (auto simp: x' table_lib_def tb_prop_def same_node_def fun_eq_iff map_add_def split: option.splits)
next
  fix x d x1 nm r x2 x'
  assume wf: "tb_wf x" and "xmlNewDoc (table_lib dtd files) x = (Some d, x1)"
    and "xmlNewNode (table_lib dtd files) x1 nm = (Some r, x2)"
    and "x' = xmlDocSetRootElement (table_lib dtd files) x2 d r"
  then have r: "r = tb_next x" "d = tb_ndocs x" and x': "x' = (tb_new (x\<lparr>tb_ndocs := tb_ndocs x + 1\<rparr>) nm)\<lparr>tb_docs := (tb_docs x)(d \<mapsto> r)\<rparr>"
    by (auto simp: table_lib_def)
  have sub: "tb_sub x' m = tb_sub x m" and cells: "tb_cells x' m = tb_cells (tb_new x nm) m" for m
    using wf by (simp_all add: x' tb_sub_def tb_new_def)
  have doc: "tb_next x' = tb_next x + 1" "tb_docs x' = (tb_docs x)(d \<mapsto> r)"
    by (simp_all add: x')
  have elem: "tb_elem x' m = (m = r \<or> tb_elem x m)" for m
    using wf by (simp add: tb_elem_def cells r)
  have "tb_wf x'"
    by (rule tb_wfI) (use tb_wfD [OF wf] wf in \<open>auto simp: sub cells elem doc r less_SucI split: if_splits\<close>)
  then show "tb_wf x' \<and> xmlDocGetRootElement (table_lib dtd files) x' d = Some r
     \<and> xml_valid (table_lib dtd files) x' r \<and> is_element (table_lib dtd files) x' r
     \<and> node_name (table_lib dtd files) x' r = nm \<and> xmlGetProp (table_lib dtd files) x' r = Map.empty \<and> tb_sub x' r = []"
    using wf by (auto simp: table_lib_def cells sub elem doc r tb_prop_def tb_sub_def [of x] fun_eq_iff)
next
  fix x p a x'
  assume wf: "tb_wf x" and "a \<in> set (tb_sub x p)"
    and "x' = xmlFreeNode (table_lib dtd files) (xmlUnlinkNode (table_lib dtd files) x a) a"
  note * = table_unlink_free [OF this(1,2) this(3) [unfolded table_lib_def libxml.simps]]
  show "tb_wf x' \<and> \<not> xml_valid (table_lib dtd files) x' a \<and> tb_sub x' p = remove1 a (tb_sub x p)
     \<and> (\<forall>m. xml_valid (table_lib dtd files) x' m \<longrightarrow> xml_valid (table_lib dtd files) x m
          \<and> same_node (table_lib dtd files) x x' m \<and> (m \<noteq> p \<longrightarrow> tb_sub x' m = tb_sub x m))
     \<and> (\<forall>m. xml_valid (table_lib dtd files) x m
          \<and> (m, a) \<notin> {(c, q). xml_valid (table_lib dtd files) x q \<and> c \<in> set (tb_sub x q)}\<^sup>*
          \<longrightarrow> xml_valid (table_lib dtd files) x' m)
     \<and> xmlDocGetRootElement (table_lib dtd files) x' = xmlDocGetRootElement (table_lib dtd files) x"
    using * by (simp add: table_lib_def)
qed (simp_all add: table_lib_def tb_above.simps [of _ r r for r])

end
