(* ===== verification/InfoBuild.thy ===== *)
theory InfoBuild
  imports TopoQuery XmlLib Irq
begin

text \<open>
  How \<^verbatim>\<open>tools/wayca-sc-info/wayca_sc_topo.c\<close> builds its document: an element per package, NUMA node,
  cluster, core and CPU, with their caches and memory, and the interrupts and devices when they are asked for.
  The functions work on the documents of libxml2 (\<open>XmlLib\<close>) and query the topology (\<open>TopoQuery\<close>).
  Messages are left out. No result means that the behaviour is undefined or that a query has none.
\<close>

section \<open>State and tables\<close>

text \<open>What the program is given: libxml2, the system the queries read, the sizes \<^verbatim>\<open>calloc\<close> can provide, and the
  static variables \<^verbatim>\<open>output_irq\<close> and \<^verbatim>\<open>output_dev\<close>, which are set once.\<close>

record ('x, 'n, 'd) info_ctx =
  info_lib :: "('x, 'n, 'd) libxml"
  info_env :: env
  can_calloc :: "nat \<Rightarrow> bool"
  output_irq :: bool
  output_dev :: bool

record 'x info_state =
  info_xml :: 'x
  info_query :: topo_env

datatype topo_level = TOPO_SYS | TOPO_PKG | TOPO_NUMA | TOPO_CCL | TOPO_CORE | TOPO_CPU | TOPO_INTR | TOPO_IRQ
  | TOPO_PCIDEV | TOPO_SMMUDEV

text \<open>Name, \<^verbatim>\<open>has_idx\<close> and, for the function pointers, the level.\<close>

definition topo_elem :: "(string \<times> bool \<times> topo_level) list" where
  "topo_elem = [(''System'', False, TOPO_SYS), (''Package'', True, TOPO_PKG), (''NUMANode'', True, TOPO_NUMA),
     (''Cluster'', True, TOPO_CCL), (''Core'', True, TOPO_CORE), (''CPU'', True, TOPO_CPU),
     (''Interrupt'', False, TOPO_INTR), (''IRQ'', False, TOPO_IRQ), (''PCIDEV'', False, TOPO_PCIDEV),
     (''SMMUDEV'', False, TOPO_SMMUDEV)]"

text \<open>\<^verbatim>\<open>for (i = 0; i < ARRAY_SIZE(topo_elem); i++) if (!strcmp(name, topo_elem[i].name)) break;\<close>\<close>

definition find_topo_elem :: "string \<Rightarrow> (bool \<times> topo_level) option" where
  "find_topo_elem name = map_option snd (find (\<lambda>r. fst r = name) topo_elem)"

section \<open>Sequencing\<close>

text \<open>\<^verbatim>\<open>ret = f(); if (ret) return ret;\<close> and the same in a loop.\<close>

definition then0 :: "(int \<times> 's) option \<Rightarrow> ('s \<Rightarrow> (int \<times> 's) option) \<Rightarrow> (int \<times> 's) option" where
  "then0 r f = (case r of None \<Rightarrow> None | Some (ret, s) \<Rightarrow> if ret \<noteq> 0 then Some (ret, s) else f s)"

fun each0 :: "('a \<Rightarrow> 's \<Rightarrow> (int \<times> 's) option) \<Rightarrow> 'a list \<Rightarrow> 's \<Rightarrow> (int \<times> 's) option" where
  "each0 f [] s = Some (0, s)"
| "each0 f (a # as) s = then0 (f a s) (each0 f as)"

text \<open>\<^verbatim>\<open>prop = xmlNewProp(node, name, value); if (!prop) return -ENOMEM;\<close>\<close>

definition new_prop :: "('x, 'n, 'd) info_ctx \<Rightarrow> 'n \<Rightarrow> string \<Rightarrow> string \<Rightarrow> 'x info_state \<Rightarrow> (int \<times> 'x info_state) option" where
  "new_prop C node k v s =
     (let (ok, x) = xmlNewProp (info_lib C) (info_xml s) node k v in
      Some (if ok then 0 else - ENOMEM, s\<lparr>info_xml := x\<rparr>))"

text \<open>\<^verbatim>\<open>sizeof(cpu_set_t)\<close>, and \<^verbatim>\<open>snprintf\<close> of a string into \<^verbatim>\<open>content\<close>, which holds \<^verbatim>\<open>CONTENT_STR_LEN\<close> bytes.\<close>

definition sizeof_cpu_set :: nat where "sizeof_cpu_set = 128"

definition content :: "string \<Rightarrow> string" where "content str = take 99 str"

section \<open>Elements\<close>

text \<open>A malformed index is freed twice: no result.\<close>

definition get_index_from_prop :: "('x, 'n, 'd) info_ctx \<Rightarrow> 'n \<Rightarrow> 'x info_state \<Rightarrow> (int + int) option" where
  "get_index_from_prop C node s = (case xmlGetProp (info_lib C) (info_xml s) node ''index'' of
       None \<Rightarrow> Some (Inl (- ENOENT))
     | Some p \<Rightarrow>
         let (v, e, err) = strtol p in
         if e = p \<or> err \<noteq> 0 then None else Some (Inr (to_int v)))"

definition build_prop_index ::
    "('x, 'n, 'd) info_ctx \<Rightarrow> 'n \<Rightarrow> int \<Rightarrow> string \<Rightarrow> 'x info_state \<Rightarrow> (int \<times> 'x info_state) option" where
  "build_prop_index C node i index_name s = new_prop C node index_name (decimal_int i) s"

definition topo_build_single_elem ::
    "('x, 'n, 'd) info_ctx \<Rightarrow> 'n \<Rightarrow> int \<Rightarrow> string \<Rightarrow> 'x info_state \<Rightarrow> (int \<times> 'x info_state) option" where
  "topo_build_single_elem C node index next_elem s =
     (case xmlNewChild (info_lib C) (info_xml s) node next_elem of
        (None, x) \<Rightarrow> Some (- ENOMEM, s\<lparr>info_xml := x\<rparr>)
      | (Some c, x) \<Rightarrow>
          let s = s\<lparr>info_xml := x\<rparr>; name = node_name (info_lib C) x c in
          case find_topo_elem name of
            None \<Rightarrow> Some (0, s)
          | Some (has_idx, _) \<Rightarrow>
              if \<not> has_idx then Some (0, s)
              else then0 (build_prop_index C c index ''index'' s) (\<lambda>s.
                let physical = (\<lambda>el.
                      let p = wayca_sc_get_physical_id (info_query s) el index in
                      if p < 0 then Some (p, s) else build_prop_index C c p ''p_index'' s)
                in if name = ''Cluster'' then physical ''cluster''
                   else if name = ''Package'' then physical ''package''
                   else if name = ''Core'' then physical ''core''
                   else build_prop_index C c index ''p_index'' s))"

definition topo_build_next_elem ::
    "('x, 'n, 'd) info_ctx \<Rightarrow> 'n \<Rightarrow> cpu_set_t \<Rightarrow> int \<Rightarrow> string \<Rightarrow> 'x info_state \<Rightarrow> (int \<times> 'x info_state) option" where
  "topo_build_next_elem C node msk elem_nr next_elem s =
     each0 (\<lambda>i s. if \<not> CPU_ISSET i msk then Some (0, s) else topo_build_single_elem C node i next_elem s)
       [0..elem_nr - 1] s"

text \<open>A query for a mask: \<^verbatim>\<open>ret = ...(id, sizeof(cpu_set_t), &mask); if (ret < 0) return ret;\<close>\<close>

definition with_mask :: "(topo_env \<Rightarrow> int \<Rightarrow> nat \<Rightarrow> bool \<Rightarrow> (int \<times> cpu_set_t option \<times> topo_env) option) \<Rightarrow> int
    \<Rightarrow> 'x info_state \<Rightarrow> (cpu_set_t \<Rightarrow> 'x info_state \<Rightarrow> (int \<times> 'x info_state) option) \<Rightarrow> (int \<times> 'x info_state) option" where
  "with_mask q i s f = (case q (info_query s) i sizeof_cpu_set True of
       None \<Rightarrow> None
     | Some (ret, m, t) \<Rightarrow>
         if ret < 0 then Some (ret, s\<lparr>info_query := t\<rparr>)
         else case m of None \<Rightarrow> None | Some m \<Rightarrow> f m (s\<lparr>info_query := t\<rparr>))"

text \<open>The query that counts the cores or clusters updates its counter.\<close>

definition count_with :: "(topo_state \<Rightarrow> int \<times> topo_state) \<Rightarrow> 'x info_state \<Rightarrow> int \<times> 'x info_state" where
  "count_with f s = (let (n, ts) = f (te (info_query s)) in (n, s\<lparr>info_query := (info_query s)\<lparr>te := ts\<rparr>\<rparr>))"

definition cpu_elem_build :: "('x, 'n, 'd) info_ctx \<Rightarrow> 'n \<Rightarrow> 'x info_state \<Rightarrow> (int \<times> 'x info_state) option" where
  "cpu_elem_build C node s = Some (0, s)"

text \<open>A cache size as an attribute.\<close>

definition cache_prop :: "('x, 'n, 'd) info_ctx \<Rightarrow> (env \<Rightarrow> topo_env \<Rightarrow> int \<Rightarrow> (int \<times> topo_env) option) \<Rightarrow> string
    \<Rightarrow> 'n \<Rightarrow> int \<Rightarrow> 'x info_state \<Rightarrow> (int \<times> 'x info_state) option" where
  "cache_prop C get k node cpu s = (case get (info_env C) (info_query s) cpu of
       None \<Rightarrow> None
     | Some (csize, t) \<Rightarrow> new_prop C node k (content (decimal_int csize @ ''KB'')) (s\<lparr>info_query := t\<rparr>))"

definition core_prop_build :: "('x, 'n, 'd) info_ctx \<Rightarrow> 'n \<Rightarrow> int \<Rightarrow> 'x info_state \<Rightarrow> (int \<times> 'x info_state) option" where
  "core_prop_build C node cpu s =
     then0 (cache_prop C wayca_sc_get_l1i_size ''L1i_cache'' node cpu s) (\<lambda>s.
     then0 (cache_prop C wayca_sc_get_l1d_size ''L1d_cache'' node cpu s) (\<lambda>s.
     cache_prop C wayca_sc_get_l2_size ''L2_cache'' node cpu s))"

text \<open>The loop that looks for a CPU of the mask ends at \<open>c_nr\<close> when there is none.\<close>

definition first_cpu :: "cpu_set_t \<Rightarrow> int \<Rightarrow> int" where
  "first_cpu msk c_nr = int (length (takeWhile (\<lambda>i. \<not> CPU_ISSET i msk) [0..c_nr - 1]))"

definition core_elem_build :: "('x, 'n, 'd) info_ctx \<Rightarrow> 'n \<Rightarrow> 'x info_state \<Rightarrow> (int \<times> 'x info_state) option" where
  "core_elem_build C node s = (case get_index_from_prop C node s of
       None \<Rightarrow> None
     | Some (Inl ret) \<Rightarrow> Some (ret, s)
     | Some (Inr cid) \<Rightarrow> with_mask (wayca_sc_core_cpu_mask (info_env C)) cid s (\<lambda>mask s.
         let c_nr = wayca_sc_cpus_in_total (te (info_query s)) in
         if c_nr < 0 then Some (c_nr, s)
         else then0 (core_prop_build C node (first_cpu mask c_nr) s)
           (topo_build_next_elem C node mask c_nr ''CPU'')))"

definition ccl_elem_build :: "('x, 'n, 'd) info_ctx \<Rightarrow> 'n \<Rightarrow> 'x info_state \<Rightarrow> (int \<times> 'x info_state) option" where
  "ccl_elem_build C node s = (case get_index_from_prop C node s of
       None \<Rightarrow> None
     | Some (Inl ret) \<Rightarrow> Some (ret, s)
     | Some (Inr cid) \<Rightarrow> with_mask (wayca_sc_ccl_core_mask (info_env C)) cid s (\<lambda>mask s.
         let (c_nr, s) = count_with wayca_sc_cores_in_total s in
         if c_nr < 0 then Some (c_nr, s)
         else topo_build_next_elem C node mask c_nr ''Core'' s))"

text \<open>The loop over the CPUs of a node: the size of the first L3 cache found, \<open>-1\<close> initially.\<close>

fun node_l3 :: "env \<Rightarrow> cpu_set_t \<Rightarrow> int list \<Rightarrow> int \<Rightarrow> topo_env \<Rightarrow> (int \<times> topo_env) option" where
  "node_l3 e msk [] sz t = Some (sz, t)"
| "node_l3 e msk (i # is) sz t =
     (if \<not> CPU_ISSET i msk then node_l3 e msk is sz t
      else case wayca_sc_get_l3_size e t i of
          None \<Rightarrow> None
        | Some (sz, t) \<Rightarrow> if 0 < sz then Some (sz, t) else node_l3 e msk is sz t)"

definition numa_prop_build :: "('x, 'n, 'd) info_ctx \<Rightarrow> 'n \<Rightarrow> int \<Rightarrow> 'x info_state \<Rightarrow> (int \<times> 'x info_state) option" where
  "numa_prop_build C node numa_id s = (case wayca_sc_get_node_mem_size (info_query s) numa_id True of
       None \<Rightarrow> None
     | Some (ret, mem_size) \<Rightarrow>
         if ret \<noteq> 0 then Some (ret, s)
         else case mem_size of None \<Rightarrow> None | Some mem_size \<Rightarrow>
           then0 (new_prop C node ''mem_size'' (content (decimal (unat mem_size) @ ''KB'')) s) (\<lambda>s.
           with_mask (wayca_sc_node_cpu_mask (info_env C)) numa_id s (\<lambda>mask s.
             let num_cpu = wayca_sc_cpus_in_total (te (info_query s)) in
             if num_cpu < 0 then Some (num_cpu, s)
             else case node_l3 (info_env C) mask [0..num_cpu - 1] (- 1) (info_query s) of
                 None \<Rightarrow> None
               | Some (csize, t) \<Rightarrow>
                   new_prop C node ''L3_cache'' (content (decimal_int csize @ ''KB'')) (s\<lparr>info_query := t\<rparr>))))"

text \<open>The element and the attribute for a type of device; there are no other types than these two.\<close>

definition get_dev_elem_type :: "device_info \<Rightarrow> string \<times> string" where
  "get_dev_elem_type d = (case d of PCI_info _ \<Rightarrow> (''PCIDEV'', ''slot'') | SMMU_info _ \<Rightarrow> (''SMMUDEV'', ''name''))"

definition dev_elem :: "('x, 'n, 'd) info_ctx \<Rightarrow> 'n \<Rightarrow> string \<Rightarrow> 'x info_state \<Rightarrow> (int \<times> 'x info_state) option" where
  "dev_elem C numa_node name s = (case wayca_sc_get_device_info (info_query s) (Some name) True of
       (ret, None) \<Rightarrow> Some (ret, s)
     | (ret, Some dev_info) \<Rightarrow>
         let (next_elem, idx_attr) = get_dev_elem_type dev_info in
         case xmlNewChild (info_lib C) (info_xml s) numa_node next_elem of
           (None, x) \<Rightarrow> Some (- ENOMEM, s\<lparr>info_xml := x\<rparr>)
         | (Some node, x) \<Rightarrow> new_prop C node idx_attr name (s\<lparr>info_xml := x\<rparr>))"

definition numa_dev_elem_build ::
    "('x, 'n, 'd) info_ctx \<Rightarrow> 'n \<Rightarrow> int \<Rightarrow> 'x info_state \<Rightarrow> (int \<times> 'x info_state) option" where
  "numa_dev_elem_build C numa_node numa_id s =
     (case wayca_sc_get_device_list (info_query s) numa_id True False of
        (ret, None) \<Rightarrow> Some (ret, s)
      | (ret, Some (dev_nr, _)) \<Rightarrow>
          if ret \<noteq> 0 \<or> dev_nr = 0 then Some (ret, s)
          else if \<not> can_calloc C dev_nr then Some (- ENOMEM, s)
          else case wayca_sc_get_device_list (info_query s) numa_id True True of
              (ret, Some (_, Some names)) \<Rightarrow> if ret \<noteq> 0 then Some (ret, s) else each0 (dev_elem C numa_node) names s
            | (ret, _) \<Rightarrow> Some (ret, s))"

definition numa_elem_build :: "('x, 'n, 'd) info_ctx \<Rightarrow> 'n \<Rightarrow> 'x info_state \<Rightarrow> (int \<times> 'x info_state) option" where
  "numa_elem_build C node s = (case get_index_from_prop C node s of
       None \<Rightarrow> None
     | Some (Inl ret) \<Rightarrow> Some (ret, s)
     | Some (Inr numa_id) \<Rightarrow>
         then0 (numa_prop_build C node numa_id s) (\<lambda>s.
         then0 (let (c_nr, s) = count_with wayca_sc_ccls_in_total s in
                if c_nr < 0 then
                  let (c_nr, s) = count_with wayca_sc_cores_in_total s in
                  if c_nr < 0 then Some (c_nr, s)
                  else with_mask (wayca_sc_node_core_mask (info_env C)) numa_id s (\<lambda>core_mask.
                    topo_build_next_elem C node core_mask c_nr ''Core'')
                else with_mask (wayca_sc_node_ccl_mask (info_env C)) numa_id s (\<lambda>ccl_mask.
                  topo_build_next_elem C node ccl_mask c_nr ''Cluster'')) (\<lambda>s.
         if \<not> output_dev C then Some (0, s) else numa_dev_elem_build C node numa_id s)))"

definition package_elem_build :: "('x, 'n, 'd) info_ctx \<Rightarrow> 'n \<Rightarrow> 'x info_state \<Rightarrow> (int \<times> 'x info_state) option" where
  "package_elem_build C node s = (case get_index_from_prop C node s of
       None \<Rightarrow> None
     | Some (Inl ret) \<Rightarrow> Some (ret, s)
     | Some (Inr package_id) \<Rightarrow> with_mask (wayca_sc_package_node_mask (info_env C)) package_id s (\<lambda>mask s.
         let numa_nr = wayca_sc_nodes_in_total (te (info_query s)) in
         if numa_nr < 0 then Some (numa_nr, s)
         else topo_build_next_elem C node mask numa_nr ''NUMANode'' s))"

definition system_elem_build :: "('x, 'n, 'd) info_ctx \<Rightarrow> 'n \<Rightarrow> 'x info_state \<Rightarrow> (int \<times> 'x info_state) option" where
  "system_elem_build C node s =
     (let package_nr = wayca_sc_packages_in_total (te (info_query s)) in
      if package_nr < 0 then Some (package_nr, s)
      else then0 (each0 (\<lambda>i. topo_build_single_elem C node i ''Package'') [0..package_nr - 1] s) (\<lambda>s.
        if \<not> output_irq C then Some (0, s) else topo_build_single_elem C node 0 ''Interrupt'' s))"

section \<open>Interrupts and devices\<close>

definition irq_elem :: "('x, 'n, 'd) info_ctx \<Rightarrow> 'n \<Rightarrow> 32 word \<Rightarrow> 'x info_state \<Rightarrow> (int \<times> 'x info_state) option" where
  "irq_elem C intr irq s = (case xmlNewChild (info_lib C) (info_xml s) intr ''IRQ'' of
       (None, x) \<Rightarrow> Some (- ENOMEM, s\<lparr>info_xml := x\<rparr>)
     | (Some node, x) \<Rightarrow> new_prop C node ''irq_number'' (decimal (unat irq)) (s\<lparr>info_xml := x\<rparr>))"

definition intr_elem_build :: "('x, 'n, 'd) info_ctx \<Rightarrow> 'n \<Rightarrow> 'x info_state \<Rightarrow> (int \<times> 'x info_state) option" where
  "intr_elem_build C intr s =
     (let (ret, r, t) = wayca_sc_get_irq_list (info_env C) (info_query s) True False;
          s = s\<lparr>info_query := t\<rparr>
      in case r of
           None \<Rightarrow> Some (ret, s)
         | Some (irq_nr, _) \<Rightarrow>
             if ret \<noteq> 0 \<or> irq_nr = 0 then Some (ret, s)
             else if \<not> can_calloc C irq_nr then Some (- ENOMEM, s)
             else case wayca_sc_get_irq_list (info_env C) (info_query s) True True of
                 (ret, Some (_, Some irqs), t) \<Rightarrow>
                   if ret \<noteq> 0 then Some (ret, s\<lparr>info_query := t\<rparr>)
                   else each0 (irq_elem C intr) irqs (s\<lparr>info_query := t\<rparr>)
               | (ret, _, t) \<Rightarrow> Some (ret, s\<lparr>info_query := t\<rparr>))"

text \<open>The information of the other type of device would be read through the wrong member of a union: no result.\<close>

definition pci_dev_elem_build :: "('x, 'n, 'd) info_ctx \<Rightarrow> 'n \<Rightarrow> 'x info_state \<Rightarrow> (int \<times> 'x info_state) option" where
  "pci_dev_elem_build C node s = (case xmlGetProp (info_lib C) (info_xml s) node ''slot'' of
       None \<Rightarrow> Some (- ENOENT, s)
     | Some slot \<Rightarrow> (case wayca_sc_get_device_info (info_query s) (Some slot) True of
           (ret, Some (PCI_info d)) \<Rightarrow>
             then0 (new_prop C node ''smmu_idx'' (content (decimal_int (pci_smmu_idx d))) s) (\<lambda>s.
             then0 (new_prop C node ''class_id'' (content (''0x'' @ hex (unat (pci_class d)))) s) (\<lambda>s.
             then0 (new_prop C node ''vendor_id'' (content (''0x'' @ hex (unat (pci_vendor d)))) s) (\<lambda>s.
             then0 (new_prop C node ''device_id'' (content (''0x'' @ hex (unat (pci_device d)))) s) (\<lambda>s.
             new_prop C node ''irq_nr'' (content (decimal (length (irq_numbers d)))) s))))
         | (ret, Some (SMMU_info d)) \<Rightarrow> None
         | (ret, None) \<Rightarrow> Some (ret, s)))"

definition smmu_dev_elem_build :: "('x, 'n, 'd) info_ctx \<Rightarrow> 'n \<Rightarrow> 'x info_state \<Rightarrow> (int \<times> 'x info_state) option" where
  "smmu_dev_elem_build C node s = (case xmlGetProp (info_lib C) (info_xml s) node ''name'' of
       None \<Rightarrow> Some (- ENOENT, s)
     | Some name \<Rightarrow> (case wayca_sc_get_device_info (info_query s) (Some name) True of
           (ret, Some (SMMU_info d)) \<Rightarrow>
             then0 (new_prop C node ''smmu_idx'' (content (decimal_int (smmu_idx d))) s) (\<lambda>s.
             then0 (new_prop C node ''base_addr'' (content (''0x'' @ hex (unat (base_addr d)))) s) (\<lambda>s.
             new_prop C node ''modalias'' (content (modalias d)) s))
         | (ret, Some (PCI_info d)) \<Rightarrow> None
         | (ret, None) \<Rightarrow> Some (ret, s)))"

definition topo_str2ul :: "string \<Rightarrow> int \<times> ulong" where
  "topo_str2ul str =
     (let (num, e, err) = strtoul str in
      (if e = str \<or> err \<noteq> 0 then if err \<noteq> 0 then - err else - EINVAL else 0, num))"

definition irq_chip_string :: "string list" where
  "irq_chip_string = [''invalid'', ''mbigen-v2'', ''ITS-MSI'', ''ITS-pMSI'', ''GICv3'']"

definition irq_type_string :: "string list" where
  "irq_type_string = [''invalid'', ''edge'', ''level'']"

definition irq_prop_build :: "('x, 'n, 'd) info_ctx \<Rightarrow> 'n \<Rightarrow> ulong \<Rightarrow> 'x info_state \<Rightarrow> (int \<times> 'x info_state) option" where
  "irq_prop_build C node irq_num s =
     (case wayca_sc_get_irq_info (info_env C) (info_query s) (ucast irq_num) True of
        (ret, None, t) \<Rightarrow> Some (ret, s\<lparr>info_query := t\<rparr>)
      | (ret, Some irq_info, t) \<Rightarrow>
          then0 (new_prop C node ''name'' (content (irq_name irq_info)) (s\<lparr>info_query := t\<rparr>)) (\<lambda>s.
          if length irq_chip_string \<le> chip_name irq_info then Some (- EINVAL, s)
          else then0 (new_prop C node ''chip_name'' (content (irq_chip_string ! chip_name irq_info)) s) (\<lambda>s.
          if length irq_type_string \<le> irq_type irq_info then Some (- EINVAL, s)
          else new_prop C node ''type'' (content (irq_type_string ! irq_type irq_info)) s)))"

definition irq_elem_build :: "('x, 'n, 'd) info_ctx \<Rightarrow> 'n \<Rightarrow> 'x info_state \<Rightarrow> (int \<times> 'x info_state) option" where
  "irq_elem_build C node s = (case xmlGetProp (info_lib C) (info_xml s) node ''irq_number'' of
       None \<Rightarrow> Some (- ENOENT, s)
     | Some p \<Rightarrow> let (ret, num) = topo_str2ul p in
         if ret \<noteq> 0 then Some (ret, s) else irq_prop_build C node num s)"

section \<open>The document\<close>

definition elem_build :: "('x, 'n, 'd) info_ctx \<Rightarrow> topo_level \<Rightarrow> 'n \<Rightarrow> 'x info_state \<Rightarrow> (int \<times> 'x info_state) option" where
  "elem_build C l = (case l of
       TOPO_SYS \<Rightarrow> system_elem_build C | TOPO_PKG \<Rightarrow> package_elem_build C | TOPO_NUMA \<Rightarrow> numa_elem_build C
     | TOPO_CCL \<Rightarrow> ccl_elem_build C | TOPO_CORE \<Rightarrow> core_elem_build C | TOPO_CPU \<Rightarrow> cpu_elem_build C
     | TOPO_INTR \<Rightarrow> intr_elem_build C | TOPO_IRQ \<Rightarrow> irq_elem_build C | TOPO_PCIDEV \<Rightarrow> pci_dev_elem_build C
     | TOPO_SMMUDEV \<Rightarrow> smmu_dev_elem_build C)"

text \<open>The recursion over the elements made so far; nothing in the code bounds it, so it is a partial function.\<close>

partial_function (option) build_topo ::
    "('x, 'n, 'd) info_ctx \<Rightarrow> 'n \<Rightarrow> 'x info_state \<Rightarrow> (int \<times> 'x info_state) option" where
  "build_topo C node s = (case find_topo_elem (node_name (info_lib C) (info_xml s) node) of
       None \<Rightarrow> Some (- ENOENT, s)
     | Some (_, l) \<Rightarrow> do {
         (ret, s) \<leftarrow> elem_build C l node s;
         if ret \<noteq> 0 then Some (ret, s)
         else do {
           (ret, s) \<leftarrow> (case xmlFirstElementChild (info_lib C) (info_xml s) node of
               None \<Rightarrow> Some (0, s) | Some child \<Rightarrow> build_topo C child s);
           if ret \<noteq> 0 then Some (ret, s)
           else case xmlNextElementSibling (info_lib C) (info_xml s) node of
               None \<Rightarrow> Some (0, s) | Some sibling \<Rightarrow> build_topo C sibling s
         }
       })"

declare build_topo.simps [code]

definition build_topo_info :: "('x, 'n, 'd) info_ctx \<Rightarrow> 'x info_state \<Rightarrow> (int \<times> 'd option \<times> 'x info_state) option" where
  "build_topo_info C s = (case xmlNewDoc (info_lib C) (info_xml s) of
       (None, x) \<Rightarrow> Some (- ENOMEM, None, s\<lparr>info_xml := x\<rparr>)
     | (Some doc, x) \<Rightarrow> (case xmlNewNode (info_lib C) x ''System'' of
           (None, x) \<Rightarrow> Some (- ENOMEM, None, s\<lparr>info_xml := xmlFreeDoc (info_lib C) x doc\<rparr>)
         | (Some sys_node, x) \<Rightarrow> do {
             (ret, s) \<leftarrow> build_topo C sys_node (s\<lparr>info_xml := xmlDocSetRootElement (info_lib C) x doc sys_node\<rparr>);
             if ret \<noteq> 0 then Some (ret, None, s\<lparr>info_xml := xmlFreeDoc (info_lib C) (info_xml s) doc\<rparr>)
             else Some (0, Some doc, s)
           }))"

end
