(* ===== verification/InfoDoc.thy ===== *)
theory InfoDoc
  imports InfoBuild
begin

text \<open>
  The document that wayca-sc-info builds. \<open>doc_builder\<close> states what each function \<^verbatim>\<open>*_elem_build\<close> promises of one
  element: it adds attributes and children that are leaves. From this follows once what the recursion
  \<^verbatim>\<open>build_topo\<close> makes of the whole tree, and that it ends. The promises are then shown for the elements of a
  topology, and \<open>item_elem\<close> gives the document.
\<close>

text \<open>A tree in which every node is an element.\<close>

fun elements_only :: "'n ptree \<Rightarrow> bool" where
  "elements_only (PT n el nm ps ts) \<longleftrightarrow> el \<and> (\<forall>t \<in> set ts. elements_only t)"

lemma elements_only_elem: "elements_only t \<Longrightarrow> pt_elem t"
  by (cases t) simp

section \<open>The recursion\<close>

locale doc_builder = libxml_laws "info_lib C" wf sub
  for C :: "('x, 'n, 'd) info_ctx" and wf :: "'x \<Rightarrow> bool" and sub :: "'x \<Rightarrow> 'n \<Rightarrow> 'n list" +
  fixes good :: "topo_env \<Rightarrow> bool"
    and okay :: "'i \<Rightarrow> bool"
    and leaf_of :: "'i \<Rightarrow> string \<times> (string \<Rightarrow> string option)"
    and attrs :: "'i \<Rightarrow> string \<Rightarrow> string option"
    and kids :: "'i \<Rightarrow> 'i list"
    and rank :: "'i \<Rightarrow> nat"
    and tree :: "'i \<Rightarrow> elem"
  assumes tree_eq: "okay it \<Longrightarrow> tree it = Elem (fst (leaf_of it)) (snd (leaf_of it) ++ attrs it) (map tree (kids it))"
    and kids_ok: "okay it \<Longrightarrow> k \<in> set (kids it) \<Longrightarrow> okay k \<and> rank k < rank it"
    and known: "okay it \<Longrightarrow> find_topo_elem (fst (leaf_of it)) \<noteq> None"
    and step: "okay it \<Longrightarrow> find_topo_elem (fst (leaf_of it)) = Some (b, l) \<Longrightarrow> good (info_query s) \<Longrightarrow> wf (info_xml s)
      \<Longrightarrow> xml_valid (info_lib C) (info_xml s) n \<Longrightarrow> leaf (info_lib C) (info_xml s) n = leaf_of it
      \<Longrightarrow> \<exists>s' ids. elem_build C l n s = Some (0, s') \<and> good (info_query s')
        \<and> grows (info_lib C) wf sub (info_xml s) n (info_xml s') (attrs it) ids (map leaf_of (kids it))"
begin

text \<open>\<open>ts\<close> are the trees that \<open>build_topo\<close> has made of the leaves \<open>ids\<close> between the states \<open>x\<close> and \<open>x'\<close>.\<close>

definition made :: "'x \<Rightarrow> 'x \<Rightarrow> 'n list \<Rightarrow> 'i list \<Rightarrow> 'n ptree list \<Rightarrow> bool" where
  "made x x' ids its ts \<longleftrightarrow> wf x' \<and> keeps (info_lib C) sub x x' (set ids) \<and> map pt_node ts = ids
     \<and> map erase ts = map tree its \<and> (\<forall>t \<in> set ts. xshape (info_lib C) sub x' t \<and> elements_only t)
     \<and> distinct (concat (map pt_nodes ts))
     \<and> (\<forall>m \<in> set (concat (map pt_nodes ts)). m \<in> set ids \<or> \<not> xml_valid (info_lib C) x m)"

lemma made_Nil [simp]: "made x x' [] [] [] \<longleftrightarrow> wf x' \<and> keeps (info_lib C) sub x x' {}"
  by (simp add: made_def)

lemma made_node:
  assumes g: "grows (info_lib C) wf sub x n x1 (attrs it) ids (map leaf_of (kids it))"
    and n: "leaf (info_lib C) x n = leaf_of it" "sub x n = []" "is_element (info_lib C) x n" and ok: "okay it"
    and m: "made x1 x2 ids (kids it) ts"
  shows "made x x2 [n] [it] [PT n True (fst (leaf_of it)) (snd (leaf_of it) ++ attrs it) ts]"
proof -
  let ?L = "info_lib C" and ?t = "PT n True (fst (leaf_of it)) (snd (leaf_of it) ++ attrs it) ts"
  have nn: "node_name ?L x n = fst (leaf_of it)" "xmlGetProp ?L x n = snd (leaf_of it)"
    unfolding n(1) [symmetric] by (simp_all add: leaf_def)
  have x1: "xml_valid ?L x n" "sub x1 n = ids" "node_name ?L x1 n = fst (leaf_of it)"
      "xmlGetProp ?L x1 n = snd (leaf_of it) ++ attrs it" "is_element ?L x1 n" "\<forall>i \<in> set ids. \<not> xml_valid ?L x i"
    using g n(2,3) nn unfolding grows_def by simp_all
  have x1n: "xml_valid ?L x1 n" "n \<notin> set ids"
    using g x1 unfolding grows_def by blast+
  have k: "keeps ?L sub x1 x2 (set ids)" using m by (simp add: made_def)
  note x2 = keepsD [OF k x1n(1)]
  have "xshape ?L sub x2 ?t"
    using x2 x1 x1n m by (simp add: made_def list_all_iff)
  moreover have "keeps ?L sub x x2 {n}"
    using keeps_trans [OF grows_keeps [OF g] k] by (rule keeps_mono) (use x1 in auto)
  moreover have "filter pt_elem ts = ts"
    using m elements_only_elem by (auto simp: made_def filter_id_conv)
  then have "erase ?t = tree it"
    using m tree_eq [OF ok] by (simp add: made_def)
  moreover have new: "\<not> xml_valid ?L x j" if "j \<in> set (concat (map pt_nodes ts))" for j
  proof (cases "j \<in> set ids")
    case True
    then show ?thesis using x1 by blast
  next
    case False
    then have "\<not> xml_valid ?L x1 j" using m that by (auto simp: made_def)
    then show ?thesis using g by (auto simp: grows_def)
  qed
  moreover have "distinct (pt_nodes ?t)"
    using m new x1(1) by (auto simp: made_def)
  ultimately show ?thesis
    using m by (auto simp: made_def)
qed

lemma made_Cons:
  assumes 1: "made x x1 [n] [it] [t]" and 2: "made x1 x2 ns its ts"
    and d: "n \<notin> set ns" "xml_valid (info_lib C) x n" "\<forall>i \<in> set ns. xml_valid (info_lib C) x i"
  shows "made x x2 (n # ns) (it # its) (t # ts)"
proof -
  let ?L = "info_lib C"
  have k1: "keeps ?L sub x x1 {n}" and k2: "keeps ?L sub x1 x2 (set ns)"
    using 1 2 by (auto simp: made_def)
  have t: "\<forall>m \<in> set (pt_nodes t). m = n \<or> \<not> xml_valid ?L x m" "xshape ?L sub x1 t"
    using 1 by (auto simp: made_def)
  have "set (pt_nodes t) \<inter> set ns = {}"
    using t(1) d by auto
  then have "xshape ?L sub x2 t"
    by (rule xshape_keeps [OF t(2) k2])
  moreover have new: "j \<in> set ns \<or> \<not> xml_valid ?L x1 j" if "j \<in> set (concat (map pt_nodes ts))" for j
    using 2 that by (auto simp: made_def)
  have "set (pt_nodes t) \<inter> set (concat (map pt_nodes ts)) = {}"
    using new xshape_valid [OF t(2)] \<open>set (pt_nodes t) \<inter> set ns = {}\<close> by auto
  moreover have "keeps ?L sub x x2 (set (n # ns))"
    using keeps_trans [OF k1 k2] by simp
  moreover have "j \<in> set (n # ns) \<or> \<not> xml_valid ?L x j" if "j \<in> set (concat (map pt_nodes (t # ts)))" for j
    using that new [of j] t(1) keepsD(1) [OF k1] by auto
  ultimately show ?thesis
    using 1 2 by (auto simp: made_def)
qed

text \<open>The leaves that are about to be built.\<close>

definition leaves :: "'x \<Rightarrow> 'n list \<Rightarrow> 'i list \<Rightarrow> bool" where
  "leaves x ids its \<longleftrightarrow> distinct ids \<and> map (leaf (info_lib C) x) ids = map leaf_of its \<and> (\<forall>it \<in> set its. okay it)
     \<and> (\<forall>i \<in> set ids. xml_valid (info_lib C) x i \<and> is_element (info_lib C) x i \<and> sub x i = [])"

lemma leaves_grown:
  assumes "grows (info_lib C) wf sub x n x' (attrs it) ids (map leaf_of (kids it))" "okay it" "sub x n = []"
  shows "leaves x' ids (kids it)" "ids \<noteq> [] \<Longrightarrow> linked (info_lib C) sub x' ids"
proof -
  show "leaves x' ids (kids it)"
    using assms kids_ok by (simp add: leaves_def grows_def)
  have "xml_valid (info_lib C) x' n" "n \<notin> set ids" "sub x' n = [] @ ids"
    using assms unfolding grows_def by auto
  then show "linked (info_lib C) sub x' ids"
    unfolding linked_def by blast
qed

lemma leaves_kept:
  assumes "leaves x ids its" "keeps (info_lib C) sub x x' S" "set ids \<inter> S = {}"
  shows "leaves x' ids its"
proof -
  have "xml_valid (info_lib C) x' i \<and> is_element (info_lib C) x' i \<and> sub x' i = [] \<and> leaf (info_lib C) x' i = leaf (info_lib C) x i"
    if "i \<in> set ids" for i
    using keepsD [OF assms(2), of i] assms(1,3) that by (auto simp: leaves_def)
  moreover from this have "map (leaf (info_lib C) x') ids = map (leaf (info_lib C) x) ids"
    by simp
  ultimately show ?thesis
    using assms(1) unfolding leaves_def by metis
qed

text \<open>One element, when its children can be built.\<close>

lemma build_node:
  assumes lv: "leaves (info_xml s) (n # ns) (it # its)" and good: "good (info_query s)" and wf: "wf (info_xml s)"
    and kids: "\<And>s m ms. leaves (info_xml s) (m # ms) (kids it) \<Longrightarrow> linked (info_lib C) sub (info_xml s) (m # ms)
      \<Longrightarrow> good (info_query s) \<Longrightarrow> wf (info_xml s) \<Longrightarrow> \<exists>s' ts. build_topo C m s = Some (0, s')
        \<and> good (info_query s') \<and> made (info_xml s) (info_xml s') (m # ms) (kids it) ts"
  shows "\<exists>s' t. build_topo C n s = (case xmlNextElementSibling (info_lib C) (info_xml s') n of
        None \<Rightarrow> Some (0, s') | Some m \<Rightarrow> build_topo C m s')
    \<and> good (info_query s') \<and> made (info_xml s) (info_xml s') [n] [it] [t]"
proof -
  let ?L = "info_lib C"
  have n: "leaf ?L (info_xml s) n = leaf_of it" "okay it" "xml_valid ?L (info_xml s) n"
      "is_element ?L (info_xml s) n" "sub (info_xml s) n = []"
    using lv by (simp_all add: leaves_def)
  obtain b l where l: "find_topo_elem (fst (leaf_of it)) = Some (b, l)"
    using known [OF n(2)] by auto
  have nm: "node_name ?L (info_xml s) n = fst (leaf_of it)"
    using n(1) by (metis fst_conv leaf_def)
  obtain s1 ids where s1: "elem_build C l n s = Some (0, s1)" "good (info_query s1)"
      and g: "grows ?L wf sub (info_xml s) n (info_xml s1) (attrs it) ids (map leaf_of (kids it))"
    using step [OF n(2) l good wf n(3,1)] by blast
  have w1: "wf (info_xml s1)" "xml_valid ?L (info_xml s1) n" "sub (info_xml s1) n = ids"
      "\<forall>i \<in> set ids. is_element ?L (info_xml s1) i"
    using g n(5) unfolding grows_def by auto
  note lv1 = leaves_grown [OF g n(2,5)]
  have first: "xmlFirstElementChild ?L (info_xml s1) n = hd_opt ids"
    using first_elements [OF w1(1,2)] w1(3,4) by simp
  have "\<exists>s2 ts. (case hd_opt ids of None \<Rightarrow> Some (0, s1) | Some child \<Rightarrow> build_topo C child s1) = Some (0, s2)
      \<and> good (info_query s2) \<and> made (info_xml s1) (info_xml s2) ids (kids it) ts"
  proof (cases ids)
    case Nil
    then have "kids it = []" using lv1(1) by (simp add: leaves_def)
    then have "made (info_xml s1) (info_xml s1) ids (kids it) []" using Nil w1 by simp
    then show ?thesis using Nil s1 by auto
  next
    case (Cons m ms)
    then show ?thesis
      using kids [of s1 m ms] lv1 s1 w1 by auto
  qed
  then obtain s2 ts where s2: "(case hd_opt ids of None \<Rightarrow> Some (0, s1) | Some child \<Rightarrow> build_topo C child s1) = Some (0, s2)"
      "good (info_query s2)" "made (info_xml s1) (info_xml s2) ids (kids it) ts"
    by blast
  have "build_topo C n s = (case xmlNextElementSibling ?L (info_xml s2) n of
      None \<Rightarrow> Some (0, s2) | Some m \<Rightarrow> build_topo C m s2)"
    by (subst build_topo.simps) (simp add: nm l s1 first s2)
  then show ?thesis
    using s2(2) made_node [OF g n(1,5,4,2) s2(3)] by blast
qed

lemma build_siblings:
  assumes "leaves (info_xml s) (n # ns) its" "\<forall>it \<in> set its. rank it < k"
    and "linked (info_lib C) sub (info_xml s) (n # ns)" "good (info_query s)" "wf (info_xml s)"
  shows "\<exists>s' ts. build_topo C n s = Some (0, s') \<and> good (info_query s') \<and> made (info_xml s) (info_xml s') (n # ns) its ts"
  using assms
proof (induction k arbitrary: s its n ns)
  case 0
  then show ?case by (cases its) (auto simp: leaves_def)
next
  case (Suc k)
  let ?L = "info_lib C"
  show ?case
    using Suc.prems
  proof (induction ns arbitrary: s its n rule: length_induct)
    case (1 ns)
    obtain it rest where its: "its = it # rest"
      using 1(2) by (cases its) (auto simp: leaves_def)
    have ok: "okay it" "\<forall>k' \<in> set (kids it). rank k' < k"
      using 1(2,3) kids_ok [of it] by (fastforce simp: its leaves_def)+
    obtain s1 t where s1: "build_topo C n s = (case xmlNextElementSibling ?L (info_xml s1) n of
          None \<Rightarrow> Some (0, s1) | Some m \<Rightarrow> build_topo C m s1)"
        "good (info_query s1)" and m: "made (info_xml s) (info_xml s1) [n] [it] [t]"
      using build_node [OF 1(2) [unfolded its] 1(5,6) Suc.IH] ok by blast
    have k: "wf (info_xml s1)" "keeps ?L sub (info_xml s) (info_xml s1) {n}"
      using m by (simp_all add: made_def)
    have ns: "n \<notin> set ns" "xml_valid ?L (info_xml s) n" "\<forall>i \<in> set ns. xml_valid ?L (info_xml s) i"
      using 1(2) by (simp_all add: leaves_def)
    have lv: "leaves (info_xml s1) ns rest"
      by (rule leaves_kept [OF _ k(2)]) (use 1(2) ns(1) in \<open>auto simp: its leaves_def\<close>)
    have ln: "linked ?L sub (info_xml s1) (n # ns)"
      using 1(4) k(2) by (rule linked_keeps) simp
    have nx: "xmlNextElementSibling ?L (info_xml s1) n = hd_opt ns"
      using linked_next [OF k(1) ln] lv by (simp add: leaves_def)
    show ?case
    proof (cases ns)
      case Nil
      then show ?thesis
        using s1 nx m lv by (auto simp: its leaves_def)
    next
      case (Cons n' ns')
      then obtain s2 ts where "build_topo C n' s1 = Some (0, s2)" "good (info_query s2)"
          "made (info_xml s1) (info_xml s2) ns rest ts"
        using 1(1,3) lv linked_tl [OF ln] s1(2) k(1) by (fastforce simp: its)
      then show ?thesis
        using s1(1) nx Cons made_Cons [OF m _ ns] by (auto simp: its)
    qed
  qed
qed

text \<open>A document with a root and nothing else.\<close>

theorem build_root:
  assumes "okay it" "leaf_of it = (nm, Map.empty)" "good (info_query s)" "wf (info_xml s)"
    and doc: "xmlNewDoc (info_lib C) (info_xml s) = (Some d, x1)" "xmlNewNode (info_lib C) x1 nm = (Some r, x2)"
  shows "\<exists>s' t. build_topo C r (s\<lparr>info_xml := xmlDocSetRootElement (info_lib C) x2 d r\<rparr>) = Some (0, s')
    \<and> good (info_query s') \<and> wf (info_xml s') \<and> xmlDocGetRootElement (info_lib C) (info_xml s') d = Some r
    \<and> xshape (info_lib C) sub (info_xml s') t \<and> pt_node t = r \<and> elements_only t \<and> distinct (pt_nodes t) \<and> erase t = tree it"
proof -
  let ?s = "s\<lparr>info_xml := xmlDocSetRootElement (info_lib C) x2 d r\<rparr>"
  note root = new_root [OF assms(4) doc refl]
  have "leaves (info_xml ?s) [r] [it]" "linked (info_lib C) sub (info_xml ?s) [r]"
    using root assms(1,2) by (auto simp: leaves_def linked_def leaf_def)
  then obtain s' ts where "build_topo C r ?s = Some (0, s')" "good (info_query s')"
      and m: "made (info_xml ?s) (info_xml s') [r] [it] ts"
    using build_siblings [of ?s r "[]" "[it]" "Suc (rank it)"] assms(3) root by auto
  moreover obtain t where "ts = [t]" using m by (auto simp: made_def)
  ultimately show ?thesis
    using m root by (auto simp: made_def keeps_def)
qed

end

section \<open>The elements of a topology\<close>

datatype item = I_sys | I_pkg nat | I_numa nat | I_ccl nat | I_core nat | I_cpu nat | I_intr | I_irq "32 word"
  | I_pci string | I_smmu string

fun item_rank :: "item \<Rightarrow> nat" where
  "item_rank I_sys = 5" | "item_rank (I_pkg _) = 4" | "item_rank (I_numa _) = 3" | "item_rank (I_ccl _) = 2"
| "item_rank (I_core _) = 1" | "item_rank (I_cpu _) = 0" | "item_rank I_intr = 1" | "item_rank (I_irq _) = 0"
| "item_rank (I_pci _) = 0" | "item_rank (I_smmu _) = 0"

text \<open>The objects of \<open>map\<close>, the CPUs that are online and what is known of the caches.\<close>

definition members :: "cpu_set_t \<Rightarrow> nat \<Rightarrow> nat list" where
  "members m n = filter (\<lambda>i. CPU_ISSET (int i) m) [0..<n]"

definition cpu_on :: "wayca_topo \<Rightarrow> int \<Rightarrow> bool" where
  "cpu_on t i \<longleftrightarrow> topo_is_valid_cpu t i \<and> (i = 0 \<or> CPU_ISSET i (online_cpu_map t))"

definition cache_kb :: "int \<Rightarrow> string \<Rightarrow> wayca_topo \<Rightarrow> int \<Rightarrow> int" where
  "cache_kb lvl ty t i = (if \<not> topo_is_valid_cpu t i then - EINVAL else if \<not> cpu_on t i then 0
     else find_cache lvl ty (cpu_caches (cpu_array t ! nat i)))"

fun l3_kb :: "wayca_topo \<Rightarrow> nat list \<Rightarrow> int \<Rightarrow> int" where
  "l3_kb t [] sz = sz"
| "l3_kb t (i # is) sz =
     (let sz = cache_kb 3 ''Unified'' t (int i) in if 0 < sz then sz else l3_kb t is sz)"

definition kb :: "int \<Rightarrow> string" where "kb n = content (decimal_int n @ ''KB'')"

definition core_map :: "wayca_topo \<Rightarrow> nat \<Rightarrow> cpu_set_t" where
  "core_map t i = the (core_cpus_map (cores t ! i))"

text \<open>The first CPU of a core, the number of CPUs if there is none.\<close>

definition core_first :: "wayca_topo \<Rightarrow> nat \<Rightarrow> int" where
  "core_first t i = (case members (core_map t i) (n_cpus t) of [] \<Rightarrow> int (n_cpus t) | c # _ \<Rightarrow> int c)"

text \<open>Name and identifying attributes, the attributes added, and the elements below.\<close>

fun item_leaf :: "wayca_topo \<Rightarrow> item \<Rightarrow> string \<times> (string \<Rightarrow> string option)" where
  "item_leaf t I_sys = (''System'', Map.empty)"
| "item_leaf t (I_pkg i) = (''Package'', [''index'' \<mapsto> decimal i, ''p_index'' \<mapsto> decimal_int (physical_package_id (packages t ! i))])"
| "item_leaf t (I_numa i) = (''NUMANode'', [''index'' \<mapsto> decimal i, ''p_index'' \<mapsto> decimal i])"
| "item_leaf t (I_ccl i) = (''Cluster'', [''index'' \<mapsto> decimal i, ''p_index'' \<mapsto> decimal_int (cluster_id (ccls t ! i))])"
| "item_leaf t (I_core i) = (''Core'', [''index'' \<mapsto> decimal i, ''p_index'' \<mapsto> decimal_int (core_id (cores t ! i))])"
| "item_leaf t (I_cpu i) = (''CPU'', [''index'' \<mapsto> decimal i, ''p_index'' \<mapsto> decimal i])"
| "item_leaf t I_intr = (''Interrupt'', Map.empty)"
| "item_leaf t (I_irq n) = (''IRQ'', [''irq_number'' \<mapsto> decimal (unat n)])"
| "item_leaf t (I_pci nm) = (''PCIDEV'', [''slot'' \<mapsto> nm])"
| "item_leaf t (I_smmu nm) = (''SMMUDEV'', [''name'' \<mapsto> nm])"

definition irq_attrs :: "wayca_irq \<Rightarrow> string \<Rightarrow> string option" where
  "irq_attrs q = [''name'' \<mapsto> content (irq_name q), ''chip_name'' \<mapsto> content (irq_chip_string ! chip_name q),
     ''type'' \<mapsto> content (irq_type_string ! irq_type q)]"

definition pci_attrs :: "wayca_pci_device \<Rightarrow> string \<Rightarrow> string option" where
  "pci_attrs d = [''smmu_idx'' \<mapsto> content (decimal_int (pci_smmu_idx d)),
     ''class_id'' \<mapsto> content (''0x'' @ hex (unat (pci_class d))), ''vendor_id'' \<mapsto> content (''0x'' @ hex (unat (pci_vendor d))),
     ''device_id'' \<mapsto> content (''0x'' @ hex (unat (pci_device d))), ''irq_nr'' \<mapsto> content (decimal (length (irq_numbers d)))]"

definition smmu_attrs :: "wayca_smmu \<Rightarrow> string \<Rightarrow> string option" where
  "smmu_attrs d = [''smmu_idx'' \<mapsto> content (decimal_int (smmu_idx d)),
     ''base_addr'' \<mapsto> content (''0x'' @ hex (unat (base_addr d))), ''modalias'' \<mapsto> content (modalias d)]"

fun item_attrs :: "wayca_topo \<Rightarrow> wayca_irq list \<Rightarrow> item \<Rightarrow> string \<Rightarrow> string option" where
  "item_attrs t qs (I_numa i) = [''mem_size'' \<mapsto> content (decimal (unat (the (p_meminfo (nodes t ! i)))) @ ''KB''),
     ''L3_cache'' \<mapsto> kb (l3_kb t (members (node_cpu_map (nodes t ! i)) (n_cpus t)) (- 1))]"
| "item_attrs t qs (I_core i) = [''L1i_cache'' \<mapsto> kb (cache_kb 1 ''Instruction'' t (core_first t i)),
     ''L1d_cache'' \<mapsto> kb (cache_kb 1 ''Data'' t (core_first t i)), ''L2_cache'' \<mapsto> kb (cache_kb 2 ''Unified'' t (core_first t i))]"
| "item_attrs t qs (I_irq n) = (case find (\<lambda>q. irq_number q = n) qs of None \<Rightarrow> Map.empty | Some q \<Rightarrow> irq_attrs q)"
| "item_attrs t qs (I_pci nm) = (case find_device nm (nodes t) of Some (PCI_info d) \<Rightarrow> pci_attrs d | _ \<Rightarrow> Map.empty)"
| "item_attrs t qs (I_smmu nm) = (case find_device nm (nodes t) of Some (SMMU_info d) \<Rightarrow> smmu_attrs d | _ \<Rightarrow> Map.empty)"
| "item_attrs t qs _ = Map.empty"

definition dev_item :: "wayca_topo \<Rightarrow> string \<Rightarrow> item" where
  "dev_item t nm = (case find_device nm (nodes t) of Some (PCI_info d) \<Rightarrow> I_pci nm | _ \<Rightarrow> I_smmu nm)"

definition node_devices :: "wayca_node \<Rightarrow> string list" where
  "node_devices n = map smmu_name (smmus n) @ map slot_name (pcidevs n)"

fun item_kids :: "bool \<Rightarrow> bool \<Rightarrow> wayca_topo \<Rightarrow> wayca_irq list \<Rightarrow> item \<Rightarrow> item list" where
  "item_kids irq dev t qs I_sys = map I_pkg [0..<n_packages t] @ (if irq then [I_intr] else [])"
| "item_kids irq dev t qs (I_pkg i) = map I_numa (members (numa_map (packages t ! i)) (n_nodes t))"
| "item_kids irq dev t qs (I_numa i) =
     (if ccls t = [] then map I_core (members (node_core_map (nodes t ! i)) (n_cores t))
      else map I_ccl (members (node_cluster_map (nodes t ! i)) (n_clusters t)))
     @ (if dev then map (dev_item t) (node_devices (nodes t ! i)) else [])"
| "item_kids irq dev t qs (I_ccl i) = map I_core (members (ccl_core_map (ccls t ! i)) (n_cores t))"
| "item_kids irq dev t qs (I_core i) = map I_cpu (members (core_map t i) (n_cpus t))"
| "item_kids irq dev t qs I_intr = map (I_irq \<circ> irq_number) qs"
| "item_kids irq dev t qs _ = []"

lemma item_kids_rank: "k \<in> set (item_kids irq dev t qs it) \<Longrightarrow> item_rank k < item_rank it"
  by (cases it) (auto simp: dev_item_def split: if_splits option.splits device_info.splits)

text \<open>The document of a topology, with interrupts and devices when they are asked for.\<close>

function item_elem :: "bool \<Rightarrow> bool \<Rightarrow> wayca_topo \<Rightarrow> wayca_irq list \<Rightarrow> item \<Rightarrow> elem" where
  "item_elem irq dev t qs it =
     Elem (fst (item_leaf t it)) (snd (item_leaf t it) ++ item_attrs t qs it)
       (map (item_elem irq dev t qs) (item_kids irq dev t qs it))"
  by pat_completeness auto
termination
  by (relation "measure (\<lambda>(irq, dev, t, qs, it). item_rank it)") (auto dest: item_kids_rank)

declare item_elem.simps [simp del]

section \<open>Queries on a topology that does not change\<close>

text \<open>The kernel reports each CPU as on- or offline as the topology has it, so that nothing is read again.\<close>

definition settled :: "env \<Rightarrow> wayca_topo \<Rightarrow> bool" where
  "settled e t \<longleftrightarrow> (\<forall>i \<in> {0..<int (n_cpus t)}. cpu_status (e_fs e) t i = Some (Inl (cpu_on t i)))"

definition fits :: "nat \<Rightarrow> cpu_set_t \<Rightarrow> bool" where
  "fits n m \<longleftrightarrow> n \<le> 1024 \<and> set_words (int n) \<le> length m"

lemma is_cpu_online_settled:
  assumes "settled e t" "tt q = t"
  shows "wayca_sc_is_cpu_online e q i = Some (cpu_on t i, q)"
proof (cases "topo_is_valid_cpu t i")
  case True
  then have "cpu_status (e_fs e) t i = Some (Inl (cpu_on t i))"
    using assms(1) by (auto simp: settled_def topo_is_valid_cpu_def)
  then show ?thesis using assms(2) by (simp add: wayca_sc_is_cpu_online_def)
next
  case False
  then show ?thesis using assms(2) by (simp add: wayca_sc_is_cpu_online_def cpu_status_def cpu_on_def)
qed

lemma check_settled: "settled e t \<Longrightarrow> tt q = t \<Longrightarrow> check_and_update_cpu_status e q = Some q"
proof -
  assume "settled e t" "tt q = t"
  then have "update_cpus e q is = Some q" for "is"
    by (induction "is") (simp_all add: is_cpu_online_settled)
  then show ?thesis by (simp add: check_and_update_cpu_status_def)
qed

lemma get_cache_size_settled:
  assumes "settled e t" "tt q = t" "length (cpu_array t) = n_cpus t"
  shows "get_cache_size lvl ty e q i = Some (cache_kb lvl ty t i, q)"
  using assms is_cpu_online_settled [OF assms(1,2), of i]
  by (auto simp: get_cache_size_def cache_kb_def cpu_on_def topo_is_valid_cpu_def)

text \<open>A mask comes padded to the size of a \<^verbatim>\<open>cpu_set_t\<close>.\<close>

definition padded :: "nat \<Rightarrow> cpu_set_t \<Rightarrow> cpu_set_t" where
  "padded n m = take (set_words (int n)) m @ replicate (16 - set_words (int n)) 0"

lemma set_words_nat: "set_words (int n) = (n + 63) div 64" if "n \<le> 1024"
  using unat_CPU_ALLOC_SIZE [of n] that by (simp add: set_words_def)

lemma padded_isset:
  assumes "fits n m" "i < n"
  shows "CPU_ISSET (int i) (padded n m) \<longleftrightarrow> CPU_ISSET (int i) m"
  using assms by (auto simp: fits_def padded_def set_words_nat CPU_ISSET_def in_set_range_def abit_def nth_append)

lemma obj_mask_settled:
  assumes "settled e t" "tt q = t" "valid t i" "get t (nat i) = Some m" "fits (cnt t) m"
  shows "obj_mask valid cnt get e q i sizeof_cpu_set True = Some (0, Some (padded (cnt t) m), q)"
  using assms check_settled [OF assms(1,2)]
  by (auto simp: obj_mask_def put_mask_def fits_def sizeof_cpu_set_def padded_def set_words_nat Let_def)

text \<open>The interrupts that are read from the kernel; the numbers for chip and type are positions in tables.\<close>

definition irqs_read :: "env \<Rightarrow> wayca_irq list \<Rightarrow> bool" where
  "irqs_read e qs \<longleftrightarrow> (case subdirs (e_fs e) ''/proc/irq'' of Inl _ \<Rightarrow> False
     | Inr ds \<Rightarrow> 0 < e_mem e \<and> parse_irqs (e_fs e) (e_mem e - 1) ds = (0, qs))"

lemma str2_bound: "str2 ns i buf < i + length ns \<or> str2 ns i buf = 0"
proof (induction ns arbitrary: i)
  case (Cons a ns)
  then show ?case using Cons [of "Suc i"] by auto
qed simp

lemma parse_irqs_bound: "parse_irqs fs m ds = (0, qs) \<Longrightarrow> q \<in> set qs \<Longrightarrow> chip_name q < 5 \<and> irq_type q < 3"
proof (induction ds arbitrary: m qs)
  case (Cons d ds)
  have "str2_irq_chip_name n < 5" "str2_irq_type n < 3" for n
    using str2_bound [of "['''', ''mbigen-v2'', ''ITS-MSI'', ''ITS-pMSI'', ''GICv3'']" 0 n]
      str2_bound [of "['''', ''edge'', ''level'']" 0 n]
    by (auto simp: str2_irq_chip_name_def str2_irq_type_def)
  then have "chip_name (snd (topo_parse_irq_info fs d)) < 5" "irq_type (snd (topo_parse_irq_info fs d)) < 3"
    by (simp_all add: topo_parse_irq_info_def Let_def split: prod.splits)
  then show ?case
    using Cons by (fastforce simp: Let_def split: if_splits prod.splits)
qed simp

section \<open>What can be described\<close>

definition describable :: "env \<Rightarrow> wayca_topo \<Rightarrow> bool" where
  "describable e t \<longleftrightarrow> settled e t \<and> 0 < n_cpus t \<and> nodes t \<noteq> [] \<and> packages t \<noteq> [] \<and> n_packages t < 2 ^ 31
     \<and> length (cpu_array t) = n_cpus t
     \<and> (\<exists>c. uniform_cores t c) \<and> (ccls t = [] \<or> (\<exists>c. uniform_ccls t c))
     \<and> (\<forall>p \<in> set (packages t). 0 \<le> physical_package_id p \<and> fits (n_nodes t) (numa_map p))
     \<and> (\<forall>n \<in> set (nodes t). p_meminfo n \<noteq> None \<and> fits (n_cpus t) (node_cpu_map n)
          \<and> fits (n_cores t) (node_core_map n) \<and> fits (n_clusters t) (node_cluster_map n))
     \<and> (\<forall>c \<in> set (ccls t). 0 \<le> cluster_id c \<and> fits (n_cores t) (ccl_core_map c))
     \<and> (\<forall>c \<in> set (cores t). 0 \<le> core_id c \<and> core_cpus_map c \<noteq> None \<and> fits (n_cpus t) (the (core_cpus_map c)))"

text \<open>No function of libxml2 runs out of memory.\<close>

definition reliable :: "('x, 'n, 'd) libxml \<Rightarrow> ('x \<Rightarrow> bool) \<Rightarrow> bool" where
  "reliable L W \<longleftrightarrow> (\<forall>x n nm. W x \<and> xml_valid L x n \<longrightarrow> fst (xmlNewChild L x n nm) \<noteq> None)
     \<and> (\<forall>x n k v. W x \<and> xml_valid L x n \<longrightarrow> fst (xmlNewProp L x n k v))
     \<and> (\<forall>x. fst (xmlNewDoc L x) \<noteq> None) \<and> (\<forall>x nm. fst (xmlNewNode L x nm) \<noteq> None)"

lemma reliable_prop:
  assumes "reliable L W" "W x" "xml_valid L x n"
  obtains x' where "xmlNewProp L x n k v = (True, x')"
proof -
  have "fst (xmlNewProp L x n k v)" using assms by (simp add: reliable_def)
  then show thesis using that by (cases "xmlNewProp L x n k v") simp
qed

lemma reliable_child:
  assumes "reliable L W" "W x" "xml_valid L x n"
  obtains c x' where "xmlNewChild L x n nm = (Some c, x')"
proof -
  have "fst (xmlNewChild L x n nm) \<noteq> None" using assms by (simp add: reliable_def)
  then show thesis using that by (cases "xmlNewChild L x n nm") auto
qed

lemma reliable_doc:
  assumes "reliable L W"
  obtains d x1 r x2 where "xmlNewDoc L x = (Some d, x1)" "xmlNewNode L x1 nm = (Some r, x2)"
proof -
  obtain d x1 where d: "xmlNewDoc L x = (d, x1)" by fastforce
  obtain r x2 where r: "xmlNewNode L x1 nm = (r, x2)" by fastforce
  have "fst (xmlNewDoc L x) \<noteq> None" "fst (xmlNewNode L x1 nm) \<noteq> None"
    using assms by (simp_all add: reliable_def)
  then show thesis using that d r by auto
qed

definition good :: "wayca_topo \<Rightarrow> wayca_irq list \<Rightarrow> topo_env \<Rightarrow> bool" where
  "good t qs q \<longleftrightarrow> tt q = t \<and> (te_irqs q = None \<or> te_irqs q = Some qs)"

fun item_ok :: "bool \<Rightarrow> wayca_topo \<Rightarrow> wayca_irq list \<Rightarrow> item \<Rightarrow> bool" where
  "item_ok irq t qs (I_pkg i) \<longleftrightarrow> i < n_packages t"
| "item_ok irq t qs (I_numa i) \<longleftrightarrow> i < n_nodes t"
| "item_ok irq t qs (I_ccl i) \<longleftrightarrow> i < n_clusters t"
| "item_ok irq t qs (I_core i) \<longleftrightarrow> i < n_cores t"
| "item_ok irq t qs (I_cpu i) \<longleftrightarrow> i < n_cpus t"
| "item_ok irq t qs I_intr \<longleftrightarrow> irq"
| "item_ok irq t qs (I_irq n) \<longleftrightarrow> irq \<and> n \<in> irq_number ` set qs"
| "item_ok irq t qs (I_pci nm) \<longleftrightarrow> (\<exists>d. find_device nm (nodes t) = Some (PCI_info d))"
| "item_ok irq t qs (I_smmu nm) \<longleftrightarrow> (\<exists>d. find_device nm (nodes t) = Some (SMMU_info d))"
| "item_ok irq t qs I_sys \<longleftrightarrow> True"

lemma find_device_listed:
  assumes "n \<in> set ns" "nm \<in> set (node_devices n)"
  shows "find_device nm ns \<noteq> None"
  using assms
proof (induction ns)
  case (Cons m ns)
  show ?case
  proof (cases "n = m")
    case True
    then show ?thesis
      using Cons.prems(2) by (auto simp: node_devices_def find_None_iff split: option.splits)
  next
    case False
    then show ?thesis using Cons by (auto split: option.splits)
  qed
qed simp

lemma item_kids_ok:
  assumes "item_ok irq t qs it" "k \<in> set (item_kids irq dev t qs it)"
  shows "item_ok irq t qs k"
proof -
  have "item_ok irq t qs (dev_item t nm)" if "nm \<in> set (node_devices (nodes t ! i))" "i < n_nodes t" for nm i
    using find_device_listed [of "nodes t ! i" "nodes t" nm] that
    by (auto simp: dev_item_def split: option.splits device_info.splits)
  then show ?thesis
    using assms by (cases it) (auto simp: members_def split: if_splits)
qed

section \<open>The functions for one element\<close>

locale topo_doc = libxml_laws "info_lib C" wf sub
  for C :: "('x, 'n, 'd) info_ctx" and wf :: "'x \<Rightarrow> bool" and sub :: "'x \<Rightarrow> 'n \<Rightarrow> 'n list" +
  fixes t :: wayca_topo and qs :: "wayca_irq list"
  assumes reliable: "reliable (info_lib C) wf"
    and describable: "describable (info_env C) t"
    and irqs: "output_irq C \<Longrightarrow> irqs_read (info_env C) qs"
    and calloc: "can_calloc C k"
begin

text \<open>\<open>r\<close> is the result of a function that succeeds and adds \<open>pm\<close> and \<open>cs\<close> to the node \<open>n\<close>.\<close>

definition does :: "'x info_state \<Rightarrow> 'n \<Rightarrow> (int \<times> 'x info_state) option \<Rightarrow> (string \<Rightarrow> string option)
    \<Rightarrow> (string \<times> (string \<Rightarrow> string option)) list \<Rightarrow> bool" where
  "does s n r pm cs \<longleftrightarrow> (\<exists>s' ids. r = Some (0, s') \<and> good t qs (info_query s')
     \<and> grows (info_lib C) wf sub (info_xml s) n (info_xml s') pm ids cs)"

text \<open>The states in which a node can be extended.\<close>

definition ready :: "'x info_state \<Rightarrow> 'n \<Rightarrow> (string \<Rightarrow> string option) \<Rightarrow> bool" where
  "ready s n ps \<longleftrightarrow> good t qs (info_query s) \<and> wf (info_xml s) \<and> xml_valid (info_lib C) (info_xml s) n
     \<and> xmlGetProp (info_lib C) (info_xml s) n = ps"

lemma does_0: "ready s n ps \<Longrightarrow> does s n (Some (0, s)) Map.empty []"
  using grows_refl by (auto simp: does_def ready_def)

lemma does_then0:
  assumes "does s n r pm cs" "ready s n ps" "\<And>s'. ready s' n (ps ++ pm) \<Longrightarrow> does s' n (f s') pm' cs'"
  shows "does s n (then0 r f) (pm ++ pm') (cs @ cs')"
proof -
  obtain s' ids where s': "r = Some (0, s')" "good t qs (info_query s')"
      and g: "grows (info_lib C) wf sub (info_xml s) n (info_xml s') pm ids cs"
    using assms(1) by (auto simp: does_def)
  have "xml_valid (info_lib C) (info_xml s') n"
    using keepsD(1) [OF grows_keeps [OF g]] assms(2) by (simp add: ready_def)
  then have "ready s' n (ps ++ pm)"
    using g s' assms(2) by (simp add: ready_def grows_def)
  then obtain s2 ids2 where "f s' = Some (0, s2)" "good t qs (info_query s2)"
      "grows (info_lib C) wf sub (info_xml s') n (info_xml s2) pm' ids2 cs'"
    using assms(3) unfolding does_def by blast
  then show ?thesis
    using s' grows_trans [OF g] by (simp add: does_def then0_def) blast
qed

lemma does_query: "does s' n r pm cs \<Longrightarrow> info_xml s' = info_xml s \<Longrightarrow> does s n r pm cs"
  by (simp add: does_def)

lemma does_new_prop:
  assumes "ready s n ps" "ps k = None"
  shows "does s n (new_prop C n k v s) [k \<mapsto> v] []"
proof -
  obtain x' where x': "xmlNewProp (info_lib C) (info_xml s) n k v = (True, x')"
    using reliable_prop [OF reliable] assms(1) unfolding ready_def by blast
  then show ?thesis
    using grows_prop [OF _ _ _ x'] assms by (auto simp: does_def new_prop_def ready_def)
qed

text \<open>A new child, and attributes for it.\<close>

lemma new_child_leaf:
  assumes "ready s n ps"
  obtains c x' where "xmlNewChild (info_lib C) (info_xml s) n nm = (Some c, x')"
    "grows (info_lib C) wf sub (info_xml s) n x' Map.empty [c] [(nm, Map.empty)]" "node_name (info_lib C) x' c = nm"
proof -
  obtain c x' where x': "xmlNewChild (info_lib C) (info_xml s) n nm = (Some c, x')"
    using reliable_child [OF reliable] assms unfolding ready_def by blast
  have g: "grows (info_lib C) wf sub (info_xml s) n x' Map.empty [c] [(nm, Map.empty)]"
    using grows_child [OF _ _ x'] assms by (simp add: ready_def)
  then show thesis
    using that [OF x' g] by (simp add: grows_def leaf_def)
qed

lemma child_prop:
  assumes "grows (info_lib C) wf sub x n x1 Map.empty [c] [(nm, ps)]" "ps k = None" "info_xml s = x1"
  obtains x2 where "new_prop C c k v s = Some (0, s\<lparr>info_xml := x2\<rparr>)"
    "grows (info_lib C) wf sub x n x2 Map.empty [c] [(nm, ps(k \<mapsto> v))]"
proof -
  have "wf x1" "xml_valid (info_lib C) x1 c"
    using assms(1) by (simp_all add: grows_def)
  then obtain x2 where x2: "xmlNewProp (info_lib C) x1 c k v = (True, x2)"
    using reliable_prop [OF reliable] by blast
  then show thesis
    using that [OF _ grows_child_prop [OF assms(1,2) x2]] assms(3) by (simp add: new_prop_def)
qed

lemma does_each0:
  assumes "ready s n ps" "\<And>a s. a \<in> set as \<Longrightarrow> ready s n ps \<Longrightarrow> does s n (f a s) Map.empty (cs a)"
  shows "does s n (each0 f as s) Map.empty (concat (map cs as))"
  using assms
proof (induction as arbitrary: s)
  case Nil
  then show ?case using does_0 by simp
next
  case (Cons a as)
  have "does s n (then0 (f a s) (each0 f as)) (Map.empty ++ Map.empty) (cs a @ concat (map cs as))"
    by (rule does_then0 [OF _ Cons.prems(1)]) (use Cons in auto)
  then show ?case by simp
qed

lemma decimal_int_nat [simp]: "decimal_int (int i) = decimal i"
  by (simp add: decimal_int_def)

lemma indexed_child:
  assumes r: "ready s n ps" and nm: "find_topo_elem nm = Some (True, l)"
    and p: "p = (if nm = ''Cluster'' then wayca_sc_get_physical_id (info_query s) ''cluster'' i
      else if nm = ''Package'' then wayca_sc_get_physical_id (info_query s) ''package'' i
      else if nm = ''Core'' then wayca_sc_get_physical_id (info_query s) ''core'' i else i)" "0 \<le> p"
  shows "does s n (topo_build_single_elem C n i nm s) Map.empty [(nm, [''index'' \<mapsto> decimal_int i, ''p_index'' \<mapsto> decimal_int p])]"
proof -
  obtain c x1 where c: "xmlNewChild (info_lib C) (info_xml s) n nm = (Some c, x1)"
      and g1: "grows (info_lib C) wf sub (info_xml s) n x1 Map.empty [c] [(nm, Map.empty)]" "node_name (info_lib C) x1 c = nm"
    using new_child_leaf [OF r] by blast
  obtain x2 where x2: "new_prop C c ''index'' (decimal_int i) (s\<lparr>info_xml := x1\<rparr>) = Some (0, s\<lparr>info_xml := x2\<rparr>)"
      and g2: "grows (info_lib C) wf sub (info_xml s) n x2 Map.empty [c] [(nm, [''index'' \<mapsto> decimal_int i])]"
    using child_prop [OF g1(1), where k = "''index''" and s = "s\<lparr>info_xml := x1\<rparr>"] by auto
  obtain x3 where x3: "new_prop C c ''p_index'' (decimal_int p) (s\<lparr>info_xml := x2\<rparr>) = Some (0, s\<lparr>info_xml := x3\<rparr>)"
      and g3: "grows (info_lib C) wf sub (info_xml s) n x3 Map.empty [c] [(nm, [''index'' \<mapsto> decimal_int i, ''p_index'' \<mapsto> decimal_int p])]"
    using child_prop [OF g2, where k = "''p_index''" and s = "s\<lparr>info_xml := x2\<rparr>"] by auto
  have "topo_build_single_elem C n i nm s = Some (0, s\<lparr>info_xml := x3\<rparr>)"
    using p x2 x3 by (auto simp: topo_build_single_elem_def c g1 nm then0_def build_prop_index_def Let_def split: if_splits)
  then show ?thesis
    using r g3 by (auto simp: does_def ready_def)
qed

lemma find_topo_elem_known [simp]:
  "find_topo_elem ''System'' = Some (False, TOPO_SYS)" "find_topo_elem ''Package'' = Some (True, TOPO_PKG)"
  "find_topo_elem ''NUMANode'' = Some (True, TOPO_NUMA)" "find_topo_elem ''Cluster'' = Some (True, TOPO_CCL)"
  "find_topo_elem ''Core'' = Some (True, TOPO_CORE)" "find_topo_elem ''CPU'' = Some (True, TOPO_CPU)"
  "find_topo_elem ''Interrupt'' = Some (False, TOPO_INTR)" "find_topo_elem ''IRQ'' = Some (False, TOPO_IRQ)"
  "find_topo_elem ''PCIDEV'' = Some (False, TOPO_PCIDEV)" "find_topo_elem ''SMMUDEV'' = Some (False, TOPO_SMMUDEV)"
  by (simp_all add: find_topo_elem_def topo_elem_def)

lemma single_elem:
  assumes "ready s n ps" "item_ok (output_irq C) t qs it" "it \<in> {I_pkg i, I_numa i, I_ccl i, I_core i, I_cpu i}"
  shows "does s n (topo_build_single_elem C n (int i) (fst (item_leaf t it)) s) Map.empty [item_leaf t it]"
proof -
  have q: "tt (info_query s) = t" using assms(1) by (simp add: ready_def good_def)
  have "packages t ! i \<in> set (packages t)" if "i < n_packages t" using that by simp
  then have "0 \<le> physical_package_id (packages t ! i)" if "i < n_packages t"
    using describable that by (simp add: describable_def)
  moreover have "0 \<le> cluster_id (ccls t ! i)" if "i < n_clusters t"
    using describable nth_mem [OF that] by (simp add: describable_def)
  moreover have "0 \<le> core_id (cores t ! i)" if "i < n_cores t"
    using describable nth_mem [OF that] by (simp add: describable_def)
  ultimately show ?thesis
    using assms indexed_child [OF assms(1), of "''Package''" TOPO_PKG _ "int i"]
      indexed_child [OF assms(1), of "''NUMANode''" TOPO_NUMA _ "int i"]
      indexed_child [OF assms(1), of "''Cluster''" TOPO_CCL _ "int i"]
      indexed_child [OF assms(1), of "''Core''" TOPO_CORE _ "int i"]
      indexed_child [OF assms(1), of "''CPU''" TOPO_CPU _ "int i"]
    by (elim insertE) (simp_all add: wayca_sc_get_physical_id_def q topo_is_valid_package_def topo_is_valid_ccl_def
        topo_is_valid_core_def)
qed

lemma interrupt_elem:
  assumes "ready s n ps"
  shows "does s n (topo_build_single_elem C n 0 ''Interrupt'' s) Map.empty [item_leaf t I_intr]"
proof -
  obtain c x1 where "xmlNewChild (info_lib C) (info_xml s) n ''Interrupt'' = (Some c, x1)"
      "grows (info_lib C) wf sub (info_xml s) n x1 Map.empty [c] [(''Interrupt'', Map.empty)]"
      "node_name (info_lib C) x1 c = ''Interrupt''"
    using new_child_leaf [OF assms] by blast
  then show ?thesis
    using assms by (auto simp: topo_build_single_elem_def does_def ready_def Let_def)
qed

lemma members_int: "[0..int k - 1] = map int [0..<k]"
  by (induction k) (simp_all add: upto_rec2)

lemma next_elem:
  assumes r: "ready s n ps" and fits: "fits k m" and nm: "\<And>i. fst (item_leaf t (con i)) = nm"
    and ok: "\<And>i. i < k \<Longrightarrow> item_ok (output_irq C) t qs (con i)" and con: "con \<in> {I_numa, I_ccl, I_core, I_cpu}"
  shows "does s n (topo_build_next_elem C n (padded k m) (int k) nm s) Map.empty
    (map (item_leaf t) (map con (members m k)))"
proof -
  let ?f = "\<lambda>i s. if \<not> CPU_ISSET i (padded k m) then Some (0, s) else topo_build_single_elem C n i nm s"
  let ?cs = "\<lambda>i. if CPU_ISSET i m then [item_leaf t (con (nat i))] else []"
  have one: "does s n (?f i s) Map.empty (?cs i)" if i: "i \<in> set (map int [0..<k])" and r: "ready s n ps" for i s
  proof -
    obtain j where j: "i = int j" "j < k" using i by auto
    show ?thesis
      using does_0 [OF r] single_elem [OF r ok [OF j(2)], of j] con nm [of j] padded_isset [OF fits j(2)]
      by (auto simp: j(1))
  qed
  have "does s n (each0 ?f (map int [0..<k]) s) Map.empty (concat (map ?cs (map int [0..<k])))"
    using r one by (rule does_each0)
  moreover have "concat (map ?cs (map int is)) = map (item_leaf t) (map con (filter (\<lambda>i. CPU_ISSET (int i) m) is))" for "is"
    by (induction "is") auto
  ultimately show ?thesis
    by (simp add: topo_build_next_elem_def members_int members_def)
qed

lemma with_mask_eq: "q (info_query s) i sizeof_cpu_set True = Some (0, Some m, info_query s) \<Longrightarrow> with_mask q i s f = f m s"
  by (simp add: with_mask_def)

lemma get_index:
  assumes "ready s n ps" "ps ''index'' = Some (decimal i)" "i < 2 ^ 31"
  shows "get_index_from_prop C n s = Some (Inr (int i))"
proof -
  have "strtol (decimal i) = (int i, [], 0)"
    using assms(3) scan_number_decimal [of "[]" i] by (simp add: strtol_def stops_def)
  moreover have "to_int (int i) = int i"
    using assms(3) by (simp add: to_int_def sint_uint uint_nat unat_of_nat signed_take_bit_int_eq_self)
  ultimately show ?thesis
    using assms not_sym [OF decimal_ne [of i]] by (simp add: get_index_from_prop_def ready_def)
qed

text \<open>The promise of the function for an element.\<close>

abbreviation builds :: "('n \<Rightarrow> 'x info_state \<Rightarrow> (int \<times> 'x info_state) option) \<Rightarrow> item \<Rightarrow> 'n \<Rightarrow> 'x info_state \<Rightarrow> bool" where
  "builds f it n s \<equiv> does s n (f n s) (item_attrs t qs it)
     (map (item_leaf t) (item_kids (output_irq C) (output_dev C) t qs it))"

abbreviation okay :: "item \<Rightarrow> bool" where "okay \<equiv> item_ok (output_irq C) t qs"

lemma ready_tt: "ready s n ps \<Longrightarrow> tt (info_query s) = t"
  by (simp add: ready_def good_def)

lemma topo_counts:
  assumes "ready s n ps"
  shows "wayca_sc_cpus_in_total (te (info_query s)) = int (n_cpus t)"
    "wayca_sc_nodes_in_total (te (info_query s)) = int (n_nodes t)"
    "wayca_sc_packages_in_total (te (info_query s)) = int (n_packages t)"
  using describable ready_tt [OF assms]
  by (auto simp: describable_def wayca_sc_cpus_in_total_def wayca_sc_nodes_in_total_def wayca_sc_packages_in_total_def
      Suc_le_eq)

lemma settled: "settled (info_env C) t"
  using describable by (simp add: describable_def)

lemma system_builds:
  assumes "ready s n ps"
  shows "builds (system_elem_build C) I_sys n s"
proof -
  let ?f = "\<lambda>i. topo_build_single_elem C n i ''Package''"
  have one: "does s n (?f i s) Map.empty [item_leaf t (I_pkg (nat i))]"
    if i: "i \<in> set (map int [0..<n_packages t])" and r: "ready s n ps" for i s
  proof -
    obtain j where j: "i = int j" "j < n_packages t" using i by auto
    show ?thesis using single_elem [OF r, of "I_pkg j" j] j by simp
  qed
  have pk: "does s n (each0 ?f (map int [0..<n_packages t]) s) Map.empty
      (concat (map (\<lambda>i. [item_leaf t (I_pkg (nat i))]) (map int [0..<n_packages t])))"
    using assms one by (rule does_each0)
  have "does s n (then0 (each0 ?f (map int [0..<n_packages t]) s) (\<lambda>s.
        if \<not> output_irq C then Some (0, s) else topo_build_single_elem C n 0 ''Interrupt'' s))
      (Map.empty ++ Map.empty) (concat (map (\<lambda>i. [item_leaf t (I_pkg (nat i))]) (map int [0..<n_packages t]))
        @ (if output_irq C then [item_leaf t I_intr] else []))"
    by (rule does_then0 [OF pk assms]) (use does_0 interrupt_elem in auto)
  then show ?thesis
    by (cases "output_irq C") (simp_all add: system_elem_build_def topo_counts [OF assms] members_int comp_def)
qed

lemma package_builds:
  assumes r: "ready s n (snd (item_leaf t (I_pkg i)))" and ok: "okay (I_pkg i)"
  shows "builds (package_elem_build C) (I_pkg i) n s"
proof -
  have i: "i < n_packages t" "i < 2 ^ 31"
    using ok describable by (auto simp: describable_def)
  have fits: "fits (n_nodes t) (numa_map (packages t ! i))"
    using describable i by (simp add: describable_def)
  have "wayca_sc_package_node_mask (info_env C) (info_query s) (int i) sizeof_cpu_set True
      = Some (0, Some (padded (n_nodes t) (numa_map (packages t ! i))), info_query s)"
    unfolding wayca_sc_package_node_mask_def
    by (rule obj_mask_settled [OF settled ready_tt [OF r]]) (use i fits in \<open>auto simp: topo_is_valid_package_def\<close>)
  then show ?thesis
    using next_elem [OF r fits, of I_numa "''NUMANode''"] topo_counts [OF r] i
    by (simp add: package_elem_build_def get_index [OF r] with_mask_eq)
qed

lemma count_cores:
  assumes "ready s n ps"
  obtains s' where "count_with wayca_sc_cores_in_total s = (int (n_cores t), s')" "ready s' n ps" "info_xml s' = info_xml s"
proof -
  obtain c where "uniform_cores (topo (te (info_query s))) c"
    using describable ready_tt [OF assms] by (auto simp: describable_def)
  from cores_in_total_uniform [OF this] show thesis
    using that [of "s\<lparr>info_query := (info_query s)\<lparr>te := (te (info_query s))\<lparr>max_cores := n_cores t\<rparr>\<rparr>\<rparr>"] assms
    by (simp add: count_with_def ready_def good_def)
qed

lemma count_ccls:
  assumes "ready s n ps" "ccls t \<noteq> []"
  obtains s' where "count_with wayca_sc_ccls_in_total s = (int (n_clusters t), s')" "ready s' n ps" "info_xml s' = info_xml s"
proof -
  obtain c where "uniform_ccls (topo (te (info_query s))) c"
    using describable assms(2) ready_tt [OF assms(1)] by (auto simp: describable_def)
  from ccls_in_total_uniform [OF this] show thesis
    using that [of "s\<lparr>info_query := (info_query s)\<lparr>te := (te (info_query s))\<lparr>max_ccls := n_clusters t\<rparr>\<rparr>\<rparr>"] assms
    by (simp add: count_with_def ready_def good_def)
qed

lemma count_no_ccls:
  assumes "ready s n ps" "ccls t = []"
  shows "count_with wayca_sc_ccls_in_total s = (- ENODATA, s)"
  using assms(2) ready_tt [OF assms(1)] by (simp add: count_with_def wayca_sc_ccls_in_total_def)

lemma fits_at:
  shows "i < n_nodes t \<Longrightarrow> fits (n_cpus t) (node_cpu_map (nodes t ! i)) \<and> fits (n_cores t) (node_core_map (nodes t ! i))
      \<and> fits (n_clusters t) (node_cluster_map (nodes t ! i)) \<and> p_meminfo (nodes t ! i) \<noteq> None"
    and "i < n_clusters t \<Longrightarrow> fits (n_cores t) (ccl_core_map (ccls t ! i))"
    and "i < n_cores t \<Longrightarrow> fits (n_cpus t) (core_map t i) \<and> core_cpus_map (cores t ! i) = Some (core_map t i)"
    and "n_nodes t \<le> 1024" "n_cores t \<le> 1024" "n_clusters t \<le> 1024"
proof -
  show nd: "i < n_nodes t \<Longrightarrow> fits (n_cpus t) (node_cpu_map (nodes t ! i)) \<and> fits (n_cores t) (node_core_map (nodes t ! i))
      \<and> fits (n_clusters t) (node_cluster_map (nodes t ! i)) \<and> p_meminfo (nodes t ! i) \<noteq> None" for i
    using describable nth_mem [of i "nodes t"] by (simp add: describable_def)
  show "i < n_clusters t \<Longrightarrow> fits (n_cores t) (ccl_core_map (ccls t ! i))"
    using describable nth_mem [of i "ccls t"] by (simp add: describable_def)
  show "i < n_cores t \<Longrightarrow> fits (n_cpus t) (core_map t i) \<and> core_cpus_map (cores t ! i) = Some (core_map t i)"
    using describable nth_mem [of i "cores t"] by (auto simp: describable_def core_map_def)
  have "nodes t \<noteq> []" "packages t \<noteq> []" using describable by (simp_all add: describable_def)
  then have "fits (n_nodes t) (numa_map (packages t ! 0))" "0 < n_nodes t"
    using describable nth_mem [of 0 "packages t"] by (auto simp: describable_def)
  then show "n_nodes t \<le> 1024" "n_cores t \<le> 1024" "n_clusters t \<le> 1024"
    using nd [of 0] by (auto simp: fits_def)
qed

lemma ccl_builds:
  assumes r: "ready s n (snd (item_leaf t (I_ccl i)))" and ok: "okay (I_ccl i)"
  shows "builds (ccl_elem_build C) (I_ccl i) n s"
proof -
  have i: "i < n_clusters t" "i < 2 ^ 31" and fits: "fits (n_cores t) (ccl_core_map (ccls t ! i))"
    using ok fits_at(2,6) by auto
  have m: "wayca_sc_ccl_core_mask (info_env C) (info_query s) (int i) sizeof_cpu_set True
      = Some (0, Some (padded (n_cores t) (ccl_core_map (ccls t ! i))), info_query s)"
    unfolding wayca_sc_ccl_core_mask_def
    by (rule obj_mask_settled [OF settled ready_tt [OF r]]) (use i fits in \<open>auto simp: topo_is_valid_ccl_def\<close>)
  obtain s' where s': "count_with wayca_sc_cores_in_total s = (int (n_cores t), s')"
      "ready s' n (snd (item_leaf t (I_ccl i)))" "info_xml s' = info_xml s"
    using count_cores [OF r] by blast
  have "ccl_elem_build C n s = topo_build_next_elem C n (padded (n_cores t) (ccl_core_map (ccls t ! i))) (int (n_cores t)) ''Core'' s'"
    using i by (simp add: ccl_elem_build_def get_index [OF r] with_mask_def m s'(1))
  then show ?thesis
    using does_query [OF next_elem [OF s'(2) fits, of I_core "''Core''"] s'(3)] by simp
qed

lemma does_cache_prop:
  assumes "ready s n ps" "ps k = None" "get (info_env C) (info_query s) c = Some (z, info_query s)"
  shows "does s n (cache_prop C get k n c s) [k \<mapsto> kb z] []"
  using does_new_prop [OF assms(1,2)] assms(3) by (simp add: cache_prop_def kb_def)

lemma cache_sizes:
  assumes "ready s n ps"
  shows "wayca_sc_get_l1i_size (info_env C) (info_query s) c = Some (cache_kb 1 ''Instruction'' t c, info_query s)"
    "wayca_sc_get_l1d_size (info_env C) (info_query s) c = Some (cache_kb 1 ''Data'' t c, info_query s)"
    "wayca_sc_get_l2_size (info_env C) (info_query s) c = Some (cache_kb 2 ''Unified'' t c, info_query s)"
    "wayca_sc_get_l3_size (info_env C) (info_query s) c = Some (cache_kb 3 ''Unified'' t c, info_query s)"
proof -
  have "length (cpu_array t) = n_cpus t" using describable by (simp add: describable_def)
  note * = get_cache_size_settled [OF settled ready_tt [OF assms] this]
  show "wayca_sc_get_l1i_size (info_env C) (info_query s) c = Some (cache_kb 1 ''Instruction'' t c, info_query s)"
    "wayca_sc_get_l1d_size (info_env C) (info_query s) c = Some (cache_kb 1 ''Data'' t c, info_query s)"
    "wayca_sc_get_l2_size (info_env C) (info_query s) c = Some (cache_kb 2 ''Unified'' t c, info_query s)"
    "wayca_sc_get_l3_size (info_env C) (info_query s) c = Some (cache_kb 3 ''Unified'' t c, info_query s)"
    by (simp_all add: * wayca_sc_get_l1i_size_def wayca_sc_get_l1d_size_def wayca_sc_get_l2_size_def wayca_sc_get_l3_size_def)
qed

text \<open>Chains of new attributes.\<close>

lemma does_prop_then:
  assumes "ready s n ps" "ps k = None" "\<And>s'. ready s' n (ps(k \<mapsto> v)) \<Longrightarrow> does s' n (f s') pm cs"
  shows "does s n (then0 (new_prop C n k v s) f) ([k \<mapsto> v] ++ pm) cs"
  using does_then0 [OF does_new_prop [OF assms(1,2)] assms(1), of v f pm cs] assms(3) by simp

lemma does_cache_then:
  assumes "ready s n ps" "ps k = None" "get (info_env C) (info_query s) c = Some (z, info_query s)"
    and "\<And>s'. ready s' n (ps(k \<mapsto> kb z)) \<Longrightarrow> does s' n (f s') pm cs"
  shows "does s n (then0 (cache_prop C get k n c s) f) ([k \<mapsto> kb z] ++ pm) cs"
proof -
  have "does s n (cache_prop C get k n c s) [k \<mapsto> kb z] []"
    by (rule does_cache_prop) (rule assms)+
  from does_then0 [OF this assms(1), of f pm cs] show ?thesis using assms(4) by simp
qed

lemma core_props:
  assumes r: "ready s n ps" and k: "ps ''L1i_cache'' = None" "ps ''L1d_cache'' = None" "ps ''L2_cache'' = None"
  shows "does s n (core_prop_build C n c s) ([''L1i_cache'' \<mapsto> kb (cache_kb 1 ''Instruction'' t c)]
      ++ ([''L1d_cache'' \<mapsto> kb (cache_kb 1 ''Data'' t c)] ++ [''L2_cache'' \<mapsto> kb (cache_kb 2 ''Unified'' t c)])) []"
  unfolding core_prop_build_def
proof (rule does_cache_then [OF r k(1)])
  show "wayca_sc_get_l1i_size (info_env C) (info_query s) c = Some (cache_kb 1 ''Instruction'' t c, info_query s)"
    by (rule cache_sizes [OF r])
next
  fix s1 assume r1: "ready s1 n (ps(''L1i_cache'' \<mapsto> kb (cache_kb 1 ''Instruction'' t c)))"
  show "does s1 n (then0 (cache_prop C wayca_sc_get_l1d_size ''L1d_cache'' n c s1) (cache_prop C wayca_sc_get_l2_size ''L2_cache'' n c))
     ([''L1d_cache'' \<mapsto> kb (cache_kb 1 ''Data'' t c)] ++ [''L2_cache'' \<mapsto> kb (cache_kb 2 ''Unified'' t c)]) []"
    by (rule does_cache_then [OF r1]) (use k r1 in \<open>auto intro: does_cache_prop simp: cache_sizes\<close>)
qed

lemma first_member: "int (length (takeWhile (\<lambda>i. \<not> P i) [a..<b])) + int a
    = (case filter P [a..<b] of [] \<Rightarrow> int (max a b) | c # _ \<Rightarrow> int c)"
proof (induction "b - a" arbitrary: a)
  case (Suc k)
  then have "[a..<b] = a # [Suc a..<b]" "k = b - Suc a" "a < b" by (simp_all add: upt_conv_Cons)
  then show ?case using Suc(1) [of "Suc a"] by (auto split: list.splits)
qed simp

lemma first_cpu_core:
  assumes "fits (n_cpus t) (core_map t i)"
  shows "first_cpu (padded (n_cpus t) (core_map t i)) (int (n_cpus t)) = core_first t i"
proof -
  have "takeWhile (\<lambda>j. \<not> CPU_ISSET j (padded (n_cpus t) (core_map t i))) (map int [0..<n_cpus t])
      = map int (takeWhile (\<lambda>j. \<not> CPU_ISSET (int j) (core_map t i)) [0..<n_cpus t])"
    unfolding takeWhile_map comp_def
    by (rule arg_cong [where f = "map int"], rule takeWhile_cong) (auto simp: padded_isset [OF assms])
  then show ?thesis
    using first_member [of "\<lambda>j. CPU_ISSET (int j) (core_map t i)" 0 "n_cpus t"]
    by (simp add: first_cpu_def members_int core_first_def members_def)
qed

lemma core_builds:
  assumes r: "ready s n (snd (item_leaf t (I_core i)))" and ok: "okay (I_core i)"
  shows "builds (core_elem_build C) (I_core i) n s"
proof -
  have i: "i < n_cores t" "i < 2 ^ 31" and c: "fits (n_cpus t) (core_map t i)" "core_cpus_map (cores t ! i) = Some (core_map t i)"
    using ok fits_at(3,5) by auto
  have "wayca_sc_core_cpu_mask (info_env C) (info_query s) (int i) sizeof_cpu_set True
      = obj_mask topo_is_valid_core n_cpus (\<lambda>t i. do { c \<leftarrow> rd (cores t) i; core_cpus_map c }) (info_env C) (info_query s)
          (int i) sizeof_cpu_set True"
    by (simp add: wayca_sc_core_cpu_mask_def obj_mask_def Option.bind_assoc cong: if_cong)
  also have "\<dots> = Some (0, Some (padded (n_cpus t) (core_map t i)), info_query s)"
    by (rule obj_mask_settled [OF settled ready_tt [OF r]]) (use i c in \<open>auto simp: topo_is_valid_core_def\<close>)
  finally have m: "wayca_sc_core_cpu_mask (info_env C) (info_query s) (int i) sizeof_cpu_set True
      = Some (0, Some (padded (n_cpus t) (core_map t i)), info_query s)" .
  let ?ps = "[''L1i_cache'' \<mapsto> kb (cache_kb 1 ''Instruction'' t (core_first t i))]
      ++ ([''L1d_cache'' \<mapsto> kb (cache_kb 1 ''Data'' t (core_first t i))] ++ [''L2_cache'' \<mapsto> kb (cache_kb 2 ''Unified'' t (core_first t i))])"
  have "does s n (core_prop_build C n (core_first t i) s) ?ps []"
    by (rule core_props [OF r]) simp_all
  then have "does s n (then0 (core_prop_build C n (core_first t i) s) (topo_build_next_elem C n (padded (n_cpus t) (core_map t i)) (int (n_cpus t)) ''CPU''))
      (?ps ++ Map.empty) ([] @ map (item_leaf t) (map I_cpu (members (core_map t i) (n_cpus t))))"
    by (rule does_then0 [OF _ r]) (rule next_elem [OF _ c(1)], auto)
  then show ?thesis
    using i c by (simp add: core_elem_build_def get_index [OF r] with_mask_def m topo_counts [OF r] first_cpu_core Let_def)
qed

lemma node_l3_settled:
  assumes r: "ready s n ps" and fits: "fits k m" and sub: "set is \<subseteq> {..<k}"
  shows "node_l3 (info_env C) (padded k m) (map int is) z (info_query s)
    = Some (l3_kb t (filter (\<lambda>i. CPU_ISSET (int i) m) is) z, info_query s)"
  using sub
proof (induction "is" arbitrary: z)
  case (Cons i "is")
  then show ?case
    using padded_isset [OF fits, of i] by (simp add: cache_sizes [OF r] Let_def)
qed simp

lemma numa_props:
  assumes r: "ready s n ps" and i: "i < n_nodes t" and k: "ps ''mem_size'' = None" "ps ''L3_cache'' = None"
  shows "does s n (numa_prop_build C n (int i) s) (item_attrs t qs (I_numa i)) []"
proof -
  obtain mem where mem: "p_meminfo (nodes t ! i) = Some mem" and fits: "fits (n_cpus t) (node_cpu_map (nodes t ! i))"
    using fits_at(1) [OF i] by auto
  have q: "wayca_sc_get_node_mem_size (info_query s) (int i) True = Some (0, Some mem)"
    using i mem by (simp add: wayca_sc_get_node_mem_size_def ready_tt [OF r] topo_is_valid_node_def)
  let ?m = "padded (n_cpus t) (node_cpu_map (nodes t ! i))"
  let ?l3 = "l3_kb t (members (node_cpu_map (nodes t ! i)) (n_cpus t)) (- 1)"
  have "does s n (numa_prop_build C n (int i) s) ([''mem_size'' \<mapsto> content (decimal (unat mem) @ ''KB'')] ++ [''L3_cache'' \<mapsto> kb ?l3]) []"
    unfolding numa_prop_build_def q option.case prod.case simp_thms if_False
  proof (rule does_prop_then [OF r k(1)])
    fix s1 assume r1: "ready s1 n (ps(''mem_size'' \<mapsto> content (decimal (unat mem) @ ''KB'')))"
    have m: "wayca_sc_node_cpu_mask (info_env C) (info_query s1) (int i) sizeof_cpu_set True = Some (0, Some ?m, info_query s1)"
      unfolding wayca_sc_node_cpu_mask_def
      by (rule obj_mask_settled [OF settled ready_tt [OF r1]]) (use i fits in \<open>auto simp: topo_is_valid_node_def\<close>)
    have "node_l3 (info_env C) ?m [0..int (n_cpus t) - 1] (- 1) (info_query s1) = Some (?l3, info_query s1)"
      using node_l3_settled [OF r1 fits, of "[0..<n_cpus t]"] by (simp add: members_int members_def atLeast0LessThan)
    moreover have "does s1 n (new_prop C n ''L3_cache'' (kb ?l3) s1) [''L3_cache'' \<mapsto> kb ?l3] []"
      by (rule does_new_prop [OF r1]) (use k in simp)
    ultimately show "does s1 n (with_mask (wayca_sc_node_cpu_mask (info_env C)) (int i) s1 (\<lambda>mask s.
         let num_cpu = wayca_sc_cpus_in_total (te (info_query s)) in
         if num_cpu < 0 then Some (num_cpu, s)
         else case node_l3 (info_env C) mask [0..num_cpu - 1] (- 1) (info_query s) of
             None \<Rightarrow> None
           | Some (csize, t) \<Rightarrow> new_prop C n ''L3_cache'' (content (decimal_int csize @ ''KB'')) (s\<lparr>info_query := t\<rparr>)))
         [''L3_cache'' \<mapsto> kb ?l3] []"
      by (simp add: with_mask_def m topo_counts [OF r1] kb_def)
  qed
  then show ?thesis by (simp add: mem)
qed

lemma named_child:
  assumes r: "ready s n ps"
  obtains c x s' where "xmlNewChild (info_lib C) (info_xml s) n nm = (Some c, x)"
    "new_prop C c k v (s\<lparr>info_xml := x\<rparr>) = Some (0, s')"
    "does s n (Some (0, s')) Map.empty [(nm, [k \<mapsto> v])]"
proof -
  obtain c x1 where c: "xmlNewChild (info_lib C) (info_xml s) n nm = (Some c, x1)"
      and g1: "grows (info_lib C) wf sub (info_xml s) n x1 Map.empty [c] [(nm, Map.empty)]" "node_name (info_lib C) x1 c = nm"
    using new_child_leaf [OF r] by blast
  obtain x2 where "new_prop C c k v (s\<lparr>info_xml := x1\<rparr>) = Some (0, s\<lparr>info_xml := x2\<rparr>)"
      "grows (info_lib C) wf sub (info_xml s) n x2 Map.empty [c] [(nm, [k \<mapsto> v])]"
    using child_prop [OF g1(1), where k = k and s = "s\<lparr>info_xml := x1\<rparr>"] by auto
  then show thesis
    using that [OF c] r by (auto simp: does_def ready_def)
qed

lemma device_elems:
  assumes r: "ready s n ps" and i: "i < n_nodes t"
  shows "does s n (numa_dev_elem_build C n (int i) s) Map.empty (map (item_leaf t) (map (dev_item t) (node_devices (nodes t ! i))))"
proof -
  have one: "does s n (dev_elem C n nm s) Map.empty [item_leaf t (dev_item t nm)]"
    if nm: "nm \<in> set (node_devices (nodes t ! i))" and r: "ready s n ps" for nm s
  proof -
    obtain d where d: "find_device nm (nodes t) = Some d"
      using find_device_listed [OF _ nm, of "nodes t"] i by auto
    obtain c x s' where "xmlNewChild (info_lib C) (info_xml s) n (fst (get_dev_elem_type d)) = (Some c, x)"
        "new_prop C c (snd (get_dev_elem_type d)) nm (s\<lparr>info_xml := x\<rparr>) = Some (0, s')"
        "does s n (Some (0, s')) Map.empty [(fst (get_dev_elem_type d), [snd (get_dev_elem_type d) \<mapsto> nm])]"
      using named_child [OF r] by blast
    then show ?thesis
      by (auto simp: dev_elem_def wayca_sc_get_device_info_def ready_tt [OF r] d dev_item_def get_dev_elem_type_def
          split: device_info.splits)
  qed
  have l: "wayca_sc_get_device_list (info_query s) (int i) True b
      = (0, Some (length (node_devices (nodes t ! i)), if b then Some (node_devices (nodes t ! i)) else None))" for b
    using i topo_counts [OF r]
    by (auto simp: wayca_sc_get_device_list_def ready_tt [OF r] node_range_def node_devices_def)
  have "does s n (each0 (dev_elem C n) (node_devices (nodes t ! i)) s) Map.empty
      (concat (map (\<lambda>nm. [item_leaf t (dev_item t nm)]) (node_devices (nodes t ! i))))"
    using r one by (rule does_each0)
  then show ?thesis
    using does_0 [OF r] by (auto simp: numa_dev_elem_build_def l calloc comp_def)
qed

lemma numa_builds:
  assumes r: "ready s n (snd (item_leaf t (I_numa i)))" and ok: "okay (I_numa i)"
  shows "builds (numa_elem_build C) (I_numa i) n s"
proof -
  have i: "i < n_nodes t" "i < 2 ^ 31" and valid: "topo_is_valid_node t (int i)"
    and fits: "fits (n_cores t) (node_core_map (nodes t ! i))" "fits (n_clusters t) (node_cluster_map (nodes t ! i))"
    using ok fits_at(1,4) by (auto simp: topo_is_valid_node_def)
  let ?below = "\<lambda>s. let (c_nr, s) = count_with wayca_sc_ccls_in_total s in
      if c_nr < 0 then
        let (c_nr, s) = count_with wayca_sc_cores_in_total s in
        if c_nr < 0 then Some (c_nr, s)
        else with_mask (wayca_sc_node_core_mask (info_env C)) (int i) s (\<lambda>core_mask.
          topo_build_next_elem C n core_mask c_nr ''Core'')
      else with_mask (wayca_sc_node_ccl_mask (info_env C)) (int i) s (\<lambda>ccl_mask.
        topo_build_next_elem C n ccl_mask c_nr ''Cluster'')"
  let ?kids = "if ccls t = [] then map I_core (members (node_core_map (nodes t ! i)) (n_cores t))
      else map I_ccl (members (node_cluster_map (nodes t ! i)) (n_clusters t))"
  have below: "does s n (?below s) Map.empty (map (item_leaf t) ?kids)" if r: "ready s n ps" for s ps
  proof (cases "ccls t = []")
    case True
    obtain s' where s': "count_with wayca_sc_cores_in_total s = (int (n_cores t), s')" "ready s' n ps" "info_xml s' = info_xml s"
      using count_cores [OF r] by blast
    have "wayca_sc_node_core_mask (info_env C) (info_query s') (int i) sizeof_cpu_set True
        = Some (0, Some (padded (n_cores t) (node_core_map (nodes t ! i))), info_query s')"
      unfolding wayca_sc_node_core_mask_def
      by (rule obj_mask_settled [OF settled ready_tt [OF s'(2)]]) (use i valid fits in auto)
    then show ?thesis
      using does_query [OF next_elem [OF s'(2) fits(1), of I_core "''Core''"] s'(3)] True
      by (simp add: count_no_ccls [OF r] s'(1) with_mask_def)
  next
    case False
    obtain s' where s': "count_with wayca_sc_ccls_in_total s = (int (n_clusters t), s')" "ready s' n ps" "info_xml s' = info_xml s"
      using count_ccls [OF r False] by blast
    have "wayca_sc_node_ccl_mask (info_env C) (info_query s') (int i) sizeof_cpu_set True
        = Some (0, Some (padded (n_clusters t) (node_cluster_map (nodes t ! i))), info_query s')"
      unfolding wayca_sc_node_ccl_mask_def
      by (rule obj_mask_settled [OF settled ready_tt [OF s'(2)]]) (use i valid fits in auto)
    then show ?thesis
      using does_query [OF next_elem [OF s'(2) fits(2), of I_ccl "''Cluster''"] s'(3)] False
      by (simp add: s'(1) with_mask_def)
  qed
  have dev: "does s n (if \<not> output_dev C then Some (0, s) else numa_dev_elem_build C n (int i) s) Map.empty
      (map (item_leaf t) (if output_dev C then map (dev_item t) (node_devices (nodes t ! i)) else []))" if r: "ready s n ps" for s ps
    using does_0 [OF r] device_elems [OF r i(1)] by simp
  have "does s n (then0 (numa_prop_build C n (int i) s) (\<lambda>s. then0 (?below s) (\<lambda>s.
        if \<not> output_dev C then Some (0, s) else numa_dev_elem_build C n (int i) s)))
      (item_attrs t qs (I_numa i) ++ (Map.empty ++ Map.empty)) ([] @ map (item_leaf t) ?kids
        @ map (item_leaf t) (if output_dev C then map (dev_item t) (node_devices (nodes t ! i)) else []))"
  proof (rule does_then0 [OF numa_props [OF r i(1)] r])
    fix s1 assume r1: "ready s1 n (snd (item_leaf t (I_numa i)) ++ item_attrs t qs (I_numa i))"
    show "does s1 n (then0 (?below s1) (\<lambda>s. if \<not> output_dev C then Some (0, s) else numa_dev_elem_build C n (int i) s))
        (Map.empty ++ Map.empty) (map (item_leaf t) ?kids
          @ map (item_leaf t) (if output_dev C then map (dev_item t) (node_devices (nodes t ! i)) else []))"
      by (rule does_then0 [OF below [OF r1] r1]) (rule dev)
  qed simp_all
  then show ?thesis
    using i by (simp add: numa_elem_build_def get_index [OF r] del: item_attrs.simps)
qed

lemma smmu_builds:
  assumes r: "ready s n (snd (item_leaf t (I_smmu nm)))" and ok: "okay (I_smmu nm)"
  shows "builds (smmu_dev_elem_build C) (I_smmu nm) n s"
proof -
  obtain d where d: "find_device nm (nodes t) = Some (SMMU_info d)" using ok by auto
  have p: "xmlGetProp (info_lib C) (info_xml s) n ''name'' = Some nm" using r by (simp add: ready_def)
  have "does s n (then0 (new_prop C n ''smmu_idx'' (content (decimal_int (smmu_idx d))) s) (\<lambda>s.
      then0 (new_prop C n ''base_addr'' (content (''0x'' @ hex (unat (base_addr d)))) s) (\<lambda>s.
      new_prop C n ''modalias'' (content (modalias d)) s)))
      ([''smmu_idx'' \<mapsto> content (decimal_int (smmu_idx d))] ++ ([''base_addr'' \<mapsto> content (''0x'' @ hex (unat (base_addr d)))]
        ++ [''modalias'' \<mapsto> content (modalias d)])) []"
    by (rule does_prop_then [OF r], simp, rule does_prop_then, assumption, simp, rule does_new_prop, assumption, simp)
  then show ?thesis
    by (simp add: smmu_dev_elem_build_def p wayca_sc_get_device_info_def ready_tt [OF r] d smmu_attrs_def)
qed

lemma pci_builds:
  assumes r: "ready s n (snd (item_leaf t (I_pci nm)))" and ok: "okay (I_pci nm)"
  shows "builds (pci_dev_elem_build C) (I_pci nm) n s"
proof -
  obtain d where d: "find_device nm (nodes t) = Some (PCI_info d)" using ok by auto
  have p: "xmlGetProp (info_lib C) (info_xml s) n ''slot'' = Some nm" using r by (simp add: ready_def)
  have "does s n (then0 (new_prop C n ''smmu_idx'' a s) (\<lambda>s. then0 (new_prop C n ''class_id'' b s) (\<lambda>s.
      then0 (new_prop C n ''vendor_id'' c s) (\<lambda>s. then0 (new_prop C n ''device_id'' e s) (\<lambda>s.
      new_prop C n ''irq_nr'' f s)))))
      ([''smmu_idx'' \<mapsto> a] ++ ([''class_id'' \<mapsto> b] ++ ([''vendor_id'' \<mapsto> c] ++ ([''device_id'' \<mapsto> e] ++ [''irq_nr'' \<mapsto> f])))) []"
    for a b c e f
    by (rule does_prop_then [OF r], simp, rule does_prop_then, assumption, simp, rule does_prop_then, assumption, simp,
        rule does_prop_then, assumption, simp, rule does_new_prop, assumption, simp)
  then show ?thesis
    by (simp add: pci_dev_elem_build_def p wayca_sc_get_device_info_def ready_tt [OF r] d pci_attrs_def)
qed

text \<open>The interrupts are read when they are asked for the first time.\<close>

lemma irqs_loaded:
  assumes r: "ready s n ps" and irq: "output_irq C"
  obtains q' where "(if te_irqs (info_query s) = None then topo_get_irq_info (info_env C) (info_query s) else (0, info_query s)) = (0, q')"
    "te_irqs q' = Some qs" "ready (s\<lparr>info_query := q'\<rparr>) n ps"
proof (cases "te_irqs (info_query s)")
  case None
  then have "topo_get_irq_info (info_env C) (info_query s) = (0, (info_query s)\<lparr>te_irqs := Some qs\<rparr>)"
    using irqs [OF irq] by (auto simp: irqs_read_def topo_get_irq_info_def split: sum.splits)
  then show thesis
    using that [of "(info_query s)\<lparr>te_irqs := Some qs\<rparr>"] None r by (simp add: ready_def good_def)
next
  case (Some v)
  then show thesis
    using that [of "info_query s"] r by (simp add: ready_def good_def)
qed

lemma irq_leaf:
  assumes "ready s n ps"
  shows "does s n (irq_elem C n q s) Map.empty [item_leaf t (I_irq q)]"
proof -
  obtain c x s' where "xmlNewChild (info_lib C) (info_xml s) n ''IRQ'' = (Some c, x)"
      "new_prop C c ''irq_number'' (decimal (unat q)) (s\<lparr>info_xml := x\<rparr>) = Some (0, s')"
      "does s n (Some (0, s')) Map.empty [(''IRQ'', [''irq_number'' \<mapsto> decimal (unat q)])]"
    using named_child [OF assms] by blast
  then show ?thesis by (simp add: irq_elem_def)
qed

lemma intr_builds:
  assumes r: "ready s n ps" and ok: "okay I_intr"
  shows "builds (intr_elem_build C) I_intr n s"
proof -
  have irq: "output_irq C" using ok by simp
  obtain q' where q': "(if te_irqs (info_query s) = None then topo_get_irq_info (info_env C) (info_query s) else (0, info_query s)) = (0, q')"
      "te_irqs q' = Some qs" "ready (s\<lparr>info_query := q'\<rparr>) n ps"
    using irqs_loaded [OF r irq] by blast
  have l: "wayca_sc_get_irq_list (info_env C) (info_query s) True False = (0, Some (length qs, None), q')"
      "wayca_sc_get_irq_list (info_env C) q' True True = (0, Some (length qs, Some (map irq_number qs)), q')"
    using q'(1,2) by (auto simp: wayca_sc_get_irq_list_def split: if_splits)
  have "does (s\<lparr>info_query := q'\<rparr>) n (each0 (irq_elem C n) (map irq_number qs) (s\<lparr>info_query := q'\<rparr>)) Map.empty
      (concat (map (\<lambda>q. [item_leaf t (I_irq q)]) (map irq_number qs)))"
    by (rule does_each0 [OF q'(3)]) (rule irq_leaf)
  then have "does s n (each0 (irq_elem C n) (map irq_number qs) (s\<lparr>info_query := q'\<rparr>)) Map.empty
      (map (item_leaf t) (map (I_irq \<circ> irq_number) qs))"
    using does_query [of "s\<lparr>info_query := q'\<rparr>"] by (simp add: comp_def)
  moreover have "does s n (Some (0, s\<lparr>info_query := q'\<rparr>)) Map.empty []"
    using does_query [OF does_0 [OF q'(3)]] by simp
  ultimately show ?thesis
    by (cases qs) (simp_all add: intr_elem_build_def l calloc)
qed

lemma str2ul_decimal: "topo_str2ul (decimal (unat (q :: 32 word))) = (0, ucast q)"
proof -
  have "unat q < 2 ^ 32" using unsigned_less [of q] by simp
  then have "unat q < 2 ^ 64" by simp
  then have "strtoul (decimal (unat q)) = (of_nat (unat q), [], 0)"
    using scan_number_decimal [of "[]" "unat q"] by (simp add: strtoul_def stops_def)
  then show ?thesis
    using not_sym [OF decimal_ne [of "unat q"]] by (simp add: topo_str2ul_def)
qed

lemma irq_builds:
  assumes r: "ready s n (snd (item_leaf t (I_irq w)))" and ok: "okay (I_irq w)"
  shows "builds (irq_elem_build C) (I_irq w) n s"
proof -
  have irq: "output_irq C" using ok by simp
  obtain q' where q': "(if te_irqs (info_query s) = None then topo_get_irq_info (info_env C) (info_query s) else (0, info_query s)) = (0, q')"
      "te_irqs q' = Some qs" "ready (s\<lparr>info_query := q'\<rparr>) n (snd (item_leaf t (I_irq w)))"
    using irqs_loaded [OF r irq] by blast
  obtain v where v: "find (\<lambda>q. irq_number q = w) qs = Some v"
    using ok by (cases "find (\<lambda>q. irq_number q = w) qs") (auto simp: find_None_iff)
  then have "v \<in> set qs" by (auto simp: find_Some_iff)
  then have b: "chip_name v < 5" "irq_type v < 3"
    using irqs [OF irq] parse_irqs_bound by (fastforce simp: irqs_read_def split: sum.splits)+
  have "ucast (ucast w :: ulong) = w"
    by (rule bit_word_eqI) (simp add: bit_ucast_iff)
  then have i: "wayca_sc_get_irq_info (info_env C) (info_query s) (ucast (ucast w :: ulong)) True = (0, Some v, q')"
    using q'(1,2) v by (auto simp: wayca_sc_get_irq_info_def)
  have p: "xmlGetProp (info_lib C) (info_xml s) n ''irq_number'' = Some (decimal (unat w))" using r by (simp add: ready_def)
  let ?s = "s\<lparr>info_query := q'\<rparr>"
  have "does ?s n (then0 (new_prop C n ''name'' a ?s) (\<lambda>s. then0 (new_prop C n ''chip_name'' c s) (\<lambda>s. new_prop C n ''type'' e s)))
      ([''name'' \<mapsto> a] ++ ([''chip_name'' \<mapsto> c] ++ [''type'' \<mapsto> e])) []" for a c e
    by (rule does_prop_then [OF q'(3)], simp, rule does_prop_then, assumption, simp, rule does_new_prop, assumption, simp)
  note does_query [OF this, of s]
  then show ?thesis
    using b by (simp add: irq_elem_build_def p str2ul_decimal irq_prop_build_def i irq_chip_string_def irq_type_string_def
        v irq_attrs_def)
qed

end

sublocale topo_doc \<subseteq> doc_builder C wf sub "good t qs" "item_ok (output_irq C) t qs" "item_leaf t" "item_attrs t qs"
  "item_kids (output_irq C) (output_dev C) t qs" item_rank "item_elem (output_irq C) (output_dev C) t qs"
proof unfold_locales
  fix it k assume ok: "okay it"
  show "item_elem (output_irq C) (output_dev C) t qs it = Elem (fst (item_leaf t it)) (snd (item_leaf t it) ++ item_attrs t qs it)
      (map (item_elem (output_irq C) (output_dev C) t qs) (item_kids (output_irq C) (output_dev C) t qs it))"
    by (rule item_elem.simps)
  show "k \<in> set (item_kids (output_irq C) (output_dev C) t qs it) \<Longrightarrow> okay k \<and> item_rank k < item_rank it"
    using item_kids_ok [OF ok] item_kids_rank by blast
  show "find_topo_elem (fst (item_leaf t it)) \<noteq> None"
    by (cases it) simp_all
next
  fix it b l n and s :: "'x info_state"
  assume *: "okay it" "find_topo_elem (fst (item_leaf t it)) = Some (b, l)" "good t qs (info_query s)" "wf (info_xml s)"
    "xml_valid (info_lib C) (info_xml s) n" "leaf (info_lib C) (info_xml s) n = item_leaf t it"
  have r: "ready s n (snd (item_leaf t it))"
    using * by (metis leaf_def ready_def snd_conv)
  have "builds (elem_build C l) it n s"
  proof (cases it)
    case (I_cpu i)
    then show ?thesis using * does_0 [OF r] by (simp add: elem_build_def cpu_elem_build_def)
  qed (use *(1,2) r system_builds [of s n] package_builds [of s n] numa_builds [of s n] ccl_builds [of s n]
      core_builds [of s n] intr_builds [of s n] irq_builds [of s n] pci_builds [of s n] smmu_builds [of s n]
      in \<open>auto simp: elem_build_def simp del: item_attrs.simps item_kids.simps\<close>)
  then show "\<exists>s' ids. elem_build C l n s = Some (0, s') \<and> good t qs (info_query s')
      \<and> grows (info_lib C) wf sub (info_xml s) n (info_xml s') (item_attrs t qs it) ids
        (map (item_leaf t) (item_kids (output_irq C) (output_dev C) t qs it))"
    by (simp add: does_def)
qed

context topo_doc
begin

lemmas document_built = build_root [of I_sys "''System''", simplified]

end

section \<open>The document is the topology\<close>

lemma topology_built:
  assumes "libxml_laws (info_lib C) W sub" "reliable (info_lib C) W" "describable (info_env C) t"
    and "output_irq C \<Longrightarrow> irqs_read (info_env C) qs" "\<forall>k. can_calloc C k"
    and "good t qs (info_query s)" "W (info_xml s)"
  shows "\<exists>doc s' pt. build_topo_info C s = Some (0, Some doc, s') \<and> W (info_xml s')
     \<and> xmlDocGetRootElement (info_lib C) (info_xml s') doc = Some (pt_node pt)
     \<and> xshape (info_lib C) sub (info_xml s') pt \<and> elements_only pt \<and> distinct (pt_nodes pt)
     \<and> erase pt = item_elem (output_irq C) (output_dev C) t qs I_sys"
proof -
  have td: "topo_doc C W sub t qs"
    using assms by (intro topo_doc.intro topo_doc_axioms.intro) auto
  obtain d x1 r x2 where d: "xmlNewDoc (info_lib C) (info_xml s) = (Some d, x1)"
      and r: "xmlNewNode (info_lib C) x1 ''System'' = (Some r, x2)"
    using reliable_doc [OF assms(2)] by blast
  from topo_doc.document_built [OF td assms(6,7) d r]
  show ?thesis by (auto simp: build_topo_info_def d r)
qed

text \<open>C19. When the topology is uniform, fits the masks of wayca-sc-info and does not change, and memory does not run out,
  \<^verbatim>\<open>build_topo_info\<close> returns 0 after finitely many steps, and the document has one element for each package, below it one
  for each of its NUMA nodes, below it one for each cluster (or core, when there are no clusters), core and CPU, in the
  order of their numbers and with the attributes read for them, the devices of the node when devices are asked for, and
  the interrupts of the system when interrupts are asked for.\<close>

theorem topology_documented:
  assumes "libxml_laws (info_lib C) W sub" "reliable (info_lib C) W" "describable (info_env C) t"
    and "output_irq C \<Longrightarrow> irqs_read (info_env C) qs" "\<forall>k. can_calloc C k"
    and "good t qs (info_query s)" "W (info_xml s)"
  shows "\<exists>doc s' pt. build_topo_info C s = Some (0, Some doc, s') \<and> W (info_xml s')
     \<and> xmlDocGetRootElement (info_lib C) (info_xml s') doc = Some (pt_node pt)
     \<and> xshape (info_lib C) sub (info_xml s') pt \<and> pt_elem pt \<and> distinct (pt_nodes pt)
     \<and> erase pt = item_elem (output_irq C) (output_dev C) t qs I_sys"
  using topology_built [OF assms] elements_only_elem by blast

definition info_fs :: sysfs where
  "info_fs = \<lparr>sf_file = (\<lambda>d n. if n = ''online'' then Inr ''1'' else if n = ''chip_name'' then Inr ''GICv3''
       else if n = ''type'' then Inr ''level'' else if n = ''actions'' then Inr ''arch_timer'' else Inl ENOENT),
     dirents = (\<lambda>_. Inl ENOENT), subdirs = (\<lambda>d. if d = ''/proc/irq'' then Inr [''5''] else Inl ENOENT),
     path_exists = (\<lambda>_. False), stale_errno = 0\<rparr>"

definition info_sys :: env where
  "info_sys = \<lparr>e_fs = info_fs, e_devs = (\<lambda>_ t. Some (0, t)), e_mem = 9\<rparr>"

definition info_cpu :: "int \<Rightarrow> wayca_cpu" where
  "info_cpu i = \<lparr>cpu_id = i, cpu_core_id = i, cpu_p_cluster = Some 0, cpu_p_numa_node = Some 0, cpu_p_package = Some 0,
     cpu_core_cpus_map = None, cpu_caches = []\<rparr>"

definition info_core :: "int \<Rightarrow> ulong \<Rightarrow> wayca_core" where
  "info_core i m = \<lparr>core_id = i, core_n_cpus = 1, core_cpus_map = Some [m], core_p_cluster = Some 0,
     core_p_numa_node = Some 0, core_p_package = Some 0, core_caches = []\<rparr>"

definition info_topo :: wayca_topo where
  "info_topo = \<lparr>kernel_max_cpus = 64, setsize = 8, n_cpus = 2, cpu_map = [3], online_cpu_map = [3],
     cpu_array = [info_cpu 0, info_cpu 1], cores = [info_core 0 1, info_core 1 2],
     ccls = [\<lparr>cluster_id = 7, ccl_n_cpus = 2, ccl_cpu_map = [3], ccl_core_map = [3]\<rparr>], node_map = [1],
     nodes = [\<lparr>node_idx = 0, node_n_cpus = 2, node_cpu_map = [3], node_core_map = [3], node_cluster_map = [1],
       distance = [10], p_meminfo = Some 1024, pcidevs = [],
       smmus = [\<lparr>smmu_idx = 0, smmu_numa_node = 0, base_addr = 4096, smmu_name = ''smmu3.0'', modalias = ''arm-smmu''\<rparr>]\<rparr>],
     packages = [\<lparr>physical_package_id = 36, pkg_n_cpus = 2, pkg_cpu_map = [3], numa_map = [1]\<rparr>]\<rparr>"

definition info_irqs :: "wayca_irq list" where
  "info_irqs = [\<lparr>irq_number = 5, chip_name = 4, irq_type = 2, irq_name = ''arch_timer''\<rparr>]"

definition info_sample :: "(table, nat, nat) info_ctx" where
  "info_sample = \<lparr>info_lib = table_lib (\<lambda>_ _ _. 1) (\<lambda>_. None), info_env = info_sys, can_calloc = (\<lambda>_. True),
     output_irq = True, output_dev = True\<rparr>"

definition info_start :: "table info_state" where
  "info_start = \<lparr>info_xml = \<lparr>tb_cells = (\<lambda>_. None), tb_next = 0, tb_docs = (\<lambda>_. None), tb_ndocs = 0\<rparr>,
     info_query = \<lparr>te = \<lparr>topo = info_topo, max_cores = 0, max_ccls = 0\<rparr>, te_irqs = None, te_max = 0\<rparr>\<rparr>"

lemma info_settled: "settled info_sys info_topo"
proof -
  have "cpu_status (e_fs info_sys) info_topo 0 = Some (Inl (cpu_on info_topo 0))"
    "cpu_status (e_fs info_sys) info_topo 1 = Some (Inl (cpu_on info_topo 1))"
    by code_simp+
  moreover have "{0..<int (n_cpus info_topo)} = {0, 1}"
    by (auto simp: info_topo_def)
  ultimately show ?thesis by (simp add: settled_def)
qed

lemma info_attr: "read_attr info_fs p ''chip_name'' = ''GICv3''" "read_attr info_fs p ''type'' = ''level''"
  "read_attr info_fs p ''actions'' = ''arch_timer''"
  by (simp_all add: read_attr_def topo_path_read_buffer_def info_fs_def)

lemma info_irqs_read: "irqs_read info_sys info_irqs"
proof -
  have "decimal 5 = ''5''"
    by code_simp
  then have "strtoul ''5'' = (5, [], 0)"
    using scan_number_decimal [of "[]" 5] by (simp add: strtoul_def stops_def)
  then have "topo_parse_irq_info info_fs ''5'' = (0, hd info_irqs)"
    by (simp add: topo_parse_irq_info_def info_attr info_irqs_def str2_irq_chip_name_def str2_irq_type_def)
  then show ?thesis
    by (simp add: irqs_read_def info_sys_def info_fs_def [THEN arg_cong [where f = subdirs]] info_irqs_def)
qed

lemma info_fields [simp]: "n_cpus info_topo = 2" "n_cores info_topo = 2" "n_clusters info_topo = 1"
  "n_nodes info_topo = 1" "n_packages info_topo = 1" "length (cpu_array info_topo) = 2" "ccls info_topo \<noteq> []"
  "nodes info_topo \<noteq> []" "packages info_topo \<noteq> []"
  by (simp_all add: info_topo_def)

lemma info_describable: "describable info_sys info_topo"
proof -
  have *: "set_words 1 = 1" "set_words 2 = 1" "fits 1 [m]" "fits 2 [m]" "fits (Suc 0) [m]" for m
    using set_words_nat [of 1] set_words_nat [of 2] by (simp_all add: fits_def)
  have "uniform_cores info_topo 1" "uniform_ccls info_topo 2"
    by (auto simp: uniform_cores_def uniform_ccls_def info_topo_def info_core_def)
  moreover have "\<forall>p \<in> set (packages info_topo). 0 \<le> physical_package_id p \<and> fits 1 (numa_map p)"
    "\<forall>n \<in> set (nodes info_topo). p_meminfo n \<noteq> None \<and> fits 2 (node_cpu_map n) \<and> fits 2 (node_core_map n) \<and> fits 1 (node_cluster_map n)"
    "\<forall>c \<in> set (ccls info_topo). 0 \<le> cluster_id c \<and> fits 2 (ccl_core_map c)"
    "\<forall>c \<in> set (cores info_topo). 0 \<le> core_id c \<and> core_cpus_map c \<noteq> None \<and> fits 2 (the (core_cpus_map c))"
    using * by (simp_all add: info_topo_def info_core_def)
  ultimately show ?thesis
    unfolding describable_def info_fields using info_settled by auto
qed

interpretation sample_doc: topo_doc info_sample tb_wf tb_sub info_topo info_irqs
proof (intro topo_doc.intro topo_doc_axioms.intro)
  show "libxml_laws (info_lib info_sample) tb_wf tb_sub"
    by (simp add: info_sample_def tables.libxml_laws_axioms)
qed (simp_all add: info_sample_def reliable_def table_lib_def info_describable info_irqs_read)

lemma info_start_ok: "good info_topo info_irqs (info_query info_start)" "tb_wf (info_xml info_start)"
  by (simp_all add: info_start_def good_def tb_wf_def tb_sub_def)

lemma topology_documented_witness:
  "\<exists>doc s' pt. build_topo_info info_sample info_start = Some (0, Some doc, s') \<and> tb_wf (info_xml s')
     \<and> xmlDocGetRootElement (info_lib info_sample) (info_xml s') doc = Some (pt_node pt)
     \<and> xshape (info_lib info_sample) tb_sub (info_xml s') pt \<and> pt_elem pt \<and> distinct (pt_nodes pt)
     \<and> erase pt = item_elem (output_irq info_sample) (output_dev info_sample) info_topo info_irqs I_sys"
  by (rule topology_documented [OF sample_doc.libxml_laws_axioms sample_doc.reliable sample_doc.describable
        sample_doc.irqs _ info_start_ok]) (simp_all add: sample_doc.calloc)

end
