(* ===== verification/InfoCheck.thy ===== *)
theory InfoCheck
  imports InfoDoc
begin

text \<open>
  The other half of \<^verbatim>\<open>tools/wayca-sc-info\<close>: reading a document from a file, its validation against a DTD and of the
  values in it, and writing or printing it (\<^verbatim>\<open>wayca_sc_topo.c\<close>), and the options and the main program
  (\<^verbatim>\<open>wayca_sc_info.c\<close>). Messages and the flags that suppress their repetition are left out; what is printed to
  standard output is a result.
\<close>

section \<open>Values\<close>

text \<open>\<^verbatim>\<open>base\<close> is always 10.\<close>

definition is_valid_num :: "string \<Rightarrow> int \<Rightarrow> int \<Rightarrow> bool" where
  "is_valid_num num mn mx = (let (v, e, err) = strtol num in
     if e = num \<or> err \<noteq> 0 then False else e = [] \<and> mn \<le> v \<and> v \<le> mx)"

definition is_valid_memory_size :: "string \<Rightarrow> string \<Rightarrow> bool" where
  "is_valid_memory_size mem_size need = (let (v, e, _) = strtol mem_size in 0 \<le> v \<and> need = e)"

definition is_valid_idx :: "string \<Rightarrow> bool" where
  "is_valid_idx num = (let (v, e, _) = strtol num in e = [] \<and> 0 \<le> v \<and> v < 4096)"

definition numa_prop_list :: "string list" where "numa_prop_list = [''mem_size'', ''L3_cache'']"

definition core_prop_list :: "string list" where "core_prop_list = [''L1i_cache'', ''L1d_cache'', ''L2_cache'']"

text \<open>The loops of \<^verbatim>\<open>numa_prop_verify\<close> and \<^verbatim>\<open>core_prop_verify\<close>: a size that is not one ends them without an error.\<close>

fun sizes_verify :: "('x, 'n, 'd) libxml \<Rightarrow> 'x \<Rightarrow> 'n \<Rightarrow> string list \<Rightarrow> int" where
  "sizes_verify L x node [] = 0"
| "sizes_verify L x node (k # ks) = (case xmlGetProp L x node k of
       None \<Rightarrow> - ENOENT
     | Some p \<Rightarrow> if \<not> is_valid_memory_size p ''KB'' then 0 else sizes_verify L x node ks)"

definition numa_prop_verify where "numa_prop_verify L x node = sizes_verify L x node numa_prop_list"

definition core_prop_verify where "core_prop_verify L x node = sizes_verify L x node core_prop_list"

definition num_verify :: "('x, 'n, 'd) libxml \<Rightarrow> 'x \<Rightarrow> 'n \<Rightarrow> string \<Rightarrow> int \<Rightarrow> int \<Rightarrow> int" where
  "num_verify L x node k mn mx = (case xmlGetProp L x node k of
       None \<Rightarrow> - ENOENT
     | Some p \<Rightarrow> if \<not> is_valid_num p mn mx then - EINVAL else 0)"

definition irq_prop_verify where "irq_prop_verify L x node = num_verify L x node ''irq_number'' 0 (2 ^ 32 - 1)"

definition pci_prop_verify where "pci_prop_verify L x node = num_verify L x node ''smmu_idx'' (- 1) 255"

definition smmu_prop_verify where "smmu_prop_verify L x node = num_verify L x node ''smmu_idx'' (- 1) 255"

text \<open>The column \<^verbatim>\<open>prop_verify\<close> of the table.\<close>

definition prop_verify :: "('x, 'n, 'd) libxml \<Rightarrow> topo_level \<Rightarrow> ('x \<Rightarrow> 'n \<Rightarrow> int) option" where
  "prop_verify L l = (case l of TOPO_NUMA \<Rightarrow> Some (numa_prop_verify L) | TOPO_CORE \<Rightarrow> Some (core_prop_verify L)
     | TOPO_IRQ \<Rightarrow> Some (irq_prop_verify L) | TOPO_PCIDEV \<Rightarrow> Some (pci_prop_verify L)
     | TOPO_SMMUDEV \<Rightarrow> Some (smmu_prop_verify L) | _ \<Rightarrow> None)"

fun verify_loop :: "('x, 'n, 'd) libxml \<Rightarrow> 'x \<Rightarrow> 'n \<Rightarrow> (string \<times> bool \<times> topo_level) list \<Rightarrow> int" where
  "verify_loop L x node [] = 0"
| "verify_loop L x node ((nm, _, l) # rest) =
     (if node_name L x node \<noteq> nm then verify_loop L x node rest
      else case prop_verify L l of None \<Rightarrow> verify_loop L x node rest | Some f \<Rightarrow> f x node)"

definition verify_prop :: "('x, 'n, 'd) libxml \<Rightarrow> 'x \<Rightarrow> 'n \<Rightarrow> int" where
  "verify_prop L x node =
     (if xmlHasProp L x node ''index'' then
        case xmlGetProp L x node ''index'' of
          None \<Rightarrow> - ENOENT
        | Some index \<Rightarrow> if \<not> is_valid_idx index then - EINVAL else verify_loop L x node topo_elem
      else verify_loop L x node topo_elem)"

partial_function (option) verify_topo_value :: "('x, 'n, 'd) libxml \<Rightarrow> 'x \<Rightarrow> 'n \<Rightarrow> int option" where
  "verify_topo_value L x node =
     (let ret = verify_prop L x node in
      if ret \<noteq> 0 then Some ret
      else do {
        ret \<leftarrow> (case xmlFirstElementChild L x node of None \<Rightarrow> Some 0 | Some child \<Rightarrow> verify_topo_value L x child);
        if ret \<noteq> 0 then Some ret
        else case xmlNextElementSibling L x node of None \<Rightarrow> Some 0 | Some sibling \<Rightarrow> verify_topo_value L x sibling
      })"

declare verify_topo_value.simps [code]

definition validate_value :: "('x, 'n, 'd) libxml \<Rightarrow> 'x \<Rightarrow> 'd \<Rightarrow> int option" where
  "validate_value L x doc = (case xmlDocGetRootElement L x doc of None \<Rightarrow> Some (- ENOENT) | Some r \<Rightarrow> verify_topo_value L x r)"

section \<open>The DTD\<close>

text \<open>Each function returns an error number and the declarations made so far. A NULL in a list is \<open>None\<close>.\<close>

definition add_elem_formater :: "('x, 'n, 'd) libxml \<Rightarrow> string option list \<Rightarrow> decl list \<Rightarrow> int \<times> decl list" where
  "add_elem_formater L elem_list dtd =
     (if length elem_list < 2 then (- EINVAL, dtd)
      else case elem_list ! 1 of
          None \<Rightarrow> (0, dtd @ [Elem_decl (the (elem_list ! 0)) None])
        | Some _ \<Rightarrow>
            if \<not> list_all (\<lambda>n. xmlNewDocElementContent L (the n)) (tl elem_list) then (- ENOMEM, dtd)
            else (0, dtd @ [Elem_decl (the (elem_list ! 0)) (Some (map the (tl elem_list)))]))"

fun attr_decls :: "('x, 'n, 'd) libxml \<Rightarrow> string \<Rightarrow> string list \<Rightarrow> decl list \<Rightarrow> int \<times> decl list" where
  "attr_decls L el [] dtd = (0, dtd)"
| "attr_decls L el (a # as) dtd =
     (if \<not> xmlAddAttributeDecl L dtd el a then (- ENOMEM, dtd) else attr_decls L el as (dtd @ [Attr_decl el a]))"

definition add_attr_formater :: "('x, 'n, 'd) libxml \<Rightarrow> string list \<Rightarrow> decl list \<Rightarrow> int \<times> decl list" where
  "add_attr_formater L attr_list dtd =
     (if length attr_list < 2 then (- EINVAL, dtd) else attr_decls L (hd attr_list) (tl attr_list) dtd)"

text \<open>The shape of the functions with attributes.\<close>

definition both_formats :: "('x, 'n, 'd) libxml \<Rightarrow> string option list \<Rightarrow> string list \<Rightarrow> decl list \<Rightarrow> int \<times> decl list" where
  "both_formats L elem_list attr_list dtd =
     (let (ret, dtd) = add_elem_formater L elem_list dtd in
      if ret \<noteq> 0 then (ret, dtd) else add_attr_formater L attr_list dtd)"

definition sys_format where "sys_format L = add_elem_formater L [Some ''System'', Some ''Package'', Some ''Interrupt'']"

definition pkg_format where "pkg_format L = add_elem_formater L [Some ''Package'', Some ''NUMANode'']"

definition numa_format where
  "numa_format L = both_formats L [Some ''NUMANode'', Some ''Cluster'', Some ''Core'', Some ''PCIDEV'', Some ''SMMUDEV'']
     [''NUMANode'', ''mem_size'', ''L3_cache'']"

definition ccl_format where "ccl_format L = add_elem_formater L [Some ''Cluster'', Some ''Core'']"

definition core_format where
  "core_format L = both_formats L [Some ''Core'', Some ''CPU''] [''Core'', ''L2_cache'', ''L1i_cache'', ''L1d_cache'']"

definition cpu_format where "cpu_format L = add_elem_formater L [Some ''CPU'', None]"

definition intr_format where "intr_format L = add_elem_formater L [Some ''Interrupt'', Some ''IRQ'']"

definition irq_format where
  "irq_format L = both_formats L [Some ''IRQ'', None] [''IRQ'', ''irq_number'', ''name'', ''type'', ''chip_name'']"

definition pci_dev_format where
  "pci_dev_format L = both_formats L [Some ''PCIDEV'', None]
     [''PCIDEV'', ''slot'', ''smmu_idx'', ''class_id'', ''vendor_id'', ''device_id'', ''irq_nr'']"

definition smmu_dev_format where
  "smmu_dev_format L = both_formats L [Some ''SMMUDEV'', None] [''SMMUDEV'', ''name'', ''smmu_idx'', ''base_addr'', ''modalias'']"

definition format :: "('x, 'n, 'd) libxml \<Rightarrow> topo_level \<Rightarrow> decl list \<Rightarrow> int \<times> decl list" where
  "format L l = (case l of TOPO_SYS \<Rightarrow> sys_format L | TOPO_PKG \<Rightarrow> pkg_format L | TOPO_NUMA \<Rightarrow> numa_format L
     | TOPO_CCL \<Rightarrow> ccl_format L | TOPO_CORE \<Rightarrow> core_format L | TOPO_CPU \<Rightarrow> cpu_format L | TOPO_INTR \<Rightarrow> intr_format L
     | TOPO_IRQ \<Rightarrow> irq_format L | TOPO_PCIDEV \<Rightarrow> pci_dev_format L | TOPO_SMMUDEV \<Rightarrow> smmu_dev_format L)"

text \<open>A declaration whose result is not looked at.\<close>

definition try_attr :: "('x, 'n, 'd) libxml \<Rightarrow> string \<Rightarrow> string \<Rightarrow> decl list \<Rightarrow> decl list" where
  "try_attr L el a dtd = (if xmlAddAttributeDecl L dtd el a then dtd @ [Attr_decl el a] else dtd)"

fun format_loop :: "('x, 'n, 'd) libxml \<Rightarrow> (string \<times> bool \<times> topo_level) list \<Rightarrow> decl list \<Rightarrow> int \<times> decl list" where
  "format_loop L [] dtd = (0, dtd)"
| "format_loop L ((nm, has_idx, l) # rest) dtd =
     (let (ret, dtd) = format L l dtd in
      if ret \<noteq> 0 then (ret, dtd)
      else format_loop L rest (if \<not> has_idx then dtd else try_attr L nm ''p_index'' (try_attr L nm ''index'' dtd)))"

definition validate_format :: "('x, 'n, 'd) libxml \<Rightarrow> 'x \<Rightarrow> 'd \<Rightarrow> int" where
  "validate_format L x doc =
     (if \<not> xmlNewValidCtxt L then - ENOMEM
      else if \<not> xmlNewDtd L then - ENOMEM
      else let (ret, dtd) = format_loop L topo_elem [] in
        if ret \<noteq> 0 then ret else if xmlValidateDtd L x doc dtd = 1 then 0 else - EINVAL)"

definition validate_topo_info :: "('x, 'n, 'd) libxml \<Rightarrow> 'x \<Rightarrow> 'd \<Rightarrow> int option" where
  "validate_topo_info L x doc =
     (let ret = validate_format L x doc in if ret \<noteq> 0 then Some ret else validate_value L x doc)"

section \<open>Printing\<close>

text \<open>\<^verbatim>\<open>ret = f(); if (ret) return ret;\<close> where both parts print.\<close>

definition print_then :: "int \<times> string \<Rightarrow> int \<times> string \<Rightarrow> int \<times> string" where
  "print_then a b = (if fst a \<noteq> 0 then a else (fst b, snd a @ snd b))"

fun print_prop_list :: "('x, 'n, 'd) libxml \<Rightarrow> 'x \<Rightarrow> 'n \<Rightarrow> string list \<Rightarrow> int \<times> string" where
  "print_prop_list L x node [] = (0, [])"
| "print_prop_list L x node (k # ks) = (case xmlGetProp L x node k of
       None \<Rightarrow> (- ENOENT, [])
     | Some p \<Rightarrow> print_then
         (0, ''   '' @ k @ '' '' @ (if (node_name L x node = ''NUMANode'' \<or> node_name L x node = ''Core'')
              \<and> \<not> is_valid_memory_size p ''KB'' then ''NA'' else p))
         (print_prop_list L x node ks))"

definition numa_prop_print where "numa_prop_print L x node = print_prop_list L x node numa_prop_list"

definition core_prop_print where "core_prop_print L x node = print_prop_list L x node core_prop_list"

definition irq_prop_print where
  "irq_prop_print L x node = print_prop_list L x node [''irq_number'', ''type'', ''chip_name'', ''name'']"

definition pci_prop_print where
  "pci_prop_print L x node =
     print_prop_list L x node [''slot'', ''smmu_idx'', ''class_id'', ''vendor_id'', ''device_id'', ''irq_nr'']"

definition smmu_prop_print where
  "smmu_prop_print L x node = print_prop_list L x node [''name'', ''smmu_idx'', ''base_addr'', ''modalias'']"

definition prop_print :: "('x, 'n, 'd) libxml \<Rightarrow> topo_level \<Rightarrow> ('x \<Rightarrow> 'n \<Rightarrow> int \<times> string) option" where
  "prop_print L l = (case l of TOPO_NUMA \<Rightarrow> Some (numa_prop_print L) | TOPO_CORE \<Rightarrow> Some (core_prop_print L)
     | TOPO_IRQ \<Rightarrow> Some (irq_prop_print L) | TOPO_PCIDEV \<Rightarrow> Some (pci_prop_print L)
     | TOPO_SMMUDEV \<Rightarrow> Some (smmu_prop_print L) | _ \<Rightarrow> None)"

definition print_index :: "('x, 'n, 'd) libxml \<Rightarrow> 'x \<Rightarrow> 'n \<Rightarrow> int \<times> string" where
  "print_index L x node = (case xmlGetProp L x node ''p_index'' of
       None \<Rightarrow> (- ENOENT, [])
     | Some p \<Rightarrow>
         if node_name L x node = ''NUMANode'' \<or> node_name L x node = ''CPU'' then (0, '' P#'' @ p)
         else case xmlGetProp L x node ''index'' of
             None \<Rightarrow> (- ENOENT, [])
           | Some i \<Rightarrow> (0, '' L#'' @ i @ '' P#'' @ p))"

text \<open>The loop goes on after a match; \<open>ret\<close> is the last value assigned.\<close>

fun print_prop_loop :: "('x, 'n, 'd) libxml \<Rightarrow> 'x \<Rightarrow> 'n \<Rightarrow> (string \<times> bool \<times> topo_level) list \<Rightarrow> int \<Rightarrow> int \<times> string" where
  "print_prop_loop L x node [] ret = (ret, [])"
| "print_prop_loop L x node ((nm, has_idx, l) # rest) ret =
     (if node_name L x node \<noteq> nm then print_prop_loop L x node rest ret
      else let (ret, out) = (if has_idx then print_index L x node else (ret, [])) in
        if has_idx \<and> ret \<noteq> 0 then (ret, out)
        else case prop_print L l of
            None \<Rightarrow> let (ret', out') = print_prop_loop L x node rest ret in (ret', out @ out')
          | Some f \<Rightarrow> let (ret', out') = f x node; (ret'', out'') = print_prop_loop L x node rest ret' in
              (ret'', out @ out' @ out''))"

definition print_prop :: "('x, 'n, 'd) libxml \<Rightarrow> 'x \<Rightarrow> 'n \<Rightarrow> int \<times> string" where
  "print_prop L x node = print_prop_loop L x node topo_elem 0"

text \<open>The indentation is put together in a buffer of 256 bytes without a check: no result when it does not fit.\<close>

partial_function (option) print_topo_info :: "('x, 'n, 'd) libxml \<Rightarrow> 'x \<Rightarrow> nat \<Rightarrow> 'n \<Rightarrow> (int \<times> string) option" where
  "print_topo_info L x lv node =
     (if 256 < 4 * lv + 1 then None
      else
        let (ret, out) = print_then (0, replicate (4 * lv) CHR '' '' @ node_name L x node) (print_prop L x node) in
        if ret \<noteq> 0 then Some (ret, out)
        else do {
          (ret, below) \<leftarrow> (case xmlFirstElementChild L x node of
              None \<Rightarrow> Some (0, []) | Some child \<Rightarrow> print_topo_info L x (lv + 1) child);
          if ret \<noteq> 0 then Some (ret, out @ CHR 0x0A # below)
          else do {
            (ret, after) \<leftarrow> (case xmlNextElementSibling L x node of
                None \<Rightarrow> Some (0, []) | Some sibling \<Rightarrow> print_topo_info L x lv sibling);
            Some (ret, out @ CHR 0x0A # below @ after)
          }
        })"

declare print_topo_info.simps [code]

section \<open>Files\<close>

text \<open>A search that follows a freed pointer has no result.\<close>

partial_function (option) xml_find_node :: "('x, 'n, 'd) libxml \<Rightarrow> 'x \<Rightarrow> 'n option \<Rightarrow> string \<Rightarrow> 'n option option" where
  "xml_find_node L x last_node name = (case last_node of
       None \<Rightarrow> Some None
     | Some n \<Rightarrow>
         if \<not> xml_valid L x n then None
         else if is_element L x n \<and> node_name L x n = name then Some (Some n)
         else do {
           cur_node \<leftarrow> xml_find_node L x (node_children L x n) name;
           case cur_node of Some m \<Rightarrow> Some (Some m) | None \<Rightarrow> xml_find_node L x (node_next L x n) name
         })"

declare xml_find_node.simps [code]

partial_function (option) delete_loop :: "('x, 'n, 'd) libxml \<Rightarrow> 'x \<Rightarrow> 'n option \<Rightarrow> string \<Rightarrow> 'x option" where
  "delete_loop L x root del_node = do {
     r \<leftarrow> xml_find_node L x root del_node;
     case r of None \<Rightarrow> Some x
     | Some n \<Rightarrow> delete_loop L (xmlFreeNode L (xmlUnlinkNode L x n) n) root del_node
   }"

declare delete_loop.simps [code]

definition xml_delete_special_node :: "('x, 'n, 'd) libxml \<Rightarrow> 'x \<Rightarrow> 'd \<Rightarrow> string \<Rightarrow> 'x option" where
  "xml_delete_special_node L x doc del_node = delete_loop L x (xmlDocGetRootElement L x doc) del_node"

definition xml_import_topo_info ::
    "('x, 'n, 'd) info_ctx \<Rightarrow> string \<Rightarrow> 'x info_state \<Rightarrow> (int \<times> 'd option \<times> 'x info_state) option" where
  "xml_import_topo_info C filename s = (case xmlReadFile (info_lib C) (info_xml s) filename of
       (None, x) \<Rightarrow> Some (- ENOENT, None, s\<lparr>info_xml := x\<rparr>)
     | (Some doc, x) \<Rightarrow> do {
         x \<leftarrow> (if output_irq C then Some x else xml_delete_special_node (info_lib C) x doc ''IRQ'');
         x \<leftarrow> (if output_dev C then Some x else do {
                x \<leftarrow> xml_delete_special_node (info_lib C) x doc ''SMMUDEV'';
                xml_delete_special_node (info_lib C) x doc ''PCIDEV''
              });
         Some (0, Some doc, s\<lparr>info_xml := x\<rparr>)
       })"

text \<open>The arguments; the names of files are buffers of \<^verbatim>\<open>PATH_MAX + 1\<close> bytes.\<close>

record topo_info_args =
  has_input_file :: bool
  has_output_file :: bool
  want_irq :: bool
  want_dev :: bool
  input_file_name :: string
  output_file_name :: string

definition get_topo_info ::
    "('x, 'n, 'd) info_ctx \<Rightarrow> topo_info_args \<Rightarrow> 'x info_state \<Rightarrow> (int \<times> 'd option \<times> 'x info_state) option" where
  "get_topo_info C args s =
     (let C = C\<lparr>output_dev := want_dev args, output_irq := want_irq args\<rparr> in
      if has_input_file args then xml_import_topo_info C (input_file_name args) s else build_topo_info C s)"

text \<open>Files that are written: the error number of \<^verbatim>\<open>open\<close> (0 for none), and for \<^verbatim>\<open>write\<close> the return value and \<^verbatim>\<open>errno\<close>
  after it. The result has the text that reaches the file.\<close>

record out_files =
  of_open :: "string \<Rightarrow> int"
  of_write :: "string \<Rightarrow> int \<times> int"

definition xml_export_topo_info ::
    "('x, 'n, 'd) libxml \<Rightarrow> out_files \<Rightarrow> 'x \<Rightarrow> string \<Rightarrow> 'd \<Rightarrow> int \<times> string option" where
  "xml_export_topo_info L F x filename doc =
     (if of_open F filename \<noteq> 0 then (- of_open F filename, None)
      else case xmlDocDump L x doc of
          None \<Rightarrow> (- ENOMEM, Some [])
        | Some buf \<Rightarrow> let (cnt, err) = of_write F buf in
            (if cnt \<noteq> int (length buf) then if err \<noteq> 0 then - err else - EIO else 0,
             Some (take (nat cnt) buf)))"

text \<open>What \<^verbatim>\<open>put_topo_info\<close> leaves: text on standard output or in the file. The searches are made for the warnings only.\<close>

definition put_topo_info :: "('x, 'n, 'd) libxml \<Rightarrow> out_files \<Rightarrow> topo_info_args \<Rightarrow> 'x \<Rightarrow> 'd
    \<Rightarrow> (int \<times> string \<times> string option) option" where
  "put_topo_info L F args x doc = (case xmlDocGetRootElement L x doc of
       None \<Rightarrow> Some (- EINVAL, [], None)
     | Some r \<Rightarrow> do {
         _ \<leftarrow> (if want_dev args then do { _ \<leftarrow> xml_find_node L x (Some r) ''PCIDEV''; xml_find_node L x (Some r) ''SMMUDEV'' }
              else Some None);
         _ \<leftarrow> (if want_irq args then xml_find_node L x (Some r) ''IRQ'' else Some None);
         if has_output_file args
         then let (ret, txt) = xml_export_topo_info L F x (output_file_name args) doc in Some (ret, [], txt)
         else do { (ret, out) \<leftarrow> print_topo_info L x 0 r; Some (ret, out, None) }
       })"

section \<open>Options\<close>

text \<open>\<^verbatim>\<open>dirname\<close> and \<^verbatim>\<open>basename\<close> of POSIX: slashes at the end do not count.\<close>

definition strip_slashes :: "string \<Rightarrow> string" where
  "strip_slashes p = rev (dropWhile (\<lambda>c. c = CHR ''/'') (rev p))"

definition basename :: "string \<Rightarrow> string" where
  "basename p = (if p = [] then ''.'' else let q = strip_slashes p in
     if q = [] then ''/'' else rev (takeWhile (\<lambda>c. c \<noteq> CHR ''/'') (rev q)))"

definition dirname :: "string \<Rightarrow> string" where
  "dirname p = (let q = strip_slashes p; d = rev (dropWhile (\<lambda>c. c \<noteq> CHR ''/'') (rev q)) in
     if p = [] \<or> q \<noteq> [] \<and> d = [] then ''.'' else if strip_slashes d = [] then ''/'' else strip_slashes d)"

text \<open>\<^verbatim>\<open>WAYCA_INFO_MAX_FILE_NAME\<close>, the size of the buffers, and \<^verbatim>\<open>strncat\<close> into one of them, which also writes a
  terminating NUL: no result when that is outside.\<close>

definition MAX_FILE_NAME :: nat where "MAX_FILE_NAME = 4097"

definition strncat :: "string \<Rightarrow> string \<Rightarrow> nat \<Rightarrow> string option" where
  "strncat dst src n = (let r = dst @ take n src in if MAX_FILE_NAME < length r + 1 then None else Some r)"

text \<open>\<open>realpath\<close> gives the path or the error number.\<close>

definition canonicalize_export_filename :: "(string \<Rightarrow> int + string) \<Rightarrow> string \<Rightarrow> (int \<times> string) option" where
  "canonicalize_export_filename realpath filename =
     (case realpath (dirname (take (MAX_FILE_NAME - 1) filename)) of
        Inl err \<Rightarrow> Some (- err, [])
      | Inr name \<Rightarrow>
          if name = [] then None
          else do {
            name \<leftarrow> (if last name \<noteq> CHR ''/'' then strncat name ''/'' (MAX_FILE_NAME - length name) else Some name);
            name \<leftarrow> strncat name (basename (take (MAX_FILE_NAME - 1) filename)) (MAX_FILE_NAME - length name);
            Some (0, name)
          })"

definition ENAMETOOLONG :: int where "ENAMETOOLONG = 36"

definition parse_file_name :: "(string \<Rightarrow> int + string) \<Rightarrow> string \<Rightarrow> bool \<Rightarrow> topo_info_args \<Rightarrow> (int \<times> topo_info_args) option" where
  "parse_file_name realpath filename is_input args =
     (if is_input then
        if has_input_file args then Some (- EINVAL, args)
        else let args = args\<lparr>has_input_file := True\<rparr> in
          case realpath filename of
            Inl err \<Rightarrow> Some (- err, args)
          | Inr name \<Rightarrow> Some (0, args\<lparr>input_file_name := name\<rparr>)
      else
        if has_output_file args then Some (- EINVAL, args)
        else let args = args\<lparr>has_output_file := True\<rparr> in
          if MAX_FILE_NAME \<le> length filename then Some (- ENAMETOOLONG, args)
          else do {
            (ret, name) \<leftarrow> canonicalize_export_filename realpath filename;
            Some (ret, if ret \<noteq> 0 then args else args\<lparr>output_file_name := name\<rparr>)
          })"

text \<open>The loop over the options that \<^verbatim>\<open>getopt_long\<close> returns with their arguments; \<open>Inl\<close> is \<^verbatim>\<open>exit\<close>. \<open>rest\<close> tells whether
  arguments are left over.\<close>

fun parse_options :: "(string \<Rightarrow> int + string) \<Rightarrow> (char \<times> string) list \<Rightarrow> topo_info_args \<Rightarrow> (int + int \<times> topo_info_args) option" where
  "parse_options realpath [] args = Some (Inr (0, args))"
| "parse_options realpath ((c, arg) # os) args =
     (if c = CHR ''i'' \<or> c = CHR ''o'' then do {
        (ret, args) \<leftarrow> parse_file_name realpath arg (c = CHR ''i'') args;
        if ret \<noteq> 0 then Some (Inr (ret, args)) else parse_options realpath os args
      }
      else if c = CHR ''I'' \<or> c = CHR ''D'' \<or> c = CHR ''v'' then
        parse_options realpath os (args\<lparr>want_irq := c = CHR ''I'' \<or> c = CHR ''v'', want_dev := c = CHR ''D'' \<or> c = CHR ''v''\<rparr>)
      else if c = CHR ''h'' then Some (Inl 0)
      else Some (Inr (- EINVAL, args)))"

definition parse_args :: "(string \<Rightarrow> int + string) \<Rightarrow> (char \<times> string) list \<Rightarrow> bool \<Rightarrow> topo_info_args
    \<Rightarrow> (int + int \<times> topo_info_args) option" where
  "parse_args realpath opts rest args = do {
     r \<leftarrow> parse_options realpath opts args;
     Some (case r of
         Inr (ret, args) \<Rightarrow> Inr (if ret = 0 \<and> rest then (- EINVAL, args) else (ret, args))
       | Inl code \<Rightarrow> Inl code)
   }"

definition no_args :: topo_info_args where
  "no_args = \<lparr>has_input_file = False, has_output_file = False, want_irq = False, want_dev = False,
     input_file_name = [], output_file_name = []\<rparr>"

text \<open>The exit status, what is printed and the text of the output file.\<close>

definition info_main :: "('x, 'n, 'd) info_ctx \<Rightarrow> (string \<Rightarrow> int + string) \<Rightarrow> out_files \<Rightarrow> (char \<times> string) list \<Rightarrow> bool
    \<Rightarrow> 'x info_state \<Rightarrow> (int \<times> string \<times> string option) option" where
  "info_main C realpath F opts rest s = do {
     r \<leftarrow> parse_args realpath opts rest no_args;
     case r of
       Inl code \<Rightarrow> Some (code, [], None)
     | Inr (ret, args) \<Rightarrow>
         if ret \<noteq> 0 then Some (ret, [], None)
         else do {
           (ret, doc, s) \<leftarrow> get_topo_info C args s;
           if ret \<noteq> 0 then Some (ret, [], None)
           else case doc of
               None \<Rightarrow> None
             | Some doc \<Rightarrow> do {
                 ret \<leftarrow> validate_topo_info (info_lib C) (info_xml s) doc;
                 if ret \<noteq> 0 then Some (ret, [], None)
                 else put_topo_info (info_lib C) F args (info_xml s) doc
               }
         }
   }"

end
