(* ===== verification/InfoWalk.thy ===== *)
theory InfoWalk
  imports InfoCheck
begin

text \<open>
  The walks of wayca-sc-info over a document as recursions over its tree of elements. The locale \<open>element_walk\<close>
  treats the pattern that \<^verbatim>\<open>verify_topo_value\<close> and \<^verbatim>\<open>print_topo_info\<close> share: visit an element, then the elements below
  it, then its siblings, up to the first error; the walk over a finite tree ends and gives what the recursion over the
  tree gives, whatever other nodes the document has.
\<close>

section \<open>Walks\<close>

fun tree_walk :: "(nat \<Rightarrow> elem \<Rightarrow> (int \<times> string) option) \<Rightarrow> nat \<Rightarrow> elem list \<Rightarrow> (int \<times> string) option" where
  "tree_walk v lv [] = Some (0, [])"
| "tree_walk v lv (Elem nm ps ts # es) = do {
     (ret, out) \<leftarrow> v lv (Elem nm ps ts);
     if ret \<noteq> 0 then Some (ret, out)
     else do {
       (ret, below) \<leftarrow> tree_walk v (lv + 1) ts;
       if ret \<noteq> 0 then Some (ret, out @ below)
       else do { (ret, after) \<leftarrow> tree_walk v lv es; Some (ret, out @ below @ after) }
     }
   }"

text \<open>An element and the nodes that follow it below the same parent, or a root.\<close>

definition follow :: "('x, 'n, 'd) libxml \<Rightarrow> ('x \<Rightarrow> 'n \<Rightarrow> 'n list) \<Rightarrow> 'x \<Rightarrow> 'n ptree \<Rightarrow> 'n ptree list \<Rightarrow> bool" where
  "follow L sub x t us \<longleftrightarrow> (\<exists>p as. xml_valid L x p \<and> sub x p = as @ pt_node t # map pt_node us)
     \<or> us = [] \<and> (\<exists>d. xmlDocGetRootElement L x d = Some (pt_node t))"

lemma follow_later: "follow L sub x t (us @ u # vs) \<Longrightarrow> follow L sub x u vs"
  unfolding follow_def by simp (metis append.assoc append_Cons)

lemma split_first:
  assumes "filter P xs = y # ys"
  obtains as bs where "xs = as @ y # bs" "ys = filter P bs" "find P xs = Some y" "P y" "\<forall>a \<in> set as. \<not> P a"
proof -
  obtain as bs where *: "xs = as @ y # bs" "\<forall>a \<in> set as. \<not> P a" "P y" "ys = filter P bs"
    using assms by (auto simp: filter_eq_Cons_iff)
  then have "find P xs = Some y" by (induction as arbitrary: xs) auto
  then show thesis using that * by blast
qed

lemma find_map_node:
  assumes "\<forall>u \<in> set us. is_element L x (pt_node u) = pt_elem u"
  shows "find (is_element L x) (map pt_node us) = map_option pt_node (find pt_elem us)"
  using assms by (induction us) auto

lemma xshape_elem: "xshape L sub x t \<Longrightarrow> is_element L x (pt_node t) = pt_elem t"
  by (cases t) simp

context libxml_laws
begin

lemma next_followed:
  assumes "wf x" "follow L sub x t us" "\<forall>u \<in> set us. xshape L sub x u"
  shows "xmlNextElementSibling L x (pt_node t) = map_option pt_node (find pt_elem us)"
  using assms(2) unfolding follow_def
proof (elim disjE exE conjE)
  fix p as assume "xml_valid L x p" "sub x p = as @ pt_node t # map pt_node us"
  then have "xmlNextElementSibling L x (pt_node t) = find (is_element L x) (map pt_node us)"
    by (rule next_element [OF assms(1)])
  then show ?thesis
    using find_map_node [of us L x] assms(3) xshape_elem by metis
next
  fix d assume "us = []" "xmlDocGetRootElement L x d = Some (pt_node t)"
  then show ?thesis using root_alone [OF assms(1)] by simp
qed

lemma first_below:
  assumes "wf x" "xshape L sub x t"
  shows "xmlFirstElementChild L x (pt_node t) = map_option pt_node (find pt_elem (pt_subs t))"
proof -
  have "xml_valid L x (pt_node t)" "sub x (pt_node t) = map pt_node (pt_subs t)" "\<forall>u \<in> set (pt_subs t). xshape L sub x u"
    using assms(2) by (cases t; simp add: list_all_iff)+
  then show ?thesis
    using first_element [OF assms(1)] find_map_node [of "pt_subs t" L x] xshape_elem by metis
qed

lemma below_followed:
  assumes "xshape L sub x t" "pt_subs t = as @ u # us"
  shows "follow L sub x u us"
  using assms by (cases t) (auto simp: follow_def)

end

locale element_walk = libxml_laws L wf sub
  for L :: "('x, 'n, 'd) libxml" and wf :: "'x \<Rightarrow> bool" and sub :: "'x \<Rightarrow> 'n \<Rightarrow> 'n list" +
  fixes x :: 'x
    and visit :: "nat \<Rightarrow> 'n \<Rightarrow> (int \<times> string) option"
    and tree_visit :: "nat \<Rightarrow> elem \<Rightarrow> (int \<times> string) option"
    and walk :: "nat \<Rightarrow> 'n \<Rightarrow> (int \<times> string) option"
  assumes sound: "wf x"
    and walk_eq: "walk lv n = do {
        (ret, out) \<leftarrow> visit lv n;
        if ret \<noteq> 0 then Some (ret, out)
        else do {
          (ret, below) \<leftarrow> (case xmlFirstElementChild L x n of None \<Rightarrow> Some (0, []) | Some c \<Rightarrow> walk (lv + 1) c);
          if ret \<noteq> 0 then Some (ret, out @ below)
          else do {
            (ret, after) \<leftarrow> (case xmlNextElementSibling L x n of None \<Rightarrow> Some (0, []) | Some m \<Rightarrow> walk lv m);
            Some (ret, out @ below @ after)
          }
        }
      }"
    and visit_eq: "xshape L sub x t \<Longrightarrow> pt_elem t \<Longrightarrow> visit lv (pt_node t) = tree_visit lv (erase t)"
begin

lemma walk_tree:
  assumes "\<forall>u \<in> set (t # us). xshape L sub x u" "pt_elem t" "follow L sub x t us"
  shows "walk lv (pt_node t) = tree_walk tree_visit lv (map erase (t # filter pt_elem us))"
  using assms
proof (induction "length (concat (map pt_nodes (t # us)))" arbitrary: t us lv rule: less_induct)
  case less
  obtain n nm ps ts where t: "t = PT n True nm ps ts"
    using less.prems(2) by (cases t) auto
  have sh: "xshape L sub x t" and ts: "\<forall>u \<in> set ts. xshape L sub x u"
    using less.prems(1) by (auto simp: t list_all_iff)
  have below: "(case map_option pt_node (find pt_elem ts) of None \<Rightarrow> Some (0, []) | Some c \<Rightarrow> walk (lv + 1) c)
      = tree_walk tree_visit (lv + 1) (map erase (filter pt_elem ts))"
  proof (cases "filter pt_elem ts")
    case Nil
    then have "find pt_elem ts = None" by (auto simp: find_None_iff filter_empty_conv)
    then show ?thesis using Nil by simp
  next
    case (Cons u vs)
    obtain as bs where ab: "ts = as @ u # bs" "vs = filter pt_elem bs" "find pt_elem ts = Some u" "pt_elem u"
      using split_first [OF Cons] by metis
    have "walk (lv + 1) (pt_node u) = tree_walk tree_visit (lv + 1) (map erase (u # filter pt_elem bs))"
      by (rule less.hyps) (use ab ts below_followed [OF sh, of as u bs] in \<open>auto simp: t\<close>)
    then show ?thesis using ab Cons by simp
  qed
  have after: "(case map_option pt_node (find pt_elem us) of None \<Rightarrow> Some (0, []) | Some c \<Rightarrow> walk lv c)
      = tree_walk tree_visit lv (map erase (filter pt_elem us))"
  proof (cases "filter pt_elem us")
    case Nil
    then have "find pt_elem us = None" by (auto simp: find_None_iff filter_empty_conv)
    then show ?thesis using Nil by simp
  next
    case (Cons u vs)
    obtain as bs where ab: "us = as @ u # bs" "vs = filter pt_elem bs" "find pt_elem us = Some u" "pt_elem u"
      using split_first [OF Cons] by metis
    have "walk lv (pt_node u) = tree_walk tree_visit lv (map erase (u # filter pt_elem bs))"
      by (rule less.hyps) (use ab less.prems follow_later [of L sub x t as u bs] in \<open>auto simp: t\<close>)
    then show ?thesis using ab Cons by simp
  qed
  have nx: "xmlNextElementSibling L x n = map_option pt_node (find pt_elem us)"
    using next_followed [OF sound less.prems(3)] less.prems(1) by (simp add: t)
  have fc: "xmlFirstElementChild L x n = map_option pt_node (find pt_elem ts)"
    using first_below [OF sound sh] by (simp add: t)
  have v: "visit lv n = tree_visit lv (erase t)"
    using visit_eq [OF sh less.prems(2)] by (simp add: t)
  show ?case
    using walk_eq [of lv n, unfolded nx fc below after v] by (simp add: t)
qed

text \<open>A whole document.\<close>

lemma walk_root:
  assumes "xmlDocGetRootElement L x d = Some (pt_node t)" "xshape L sub x t"
  shows "walk lv (pt_node t) = tree_walk tree_visit lv [erase t]"
proof -
  have "pt_elem t" using root_alone [OF sound assms(1)] xshape_elem [OF assms(2)] by simp
  then show ?thesis
    using walk_tree [of t "[]" lv] assms by (auto simp: follow_def)
qed

end

section \<open>Verifying and printing trees\<close>

text \<open>What the functions for one element read, for an element of a tree.\<close>

definition elem_lib :: "(unit, elem, unit) libxml" where
  "elem_lib = \<lparr>
     xml_valid = (\<lambda>_ _. True), node_name = (\<lambda>_. el_name), is_element = (\<lambda>_ _. True),
     node_children = (\<lambda>_ e. hd_opt (el_subs e)), node_next = (\<lambda>_ _. None),
     xmlGetProp = (\<lambda>_. el_props), xmlHasProp = (\<lambda>_ e k. el_props e k \<noteq> None),
     xmlFirstElementChild = (\<lambda>_ e. hd_opt (el_subs e)), xmlNextElementSibling = (\<lambda>_ _. None),
     xmlNewChild = (\<lambda>_ _ _. (None, ())), xmlNewProp = (\<lambda>_ _ _ _. (False, ())), xmlNewDoc = (\<lambda>_. (None, ())),
     xmlNewNode = (\<lambda>_ _. (None, ())), xmlDocSetRootElement = (\<lambda>_ _ _. ()), xmlDocGetRootElement = (\<lambda>_ _. None),
     xmlUnlinkNode = (\<lambda>_ _. ()), xmlFreeNode = (\<lambda>_ _. ()), xmlFreeDoc = (\<lambda>_ _. ()), xmlReadFile = (\<lambda>_ _. (None, ())),
     xmlDocDump = (\<lambda>_ _. None), xmlNewValidCtxt = False, xmlNewDtd = False, xmlNewDocElementContent = (\<lambda>_. False),
     xmlAddAttributeDecl = (\<lambda>_ _ _. False), xmlValidateDtd = (\<lambda>_ _ _. 0)\<rparr>"

lemma elem_lib_reads [simp]: "node_name elem_lib u e = el_name e" "xmlGetProp elem_lib u e = el_props e"
  "xmlHasProp elem_lib u e k \<longleftrightarrow> el_props e k \<noteq> None"
  by (simp_all add: elem_lib_def)

abbreviation verify_one :: "elem \<Rightarrow> int" where "verify_one \<equiv> verify_prop elem_lib ()"

abbreviation print_one :: "elem \<Rightarrow> int \<times> string" where "print_one \<equiv> print_prop elem_lib ()"

definition verify_tree :: "elem \<Rightarrow> int option" where
  "verify_tree e = map_option fst (tree_walk (\<lambda>lv e. Some (verify_one e, [])) 0 [e])"

definition print_visit :: "nat \<Rightarrow> elem \<Rightarrow> (int \<times> string) option" where
  "print_visit lv e =
     (if 256 < 4 * lv + 1 then None
      else let (ret, out) = print_then (0, replicate (4 * lv) CHR '' '' @ el_name e) (print_one e) in
        Some (ret, if ret \<noteq> 0 then out else out @ [CHR 0x0A]))"

definition print_tree :: "elem \<Rightarrow> (int \<times> string) option" where
  "print_tree e = tree_walk print_visit 0 [e]"

lemma sizes_verify_reads:
  "xmlGetProp L x n = xmlGetProp L' x' n' \<Longrightarrow> sizes_verify L x n ks = sizes_verify L' x' n' ks"
  by (induction ks) (simp_all split: option.split)

lemma verify_loop_reads:
  assumes "node_name L x n = node_name L' x' n'" "xmlGetProp L x n = xmlGetProp L' x' n'"
  shows "verify_loop L x n rs = verify_loop L' x' n' rs"
proof -
  have p: "map_option (\<lambda>f. f x n) (prop_verify L l) = map_option (\<lambda>f. f x' n') (prop_verify L' l)" for l
    using sizes_verify_reads [OF assms(2)] assms(2)
    by (cases l) (simp_all add: prop_verify_def numa_prop_verify_def core_prop_verify_def irq_prop_verify_def
        pci_prop_verify_def smmu_prop_verify_def num_verify_def)
  show ?thesis
  proof (induction rs)
    case (Cons r rs)
    obtain nm h l where r: "r = (nm, h, l)" by (cases r)
    show ?case
      using p [of l] Cons by (cases "prop_verify L l"; cases "prop_verify L' l") (simp_all add: r assms)
  qed simp
qed

lemma print_prop_list_reads:
  assumes "node_name L x n = node_name L' x' n'" "xmlGetProp L x n = xmlGetProp L' x' n'"
  shows "print_prop_list L x n ks = print_prop_list L' x' n' ks"
  using assms by (induction ks) (simp_all split: option.split)

lemma print_prop_loop_reads:
  assumes "node_name L x n = node_name L' x' n'" "xmlGetProp L x n = xmlGetProp L' x' n'"
  shows "print_prop_loop L x n rs ret = print_prop_loop L' x' n' rs ret"
proof -
  have i: "print_index L x n = print_index L' x' n'"
    using assms by (simp add: print_index_def split: option.split)
  have p: "map_option (\<lambda>f. f x n) (prop_print L l) = map_option (\<lambda>f. f x' n') (prop_print L' l)" for l
    using print_prop_list_reads [OF assms]
    by (cases l) (simp_all add: prop_print_def numa_prop_print_def core_prop_print_def irq_prop_print_def
        pci_prop_print_def smmu_prop_print_def del: print_prop_list.simps)
  show ?thesis
  proof (induction rs arbitrary: ret)
    case (Cons r rs)
    obtain nm h l where r: "r = (nm, h, l)" by (cases r)
    show ?case
      using p [of l] Cons by (cases "prop_print L l"; cases "prop_print L' l") (simp_all add: r i assms split: prod.split)
  qed simp
qed

lemma xshape_reads: "xshape L sub x t \<Longrightarrow> node_name L x (pt_node t) = el_name (erase t)
    \<and> xmlGetProp L x (pt_node t) = el_props (erase t)"
  by (cases t) simp

locale sound_doc = libxml_laws L wf sub
  for L :: "('x, 'n, 'd) libxml" and wf :: "'x \<Rightarrow> bool" and sub :: "'x \<Rightarrow> 'n \<Rightarrow> 'n list" +
  fixes x :: 'x
  assumes sound: "wf x"
begin

lemma verify_reads: "xshape L sub x t \<Longrightarrow> verify_prop L x (pt_node t) = verify_one (erase t)"
proof -
  assume t: "xshape L sub x t"
  then have "xml_valid L x (pt_node t)" by (cases t) simp
  then show ?thesis
    using xshape_reads [OF t] has_prop [OF sound] verify_loop_reads [of L x "pt_node t" elem_lib "()" "erase t"]
    by (simp add: verify_prop_def split: option.split)
qed

lemma print_reads: "xshape L sub x t \<Longrightarrow> print_prop L x (pt_node t) = print_one (erase t)"
  using xshape_reads [of L sub x t] print_prop_loop_reads [of L x "pt_node t" elem_lib "()" "erase t"]
  by (simp add: print_prop_def)

end

sublocale sound_doc \<subseteq> verifying: element_walk L wf sub x "\<lambda>lv n. Some (verify_prop L x n, [])"
  "\<lambda>lv e. Some (verify_one e, [])" "\<lambda>lv n. map_option (\<lambda>r. (r, [])) (verify_topo_value L x n)"
proof unfold_locales
  show "map_option (\<lambda>r. (r, [])) (verify_topo_value L x n) = do {
      (ret, out) \<leftarrow> Some (verify_prop L x n, []);
      if ret \<noteq> 0 then Some (ret, out)
      else do {
        (ret, below) \<leftarrow> (case xmlFirstElementChild L x n of None \<Rightarrow> Some (0, [])
          | Some c \<Rightarrow> map_option (\<lambda>r. (r, [])) (verify_topo_value L x c));
        if ret \<noteq> 0 then Some (ret, out @ below)
        else do {
          (ret, after) \<leftarrow> (case xmlNextElementSibling L x n of None \<Rightarrow> Some (0, [])
            | Some m \<Rightarrow> map_option (\<lambda>r. (r, [])) (verify_topo_value L x m));
          Some (ret, out @ below @ after)
        }
      }
    }" for n
    by (subst verify_topo_value.simps) (auto simp: Let_def split: option.splits Option.bind_splits)
qed (use sound verify_reads in auto)

sublocale sound_doc \<subseteq> printing: element_walk L wf sub x "\<lambda>lv n. if 256 < 4 * lv + 1 then None else
    (let (ret, out) = print_then (0, replicate (4 * lv) CHR '' '' @ node_name L x n) (print_prop L x n) in
      Some (ret, if ret \<noteq> 0 then out else out @ [CHR 0x0A]))"
  print_visit "print_topo_info L x"
proof unfold_locales
  fix lv n
  show "print_topo_info L x lv n = do {
      (ret, out) \<leftarrow> (if 256 < 4 * lv + 1 then None else
        (let (ret, out) = print_then (0, replicate (4 * lv) CHR '' '' @ node_name L x n) (print_prop L x n) in
          Some (ret, if ret \<noteq> 0 then out else out @ [CHR 0x0A])));
      if ret \<noteq> 0 then Some (ret, out)
      else do {
        (ret, below) \<leftarrow> (case xmlFirstElementChild L x n of None \<Rightarrow> Some (0, []) | Some c \<Rightarrow> print_topo_info L x (lv + 1) c);
        if ret \<noteq> 0 then Some (ret, out @ below)
        else do {
          (ret, after) \<leftarrow> (case xmlNextElementSibling L x n of None \<Rightarrow> Some (0, []) | Some m \<Rightarrow> print_topo_info L x lv m);
          Some (ret, out @ below @ after)
        }
      }
    }"
    by (subst print_topo_info.simps) (auto simp: Let_def split: prod.splits intro!: Option.bind_cong)
next
  fix t lv assume "xshape L sub x t"
  then show "(if 256 < 4 * lv + 1 then None else
      (let (ret, out) = print_then (0, replicate (4 * lv) CHR '' '' @ node_name L x (pt_node t)) (print_prop L x (pt_node t)) in
        Some (ret, if ret \<noteq> 0 then out else out @ [CHR 0x0A]))) = print_visit lv (erase t)"
    using xshape_reads [of L sub x t] print_reads [of t] by (simp add: print_visit_def)
qed (rule sound)

context sound_doc
begin

lemmas printed_root = printing.walk_root

lemma verified_root:
  assumes "xmlDocGetRootElement L x d = Some (pt_node t)" "xshape L sub x t"
  shows "verify_topo_value L x (pt_node t) = verify_tree (erase t)"
proof -
  have "map_option fst (map_option (\<lambda>r. (r, [] :: string)) (verify_topo_value L x (pt_node t))) = verify_tree (erase t)"
    using verifying.walk_root [OF assms, of 0] by (simp add: verify_tree_def)
  then show ?thesis by (simp add: option.map_comp comp_def option.map_ident)
qed

end

interpretation sample_sound: sound_doc "table_lib dtd files" tb_wf tb_sub "info_xml info_start"
  by unfold_locales (rule info_start_ok)

end
