(* ===== verification/InfoFiles.thy ===== *)
theory InfoFiles
  imports InfoWalk
begin

text \<open>
  Searching and pruning documents: \<^verbatim>\<open>xml_find_node\<close> returns the first element of a name in document order, and
  \<^verbatim>\<open>xml_delete_special_node\<close> takes all elements of a name out of a document, or follows a freed pointer when the root
  has that name.
\<close>

section \<open>The first element of a name\<close>

fun find_pt :: "string \<Rightarrow> 'n ptree list \<Rightarrow> 'n option" where
  "find_pt name [] = None"
| "find_pt name (PT n el nm ps ts # us) =
     (if el \<and> nm = name then Some n
      else case find_pt name ts of Some m \<Rightarrow> Some m | None \<Rightarrow> find_pt name us)"

context libxml_laws
begin

lemma find_misc: "misc_after L sub x n bs \<Longrightarrow> wf x \<Longrightarrow> xml_find_node L x (node_next L x n) name = Some None"
proof (induction bs arbitrary: n)
  case Nil
  then show ?case by (subst xml_find_node.simps) simp
next
  case (Cons b bs)
  have "node_children L x b = None"
    using children [OF Cons.prems(2)] Cons.prems(1) by simp
  moreover have "xml_find_node L x None name = Some None"
    by (subst xml_find_node.simps) simp
  ultimately show ?case
    using Cons by (subst xml_find_node.simps) simp
qed

lemma find_below:
  assumes "wf x" "xml_valid L x p" "sub x p = as @ map pt_node us" "\<forall>u \<in> set us. xshape L sub x u"
  shows "xml_find_node L x (hd_opt (map pt_node us)) name = Some (find_pt name us)"
  using assms(2-)
proof (induction name us arbitrary: p as rule: find_pt.induct)
  case (1 name)
  show ?case by (subst xml_find_node.simps) simp
next
  case (2 name n el nm ps ts us)
  have n: "xml_valid L x n" "is_element L x n = el" "node_name L x n = nm" "sub x n = [] @ map pt_node ts"
      "\<forall>u \<in> set ts. xshape L sub x u"
    using 2(5) by (auto simp: list_all_iff)
  have down: "node_children L x n = hd_opt (map pt_node ts)"
    using children [OF assms(1) n(1)] n(4) by simp
  have nxt: "node_next L x n = hd_opt (map pt_node us)"
    using next_node [OF assms(1) 2(3)] 2(4) by simp
  have "el \<and> nm = name \<or> xml_find_node L x (hd_opt (map pt_node ts)) name = Some (find_pt name ts)"
    using 2(1) n by blast
  moreover have "el \<and> nm = name \<or> find_pt name ts \<noteq> None \<or> xml_find_node L x (hd_opt (map pt_node us)) name = Some (find_pt name us)"
    using 2(2) [of p "as @ [n]"] 2(3,4,5) by auto
  ultimately show ?case
    by (subst xml_find_node.simps) (auto simp: n down nxt split: option.splits)
qed

lemma find_root:
  assumes "wf x" "xmlDocGetRootElement L x d = Some (pt_node t)" "xshape L sub x t"
  shows "xml_find_node L x (Some (pt_node t)) name = Some (find_pt name [t])"
proof -
  obtain n el nm ps ts where t: "t = PT n el nm ps ts" by (cases t)
  have n: "xml_valid L x n" "is_element L x n = el" "node_name L x n = nm" "sub x n = [] @ map pt_node ts"
      "\<forall>u \<in> set ts. xshape L sub x u"
    using assms(3) by (auto simp: t list_all_iff)
  have "node_children L x n = hd_opt (map pt_node ts)"
    using children [OF assms(1) n(1)] n(4) by simp
  moreover obtain bs where "misc_after L sub x n bs"
    using root_alone [OF assms(1,2)] by (auto simp: t)
  then have "xml_find_node L x (node_next L x n) name = Some None"
    by (rule find_misc [OF _ assms(1)])
  ultimately show ?thesis
    using find_below [OF assms(1) n(1,4,5), of name]
    by (subst xml_find_node.simps) (auto simp: n t split: option.splits)
qed

end

section \<open>Deleting elements\<close>

text \<open>The tree without the node \<open>a\<close>, and without all elements of a name.\<close>

fun drop_node :: "'n \<Rightarrow> 'n ptree \<Rightarrow> 'n ptree" where
  "drop_node a (PT n el nm ps ts) = PT n el nm ps (map (drop_node a) (filter (\<lambda>t. pt_node t \<noteq> a) ts))"

fun prune :: "string \<Rightarrow> elem \<Rightarrow> elem" where
  "prune name (Elem nm ps ts) = Elem nm ps (map (prune name) (filter (\<lambda>t. el_name t \<noteq> name) ts))"

fun has_name :: "string \<Rightarrow> elem \<Rightarrow> bool" where
  "has_name name (Elem nm ps ts) \<longleftrightarrow> nm = name \<or> (\<exists>t \<in> set ts. has_name name t)"

text \<open>Only elements have nodes below them, and those of the names \<open>E\<close> have none, not even white space.\<close>

fun bare :: "string list \<Rightarrow> 'n ptree \<Rightarrow> bool" where
  "bare E (PT n el nm ps ts) \<longleftrightarrow> (el \<and> nm \<notin> set E \<or> ts = []) \<and> (\<forall>t \<in> set ts. bare E t)"

lemma bare_cut: "bare E t \<Longrightarrow> bare E (drop_node a t)"
  by (induction t) auto

lemma prune_none: "\<not> has_name name e \<Longrightarrow> prune name e = e"
proof (induction e)
  case (Elem nm ps ts)
  have "\<not> has_name name t \<and> el_name t \<noteq> name" if "t \<in> set ts" for t
    using Elem.prems that by (cases t) auto
  then show ?case
    using Elem.IH by (simp add: filter_True map_idI)
qed

lemma prune_names: "el_name e \<noteq> name \<Longrightarrow> \<not> has_name name (prune name e)"
proof (induction e)
  case (Elem nm ps ts)
  then show ?case by auto
qed

lemma cut_reads [simp]: "pt_node (drop_node a t) = pt_node t" "pt_elem (drop_node a t) = pt_elem t" "el_name (erase (drop_node a t)) = el_name (erase t)"
  by (cases t; simp)+

lemma filter_cut: "filter pt_elem (map (drop_node a) us) = map (drop_node a) (filter pt_elem us)"
  by (induction us) auto

lemma prune_cut:
  assumes "xshape L sub x t" "is_element L x a" "node_name L x a = name"
  shows "prune name (erase (drop_node a t)) = prune name (erase t)"
  using assms(1)
proof (induction t)
  case (PT n el nm ps ts)
  have "map (prune name) (filter (\<lambda>e. el_name e \<noteq> name) (map erase (filter pt_elem (map (drop_node a) (filter (\<lambda>t. pt_node t \<noteq> a) us)))))
      = map (prune name) (filter (\<lambda>e. el_name e \<noteq> name) (map erase (filter pt_elem us)))" if "set us \<subseteq> set ts" for us
    using that
  proof (induction us)
    case (Cons u us)
    have u: "xshape L sub x u" "prune name (erase (drop_node a u)) = prune name (erase u)"
      using Cons.prems PT.prems PT.IH [of u] by (auto simp: list_all_iff)
    have "pt_node u = a \<Longrightarrow> pt_elem u \<and> el_name (erase u) = name"
      using xshape_elem [OF u(1)] xshape_reads [OF u(1)] assms(2,3) by simp
    then show ?case
      using Cons u by auto
  qed simp
  then show ?case by simp
qed

lemma find_pt_named:
  assumes "find_pt name us = Some a" "\<forall>u \<in> set us. xshape L sub x u"
  shows "is_element L x a \<and> node_name L x a = name \<and> a \<in> set (concat (map pt_nodes us))"
  using assms
proof (induction name us rule: find_pt.induct)
  case (2 name n el nm ps ts us)
  then show ?case
    by (cases "find_pt name ts") (auto simp: list_all_iff split: if_splits)
qed simp

lemma find_pt_none: "find_pt name us = None \<Longrightarrow> \<forall>u \<in> set us. pt_elem u \<longrightarrow> \<not> has_name name (erase u)"
  by (induction name us rule: find_pt.induct) (auto split: if_splits option.splits)

lemma cut_nodes_le: "length (pt_nodes (drop_node a t)) \<le> length (pt_nodes t)"
proof (induction t)
  case (PT n el nm ps ts)
  have "length (concat (map pt_nodes (map (drop_node a) (filter (\<lambda>t. pt_node t \<noteq> a) us)))) \<le> length (concat (map pt_nodes us))"
    if "set us \<subseteq> set ts" for us
    using that
  proof (induction us)
    case (Cons u us)
    then show ?case using PT.IH [of u] by auto
  qed simp
  then show ?case by simp
qed

lemma cut_nodes_less: "a \<in> set (pt_nodes t) \<Longrightarrow> a \<noteq> pt_node t \<Longrightarrow> length (pt_nodes (drop_node a t)) < length (pt_nodes t)"
proof (induction t)
  case (PT n el nm ps ts)
  have "length (concat (map pt_nodes (map (drop_node a) (filter (\<lambda>t. pt_node t \<noteq> a) us)))) < length (concat (map pt_nodes us))"
    if "set us \<subseteq> set ts" "a \<in> set (concat (map pt_nodes us))" for us
    using that
  proof (induction us)
    case (Cons u us)
    have u: "0 < length (pt_nodes u)" "a \<in> set (pt_nodes u) \<Longrightarrow> a \<noteq> pt_node u \<Longrightarrow> length (pt_nodes (drop_node a u)) < length (pt_nodes u)"
      using Cons.prems PT.IH [of u] by (cases u; simp)+
    have rest: "length (concat (map pt_nodes (map (drop_node a) (filter (\<lambda>t. pt_node t \<noteq> a) us)))) \<le> length (concat (map pt_nodes us))"
    proof (induction us)
      case (Cons v vs)
      then show ?case using cut_nodes_le [of a v] by simp
    qed simp
    show ?case
      using u rest Cons cut_nodes_le [of a u] by (cases "a \<in> set (pt_nodes u)") (auto simp flip: length_greater_0_conv)
  qed simp
  then show ?case using PT.prems by simp
qed

lemma cut_nodes_sub: "set (pt_nodes (drop_node a t)) \<subseteq> set (pt_nodes t)"
  by (induction t) auto

lemma cut_distinct: "distinct (pt_nodes t) \<Longrightarrow> distinct (pt_nodes (drop_node a t))"
proof (induction t)
  case (PT n el nm ps ts)
  have "distinct (concat (map pt_nodes (map (drop_node a) (filter (\<lambda>t. pt_node t \<noteq> a) us))))
      \<and> set (concat (map pt_nodes (map (drop_node a) (filter (\<lambda>t. pt_node t \<noteq> a) us)))) \<subseteq> set (concat (map pt_nodes us))"
    if "set us \<subseteq> set ts" "distinct (concat (map pt_nodes us))" for us
    using that
  proof (induction us)
    case (Cons u us)
    then show ?case using PT.IH [of u] cut_nodes_sub [of a u] by (auto, blast)
  qed simp
  from this [of ts] show ?case using PT.prems by auto
qed

context libxml_laws
begin

abbreviation inside :: "'x \<Rightarrow> ('n \<times> 'n) set" where
  "inside x \<equiv> {(c, q). xml_valid L x q \<and> c \<in> set (sub x q)}"

lemma parent_in_tree:
  assumes "xshape L sub x t" "a \<in> set (pt_nodes t)" "a \<noteq> pt_node t"
  shows "\<exists>p. xml_valid L x p \<and> a \<in> set (sub x p)"
  using assms
proof (induction t)
  case (PT n el nm ps ts)
  then obtain u where u: "u \<in> set ts" "a \<in> set (pt_nodes u)" by auto
  show ?case
  proof (cases "a = pt_node u")
    case True
    then have "xml_valid L x n" "a \<in> set (sub x n)" using PT.prems(1) u by auto
    then show ?thesis by blast
  next
    case False
    then show ?thesis using PT.IH [OF u(1)] u PT.prems(1) by (auto simp: list_all_iff)
  qed
qed

text \<open>A node that is left after cutting \<open>a\<close> is below \<open>a\<close> only if the top of the tree is.\<close>

lemma left_outside:
  assumes wf: "wf x" and "xshape L sub x t" "m \<in> set (pt_nodes (drop_node a t))" "(m, a) \<in> (inside x)\<^sup>*"
  shows "(pt_node t, a) \<in> (inside x)\<^sup>*"
  using assms(2-)
proof (induction t)
  case (PT n el nm ps ts)
  show ?case
  proof (cases "m = n")
    case True
    then show ?thesis using PT.prems by simp
  next
    case False
    then obtain u where u: "u \<in> set ts" "pt_node u \<noteq> a" "m \<in> set (pt_nodes (drop_node a u))"
      using PT.prems(2) by auto
    then have "(pt_node u, a) \<in> (inside x)\<^sup>*"
      using PT.IH [OF u(1)] PT.prems by (auto simp: list_all_iff)
    then obtain q where q: "(pt_node u, q) \<in> inside x" "(q, a) \<in> (inside x)\<^sup>*"
      using u(2) by (meson converse_rtranclE)
    have "q = n"
      using one_parent [OF wf, of q n "pt_node u"] q(1) u(1) PT.prems(1) by auto
    then show ?thesis using q(2) by simp
  qed
qed

lemma shape_after_cut:
  assumes wf: "wf x" and p: "xml_valid L x p" "a \<in> set (sub x p)" and x': "x' = xmlFreeNode L (xmlUnlinkNode L x a) a"
    and t: "xshape L sub x t" and out: "\<forall>m \<in> set (pt_nodes (drop_node a t)). (m, a) \<notin> (inside x)\<^sup>*"
  shows "xshape L sub x' (drop_node a t)"
  using t out
proof (induction t)
  case (PT n el nm ps ts)
  note law = unlink_free [OF wf p x']
  have n: "xml_valid L x n" "sub x n = map pt_node ts" using PT.prems(1) by auto
  have "(n, a) \<notin> (inside x)\<^sup>*" using PT.prems(2) by simp
  then have v: "xml_valid L x' n" using law n(1) by blast
  have "sub x' n = filter (\<lambda>m. m \<noteq> a) (sub x n)"
  proof (cases "n = p")
    case True
    then show ?thesis using law sub_distinct [OF wf n(1)] by (auto simp: distinct_remove1_removeAll removeAll_filter_not_eq intro: filter_cong)
  next
    case False
    then have "a \<notin> set (sub x n)" using one_parent [OF wf n(1) p(1), of a] p(2) by blast
    then have "filter (\<lambda>m. m \<noteq> a) (sub x n) = sub x n" by (metis (mono_tags, lifting) filter_True)
    moreover have "sub x' n = sub x n" using law v False by blast
    ultimately show ?thesis by simp
  qed
  then have "sub x' n = map pt_node (map (drop_node a) (filter (\<lambda>t. pt_node t \<noteq> a) ts))"
    by (simp add: n(2) filter_map comp_def)
  moreover have "xshape L sub x' (drop_node a u)" if "u \<in> set ts" "pt_node u \<noteq> a" for u
    using PT.IH [OF that(1)] PT.prems that by (auto simp: list_all_iff)
  moreover have "same_node L x x' n" using law v by blast
  ultimately show ?case
    using v PT.prems(1) by (auto simp: same_node_def list_all_iff)
qed

text \<open>One round of the loop.\<close>

lemma delete_round:
  assumes wf: "wf x" and root: "xmlDocGetRootElement L x d = Some (pt_node t)" and t: "xshape L sub x t" "distinct (pt_nodes t)"
    and a: "find_pt name [t] = Some a" "a \<noteq> pt_node t" and x': "x' = xmlFreeNode L (xmlUnlinkNode L x a) a"
  shows "wf x'" "xmlDocGetRootElement L x' d = Some (pt_node (drop_node a t))" "xshape L sub x' (drop_node a t)"
    and "distinct (pt_nodes (drop_node a t))" "length (pt_nodes (drop_node a t)) < length (pt_nodes t)"
    and "prune name (erase (drop_node a t)) = prune name (erase t)"
proof -
  have e: "is_element L x a" "node_name L x a = name" "a \<in> set (pt_nodes t)"
    using find_pt_named [OF a(1), of L sub x] t(1) by auto
  obtain p where p: "xml_valid L x p" "a \<in> set (sub x p)"
    using parent_in_tree [OF t(1) e(3) a(2)] by blast
  note law = unlink_free [OF wf p x']
  have "(pt_node t, a) \<notin> (inside x)\<^sup>*"
  proof
    assume "(pt_node t, a) \<in> (inside x)\<^sup>*"
    then obtain q where "(pt_node t, q) \<in> inside x"
      using a(2) by (metis converse_rtranclE)
    then show False using root_alone [OF wf root] by auto
  qed
  then have "\<forall>m \<in> set (pt_nodes (drop_node a t)). (m, a) \<notin> (inside x)\<^sup>*"
    using left_outside [OF wf t(1)] by blast
  then show "xshape L sub x' (drop_node a t)"
    by (rule shape_after_cut [OF wf p x' t(1)])
  show "wf x'" "xmlDocGetRootElement L x' d = Some (pt_node (drop_node a t))"
    using law root by simp_all
  show "distinct (pt_nodes (drop_node a t))" "length (pt_nodes (drop_node a t)) < length (pt_nodes t)"
    "prune name (erase (drop_node a t)) = prune name (erase t)"
    using cut_distinct [OF t(2)] cut_nodes_less [OF e(3) a(2)] prune_cut [OF t(1) e(1,2)] by auto
qed

lemma delete_special:
  assumes "wf x" "xmlDocGetRootElement L x d = Some (pt_node t)" "xshape L sub x t" "distinct (pt_nodes t)"
    and "el_name (erase t) \<noteq> name"
  shows "\<exists>x' t'. delete_loop L x (Some (pt_node t)) name = Some x' \<and> wf x' \<and> pt_node t' = pt_node t
    \<and> xmlDocGetRootElement L x' d = Some (pt_node t') \<and> xshape L sub x' t' \<and> distinct (pt_nodes t')
    \<and> erase t' = prune name (erase t) \<and> (\<forall>E. bare E t \<longrightarrow> bare E t')"
  using assms
proof (induction "length (pt_nodes t)" arbitrary: x t rule: less_induct)
  case less
  have f: "xml_find_node L x (Some (pt_node t)) name = Some (find_pt name [t])"
    by (rule find_root [OF less.prems(1-3)])
  have elem: "pt_elem t"
    using root_alone [OF less.prems(1,2)] xshape_elem [OF less.prems(3)] by simp
  show ?case
  proof (cases "find_pt name [t]")
    case None
    then have "\<not> has_name name (erase t)" using find_pt_none [OF None] elem by simp
    then have "erase t = prune name (erase t)" by (simp add: prune_none)
    moreover have "delete_loop L x (Some (pt_node t)) name = Some x"
      using f None by (subst delete_loop.simps) simp
    ultimately show ?thesis using less.prems by blast
  next
    case (Some a)
    have "a \<noteq> pt_node t"
      using find_pt_named [OF Some, of L sub x] less.prems(3,5) xshape_reads [OF less.prems(3)] by auto
    note r = delete_round [OF less.prems(1-4) Some this refl]
    have "delete_loop L x (Some (pt_node t)) name
        = delete_loop L (xmlFreeNode L (xmlUnlinkNode L x a) a) (Some (pt_node (drop_node a t))) name"
      using f Some by (subst delete_loop.simps) simp
    then show ?thesis
      using less.hyps [OF r(5) r(1-4)] less.prems(5) r(6) bare_cut [of _ t a] by fastforce
  qed
qed

end

end
