(* ===== verification/InfoProps.thy ===== *)
theory InfoProps
  imports InfoFiles
begin

text \<open>
  What wayca-sc-info does with a document: the declarations it makes, which the document it builds satisfies; that
  a document that satisfies them is printed to its end; the whole program from the topology to its output; and
  what is left of a document that is read from a file.
\<close>

section \<open>The declarations\<close>

text \<open>All calls of libxml2 that build the DTD succeed.\<close>

definition dtd_built :: "('x, 'n, 'd) libxml \<Rightarrow> bool" where
  "dtd_built L \<longleftrightarrow> xmlNewValidCtxt L \<and> xmlNewDtd L \<and> (\<forall>n. xmlNewDocElementContent L n) \<and> (\<forall>dtd el a. xmlAddAttributeDecl L dtd el a)"

text \<open>The elements that may be below an element and the attributes it has.\<close>

definition below_names :: "string \<Rightarrow> string list" where
  "below_names nm = the (map_of [(''System'', [''Package'', ''Interrupt'']), (''Package'', [''NUMANode'']),
     (''NUMANode'', [''Cluster'', ''Core'', ''PCIDEV'', ''SMMUDEV'']), (''Cluster'', [''Core'']), (''Core'', [''CPU'']),
     (''CPU'', []), (''Interrupt'', [''IRQ'']), (''IRQ'', []), (''PCIDEV'', []), (''SMMUDEV'', [])] nm)"

definition attr_names :: "string \<Rightarrow> string list" where
  "attr_names nm = the (map_of [(''System'', []), (''Package'', [''index'', ''p_index'']),
     (''NUMANode'', [''mem_size'', ''L3_cache'', ''index'', ''p_index'']), (''Cluster'', [''index'', ''p_index'']),
     (''Core'', [''L2_cache'', ''L1i_cache'', ''L1d_cache'', ''index'', ''p_index'']), (''CPU'', [''index'', ''p_index'']),
     (''Interrupt'', []), (''IRQ'', [''irq_number'', ''name'', ''type'', ''chip_name'']),
     (''PCIDEV'', [''slot'', ''smmu_idx'', ''class_id'', ''vendor_id'', ''device_id'', ''irq_nr'']),
     (''SMMUDEV'', [''name'', ''smmu_idx'', ''base_addr'', ''modalias''])] nm)"

definition dtd_content :: "string \<Rightarrow> string list option" where
  "dtd_content nm = (case below_names nm of [] \<Rightarrow> None | ns \<Rightarrow> Some ns)"

definition topo_dtd :: "decl list" where
  "topo_dtd = concat (map (\<lambda>(nm, _, _). Elem_decl nm (dtd_content nm)
     # map (Attr_decl nm) (attr_names nm)) topo_elem)"

lemma format_loop_dtd: "dtd_built L \<Longrightarrow> format_loop L topo_elem [] = (0, topo_dtd)"
  by (simp add: topo_elem_def topo_dtd_def dtd_content_def below_names_def attr_names_def dtd_built_def format_def try_attr_def
      add_elem_formater_def add_attr_formater_def both_formats_def sys_format_def pkg_format_def numa_format_def
      ccl_format_def core_format_def cpu_format_def intr_format_def irq_format_def pci_dev_format_def smmu_dev_format_def)

text \<open>Validity as the XML standard defines it for these declarations: each element is declared, the elements below it are among
  those of its content, and it has exactly the declared attributes, all of which are required.\<close>

fun conforms :: "decl list \<Rightarrow> elem \<Rightarrow> bool" where
  "conforms dtd (Elem nm ps ts) \<longleftrightarrow>
     (\<exists>ns. Elem_decl nm ns \<in> set dtd \<and> (\<forall>t \<in> set ts. ns \<noteq> None \<and> el_name t \<in> set (the ns)))
     \<and> (\<forall>a. ps a \<noteq> None \<longleftrightarrow> Attr_decl nm a \<in> set dtd) \<and> (\<forall>t \<in> set ts. conforms dtd t)"

definition known_names :: "string list" where "known_names = map fst topo_elem"

lemma known_iff: "nm \<in> set known_names \<longleftrightarrow> (\<exists>h l. (nm, h, l) \<in> set topo_elem)"
  by (force simp: known_names_def)

lemma Elem_decl_dtd: "Elem_decl nm ns \<in> set topo_dtd \<longleftrightarrow>
    nm \<in> set known_names \<and> ns = dtd_content nm"
  by (auto simp: topo_dtd_def known_iff)

lemma Attr_decl_dtd: "Attr_decl nm a \<in> set topo_dtd \<longleftrightarrow> nm \<in> set known_names \<and> a \<in> set (attr_names nm)"
proof
  assume "Attr_decl nm a \<in> set topo_dtd"
  then show "nm \<in> set known_names \<and> a \<in> set (attr_names nm)"
    by (auto simp: topo_dtd_def known_iff)
next
  assume "nm \<in> set known_names \<and> a \<in> set (attr_names nm)"
  then obtain h l where "(nm, h, l) \<in> set topo_elem" "Attr_decl nm a \<in> Attr_decl nm ` set (attr_names nm)"
    by (auto simp: known_iff)
  then show "Attr_decl nm a \<in> set topo_dtd"
    by (force simp: topo_dtd_def simp del: image_iff)
qed

lemma conforms_dtd: "conforms topo_dtd (Elem nm ps ts) \<longleftrightarrow> nm \<in> set known_names
    \<and> (\<forall>t \<in> set ts. el_name t \<in> set (below_names nm) \<and> conforms topo_dtd t)
    \<and> (\<forall>a. ps a \<noteq> None \<longleftrightarrow> a \<in> set (attr_names nm))"
  by (auto simp: Elem_decl_dtd Attr_decl_dtd dtd_content_def split: list.splits)

declare conforms.simps [simp del]

lemma item_elem_name: "el_name (item_elem irq dev t qs k) = fst (item_leaf t k)"
  by (subst item_elem.simps) simp

lemma item_conforms: "item_ok irq t qs it \<Longrightarrow> conforms topo_dtd (item_elem irq dev t qs it)"
proof (induction "item_rank it" arbitrary: it rule: less_induct)
  case less
  have kids: "\<forall>k \<in> set (item_kids irq dev t qs it). conforms topo_dtd (item_elem irq dev t qs k)"
    using less.hyps item_kids_rank item_kids_ok [OF less.prems] by blast
  have names: "\<forall>k \<in> set (item_kids irq dev t qs it). fst (item_leaf t k) \<in> set (below_names (fst (item_leaf t it)))"
    by (cases it) (auto simp: below_names_def dev_item_def split: if_splits option.splits device_info.splits)
  have "fst (item_leaf t it) \<in> set known_names"
    by (cases it) (simp_all add: known_names_def topo_elem_def)
  moreover have "((snd (item_leaf t it) ++ item_attrs t qs it) a \<noteq> None)
      = (a \<in> set (attr_names (fst (item_leaf t it))))" for a
  proof (cases it)
    case (I_irq w)
    then obtain q where "find (\<lambda>q. irq_number q = w) qs = Some q"
      using less.prems by (cases "find (\<lambda>q. irq_number q = w) qs") (auto simp: find_None_iff)
    then show ?thesis using I_irq by (auto simp: attr_names_def irq_attrs_def)
  qed (use less.prems in \<open>auto simp: attr_names_def pci_attrs_def smmu_attrs_def split: if_splits\<close>)
  ultimately show ?case
    using kids names by (subst item_elem.simps) (simp add: conforms_dtd item_elem_name)
qed

text \<open>C20. The document built for a topology satisfies the declarations that \<^verbatim>\<open>validate_format\<close> makes: every element is
  declared, stands below an element that allows it and has exactly the attributes declared for it.\<close>

theorem built_document_conforms:
  assumes "item_ok irq t qs it" "dtd_built L"
  shows "fst (format_loop L topo_elem []) = 0 \<and> conforms (snd (format_loop L topo_elem [])) (item_elem irq dev t qs it)"
  using item_conforms [OF assms(1)] by (simp add: format_loop_dtd [OF assms(2)])

lemma built_document_conforms_witness:
  "fst (format_loop (info_lib info_sample) topo_elem []) = 0 \<and> conforms (snd (format_loop (info_lib info_sample) topo_elem []))
     (item_elem True True info_topo info_irqs I_sys)"
  by (rule built_document_conforms) (simp_all add: dtd_built_def info_sample_def table_lib_def)

section \<open>Printing\<close>

definition name_rank :: "string \<Rightarrow> nat" where
  "name_rank nm = the (map_of [(''System'', 5), (''Package'', 4), (''NUMANode'', 3), (''Cluster'', 2), (''Core'', 1),
     (''CPU'', 0), (''Interrupt'', 1), (''IRQ'', 0), (''PCIDEV'', 0), (''SMMUDEV'', 0)] nm)"

lemma known_cases:
  assumes "nm \<in> set known_names"
  shows "nm \<in> {''System'', ''Package'', ''NUMANode'', ''Cluster'', ''Core'', ''CPU'', ''Interrupt'', ''IRQ'', ''PCIDEV'', ''SMMUDEV''}"
  using assms by (simp add: known_names_def topo_elem_def)

lemma below_rank: "nm \<in> set known_names \<Longrightarrow> c \<in> set (below_names nm) \<Longrightarrow> name_rank c < name_rank nm"
  by (drule known_cases) (elim insertE; auto simp: below_names_def name_rank_def)

lemma name_rank_le: "nm \<in> set known_names \<Longrightarrow> name_rank nm \<le> 5"
  by (drule known_cases) (elim insertE; simp add: name_rank_def)

lemma print_prop_list_ok: "(\<forall>k \<in> set ks. el_props e k \<noteq> None) \<Longrightarrow> fst (print_prop_list elem_lib u e ks) = 0"
  by (induction ks) (auto simp: print_then_def)

lemma print_index_ok: "el_props e ''index'' \<noteq> None \<Longrightarrow> el_props e ''p_index'' \<noteq> None \<Longrightarrow> fst (print_index elem_lib u e) = 0"
  by (auto simp: print_index_def)

lemma print_one_ok:
  assumes "el_name e \<in> set known_names" "\<forall>a \<in> set (attr_names (el_name e)). el_props e a \<noteq> None"
  shows "fst (print_one e) = 0"
proof -
  have i: "fst (print_index elem_lib () e) = 0" if "''index'' \<in> set (attr_names (el_name e))" "''p_index'' \<in> set (attr_names (el_name e))"
    using assms(2) that by (intro print_index_ok) auto
  have l: "fst (print_prop_list elem_lib () e ks) = 0" if "set ks \<subseteq> set (attr_names (el_name e))" for ks
    using assms(2) that by (intro print_prop_list_ok) blast
  note defs = print_prop_def topo_elem_def prop_print_def numa_prop_print_def core_prop_print_def irq_prop_print_def
    pci_prop_print_def smmu_prop_print_def attr_names_def numa_prop_list_def core_prop_list_def
  show ?thesis
    using known_cases [OF assms(1)] i l [of numa_prop_list] l [of core_prop_list]
      l [of "[''irq_number'', ''type'', ''chip_name'', ''name'']"]
      l [of "[''slot'', ''smmu_idx'', ''class_id'', ''vendor_id'', ''device_id'', ''irq_nr'']"]
      l [of "[''name'', ''smmu_idx'', ''base_addr'', ''modalias'']"]
    by (elim insertE) (simp_all add: defs split_beta Let_def del: print_prop_list.simps)
qed

lemma conforms_printed:
  assumes "\<forall>e \<in> set es. conforms topo_dtd e \<and> lv + name_rank (el_name e) \<le> 5"
  shows "\<exists>out. tree_walk print_visit lv es = Some (0, out)"
  using assms
proof (induction print_visit lv es rule: tree_walk.induct)
  case (2 lv nm ps ts es)
  let ?e = "Elem nm ps ts"
  have c: "nm \<in> set known_names" "\<forall>t \<in> set ts. el_name t \<in> set (below_names nm) \<and> conforms topo_dtd t"
      "\<forall>a. ps a \<noteq> None \<longleftrightarrow> a \<in> set (attr_names nm)" "lv + name_rank nm \<le> 5"
    using 2(3) by (simp_all add: conforms_dtd)
  have "fst (print_one ?e) = 0"
    using print_one_ok [of ?e] c by simp
  then obtain out where v: "print_visit lv ?e = Some (0, out)"
    using c(4) by (auto simp: print_visit_def print_then_def Let_def split: prod.splits)
  have "\<forall>t \<in> set ts. conforms topo_dtd t \<and> (lv + 1) + name_rank (el_name t) \<le> 5"
    using below_rank [OF c(1)] c(2,4) by fastforce
  then obtain below where b: "tree_walk print_visit (lv + 1) ts = Some (0, below)"
    using 2(1) v by blast
  obtain after where "tree_walk print_visit lv es = Some (0, after)"
    using 2(2) v b 2(3) by fastforce
  then show ?case using v b by simp
qed simp

lemma document_printed:
  assumes "libxml_laws L W sub" "W x" "xmlDocGetRootElement L x d = Some (pt_node t)" "xshape L sub x t"
    and "conforms topo_dtd (erase t)"
  shows "\<exists>out. print_topo_info L x 0 (pt_node t) = Some (0, out) \<and> print_tree (erase t) = Some (0, out)"
proof -
  have "sound_doc L W sub x" using assms(1,2) by (simp add: sound_doc_def sound_doc_axioms_def)
  then have "print_topo_info L x 0 (pt_node t) = print_tree (erase t)"
    using sound_doc.printed_root assms(3,4) unfolding print_tree_def by metis
  moreover have "el_name (erase t) \<in> set known_names"
    using assms(5) by (cases "erase t") (simp add: conforms_dtd)
  then have "\<exists>out. print_tree (erase t) = Some (0, out)"
    using conforms_printed [of "[erase t]" 0] assms(5) name_rank_le by (simp add: print_tree_def)
  ultimately show ?thesis by auto
qed

text \<open>Every document that satisfies the declarations, built or read from a file, is printed to its end: the walk
  over it ends, the indentation fits its buffer, no attribute is missing, and the output is that of the recursion over the
  tree of elements.\<close>

theorem valid_document_printed:
  assumes "libxml_laws L W sub" "W x" "xmlDocGetRootElement L x d = Some (pt_node t)" "xshape L sub x t"
    and "conforms topo_dtd (erase t)"
  shows "\<exists>out. print_topo_info L x 0 (pt_node t) = Some (0, out) \<and> print_tree (erase t) = Some (0, out)"
  by (rule document_printed [OF assms])

text \<open>A small document as it is read from a file, with white space between the elements.\<close>

definition file_table :: table where
  "file_table = \<lparr>tb_cells = [0 \<mapsto> \<lparr>cl_elem = True, cl_name = ''System'', cl_props = [], cl_subs = [1]\<rparr>,
       1 \<mapsto> \<lparr>cl_elem = True, cl_name = ''Interrupt'', cl_props = [], cl_subs = [2, 3]\<rparr>,
       2 \<mapsto> \<lparr>cl_elem = False, cl_name = ''text'', cl_props = [], cl_subs = []\<rparr>,
       3 \<mapsto> \<lparr>cl_elem = True, cl_name = ''IRQ'',
         cl_props = [(''irq_number'', ''5''), (''name'', ''timer''), (''type'', ''Level''), (''chip_name'', ''GICv3'')], cl_subs = []\<rparr>],
     tb_next = 4, tb_docs = [0 \<mapsto> 0], tb_ndocs = 1\<rparr>"

definition file_tree :: "nat ptree" where
  "file_tree = PT 0 True ''System'' Map.empty [PT 1 True ''Interrupt'' Map.empty
     [PT 2 False ''text'' Map.empty [], PT 3 True ''IRQ''
       [''irq_number'' \<mapsto> ''5'', ''name'' \<mapsto> ''timer'', ''type'' \<mapsto> ''Level'', ''chip_name'' \<mapsto> ''GICv3''] []]]"

definition file_ctx :: "(table, nat, nat) info_ctx" where
  "file_ctx = info_sample\<lparr>info_lib := table_lib (\<lambda>_ _ _. 1) (\<lambda>_. Some 0), output_irq := False\<rparr>"

lemma file_wf: "tb_wf file_table"
  by (auto simp: tb_wf_def file_table_def tb_sub_def tb_elem_def split: if_splits)

lemma file_shape: "xshape (table_lib v r) tb_sub file_table file_tree"
  by (auto simp: file_tree_def file_table_def table_lib_def tb_sub_def tb_elem_def tb_prop_def fun_eq_iff)

lemma valid_document_printed_witness:
  "\<exists>out. print_topo_info (info_lib file_ctx) file_table 0 (pt_node file_tree) = Some (0, out)
     \<and> print_tree (erase file_tree) = Some (0, out)"
proof (rule valid_document_printed [of "info_lib file_ctx" tb_wf tb_sub file_table 0 file_tree])
  show "conforms topo_dtd (erase file_tree)"
    by (auto simp: file_tree_def conforms_dtd known_names_def topo_elem_def below_names_def attr_names_def)
qed (simp_all add: file_ctx_def tables.libxml_laws_axioms file_shape file_wf,
    simp add: table_lib_def file_table_def file_tree_def)

section \<open>Documents from files\<close>

definition filtered :: "bool \<Rightarrow> bool \<Rightarrow> elem \<Rightarrow> elem" where
  "filtered irq dev e = (let e = (if irq then e else prune ''IRQ'' e) in
     if dev then e else prune ''PCIDEV'' (prune ''SMMUDEV'' e))"

lemma prune_name [simp]: "el_name (prune name e) = el_name e"
  by (cases e) simp

text \<open>A document with what the program needs to know of it.\<close>

definition holds_doc :: "('x, 'n, 'd) libxml \<Rightarrow> ('x \<Rightarrow> bool) \<Rightarrow> ('x \<Rightarrow> 'n \<Rightarrow> 'n list) \<Rightarrow> 'x \<Rightarrow> 'd \<Rightarrow> 'n ptree \<Rightarrow> bool" where
  "holds_doc L W sub x d t \<longleftrightarrow> W x \<and> xmlDocGetRootElement L x d = Some (pt_node t) \<and> xshape L sub x t \<and> distinct (pt_nodes t)"

lemma holds_deleted:
  assumes "libxml_laws L W sub" "holds_doc L W sub x d t" "el_name (erase t) \<noteq> name"
  shows "\<exists>x' t'. xml_delete_special_node L x d name = Some x' \<and> holds_doc L W sub x' d t' \<and> erase t' = prune name (erase t)
    \<and> (\<forall>E. bare E t \<longrightarrow> bare E t')"
proof -
  have "\<exists>x' t'. delete_loop L x (Some (pt_node t)) name = Some x' \<and> W x' \<and> pt_node t' = pt_node t
    \<and> xmlDocGetRootElement L x' d = Some (pt_node t') \<and> xshape L sub x' t' \<and> distinct (pt_nodes t')
    \<and> erase t' = prune name (erase t) \<and> (\<forall>E. bare E t \<longrightarrow> bare E t')"
    using libxml_laws.delete_special [OF assms(1)] assms(2,3) by (simp add: holds_doc_def)
  then show ?thesis
    using assms(2) by (auto simp: holds_doc_def xml_delete_special_node_def)
qed

lemma import_holds:
  assumes laws: "libxml_laws (info_lib C) W sub" and read: "xmlReadFile (info_lib C) (info_xml s) f = (Some d, x)"
    and doc: "holds_doc (info_lib C) W sub x d t" and name: "el_name (erase t) \<notin> {''IRQ'', ''SMMUDEV'', ''PCIDEV''}"
  obtains x' t' where "xml_import_topo_info C f s = Some (0, Some d, s\<lparr>info_xml := x'\<rparr>)"
    "holds_doc (info_lib C) W sub x' d t'" "erase t' = filtered (output_irq C) (output_dev C) (erase t)" "\<forall>E. bare E t \<longrightarrow> bare E t'"
proof -
  let ?del = "xml_delete_special_node (info_lib C)"
  obtain x1 t1 where 1: "(if output_irq C then Some x else ?del x d ''IRQ'') = Some x1"
      "holds_doc (info_lib C) W sub x1 d t1" "erase t1 = (if output_irq C then erase t else prune ''IRQ'' (erase t))"
      "\<forall>E. bare E t \<longrightarrow> bare E t1"
    using holds_deleted [OF laws doc, of "''IRQ''"] doc name by (cases "output_irq C"; auto)
  have "el_name (erase t1) = el_name (erase t)" using 1(3) by simp
  then obtain x2 t2 where 2: "?del x1 d ''SMMUDEV'' = Some x2"
      "holds_doc (info_lib C) W sub x2 d t2" "erase t2 = prune ''SMMUDEV'' (erase t1)" "\<forall>E. bare E t1 \<longrightarrow> bare E t2"
    using holds_deleted [OF laws 1(2), of "''SMMUDEV''"] name by auto
  have "el_name (erase t2) = el_name (erase t)" using 1(3) 2(3) by simp
  then obtain x3 t3 where 3: "?del x2 d ''PCIDEV'' = Some x3"
      "holds_doc (info_lib C) W sub x3 d t3" "erase t3 = prune ''PCIDEV'' (erase t2)" "\<forall>E. bare E t2 \<longrightarrow> bare E t3"
    using holds_deleted [OF laws 2(2), of "''PCIDEV''"] name by auto
  have "if output_dev C then xml_import_topo_info C f s = Some (0, Some d, s\<lparr>info_xml := x1\<rparr>)
      else xml_import_topo_info C f s = Some (0, Some d, s\<lparr>info_xml := x3\<rparr>)"
    using 1(1) 2(1) 3(1) read by (simp add: xml_import_topo_info_def)
  then show thesis
    using that [of x1 t1] that [of x3 t3] 1 2 3 by (auto simp: filtered_def split: if_splits)
qed

text \<open>C22. A document read from a file comes out of the import, which ends, as the document without the interrupts unless
  they are asked for, and without the devices unless they are: each element of these names is gone with everything
  below it, and everything else is as it was.\<close>

theorem import_filters:
  assumes "libxml_laws (info_lib C) W sub" "xmlReadFile (info_lib C) (info_xml s) f = (Some d, x)"
    and "W x" "xmlDocGetRootElement (info_lib C) x d = Some (pt_node t)" "xshape (info_lib C) sub x t" "distinct (pt_nodes t)"
    and "el_name (erase t) \<notin> {''IRQ'', ''SMMUDEV'', ''PCIDEV''}"
  shows "\<exists>x' t'. xml_import_topo_info C f s = Some (0, Some d, s\<lparr>info_xml := x'\<rparr>) \<and> W x'
     \<and> xmlDocGetRootElement (info_lib C) x' d = Some (pt_node t') \<and> xshape (info_lib C) sub x' t'
     \<and> erase t' = filtered (output_irq C) (output_dev C) (erase t)"
proof -
  have "holds_doc (info_lib C) W sub x d t" using assms by (simp add: holds_doc_def)
  from import_holds [OF assms(1,2) this assms(7)] show ?thesis by (metis holds_doc_def)
qed

lemma import_filters_witness:
  "\<exists>x' t'. xml_import_topo_info file_ctx ''topo.xml'' (info_start\<lparr>info_xml := file_table\<rparr>)
       = Some (0, Some 0, info_start\<lparr>info_xml := x'\<rparr>) \<and> tb_wf x'
     \<and> xmlDocGetRootElement (info_lib file_ctx) x' 0 = Some (pt_node t') \<and> xshape (info_lib file_ctx) tb_sub x' t'
     \<and> erase t' = Elem ''System'' Map.empty [Elem ''Interrupt'' Map.empty []]"
proof -
  have "filtered (output_irq file_ctx) (output_dev file_ctx) (erase file_tree)
      = Elem ''System'' Map.empty [Elem ''Interrupt'' Map.empty []]"
    by (simp add: filtered_def file_ctx_def info_sample_def file_tree_def)
  moreover have "libxml_laws (info_lib file_ctx) tb_wf tb_sub"
    "xmlReadFile (info_lib file_ctx) file_table ''topo.xml'' = (Some 0, file_table)"
    "xmlDocGetRootElement (info_lib file_ctx) file_table 0 = Some (pt_node file_tree)"
    "xshape (info_lib file_ctx) tb_sub file_table file_tree"
    by (simp_all add: file_ctx_def tables.libxml_laws_axioms file_shape) (simp_all add: table_lib_def file_table_def file_tree_def)
  ultimately show ?thesis
    using import_filters [of file_ctx tb_wf tb_sub "info_start\<lparr>info_xml := file_table\<rparr>" "''topo.xml''" 0 file_table file_tree]
      file_wf by (simp add: file_tree_def)
qed

text \<open>When the root of the file has the name of the elements to be taken out, it is freed and the search goes on from
  the freed node.\<close>

theorem import_root_freed:
  assumes "libxml_laws (info_lib C) W sub" "xmlReadFile (info_lib C) (info_xml s) f = (Some d, x)"
    and "W x" "xmlDocGetRootElement (info_lib C) x d = Some r"
    and "\<not> output_irq C \<and> node_name (info_lib C) x r = ''IRQ''"
  shows "xml_import_topo_info C f s = None"
proof -
  let ?x = "xmlFreeNode (info_lib C) (xmlUnlinkNode (info_lib C) x r) r"
  have "is_element (info_lib C) x r" "xml_valid (info_lib C) x r"
    using libxml_laws.root_alone [OF assms(1,3,4)] by auto
  then have "xml_find_node (info_lib C) x (Some r) ''IRQ'' = Some (Some r)"
    using assms(5) by (subst xml_find_node.simps) simp
  moreover have "xml_find_node (info_lib C) ?x (Some r) ''IRQ'' = None"
    using libxml_laws.free_root [OF assms(1,3,4)] by (subst xml_find_node.simps) simp
  then have "delete_loop (info_lib C) ?x (Some r) ''IRQ'' = None"
    by (subst delete_loop.simps) simp
  ultimately have "delete_loop (info_lib C) x (Some r) ''IRQ'' = None"
    by (subst delete_loop.simps) simp
  then show ?thesis
    using assms(2,4,5) by (simp add: xml_import_topo_info_def xml_delete_special_node_def)
qed

definition irq_table :: table where
  "irq_table = \<lparr>tb_cells = [0 \<mapsto> \<lparr>cl_elem = True, cl_name = ''IRQ'', cl_props = [], cl_subs = []\<rparr>], tb_next = 1,
     tb_docs = [0 \<mapsto> 0], tb_ndocs = 1\<rparr>"

lemma import_root_freed_witness:
  "xml_import_topo_info file_ctx ''irq.xml'' (info_start\<lparr>info_xml := irq_table\<rparr>) = None"
proof (rule import_root_freed [of file_ctx tb_wf tb_sub _ _ 0 irq_table 0])
  show "tb_wf irq_table" by (auto simp: tb_wf_def irq_table_def tb_sub_def tb_elem_def split: if_splits)
qed (simp_all add: file_ctx_def info_sample_def tables.libxml_laws_axioms, simp_all add: table_lib_def irq_table_def)

section \<open>From the file back to the topology\<close>

lemma prune_both: "prune b (prune a (Elem nm ps ts))
    = Elem nm ps (map (\<lambda>t. prune b (prune a t)) (filter (\<lambda>t. el_name t \<noteq> a \<and> el_name t \<noteq> b) ts))"
  by (simp add: filter_map comp_def conj_commute)

lemma prune_irqs: "\<forall>n. it \<noteq> I_irq n \<Longrightarrow> prune ''IRQ'' (item_elem irq dev t qs it) = item_elem irq dev t [] it"
proof (induction "item_rank it" arbitrary: it rule: less_induct)
  case less
  have kid: "prune ''IRQ'' (item_elem irq dev t qs k) = item_elem irq dev t [] k"
    if "k \<in> set (item_kids irq dev t qs it)" "fst (item_leaf t k) \<noteq> ''IRQ''" for k
    by (rule less.hyps) (use that item_kids_rank in auto)
  have kids: "filter (\<lambda>k. fst (item_leaf t k) \<noteq> ''IRQ'') (item_kids irq dev t qs it) = item_kids irq dev t [] it"
    using less.prems by (cases it)
      (auto simp: filter_empty_conv dev_item_def comp_def intro!: filter_True split: option.splits device_info.splits)
  have attrs: "item_attrs t qs it = item_attrs t [] it"
    using less.prems by (cases it) auto
  have "map (\<lambda>k. prune ''IRQ'' (item_elem irq dev t qs k)) (filter (\<lambda>k. fst (item_leaf t k) \<noteq> ''IRQ'') (item_kids irq dev t qs it))
      = map (item_elem irq dev t []) (filter (\<lambda>k. fst (item_leaf t k) \<noteq> ''IRQ'') (item_kids irq dev t qs it))"
    using kid by simp
  then show ?case
    by (subst (1 2) item_elem.simps) (simp add: filter_map comp_def item_elem_name attrs kids)
qed

lemma prune_devices:
  assumes "\<forall>nm. it \<noteq> I_pci nm \<and> it \<noteq> I_smmu nm"
  shows "prune ''PCIDEV'' (prune ''SMMUDEV'' (item_elem irq True t qs it)) = item_elem irq False t qs it"
  using assms
proof (induction "item_rank it" arbitrary: it rule: less_induct)
  case less
  let ?keep = "\<lambda>k. fst (item_leaf t k) \<noteq> ''SMMUDEV'' \<and> fst (item_leaf t k) \<noteq> ''PCIDEV''"
  have kid: "prune ''PCIDEV'' (prune ''SMMUDEV'' (item_elem irq True t qs k)) = item_elem irq False t qs k"
    if "k \<in> set (item_kids irq True t qs it)" "?keep k" for k
    by (rule less.hyps) (use that item_kids_rank in auto)
  have kids: "filter ?keep (item_kids irq True t qs it) = item_kids irq False t qs it"
    using less.prems by (cases it)
      (auto simp: filter_empty_conv dev_item_def comp_def intro!: filter_True split: option.splits device_info.splits)
  have "map (\<lambda>k. prune ''PCIDEV'' (prune ''SMMUDEV'' (item_elem irq True t qs k))) (filter ?keep (item_kids irq True t qs it))
      = map (item_elem irq False t qs) (filter ?keep (item_kids irq True t qs it))"
    using kid by simp
  then show ?case
    by (subst (1 2) item_elem.simps) (simp add: prune_both filter_map comp_def item_elem_name kids del: prune.simps)
qed

lemma filtered_full:
  "filtered irq dev (item_elem True True t qs I_sys) = item_elem True dev t (if irq then qs else []) I_sys"
  using prune_irqs [of I_sys True True t qs] prune_devices [of I_sys True t qs] prune_devices [of I_sys True t "[]"]
  by (auto simp: filtered_def Let_def)

section \<open>The values\<close>

lemma strtol_decimal: "n < 2 ^ 63 \<Longrightarrow> strtol (decimal n) = (int n, [], 0)"
proof -
  assume "n < 2 ^ 63"
  then have "\<not> (2::int) ^ 63 \<le> int n" by (metis not_less of_nat_less_iff of_nat_numeral of_nat_power)
  then show ?thesis using scan_number_decimal [of "[]" n] by (simp add: strtol_def stops_def)
qed

lemma valid_idx: "i < 4096 \<Longrightarrow> is_valid_idx (decimal i)"
  using strtol_decimal [of i] by (simp add: is_valid_idx_def)

lemma valid_irq: "is_valid_num (decimal (unat (w :: 32 word))) 0 (2 ^ 32 - 1)"
proof -
  have "unat w < 2 ^ 32" by (rule order_less_le_trans [OF unsigned_less]) simp
  then have "strtol (decimal (unat w)) = (int (unat w), [], 0)" "int (unat w) \<le> 2 ^ 32 - 1"
    using strtol_decimal [of "unat w"] by (simp_all del: of_nat_unat)
  then show ?thesis
    using not_sym [OF decimal_ne [of "unat w"]] by (simp add: is_valid_num_def del: of_nat_unat)
qed

lemma decimal_short: "n < 256 \<Longrightarrow> length (decimal n) \<le> 3"
  by (simp add: decimal.simps)

lemma valid_smmu_idx:
  assumes "k \<in> {-1..255}"
  shows "is_valid_num (content (decimal_int k)) (- 1) 255"
proof (cases "k = - 1")
  case True
  have "is_valid_num (content (decimal_int (- 1))) (- 1) 255" by code_simp
  then show ?thesis using True by simp
next
  case False
  then have "0 \<le> k" "k < 256" using assms by auto
  then obtain n where n: "k = int n" "n < 256" by (cases k) auto
  then show ?thesis
    using strtol_decimal [of n] not_sym [OF decimal_ne [of n]] decimal_short [of n] by (auto simp: is_valid_num_def content_def)
qed

text \<open>What \<^verbatim>\<open>validate_value\<close> demands of a topology.\<close>

definition values_ok :: "wayca_topo \<Rightarrow> bool" where
  "values_ok t \<longleftrightarrow> n_packages t \<le> 4096 \<and> (\<forall>n \<in> set (nodes t).
     (\<forall>d \<in> set (smmus n). smmu_idx d \<in> {-1..255}) \<and> (\<forall>d \<in> set (pcidevs n). pci_smmu_idx d \<in> {-1..255}))"

lemma describable_small:
  assumes "describable e t"
  shows "n_nodes t \<le> 1024" "n_cpus t \<le> 1024" "n_cores t \<le> 1024" "n_clusters t \<le> 1024"
proof -
  obtain p n where "p \<in> set (packages t)" "n \<in> set (nodes t)"
    using assms by (metis describable_def list.set_sel(1))
  then show "n_nodes t \<le> 1024" "n_cpus t \<le> 1024" "n_cores t \<le> 1024" "n_clusters t \<le> 1024"
    using assms by (auto simp: describable_def fits_def)
qed

lemma found_device:
  assumes "find_device nm ns = Some i"
  shows "\<exists>n \<in> set ns. (case i of PCI_info d \<Rightarrow> d \<in> set (pcidevs n) | SMMU_info d \<Rightarrow> d \<in> set (smmus n))"
  using assms
proof (induction ns)
  case (Cons n ns)
  show ?case
    using Cons by (auto simp: find_Some_iff split: option.splits device_info.splits)
qed simp

lemma sizes_verified: "(\<forall>k \<in> set ks. el_props e k \<noteq> None) \<Longrightarrow> sizes_verify elem_lib u e ks = 0"
  by (induction ks) auto

lemma item_verified:
  assumes "item_ok irq t qs it" "describable e t" "values_ok t"
  shows "verify_one (item_elem irq dev t qs it) = 0"
proof -
  note small = describable_small [OF assms(2)] assms(3) [unfolded values_ok_def, THEN conjunct1]
  note defs = verify_prop_def topo_elem_def prop_verify_def num_verify_def irq_prop_verify_def
    pci_prop_verify_def smmu_prop_verify_def numa_prop_verify_def core_prop_verify_def
  show ?thesis
  proof (cases it)
    case (I_irq w)
    then show ?thesis
      using assms(1) valid_irq [of w]
      by (subst item_elem.simps) (auto simp: defs irq_attrs_def split: option.splits)
  next
    case (I_pci nm)
    then obtain d where "find_device nm (nodes t) = Some (PCI_info d)" using assms(1) by auto
    moreover have "pci_smmu_idx d \<in> {-1..255}"
      using found_device [OF calculation] assms(3) by (auto simp: values_ok_def)
    ultimately show ?thesis
      using I_pci valid_smmu_idx by (subst item_elem.simps) (simp add: defs pci_attrs_def)
  next
    case (I_smmu nm)
    then obtain d where "find_device nm (nodes t) = Some (SMMU_info d)" using assms(1) by auto
    moreover have "smmu_idx d \<in> {-1..255}"
      using found_device [OF calculation] assms(3) by (auto simp: values_ok_def)
    ultimately show ?thesis
      using I_smmu valid_smmu_idx by (subst item_elem.simps) (simp add: defs smmu_attrs_def)
  qed (use assms(1) small valid_idx in \<open>subst item_elem.simps, simp add: defs sizes_verified numa_prop_list_def core_prop_list_def\<close>)+
qed

lemma items_verified:
  assumes "describable e t" "values_ok t" "\<forall>e \<in> set es. \<exists>it. e = item_elem irq dev t qs it \<and> item_ok irq t qs it"
  shows "tree_walk (\<lambda>lv e. Some (verify_one e, [])) lv es = Some (0, [])"
  using assms(3)
proof (induction "\<lambda>(lv :: nat) e. Some (verify_one e, [] :: string)" lv es rule: tree_walk.induct)
  case (2 lv nm ps ts es)
  obtain it where it: "Elem nm ps ts = item_elem irq dev t qs it" "item_ok irq t qs it"
    using 2(3) by auto
  then have ts: "ts = map (item_elem irq dev t qs) (item_kids irq dev t qs it)"
    by (subst (asm) item_elem.simps) simp
  have v: "verify_one (Elem nm ps ts) = 0"
    using item_verified [OF it(2) assms(1,2)] it(1) by simp
  have "tree_walk (\<lambda>lv e. Some (verify_one e, [])) (lv + 1) ts = Some (0, [])"
    using 2(1) v item_kids_ok [OF it(2)] unfolding ts by fastforce
  moreover have "tree_walk (\<lambda>lv e. Some (verify_one e, [])) lv es = Some (0, [])"
    using 2(2) v calculation 2(3) by fastforce
  ultimately show ?case using v by simp
qed simp

section \<open>The program\<close>

text \<open>Validity of a document as XML 1.0 defines it for declarations of this kind, of the tree of all its nodes: an element that is declared
  EMPTY has no node below it, not even white space or a comment; below an element of MIXED content the elements are of the names
  that its declaration lists; each element has exactly its declared attributes; nodes of other types have no node below them.\<close>

fun valid_pt :: "decl list \<Rightarrow> 'n ptree \<Rightarrow> bool" where
  "valid_pt dtd (PT n el nm ps ts) \<longleftrightarrow> (if el
     then (Elem_decl nm None \<in> set dtd \<and> ts = []
         \<or> (\<exists>ns. Elem_decl nm (Some ns) \<in> set dtd \<and> (\<forall>t \<in> set ts. pt_elem t \<longrightarrow> pt_name t \<in> set ns)))
       \<and> (\<forall>a. ps a \<noteq> None \<longleftrightarrow> Attr_decl nm a \<in> set dtd) \<and> (\<forall>t \<in> set ts. valid_pt dtd t)
     else ts = [])"

text \<open>Declarations without the duplicates that XML 1.0 forbids or ignores: no element or attribute is declared twice, and no
  content lists a name twice.\<close>

definition proper_dtd :: "decl list \<Rightarrow> bool" where
  "proper_dtd dtd \<longleftrightarrow> distinct dtd \<and> (\<forall>nm c c'. Elem_decl nm c \<in> set dtd \<and> Elem_decl nm c' \<in> set dtd \<longrightarrow> c = c')
     \<and> (\<forall>nm ns. Elem_decl nm (Some ns) \<in> set dtd \<longrightarrow> distinct ns)"

text \<open>What is assumed of the validation of libxml2: it accepts the valid documents.\<close>

definition validates :: "('x, 'n, 'd) libxml \<Rightarrow> ('x \<Rightarrow> bool) \<Rightarrow> ('x \<Rightarrow> 'n \<Rightarrow> 'n list) \<Rightarrow> bool" where
  "validates L W sub \<longleftrightarrow> (\<forall>x d t dtd. W x \<and> xmlDocGetRootElement L x d = Some (pt_node t) \<and> xshape L sub x t
     \<and> proper_dtd dtd \<and> valid_pt dtd t \<longrightarrow> xmlValidateDtd L x d dtd = 1)"

text \<open>The elements that are declared EMPTY.\<close>

definition empty_names :: "string list" where
  "empty_names = [''CPU'', ''IRQ'', ''PCIDEV'', ''SMMUDEV'']"

lemma below_empty: "nm \<in> set known_names \<Longrightarrow> below_names nm = [] \<longleftrightarrow> nm \<in> set empty_names"
  by (drule known_cases) (elim insertE; simp add: below_names_def empty_names_def)

lemma below_distinct: "nm \<in> set known_names \<Longrightarrow> distinct (below_names nm)"
  by (drule known_cases) (elim insertE; simp add: below_names_def)

lemma topo_dtd_proper: "proper_dtd topo_dtd"
proof -
  have "distinct topo_dtd" by code_simp
  moreover have "distinct ns" if "Elem_decl nm (Some ns) \<in> set topo_dtd" for nm ns
  proof -
    have "nm \<in> set known_names" "ns = below_names nm"
      using that by (auto simp: Elem_decl_dtd dtd_content_def split: list.splits)
    then show ?thesis using below_distinct by simp
  qed
  ultimately show ?thesis by (auto simp: proper_dtd_def Elem_decl_dtd)
qed

lemma el_name_erase: "el_name (erase t) = pt_name t"
  by (cases t) simp

lemma conforms_valid: "conforms topo_dtd (erase t) \<Longrightarrow> bare empty_names t \<Longrightarrow> pt_elem t \<Longrightarrow> valid_pt topo_dtd t"
proof (induction t)
  case (PT n el nm ps ts)
  have c: "nm \<in> set known_names" "\<forall>a. ps a \<noteq> None \<longleftrightarrow> a \<in> set (attr_names nm)"
      "\<forall>t \<in> set ts. pt_elem t \<longrightarrow> pt_name t \<in> set (below_names nm) \<and> conforms topo_dtd (erase t)"
    using PT.prems(1) by (auto simp: conforms_dtd el_name_erase)
  have "valid_pt topo_dtd u" if u: "u \<in> set ts" for u
  proof (cases "pt_elem u")
    case True
    then show ?thesis using PT.IH [OF u] c(3) u PT.prems(2) by auto
  next
    case False
    have "bare empty_names u" using PT.prems(2) u by simp
    then show ?thesis using False by (cases u) simp
  qed
  moreover have "ts = [] \<and> dtd_content nm = None \<or> dtd_content nm = Some (below_names nm)"
    using below_empty [OF c(1)] PT.prems(2) by (auto simp: dtd_content_def split: list.splits)
  ultimately show ?case
    using c PT.prems(3) by (auto simp: Elem_decl_dtd Attr_decl_dtd)
qed

lemma built_bare: "conforms topo_dtd (erase t) \<Longrightarrow> elements_only t \<Longrightarrow> bare empty_names t"
proof (induction t)
  case (PT n el nm ps ts)
  then have all: "filter pt_elem ts = ts" by (auto simp: filter_id_conv intro: elements_only_elem)
  have c: "nm \<in> set known_names" "\<forall>t \<in> set ts. pt_name t \<in> set (below_names nm) \<and> conforms topo_dtd (erase t)"
    using PT.prems(1) by (auto simp: conforms_dtd el_name_erase all)
  have "nm \<in> set empty_names \<Longrightarrow> ts = []"
    using c below_empty [OF c(1)] by (cases ts) auto
  then show ?case using PT c by auto
qed

lemma document_shown:
  assumes laws: "libxml_laws L W sub" and doc: "holds_doc L W sub x d pt" "bare empty_names pt" and e: "erase pt = item_elem irq dev t qs I_sys"
    and t: "describable env t" "values_ok t" and dtd: "dtd_built L" "validates L W sub" and out: "\<not> has_output_file args"
  shows "\<exists>out. print_tree (item_elem irq dev t qs I_sys) = Some (0, out) \<and> validate_topo_info L x d = Some 0
    \<and> put_topo_info L F args x d = Some (0, out, None)"
proof -
  have h: "W x" "xmlDocGetRootElement L x d = Some (pt_node pt)" "xshape L sub x pt"
    using doc(1) by (simp_all add: holds_doc_def)
  have c: "conforms topo_dtd (erase pt)"
    using item_conforms [of irq t qs I_sys dev] e by simp
  have sd: "sound_doc L W sub x" using laws h(1) by (simp add: sound_doc_def sound_doc_axioms_def)
  have "pt_elem pt"
    using libxml_laws.root_alone [OF laws h(1,2)] xshape_elem [OF h(3)] by simp
  then have valid: "xmlValidateDtd L x d topo_dtd = 1"
    using dtd(2) h conforms_valid [OF c doc(2)] topo_dtd_proper by (auto simp: validates_def)
  have "verify_tree (erase pt) = Some 0"
    using items_verified [OF t, where es = "[erase pt]"] e item_ok.simps(10) by (fastforce simp: verify_tree_def)
  then have "verify_topo_value L x (pt_node pt) = Some 0"
    using sound_doc.verified_root [OF sd h(2,3)] by simp
  then have "validate_topo_info L x d = Some 0"
    using dtd(1) h valid by (auto simp: validate_topo_info_def validate_format_def validate_value_def format_loop_dtd [OF dtd(1)]
        dtd_built_def)
  moreover obtain out where "print_topo_info L x 0 (pt_node pt) = Some (0, out)" "print_tree (erase pt) = Some (0, out)"
    using document_printed [OF laws h c] by blast
  moreover have "xml_find_node L x (Some (pt_node pt)) name = Some (find_pt name [pt])" for name
    by (rule libxml_laws.find_root [OF laws h])
  ultimately show ?thesis
    using h(2) out by (simp add: put_topo_info_def e)
qed

text \<open>C18. wayca-sc-info without files, on a machine with a describable topology: whatever the options, it prints the document
  of the topology, with the interrupts and the devices they ask for, and exits with 0.\<close>

theorem info_prints_topology:
  assumes "libxml_laws (info_lib C) W sub" "reliable (info_lib C) W" "dtd_built (info_lib C)" "validates (info_lib C) W sub"
    and "describable (info_env C) t" "values_ok t" "irqs_read (info_env C) qs" "\<forall>k. can_calloc C k"
    and "good t qs (info_query s)" "W (info_xml s)"
    and "parse_args realpath opts rest no_args = Some (Inr (0, args))" "\<not> has_input_file args" "\<not> has_output_file args"
  shows "\<exists>out. print_tree (item_elem (want_irq args) (want_dev args) t qs I_sys) = Some (0, out)
     \<and> info_main C realpath F opts rest s = Some (0, out, None)"
proof -
  let ?C = "C\<lparr>output_dev := want_dev args, output_irq := want_irq args\<rparr>"
  obtain doc s' pt where b: "build_topo_info ?C s = Some (0, Some doc, s')"
      "holds_doc (info_lib C) W sub (info_xml s') doc pt" "elements_only pt" "erase pt = item_elem (want_irq args) (want_dev args) t qs I_sys"
    using topology_built [of ?C W sub t qs s] assms by (auto simp: holds_doc_def)
  have "bare empty_names pt"
    using built_bare [OF _ b(3)] item_conforms [of "want_irq args" t qs I_sys] b(4) by simp
  then obtain out where "print_tree (item_elem (want_irq args) (want_dev args) t qs I_sys) = Some (0, out)"
      "validate_topo_info (info_lib C) (info_xml s') doc = Some 0"
      "put_topo_info (info_lib C) F args (info_xml s') doc = Some (0, out, None)"
    using document_shown [OF assms(1) b(2) _ b(4) assms(5,6,3,4,13)] by blast
  then show ?thesis
    using b(1) assms(11,12) by (simp add: info_main_def get_topo_info_def Let_def)
qed

text \<open>C21. wayca-sc-info on a file that holds the complete document of a topology prints the document of the topology
  with the devices and the interrupts that are asked for; unlike for the machine itself, the element for the
  interrupts is there even when they are not. There may be white space and comments between the elements of the file, but none
  inside CPU, IRQ, PCIDEV and SMMUDEV elements: these are declared EMPTY, and validation refuses them otherwise.\<close>

theorem info_prints_file:
  assumes "libxml_laws (info_lib C) W sub" "dtd_built (info_lib C)" "validates (info_lib C) W sub"
    and "describable env t" "values_ok t"
    and "xmlReadFile (info_lib C) (info_xml s) (input_file_name args) = (Some d, x)" "W x"
    and "xmlDocGetRootElement (info_lib C) x d = Some (pt_node pt)" "xshape (info_lib C) sub x pt" "distinct (pt_nodes pt)"
    and "erase pt = item_elem True True t qs I_sys" "bare empty_names pt"
    and "parse_args realpath opts rest no_args = Some (Inr (0, args))" "has_input_file args" "\<not> has_output_file args"
  shows "\<exists>out. print_tree (item_elem True (want_dev args) t (if want_irq args then qs else []) I_sys) = Some (0, out)
     \<and> info_main C realpath F opts rest s = Some (0, out, None)"
proof -
  let ?C = "C\<lparr>output_dev := want_dev args, output_irq := want_irq args\<rparr>"
  have "el_name (erase pt) \<notin> {''IRQ'', ''SMMUDEV'', ''PCIDEV''}"
    by (simp add: assms(11) item_elem_name)
  then obtain x' t' where b: "xml_import_topo_info ?C (input_file_name args) s = Some (0, Some d, s\<lparr>info_xml := x'\<rparr>)"
      "holds_doc (info_lib C) W sub x' d t'" "erase t' = filtered (want_irq args) (want_dev args) (erase pt)" "bare empty_names t'"
    using import_holds [of ?C W sub s "input_file_name args" d x pt] assms unfolding holds_doc_def by simp blast
  then have "erase t' = item_elem True (want_dev args) t (if want_irq args then qs else []) I_sys"
    by (simp add: assms(11) filtered_full)
  then obtain out where "print_tree (item_elem True (want_dev args) t (if want_irq args then qs else []) I_sys) = Some (0, out)"
      "validate_topo_info (info_lib C) x' d = Some 0" "put_topo_info (info_lib C) F args x' d = Some (0, out, None)"
    using document_shown [OF assms(1) b(2,4) _ assms(4,5,2,3,15)] by blast
  then show ?thesis
    using b(1) assms(13,14) by (simp add: info_main_def get_topo_info_def Let_def)
qed

section \<open>Options\<close>

text \<open>Of several options that select what is shown, only the last one counts: \<^verbatim>\<open>-I -D\<close> shows no interrupts.\<close>

lemma last_option_counts:
  assumes "opts \<noteq> []" "\<forall>(c, a) \<in> set opts. c \<in> set ''IDv''"
  shows "parse_options realpath opts args = Some (Inr (0, args\<lparr>want_irq := fst (last opts) \<in> set ''Iv'',
     want_dev := fst (last opts) \<in> set ''Dv''\<rparr>))"
  using assms
proof (induction opts arbitrary: args)
  case (Cons oa opts)
  obtain c a where oa: "oa = (c, a)" by (cases oa)
  show ?case
  proof (cases "opts = []")
    case False
    then show ?thesis using Cons by (auto simp: oa)
  qed (use Cons.prems in \<open>auto simp: oa\<close>)
qed simp

section \<open>The sample\<close>

lemma sample_lib: "dtd_built (table_lib (\<lambda>_ _ _. 1) files)" "validates (table_lib (\<lambda>_ _ _. 1) files) tb_wf tb_sub"
  by (simp_all add: dtd_built_def validates_def table_lib_def)

lemma sample_values: "values_ok info_topo"
  by (simp add: values_ok_def info_topo_def)

lemma sample_fields: "info_lib info_sample = table_lib (\<lambda>_ _ _. 1) (\<lambda>_. None)" "info_env info_sample = info_sys"
  by (simp_all add: info_sample_def)

lemma xshape_files: "xshape (table_lib v r) tb_sub x t = xshape (table_lib v r') tb_sub x t"
  by (induction t) (auto simp: table_lib_def list_all_iff)

definition sample_files :: out_files where
  "sample_files = \<lparr>of_open = (\<lambda>_. 0), of_write = (\<lambda>txt. (int (length txt), 0))\<rparr>"

lemma info_prints_topology_witness:
  "\<exists>out. print_tree (item_elem True True info_topo info_irqs I_sys) = Some (0, out)
     \<and> info_main info_sample Inr sample_files [(CHR ''v'', [])] False info_start = Some (0, out, None)"
proof -
  let ?args = "no_args\<lparr>want_irq := True, want_dev := True\<rparr>"
  have p: "parse_args Inr [(CHR ''v'', [])] False no_args = Some (Inr (0, ?args))"
    by (simp add: parse_args_def last_option_counts)
  have "\<exists>out. print_tree (item_elem (want_irq ?args) (want_dev ?args) info_topo info_irqs I_sys) = Some (0, out)
     \<and> info_main info_sample Inr sample_files [(CHR ''v'', [])] False info_start = Some (0, out, None)"
    by (rule info_prints_topology [OF sample_doc.libxml_laws_axioms sample_doc.reliable _ _ sample_doc.describable sample_values
          _ _ info_start_ok p]) (simp_all add: sample_fields sample_lib info_irqs_read sample_doc.calloc no_args_def)
  then show ?thesis by simp
qed

text \<open>The document of the sample, read from a file.\<close>

definition reread :: "nat \<Rightarrow> (table, nat, nat) info_ctx" where
  "reread d = info_sample\<lparr>info_lib := table_lib (\<lambda>_ _ _. 1) (\<lambda>_. Some d)\<rparr>"

lemma info_prints_file_witness:
  "\<exists>d s' out. build_topo_info info_sample info_start = Some (0, Some d, s')
     \<and> print_tree (item_elem True False info_topo info_irqs I_sys) = Some (0, out)
     \<and> info_main (reread d) Inr sample_files [(CHR ''i'', ''/topo.xml''), (CHR ''I'', [])] False s' = Some (0, out, None)"
proof -
  let ?args = "no_args\<lparr>has_input_file := True, want_irq := True, input_file_name := ''/topo.xml''\<rparr>"
  have p: "parse_args Inr [(CHR ''i'', ''/topo.xml''), (CHR ''I'', [])] False no_args = Some (Inr (0, ?args))"
    by (simp add: parse_args_def parse_file_name_def no_args_def)
  obtain d s' pt where b: "build_topo_info info_sample info_start = Some (0, Some d, s')" "tb_wf (info_xml s')"
      "xmlDocGetRootElement (info_lib info_sample) (info_xml s') d = Some (pt_node pt)"
      "xshape (info_lib info_sample) tb_sub (info_xml s') pt" "distinct (pt_nodes pt)"
      "erase pt = item_elem True True info_topo info_irqs I_sys" "elements_only pt"
    using topology_built [OF sample_doc.libxml_laws_axioms sample_doc.reliable sample_doc.describable sample_doc.irqs _ info_start_ok]
    by (auto simp: sample_doc.calloc info_sample_def)
  have bare: "bare empty_names pt"
    using built_bare [OF _ b(7)] item_conforms [of True info_topo info_irqs I_sys] b(6) by simp
  have lib: "info_lib (reread d) = table_lib (\<lambda>_ _ _. 1) (\<lambda>_. Some d)" by (simp add: reread_def)
  have reads: "xmlReadFile (info_lib (reread d)) x (input_file_name ?args) = (Some d, x)"
    "xmlDocGetRootElement (info_lib (reread d)) x = xmlDocGetRootElement (info_lib info_sample) x" for x
    by (simp_all add: lib sample_fields) (simp_all add: table_lib_def)
  have "\<exists>out. print_tree (item_elem True (want_dev ?args) info_topo (if want_irq ?args then info_irqs else []) I_sys) = Some (0, out)
     \<and> info_main (reread d) Inr sample_files [(CHR ''i'', ''/topo.xml''), (CHR ''I'', [])] False s' = Some (0, out, None)"
  proof (rule info_prints_file [where W = tb_wf and sub = tb_sub, OF _ _ _ info_describable sample_values
        reads(1) [of "info_xml s'"] b(2) _ _ b(5,6) bare p])
    show "xshape (info_lib (reread d)) tb_sub (info_xml s') pt"
      using b(4) by (simp only: lib sample_fields xshape_files [of _ "\<lambda>_. None" _ _ "\<lambda>_. Some d"])
  qed (use b(3) reads(2) in \<open>simp_all add: lib sample_lib tables.libxml_laws_axioms no_args_def\<close>)
  then show ?thesis using b(1) by (auto simp: no_args_def)
qed

section \<open>Names of output files\<close>

text \<open>C34. The name of the output file overflows its buffer exactly when the path of its directory, a slash and its last component
  need more than the buffer of \<^verbatim>\<open>PATH_MAX + 1\<close> bytes with the terminating NUL: the bound given to \<^verbatim>\<open>strncat\<close> leaves no room for
  the NUL.\<close>

theorem export_name_overflow:
  assumes "length f < MAX_FILE_NAME" "realpath (dirname f) = Inr name" "name \<noteq> []"
  shows "canonicalize_export_filename realpath f = None
    \<longleftrightarrow> MAX_FILE_NAME \<le> length name + (if last name = CHR ''/'' then 0 else 1) + length (basename f)"
proof -
  have "take (MAX_FILE_NAME - 1) f = f" using assms(1) by simp
  then show ?thesis
    using assms(2,3) by (auto simp: canonicalize_export_filename_def strncat_def Let_def MAX_FILE_NAME_def min_def)
qed

lemma export_name_overflow_witness:
  "canonicalize_export_filename (\<lambda>_. Inr (CHR ''/'' # replicate 4094 CHR ''d'')) ''f'' = None"
proof -
  have "dirname ''f'' = ''.''" "basename ''f'' = ''f''" by code_simp+
  then show ?thesis
    using export_name_overflow [of "''f''" "\<lambda>_. Inr (CHR ''/'' # replicate 4094 CHR ''d'')"]
    by (simp add: MAX_FILE_NAME_def)
qed

end
