(* ===== verification/MemBench.thy ===== *)
theory MemBench
  imports Devices Mem
begin

text \<open>
  \<^verbatim>\<open>tools/wayca-memory-bench/wayca-memory-bench.c\<close>: the options, the circular list that the latency benchmark
  walks, the stream benchmarks, and how the results of single runs are put together. Times are what the clock
  reads; output is the numbers that are printed. The synchronisation of the threads is in \<open>BenchSync\<close>.
\<close>

section \<open>Parameters\<close>

text \<open>The static variables.\<close>

record bench_params =
  random_access :: bool
  lat_bench :: bool
  bw_bench :: bool
  use_thp :: bool
  verbose :: bool
  buf_sz :: ulong
  page_size :: ulong
  latbench_count :: ulong
  cacheline_size :: int
  initiator_cpu :: int
  target_cpu :: int
  total_cpus :: int
  iteration :: int
  parallel :: int
  bench_stride :: int

definition KiB :: ulong where "KiB = 1024"
definition MiB :: ulong where "MiB = 1024 * KiB"
definition GiB :: ulong where "GiB = 1024 * MiB"

definition default_params :: bench_params where
  "default_params = \<lparr>random_access = False, lat_bench = False, bw_bench = False, use_thp = False, verbose = False,
     buf_sz = 256 * MiB, page_size = 4096, latbench_count = 0, cacheline_size = 64, initiator_cpu = -1, target_cpu = -1,
     total_cpus = 1, iteration = 1, parallel = 0, bench_stride = 64\<rparr>"

text \<open>\<^verbatim>\<open>stride\<close> converted to \<^verbatim>\<open>size_t\<close>, as in \<^verbatim>\<open>buf_sz / stride\<close>.\<close>

definition ustride :: "bench_params \<Rightarrow> ulong" where "ustride P = word_of_int (bench_stride P)"

datatype bench_opt = Long_opt string | Opt char string

definition LONG_MAX :: int where "LONG_MAX = 2 ^ 63 - 1"

definition c_tolower :: "char \<Rightarrow> char" where
  "c_tolower c = (if of_char c \<in> {65..90 :: nat} then char_of (of_char c + 32 :: nat) else c)"

text \<open>The multiplier for the last character of a length. An empty argument makes the code read before its start.\<close>

definition length_unit :: "char \<Rightarrow> ulong" where
  "length_unit c = (if c_tolower c = CHR ''k'' then KiB else if c_tolower c = CHR ''m'' then MiB
     else if c_tolower c = CHR ''g'' then GiB else 1)"

text \<open>The options that \<^verbatim>\<open>getopt_long\<close> returns; the return value, with which the loop is left, or \<open>None\<close> when it goes on.\<close>

definition parse_option :: "bench_opt \<Rightarrow> bench_params \<Rightarrow> (int option \<times> bench_params) option" where
  "parse_option opt P = (case opt of
       Long_opt name \<Rightarrow>
         if name = ''latency'' then Some (None, P\<lparr>lat_bench := True\<rparr>)
         else if name = ''bandwidth'' then Some (None, P\<lparr>bw_bench := True\<rparr>)
         else if name = ''help'' then Some (Some 0, P)
         else if name = ''verbose'' then Some (None, P\<lparr>verbose := True\<rparr>)
         else Some (None, P)
     | Opt c arg \<Rightarrow>
         if c = CHR ''l'' then
           if arg = [] then None
           else let n = fst (strtoul0 arg) in
             if n = - 1 then Some (Some (- 1), P\<lparr>buf_sz := n\<rparr>)
             else Some (None, P\<lparr>buf_sz := n * length_unit (last arg)\<rparr>)
         else if c = CHR ''h'' then Some (None, P\<lparr>use_thp := True\<rparr>)
         else if c = CHR ''i'' then Some (None, P\<lparr>initiator_cpu := to_int (strtol0 arg)\<rparr>)
         else if c = CHR ''t'' then Some (None, P\<lparr>target_cpu := to_int (strtol0 arg)\<rparr>)
         else if c = CHR ''r'' then Some (None, P\<lparr>random_access := True\<rparr>)
         else if c = CHR ''s'' then
           let P = P\<lparr>bench_stride := to_int (strtol0 arg)\<rparr> in
           if ustride P mod 8 \<noteq> 0 \<or> bench_stride P = 0 then Some (Some (- EINVAL), P) else Some (None, P)
         else if c = CHR ''P'' then
           let P = P\<lparr>parallel := strtol0 arg\<rparr> in
           if parallel P < 0 \<or> parallel P = LONG_MAX then Some (Some (- EINVAL), P) else Some (None, P)
         else if c = CHR ''N'' then
           let P = P\<lparr>iteration := to_int (strtol0 arg)\<rparr> in
           if iteration P \<le> 0 \<or> parallel P = LONG_MAX then Some (Some (- EINVAL), P) else Some (None, P)
         else if c = CHR ''v'' then Some (Some 0, P)
         else Some (Some (- EINVAL), P))"

fun parse_command :: "bench_opt list \<Rightarrow> bench_params \<Rightarrow> (int \<times> bench_params) option" where
  "parse_command [] P =
     (let P = (if \<not> lat_bench P \<and> \<not> bw_bench P then P\<lparr>lat_bench := True, bw_bench := True\<rparr> else P);
          P = (if parallel P = 0 then P\<lparr>parallel := 1\<rparr> else P)
      in Some (0, P\<lparr>parallel := parallel P + 1\<rparr>))"
| "parse_command (opt # opts) P = (case parse_option opt P of
       None \<Rightarrow> None
     | Some (Some ret, P) \<Rightarrow> Some (ret, P)
     | Some (None, P) \<Rightarrow> parse_command opts P)"

text \<open>\<^verbatim>\<open>sysconf\<close> gives the page size and the CPUs online; -1, which it returns on errors, is not below 0 as a \<^verbatim>\<open>size_t\<close>.\<close>

definition init_bench_parameters :: "env \<Rightarrow> topo_env \<Rightarrow> int \<Rightarrow> int \<Rightarrow> bench_params \<Rightarrow> (bench_params \<times> topo_env) option" where
  "init_bench_parameters e q pagesize online P = do {
     let page = (word_of_int pagesize :: ulong);
     let P = P\<lparr>page_size := if page = 0 then 4 * KiB else page\<rparr>;
     (l3, q) \<leftarrow> wayca_sc_get_l3_size e q 0;
     let P = P\<lparr>cacheline_size := if l3 \<le> 0 then 64 else l3\<rparr>;
     let n = wayca_sc_cpus_in_total (te q);
     let n = (if n \<le> 0 then online else n);
     let P = P\<lparr>total_cpus := if n \<le> 0 then 1 else n\<rparr>;
     if ustride P = 0 then None
     else Some (P\<lparr>latbench_count := buf_sz P div ustride P * 16\<rparr>, q)
   }"

section \<open>The circular list\<close>

text \<open>The memory from \<^verbatim>\<open>buf_0\<close> on, in words: the three buffers are one block of \<^verbatim>\<open>TOTAL_BUFFER_CNT * buf_sz\<close> bytes, filled with
  ones.\<close>

definition alloc_buffers :: "bench_params \<Rightarrow> ulong list" where
  "alloc_buffers P = replicate (unat (3 * buf_sz P) div 8) (- 1)"

text \<open>The state of the generator: \<^verbatim>\<open>seed\<close> and how often the time, given by \<open>now\<close>, has been read.\<close>

type_synonym prng_state = "ulong \<times> nat"

definition lcg_prng :: "bench_params \<Rightarrow> (nat \<Rightarrow> ulong) \<Rightarrow> prng_state \<Rightarrow> (ulong \<times> prng_state) option" where
  "lcg_prng P now st =
     (if \<not> random_access P then Some (ustride P, st)
      else let (seed, k) = (if fst st = 0 then (now (snd st), snd st + 1) else st);
               seed = (1103515245 * seed + 12345) mod 2 ^ 31 in
        if page_size P div ustride P = 0 then None
        else Some (seed mod (page_size P div ustride P) * ustride P + MiB, (seed, k)))"

definition fix_stride :: "bench_params \<Rightarrow> prng_state \<Rightarrow> (ulong \<times> prng_state) option" where
  "fix_stride P st = Some (ustride P, st)"

text \<open>\<^verbatim>\<open>while (list[next] != -1) next = next + stride / sizeof(next) % len;\<close> where the remainder is taken of the quotient.\<close>

partial_function (option) probe :: "ulong list \<Rightarrow> ulong \<Rightarrow> ulong \<Rightarrow> ulong option" where
  "probe list step next = do {
     v \<leftarrow> rd list (unat next);
     if v \<noteq> - 1 then probe list step (next + step) else Some next
   }"

declare probe.simps [code]

fun circ_loop :: "bench_params \<Rightarrow> (nat \<Rightarrow> ulong) \<Rightarrow> ulong \<Rightarrow> nat \<Rightarrow> ulong \<Rightarrow> prng_state \<Rightarrow> ulong list
    \<Rightarrow> (ulong \<times> prng_state \<times> ulong list) option" where
  "circ_loop P now len 0 pos st list = Some (pos, st, list)"
| "circ_loop P now len (Suc resident) pos st list = do {
     (r, st) \<leftarrow> (if random_access P then lcg_prng P now st else fix_stride P st);
     if len = 0 then None
     else do {
       next \<leftarrow> probe list (ustride P div 8 mod len) ((pos + r div 8) mod len);
       list \<leftarrow> wr list (unat pos) next;
       circ_loop P now len resident next st list
     }
   }"

definition init_circular_list :: "bench_params \<Rightarrow> (nat \<Rightarrow> ulong) \<Rightarrow> prng_state \<Rightarrow> ulong list
    \<Rightarrow> (prng_state \<times> ulong list) option" where
  "init_circular_list P now st list =
     (if ustride P = 0 then None
      else do {
        (pos, st, list) \<leftarrow> circ_loop P now (buf_sz P div 8) (unat (buf_sz P div ustride P - 1)) 0 st list;
        list \<leftarrow> wr list (unat pos) 0;
        Some (st, list)
      })"

text \<open>One round of the unrolled loop, and the loop, whose counter is an \<^verbatim>\<open>int\<close>.\<close>

fun follow_list :: "nat \<Rightarrow> ulong list \<Rightarrow> ulong \<Rightarrow> ulong option" where
  "follow_list 0 list pos = Some pos"
| "follow_list (Suc n) list pos = do { pos \<leftarrow> rd list (unat pos); follow_list n list pos }"

function walk_loop :: "bench_params \<Rightarrow> ulong list \<Rightarrow> nat \<Rightarrow> ulong \<Rightarrow> ulong option" where
  "walk_loop P list i pos =
     (if unat (latbench_count P) \<le> i then Some pos
      else do {
        pos \<leftarrow> follow_list 16 list pos;
        if 2 ^ 31 \<le> i + 16 then None else walk_loop P list (i + 16) pos
      })"
  by pat_completeness auto
termination
  by (relation "measure (\<lambda>(P, list, i, pos). 2 ^ 31 - i)") auto

declare walk_loop.simps [simp del]

definition walk_circular_list :: "bench_params \<Rightarrow> ulong list \<Rightarrow> ulong option" where
  "walk_circular_list P list = walk_loop P list 0 0"

section \<open>Streams\<close>

text \<open>The numbers in the buffers are small integers, which a \<^verbatim>\<open>double\<close> represents exactly.\<close>

record buffer_info =
  buf_0 :: "int list"
  buf_1 :: "int list"
  buf_2 :: "int list"

definition stream_len :: "bench_params \<Rightarrow> nat" where "stream_len P = unat (buf_sz P div 8)"

definition STREAM_BUF_INIT_1 :: int where "STREAM_BUF_INIT_1 = 1"
definition STREAM_BUF_INIT_2 :: int where "STREAM_BUF_INIT_2 = 2"
definition SCALAR :: int where "SCALAR = 188"

text \<open>\<^verbatim>\<open>for (i = 0; i < len; i++) buf[i] = f(i);\<close>\<close>

fun fill :: "nat \<Rightarrow> nat \<Rightarrow> (nat \<Rightarrow> 'a option) \<Rightarrow> 'a list \<Rightarrow> 'a list option" where
  "fill 0 i f buf = Some buf"
| "fill (Suc n) i f buf = do { v \<leftarrow> f i; buf \<leftarrow> wr buf i v; fill n (i + 1) f buf }"

definition init_stream_buffer :: "bench_params \<Rightarrow> buffer_info \<Rightarrow> buffer_info option" where
  "init_stream_buffer P b = do {
     b1 \<leftarrow> fill (stream_len P) 0 (\<lambda>_. Some STREAM_BUF_INIT_1) (buf_1 b);
     b2 \<leftarrow> fill (stream_len P) 0 (\<lambda>_. Some STREAM_BUF_INIT_2) (buf_2 b);
     Some (b\<lparr>buf_1 := b1, buf_2 := b2\<rparr>)
   }"

definition do_stream_copy :: "bench_params \<Rightarrow> buffer_info \<Rightarrow> buffer_info option" where
  "do_stream_copy P b = do {
     b0 \<leftarrow> fill (stream_len P) 0 (\<lambda>i. rd (buf_1 b) i) (buf_0 b);
     Some (b\<lparr>buf_0 := b0\<rparr>)
   }"

definition do_stream_scale :: "bench_params \<Rightarrow> buffer_info \<Rightarrow> buffer_info option" where
  "do_stream_scale P b = do {
     b0 \<leftarrow> fill (stream_len P) 0 (\<lambda>i. do { x \<leftarrow> rd (buf_1 b) i; Some (SCALAR * x) }) (buf_0 b);
     Some (b\<lparr>buf_0 := b0\<rparr>)
   }"

definition do_stream_add :: "bench_params \<Rightarrow> buffer_info \<Rightarrow> buffer_info option" where
  "do_stream_add P b = do {
     b0 \<leftarrow> fill (stream_len P) 0 (\<lambda>i. do { x \<leftarrow> rd (buf_1 b) i; y \<leftarrow> rd (buf_2 b) i; Some (x + y) }) (buf_0 b);
     Some (b\<lparr>buf_0 := b0\<rparr>)
   }"

definition do_stream_triad :: "bench_params \<Rightarrow> buffer_info \<Rightarrow> buffer_info option" where
  "do_stream_triad P b = do {
     b0 \<leftarrow> fill (stream_len P) 0 (\<lambda>i. do { x \<leftarrow> rd (buf_1 b) i; y \<leftarrow> rd (buf_2 b) i; Some (x + SCALAR * y) }) (buf_0 b);
     Some (b\<lparr>buf_0 := b0\<rparr>)
   }"

section \<open>Measurements\<close>

text \<open>A reading of the clock: seconds and nanoseconds.\<close>

definition measure_execute_time :: "int \<times> int \<Rightarrow> int \<times> int \<Rightarrow> int" where
  "measure_execute_time b e = (fst e - fst b) * 10 ^ 9 + snd e - snd b"

text \<open>The measuring part of \<^verbatim>\<open>bench_thread\<close>: the least of the seven samples of the overhead, and the mean of as many runs as take
  a second. \<open>t i\<close> is the time of run \<open>i\<close>.\<close>

definition SAMPLES :: nat where "SAMPLES = 7"

definition sample_overhead :: "(nat \<Rightarrow> int) \<Rightarrow> int" where
  "sample_overhead ov = foldl (\<lambda>m i. min m (ov i)) LONG_MAX [0..<SAMPLES]"

partial_function (option) sample_total :: "(nat \<Rightarrow> int) \<Rightarrow> nat \<Rightarrow> int \<Rightarrow> (int \<times> nat) option" where
  "sample_total t i tot = (if tot < 10 ^ 9 then sample_total t (i + 1) (tot + t i) else Some (tot, i))"

declare sample_total.simps [code]

definition bench_measure :: "(nat \<Rightarrow> int) \<Rightarrow> (nat \<Rightarrow> int) \<Rightarrow> (int \<times> int) option" where
  "bench_measure ov t = do {
     (tot, i) \<leftarrow> sample_total t 0 0;
     tot \<leftarrow> c_div tot (int i);
     Some (sample_overhead ov, tot)
   }"

text \<open>What one call of \<^verbatim>\<open>do_bench\<close> meets: the current CPU, the error numbers of \<^verbatim>\<open>pipe\<close> and \<^verbatim>\<open>pthread_create\<close> (0 for none), whether
  \<^verbatim>\<open>calloc\<close>, the \<^verbatim>\<open>CPU_ALLOC\<close> of the threads that are bound and the allocation of the buffers succeed, whether threads that are
  cancelled before they got the signal to stop end, and the times that thread 1 measures.\<close>

record bench_run =
  br_cpu :: int
  br_pipe :: int
  br_calloc :: bool
  br_create :: "nat \<Rightarrow> int"
  br_bound :: bool
  br_buffers :: bool
  br_joined :: bool
  br_overhead :: int
  br_total :: int

text \<open>The CPUs of the threads, \<^verbatim>\<open>-1\<close> for those that are not bound. Thread 0 allocates.\<close>

definition thread_cpu :: "bench_params \<Rightarrow> nat \<Rightarrow> int" where
  "thread_cpu P i = (if i = 0 then target_cpu P else if i = 1 then initiator_cpu P else - 1)"

definition create_bench_threads :: "bench_params \<Rightarrow> bench_run \<Rightarrow> int" where
  "create_bench_threads P r =
     (case find (\<lambda>i. br_create r i \<noteq> 0) [0..<max 2 (nat (parallel P))] of
        None \<Rightarrow> int (max 2 (nat (parallel P)))
      | Some i \<Rightarrow> - br_create r i)"

text \<open>\<open>None\<close> stands for a call that does not return: a bound thread that gets no CPU set ends without the signal that it is ready, and
  the main thread waits for it. The array of thread descriptions has \<^verbatim>\<open>parallel\<close> elements, of which two are written.\<close>

definition do_bench :: "bench_params \<Rightarrow> bench_run \<Rightarrow> (int \<times> bench_params) option" where
  "do_bench P r =
     (let P = (if initiator_cpu P < 0 then P\<lparr>initiator_cpu := br_cpu r\<rparr> else P);
          P = (if target_cpu P < 0 then P\<lparr>target_cpu := initiator_cpu P\<rparr> else P) in
      if total_cpus P \<le> initiator_cpu P \<or> total_cpus P \<le> target_cpu P then Some (- EINVAL, P)
      else if br_pipe r \<noteq> 0 then Some (- br_pipe r, P)
      else if \<not> br_calloc r then Some (- ENOMEM, P)
      else if parallel P < 2 then None
      else let t_cnt = create_bench_threads P r in
        if t_cnt < 0 then if br_joined r \<or> br_create r 0 \<noteq> 0 then Some (- 1, P) else None
        else if (0 \<le> thread_cpu P 0 \<or> 0 \<le> thread_cpu P 1) \<and> \<not> br_bound r then None
        else if \<not> br_buffers r then if br_joined r then Some (- ENOMEM, P) else None
        else Some (if br_total r < br_overhead r then - EINVAL else br_total r - br_overhead r, P))"

text \<open>The loop over the iterations that both measurements have. \<open>rs k\<close> is what the call number \<open>k\<close> meets.\<close>

fun iterate :: "nat \<Rightarrow> nat \<Rightarrow> (nat \<Rightarrow> bench_run) \<Rightarrow> bench_params \<Rightarrow> int \<Rightarrow> nat \<Rightarrow> (int \<times> nat \<times> bench_params) option" where
  "iterate 0 k rs P elapsed iter = Some (elapsed, iter, P)"
| "iterate (Suc n) k rs P elapsed iter = do {
     (t, P) \<leftarrow> do_bench P (rs k);
     let elapsed = elapsed + t;
     iterate n (k + 1) rs P elapsed (if elapsed \<le> 0 then iter else iter + 1)
   }"

text \<open>The return value and the quotient that is printed.\<close>

definition measure_memory_latency :: "(nat \<Rightarrow> bench_run) \<Rightarrow> bench_params \<Rightarrow> (int \<times> (int \<times> int) option \<times> bench_params) option" where
  "measure_memory_latency rs P = do {
     (elapsed, iter, P) \<leftarrow> iterate (nat (iteration P)) 0 rs P 0 0;
     Some (if iter = 0 then (- EINVAL, None, P)
       else (0, Some (elapsed, uint (of_nat iter * (latbench_count P + 1))), P))
   }"

definition stream_benches :: "(string \<times> int) list" where
  "stream_benches = [(''Stream-copy'', 2), (''Stream-scale'', 2), (''Stream-add'', 3), (''Stream-triad'', 3)]"

text \<open>What is printed: the name, the bytes that were moved and the nanoseconds. The time is not reset between the benchmarks.\<close>

fun bandwidth_loop :: "(string \<times> int) list \<Rightarrow> nat \<Rightarrow> (nat \<Rightarrow> bench_run) \<Rightarrow> bench_params \<Rightarrow> int
    \<Rightarrow> (int \<times> (string \<times> int \<times> int) list \<times> bench_params) option" where
  "bandwidth_loop [] k rs P elapsed = Some (0, [], P)"
| "bandwidth_loop ((name, cnt) # bs) k rs P elapsed = do {
     (elapsed, iter, P) \<leftarrow> iterate (nat (iteration P)) k rs P elapsed 0;
     if iter = 0 then Some (- EINVAL, [], P)
     else do {
       (ret, out, P) \<leftarrow> bandwidth_loop bs (k + nat (iteration P)) rs P elapsed;
       Some (ret, (name, uint (buf_sz P) * cnt * int iter * (parallel P - 1), elapsed) # out, P)
     }
   }"

definition measure_memory_bandwidth :: "(nat \<Rightarrow> bench_run) \<Rightarrow> bench_params
    \<Rightarrow> (int \<times> (string \<times> int \<times> int) list \<times> bench_params) option" where
  "measure_memory_bandwidth rs P = bandwidth_loop stream_benches 0 rs P 0"

text \<open>The exit status, the latency and the bandwidths. The runs of the two measurements are given separately.\<close>

definition bench_main :: "env \<Rightarrow> topo_env \<Rightarrow> int \<Rightarrow> int \<Rightarrow> (nat \<Rightarrow> bench_run) \<Rightarrow> (nat \<Rightarrow> bench_run) \<Rightarrow> bench_opt list
    \<Rightarrow> (int \<times> (int \<times> int) option \<times> (string \<times> int \<times> int) list) option" where
  "bench_main e q pagesize online rl rb opts = do {
     (ret, P) \<leftarrow> parse_command opts default_params;
     if ret \<noteq> 0 then Some (ret, None, [])
     else do {
       (P, q) \<leftarrow> init_bench_parameters e q pagesize online P;
       (ret, lat, P) \<leftarrow> (if lat_bench P then measure_memory_latency rl P else Some (0, None, P));
       if bw_bench P \<and> ret = 0
       then do { (ret, bw, P) \<leftarrow> measure_memory_bandwidth rb P; Some (ret, lat, bw) }
       else Some (ret, lat, [])
     }
   }"

end
