(* ===== verification/BenchList.thy ===== *)
theory BenchList
  imports MemBench
begin

text \<open>
  The list that wayca-memory-bench walks to measure latencies is one cycle through its first element: with a fixed stride it
  visits every element of the buffer in order, and in random order it stays within the memory that was allocated, although
  the search for a free element leaves the first buffer.
\<close>

section \<open>Paths\<close>

text \<open>The elements \<open>ps\<close> are linked in this order, the last one is not linked or to itself, and all others are free.\<close>

definition path :: "nat \<Rightarrow> ulong list \<Rightarrow> nat list \<Rightarrow> bool" where
  "path B list ps \<longleftrightarrow> ps \<noteq> [] \<and> hd ps = 0 \<and> distinct ps \<and> (\<forall>p \<in> set ps. p < B)
     \<and> (\<forall>i. Suc i < length ps \<longrightarrow> list ! (ps ! i) = of_nat (ps ! Suc i))
     \<and> (\<forall>j < length list. j \<notin> set ps \<longrightarrow> list ! j = - 1)
     \<and> list ! last ps \<in> {- 1, of_nat (last ps)}"

definition cyclic :: "ulong list \<Rightarrow> nat list \<Rightarrow> bool" where
  "cyclic list ps \<longleftrightarrow> ps \<noteq> [] \<and> hd ps = 0 \<and> distinct ps \<and> (\<forall>p \<in> set ps. p < length list)
     \<and> (\<forall>i < length ps. list ! (ps ! i) = of_nat (ps ! (Suc i mod length ps)))"

lemma small_not_free: "n < 2 ^ 63 \<Longrightarrow> (of_nat n :: ulong) \<noteq> - 1"
proof
  assume n: "n < 2 ^ 63" and "(of_nat n :: ulong) = - 1"
  then have "(of_nat (Suc n) :: ulong) = 0" by simp
  then have "2 ^ 64 dvd Suc n" using word_of_nat_eq_0_iff [where 'a = 64, of "Suc n"] by simp
  then show False using n dvd_imp_le [of "2 ^ 64" "Suc n"] by simp
qed

lemma unat_of_small [simp]: "n < 2 ^ 63 \<Longrightarrow> unat (of_nat n :: ulong) = n"
  by (simp add: unat_of_nat)

lemma word_of_unat: "unat (x :: ulong) = n \<Longrightarrow> x = of_nat n"
  by auto

lemma path_last:
  assumes "path B list ps" "B \<le> length list"
  shows "last ps \<in> set ps" "last ps < B" "last ps < length list" "last ps = ps ! (length ps - 1)" "0 < length ps"
proof -
  show in_set: "last ps \<in> set ps" using assms(1) by (simp add: path_def)
  then show "last ps < B" using assms(1) by (simp add: path_def)
  then show "last ps < length list" using assms(2) by simp
qed (use assms(1) in \<open>simp_all add: path_def last_conv_nth\<close>)

lemma path_inner: "path B list ps \<Longrightarrow> Suc i < length ps \<Longrightarrow> ps ! i \<noteq> last ps"
  using nth_eq_iff_index_eq [of ps i "length ps - 1"] by (auto simp: path_def last_conv_nth)

lemma path_extend:
  assumes p: "path B list ps" and B: "B \<le> length list" "B < 2 ^ 63" and q: "q < B" "list ! q = - 1" "q \<noteq> last ps"
  shows "path B (list[last ps := of_nat q]) (ps @ [q])"
proof -
  have small: "ps ! i < 2 ^ 63" if "i < length ps" for i
    using p B(2) nth_mem [OF that] by (fastforce simp: path_def)
  have fresh: "q \<notin> set ps"
  proof
    assume "q \<in> set ps"
    then obtain i where i: "i < length ps" "ps ! i = q" by (auto simp: in_set_conv_nth)
    then have "Suc i < length ps"
      using q(3) p by (metis Suc_lessI last_conv_nth diff_Suc_1 path_def)
    then show False
      using p i q(2) small_not_free [OF small] by (auto simp: path_def)
  qed
  note last = path_last [OF p B(1)]
  have link: "(list[last ps := of_nat q]) ! ((ps @ [q]) ! i) = of_nat ((ps @ [q]) ! Suc i)" if "Suc i < length (ps @ [q])" for i
  proof (cases "Suc i = length ps")
    case True
    then show ?thesis using last(3,4) by (simp add: nth_append flip: True)
  next
    case False
    then have i: "Suc i < length ps" using that by simp
    then show ?thesis using p path_inner [OF p i] by (simp add: path_def nth_append)
  qed
  show ?thesis
    unfolding path_def using p fresh link q last by (auto simp: path_def nth_list_update)
qed

lemma path_stays:
  assumes "path B list ps" "B \<le> length list"
  shows "path B (list[last ps := of_nat (last ps)]) ps"
proof -
  have "(list[last ps := of_nat (last ps)]) ! (ps ! i) = of_nat (ps ! Suc i)" if "Suc i < length ps" for i
    using assms(1) path_inner [OF assms(1) that] that by (simp add: path_def)
  then show ?thesis
    using assms(1) path_last [OF assms] unfolding path_def by (simp add: nth_list_update)
qed

lemma path_closed:
  assumes "path B list ps" "B \<le> length list"
  shows "cyclic (list[last ps := 0]) ps"
proof -
  note last = path_last [OF assms]
  have "(list[last ps := 0]) ! (ps ! i) = of_nat (ps ! (Suc i mod length ps))" if i: "i < length ps" for i
  proof (cases "Suc i = length ps")
    case True
    then have "ps ! i = last ps" using last(4) by (simp flip: True)
    moreover have "ps ! 0 = 0" using assms(1) by (metis hd_conv_nth path_def)
    ultimately show ?thesis using True last(3) by simp
  next
    case False
    then have s: "Suc i < length ps" using i by simp
    then show ?thesis using assms(1) path_inner [OF assms(1) s] by (simp add: path_def)
  qed
  then show ?thesis
    using assms unfolding path_def cyclic_def by (auto intro: order_less_le_trans)
qed

section \<open>The search for a free element\<close>

lemma probe_finds:
  assumes "card {j. next \<le> j \<and> j < length list \<and> list ! j \<noteq> - 1} \<le> k" "next + k * step < length list" "0 < step"
    and "length list < 2 ^ 63"
  shows "\<exists>j \<le> k. probe list (of_nat step) (of_nat next) = Some (of_nat (next + j * step)) \<and> list ! (next + j * step) = - 1"
  using assms(1,2)
proof (induction k arbitrary: "next")
  case 0
  have "finite {j. next \<le> j \<and> j < length list \<and> list ! j \<noteq> - 1}" by simp
  then have "{j. next \<le> j \<and> j < length list \<and> list ! j \<noteq> - 1} = {}" using 0(1) by simp
  moreover have n: "next < length list" using 0(2) by simp
  ultimately have "list ! next = - 1" by blast
  moreover have "next < 2 ^ 63" using n assms(4) by (rule order_less_trans)
  ultimately show ?case using n by (subst probe.simps) simp
next
  case (Suc k)
  have n: "next < length list" using Suc.prems(2) by (meson add_lessD1)
  then have small: "next < 2 ^ 63" using assms(4) by (rule order_less_trans)
  show ?case
  proof (cases "list ! next = - 1")
    case True
    then have "probe list (of_nat step) (of_nat next) = Some (of_nat (next + 0 * step))"
      using n small by (subst probe.simps) simp
    then show ?thesis using True by (metis add.right_neutral mult_0 zero_le)
  next
    case False
    have "{j. next + step \<le> j \<and> j < length list \<and> list ! j \<noteq> - 1}
        \<subseteq> {j. next \<le> j \<and> j < length list \<and> list ! j \<noteq> - 1} - {next}"
      using assms(3) by auto
    then have "card {j. next + step \<le> j \<and> j < length list \<and> list ! j \<noteq> - 1}
        \<le> card ({j. next \<le> j \<and> j < length list \<and> list ! j \<noteq> - 1} - {next})"
      by (intro card_mono) auto
    also have "\<dots> = card {j. next \<le> j \<and> j < length list \<and> list ! j \<noteq> - 1} - 1"
      using False n by (intro card_Diff_singleton) auto
    finally have c: "card {j. next + step \<le> j \<and> j < length list \<and> list ! j \<noteq> - 1} \<le> k"
      using Suc.prems(1) by linarith
    obtain j where j: "j \<le> k" "probe list (of_nat step) (of_nat (next + step)) = Some (of_nat (next + step + j * step))"
        "list ! (next + step + j * step) = - 1"
      using Suc.IH [OF c] Suc.prems(2) by auto
    have "probe list (of_nat step) (of_nat next) = probe list (of_nat step) (of_nat (next + step))"
      using False n small by (subst probe.simps) simp
    then show ?thesis
      using j by (intro exI [of _ "Suc j"]) (simp add: add.assoc)
  qed
qed

section \<open>Sizes\<close>

text \<open>Strides that \<^verbatim>\<open>parse_command\<close> accepts and that are not negative, buffers that hold an element and are not larger than any
  machine's memory; for random order also a page.\<close>

definition sensible :: "bench_params \<Rightarrow> bool" where
  "sensible P \<longleftrightarrow> 0 < bench_stride P \<and> bench_stride P < 2 ^ 31 \<and> bench_stride P mod 8 = 0
     \<and> nat (bench_stride P) \<le> unat (buf_sz P) \<and> unat (buf_sz P) < 2 ^ 62
     \<and> (random_access P \<longrightarrow> nat (bench_stride P) \<le> unat (page_size P))"

definition gap :: "bench_params \<Rightarrow> nat" where "gap P = nat (bench_stride P) div 8"

definition elems :: "bench_params \<Rightarrow> nat" where "elems P = unat (buf_sz P) div nat (bench_stride P)"

definition buf_words :: "bench_params \<Rightarrow> nat" where "buf_words P = unat (buf_sz P) div 8"

locale bench_sizes =
  fixes P :: bench_params
  assumes sensible: "sensible P"
begin

lemma stride_gap: "nat (bench_stride P) = 8 * gap P" "0 < gap P" "gap P < 2 ^ 28" "bench_stride P = int (8 * gap P)"
proof -
  obtain k where k: "bench_stride P = 8 * k" using sensible by (metis sensible_def mod_0_imp_dvd dvdE)
  then have "0 < k" "k < 2 ^ 28" using sensible by (auto simp: sensible_def)
  then have "gap P = nat k" using k by (simp add: gap_def nat_mult_distrib)
  then show "bench_stride P = int (8 * gap P)" "nat (bench_stride P) = 8 * gap P" "0 < gap P" "gap P < 2 ^ 28"
    using k \<open>0 < k\<close> \<open>k < 2 ^ 28\<close> by (simp_all add: nat_mult_distrib nat_less_iff)
qed

lemma ustride_gap: "ustride P = of_nat (8 * gap P)" "unat (ustride P) = 8 * gap P"
proof -
  show 1: "ustride P = of_nat (8 * gap P)"
    unfolding ustride_def stride_gap(4) by (rule of_int_of_nat_eq)
  show "unat (ustride P) = 8 * gap P"
    using stride_gap(3) unfolding 1 by (intro unat_of_small) simp
qed

lemma buf_small: "unat (buf_sz P) < 2 ^ 62" "8 * gap P \<le> unat (buf_sz P)"
  using sensible stride_gap(1) by (simp_all add: sensible_def)

lemma sizes: "0 < elems P" "elems P * gap P \<le> buf_words P" "0 < buf_words P" "buf_words P < 2 ^ 59"
proof -
  show pos: "0 < elems P"
    using buf_small(2) stride_gap(2) unfolding elems_def stride_gap(1) by (simp add: div_greater_zero_iff)
  have "elems P * (8 * gap P) \<le> unat (buf_sz P)"
    unfolding elems_def stride_gap(1) by (rule div_times_less_eq_dividend)
  then have "(elems P * gap P) * 8 \<le> unat (buf_sz P)" by (simp add: algebra_simps)
  then show e: "elems P * gap P \<le> buf_words P" by (simp add: buf_words_def less_eq_div_iff_mult_less_eq)
  have "0 < elems P * gap P" using pos stride_gap(2) by simp
  then show "0 < buf_words P" using e by (rule order_less_le_trans)
  have "unat (buf_sz P) < 2 ^ 59 * 8" using buf_small(1) by simp
  then show "buf_words P < 2 ^ 59" unfolding buf_words_def by (rule less_mult_imp_div_less)
qed

lemma words_conv: "buf_sz P div 8 = of_nat (buf_words P)" "ustride P div 8 = of_nat (gap P)"
    "unat (buf_sz P div ustride P - 1) = elems P - 1"
proof -
  show "buf_sz P div 8 = of_nat (buf_words P)"
    by (rule word_of_unat) (simp add: unat_div buf_words_def)
  show "ustride P div 8 = of_nat (gap P)"
    by (rule word_of_unat) (simp add: unat_div ustride_gap(2))
  have e: "unat (buf_sz P div ustride P) = elems P"
    by (simp only: unat_div ustride_gap(2) elems_def stride_gap(1))
  then have "buf_sz P div ustride P \<noteq> 0" using sizes(1) by auto
  then have "unat (buf_sz P div ustride P - 1) = unat (buf_sz P div ustride P) - 1" by (rule unat_minus_one)
  then show "unat (buf_sz P div ustride P - 1) = elems P - 1" by (simp only: e)
qed

lemma gap_mod: "2 \<le> elems P \<Longrightarrow> ustride P div 8 mod of_nat (buf_words P) = of_nat (gap P)"
proof -
  assume "2 \<le> elems P"
  then have "2 * gap P \<le> elems P * gap P" by simp
  then have "gap P < buf_words P" using sizes(2) stride_gap(2) by linarith
  then have "unat (of_nat (gap P) mod (of_nat (buf_words P) :: ulong)) = gap P"
    using sizes(4) stride_gap(3) by (simp add: unat_mod)
  then show ?thesis
    unfolding words_conv(2) by (rule word_of_unat)
qed

text \<open>One round: the generator does not fail, and the search ends with a free element in the first two buffers.\<close>

lemma next_found:
  assumes p: "path (2 * buf_words P) list ps" and len: "2 * buf_words P \<le> length list" "length list < 2 ^ 63"
    and ps: "length ps < elems P" and nx: "nx < buf_words P"
  obtains q where "probe list (ustride P div 8 mod of_nat (buf_words P)) (of_nat nx) = Some (of_nat q)" "q < 2 * buf_words P" "list ! q = - 1"
proof -
  have "card {j. nx \<le> j \<and> j < length list \<and> list ! j \<noteq> - 1} \<le> card (set ps)"
    using p by (intro card_mono) (auto simp: path_def)
  then have c: "card {j. nx \<le> j \<and> j < length list \<and> list ! j \<noteq> - 1} \<le> length ps"
    using card_length le_trans by blast
  have ps0: "0 < length ps" using p by (simp add: path_def)
  have "length ps * gap P \<le> elems P * gap P" using ps by simp
  then have b: "nx + j * gap P < 2 * buf_words P" if "j \<le> length ps" for j
    using nx sizes(2) that mult_le_mono1 [OF that, of "gap P"] by linarith
  then have "nx + length ps * gap P < length list" using len(1) by (meson le_refl order_less_le_trans)
  then obtain j where j: "j \<le> length ps" "probe list (of_nat (gap P)) (of_nat nx) = Some (of_nat (nx + j * gap P))" "list ! (nx + j * gap P) = - 1"
    using probe_finds [OF c _ stride_gap(2) len(2)] by blast
  moreover have "2 \<le> elems P" using ps ps0 by linarith
  ultimately show thesis
    using that [OF _ b [OF j(1)]] by (simp only: gap_mod)
qed

lemma prng_returns: "\<exists>r st'. (if random_access P then lcg_prng P now st else fix_stride P st) = Some (r, st')"
proof -
  have "page_size P div ustride P \<noteq> 0" if "random_access P"
  proof -
    have "0 < unat (page_size P) div (8 * gap P)"
      using sensible that stride_gap(1,2) by (simp add: sensible_def div_greater_zero_iff)
    then show ?thesis using ustride_gap(2) by (metis unat_div unsigned_0 less_irrefl)
  qed
  then show ?thesis by (simp add: lcg_prng_def fix_stride_def Let_def split: prod.split)
qed

lemma circ_loop_path:
  assumes "path (2 * buf_words P) list ps" "2 * buf_words P \<le> length list" "length list < 2 ^ 63"
    and "length ps + n \<le> elems P" "pos = of_nat (last ps)"
  shows "\<exists>ps' st' list'. circ_loop P now (of_nat (buf_words P)) n pos st list = Some (of_nat (last ps'), st', list')
    \<and> path (2 * buf_words P) list' ps' \<and> length ps' \<le> length ps + n \<and> length list' = length list"
  using assms
proof (induction n arbitrary: list ps pos st)
  case 0
  then show ?case by auto
next
  case (Suc n)
  note last = path_last [OF Suc.prems(1,2)]
  obtain r st' where r: "(if random_access P then lcg_prng P now st else fix_stride P st) = Some (r, st')"
    using prng_returns by blast
  have w: "unat (of_nat (buf_words P) :: ulong) = buf_words P" using sizes(4) by simp
  have nz: "(of_nat (buf_words P) :: ulong) \<noteq> 0" using w sizes(3) by (metis less_irrefl unsigned_0)
  define nx where "nx = unat ((pos + r div 8) mod (of_nat (buf_words P) :: ulong))"
  have nx: "nx < buf_words P" "(pos + r div 8) mod of_nat (buf_words P) = of_nat nx"
    using sizes(3) by (simp add: nx_def unat_mod w, simp add: nx_def)
  obtain q where q: "probe list (ustride P div 8 mod of_nat (buf_words P)) (of_nat nx) = Some (of_nat q)" "q < 2 * buf_words P" "list ! q = - 1"
    using next_found [OF Suc.prems(1-3) _ nx(1)] Suc.prems(4) by auto
  have lp: "unat pos = last ps" using last(3) Suc.prems(3,5) by simp
  have step: "circ_loop P now (of_nat (buf_words P)) (Suc n) pos st list
      = circ_loop P now (of_nat (buf_words P)) n (of_nat q) st' (list[last ps := of_nat q])"
    using r nz q(1) nx(2) lp last(3) by simp
  show ?case
  proof (cases "q = last ps")
    case True
    have "path (2 * buf_words P) (list[last ps := of_nat q]) ps"
      unfolding True by (rule path_stays [OF Suc.prems(1,2)])
    from Suc.IH [OF this, of "of_nat q" st'] show ?thesis
      unfolding step using Suc.prems(2-4) True by fastforce
  next
    case False
    have B: "2 * buf_words P < 2 ^ 63" using Suc.prems(2,3) by linarith
    have "path (2 * buf_words P) (list[last ps := of_nat q]) (ps @ [q])"
      by (rule path_extend [OF Suc.prems(1,2) B q(2,3) False])
    from Suc.IH [OF this, of "of_nat q" st'] show ?thesis
      unfolding step using Suc.prems(2-4) by fastforce
  qed
qed

lemma fresh_path: "0 < B \<Longrightarrow> path B (replicate k (- 1)) [0]" if "0 < k"
  using that by (simp add: path_def)

lemma alloc_length: "length (alloc_buffers P) = unat (3 * buf_sz P) div 8" "unat (3 * buf_sz P) = 3 * unat (buf_sz P)"
proof -
  have "3 * unat (buf_sz P) < 2 ^ 64" using buf_small(1) by simp
  then show "unat (3 * buf_sz P) = 3 * unat (buf_sz P)" by (simp add: unat_word_ariths)
qed (simp add: alloc_buffers_def)

lemma alloc_enough: "2 * buf_words P \<le> length (alloc_buffers P)" "length (alloc_buffers P) < 2 ^ 63" "0 < length (alloc_buffers P)"
proof -
  have "2 * buf_words P \<le> 3 * unat (buf_sz P) div 8" unfolding buf_words_def by linarith
  then show 1: "2 * buf_words P \<le> length (alloc_buffers P)" by (simp only: alloc_length)
  have "3 * unat (buf_sz P) < 2 ^ 63 * 8" using buf_small(1) by simp
  then show "length (alloc_buffers P) < 2 ^ 63" unfolding alloc_length by (rule less_mult_imp_div_less)
  show "0 < length (alloc_buffers P)" using 1 sizes(3) by linarith
qed

lemma list_closed:
  "\<exists>st' list ps. init_circular_list P now st (alloc_buffers P) = Some (st', list) \<and> cyclic list ps \<and> length ps \<le> elems P
     \<and> (\<forall>p \<in> set ps. p < 2 * buf_words P) \<and> length list = length (alloc_buffers P)"
proof -
  have p0: "path (2 * buf_words P) (alloc_buffers P) [0]"
    using fresh_path alloc_enough(3) sizes(3) unfolding alloc_buffers_def by simp
  obtain ps st' list where c: "circ_loop P now (of_nat (buf_words P)) (elems P - 1) 0 st (alloc_buffers P) = Some (of_nat (last ps), st', list)"
      "path (2 * buf_words P) list ps" "length ps \<le> elems P" "length list = length (alloc_buffers P)"
    using circ_loop_path [OF p0 alloc_enough(1,2), of "elems P - 1" 0 now st] sizes(1) by auto
  have B: "2 * buf_words P \<le> length list" using alloc_enough(1) c(4) by simp
  have nz: "ustride P \<noteq> 0" using ustride_gap(2) stride_gap(2) by (metis mult_is_0 neq0_conv unsigned_0 zero_neq_numeral)
  have "unat (of_nat (last ps) :: ulong) = last ps" using path_last(3) [OF c(2) B] alloc_enough(2) c(4) by simp
  then have "init_circular_list P now st (alloc_buffers P) = Some (st', list[last ps := 0])"
    using c(1) path_last(3) [OF c(2) B] nz by (simp add: init_circular_list_def words_conv(1,3))
  moreover have "\<forall>p \<in> set ps. p < 2 * buf_words P" using c(2) by (simp add: path_def)
  ultimately show ?thesis
    using path_closed [OF c(2) B] c(3,4) by auto
qed

lemma gap_fits: "m < elems P \<Longrightarrow> m * gap P < buf_words P"
proof -
  assume "m < elems P"
  then have "Suc m * gap P \<le> elems P * gap P" by (intro mult_le_mono1) simp
  then show ?thesis using sizes(2) stride_gap(2) by simp
qed

lemma multiples_last: "0 < m \<Longrightarrow> last (map (\<lambda>k. k * gap P) [0..<m]) = (m - 1) * gap P"
  by (simp add: last_map)

text \<open>With a fixed stride the next element is free, and it is the next multiple of the stride.\<close>

lemma circ_loop_fixed:
  assumes "\<not> random_access P" "path (2 * buf_words P) list (map (\<lambda>k. k * gap P) [0..<m])" "0 < m"
    and "2 * buf_words P \<le> length list" "length list < 2 ^ 63" "m + n \<le> elems P"
  shows "\<exists>list'. circ_loop P now (of_nat (buf_words P)) n (of_nat ((m - 1) * gap P)) st list
      = Some (of_nat ((m + n - 1) * gap P), st, list')
    \<and> path (2 * buf_words P) list' (map (\<lambda>k. k * gap P) [0..<m + n]) \<and> length list' = length list"
  using assms(2-)
proof (induction n arbitrary: list m)
  case 0
  then show ?case by simp
next
  case (Suc n)
  let ?ps = "map (\<lambda>k. k * gap P) [0..<m]" and ?q = "m * gap P"
  note last = path_last [OF Suc.prems(1,3)]
  have q: "?q < buf_words P" using gap_fits [of m] Suc.prems(5) by simp
  have w: "unat (of_nat (buf_words P) :: ulong) = buf_words P" "unat (of_nat ?q :: ulong) = ?q"
    using sizes(4) q by (simp_all del: of_nat_mult)
  have nz: "(of_nat (buf_words P) :: ulong) \<noteq> 0" using w(1) sizes(3) by (metis less_irrefl unsigned_0)
  have "(m - 1) * gap P + gap P = ?q" using Suc.prems(2) by (cases m) simp_all
  then have sum: "of_nat ((m - 1) * gap P) + (of_nat (gap P) :: ulong) = of_nat ?q" by (metis of_nat_add)
  have md: "of_nat ?q mod (of_nat (buf_words P) :: ulong) = of_nat ?q"
    by (rule word_of_unat) (simp add: unat_mod w q del: of_nat_mult)
  have "?q \<notin> set ?ps" using stride_gap(2) by auto
  then have free: "list ! ?q = - 1" using Suc.prems(1,3) q by (auto simp: path_def)
  then have pr: "probe list s (of_nat ?q) = Some (of_nat ?q)" for s
    using Suc.prems(3) q w(2) by (subst probe.simps) (simp del: of_nat_mult)
  have lp: "last ?ps = (m - 1) * gap P" by (rule multiples_last [OF Suc.prems(2)])
  have lu: "unat (of_nat ((m - 1) * gap P) :: ulong) = (m - 1) * gap P" "(m - 1) * gap P < length list"
    using last(3) lp Suc.prems(4) by (simp_all del: of_nat_mult)
  have step: "circ_loop P now (of_nat (buf_words P)) (Suc n) (of_nat ((m - 1) * gap P)) st list
      = circ_loop P now (of_nat (buf_words P)) n (of_nat ?q) st (list[(m - 1) * gap P := of_nat ?q])"
    using assms(1) nz lu by (simp add: fix_stride_def words_conv(2) sum md pr del: of_nat_mult One_nat_def)
  have B: "2 * buf_words P < 2 ^ 63" using Suc.prems(3,4) by linarith
  have "last ?ps \<noteq> ?q" using last(1) \<open>?q \<notin> set ?ps\<close> by metis
  then have "path (2 * buf_words P) (list[last ?ps := of_nat ?q]) (?ps @ [?q])"
    using path_extend [OF Suc.prems(1,3) B _ free] q by auto
  then have "path (2 * buf_words P) (list[(m - 1) * gap P := of_nat ?q]) (map (\<lambda>k. k * gap P) [0..<Suc m])"
    by (simp only: lp upt_Suc_append map_append list.map zero_le)
  from Suc.IH [OF this] show ?case
    unfolding step using Suc.prems(3-5) by (simp del: of_nat_mult upt_Suc)
qed

lemma list_fixed:
  assumes "\<not> random_access P"
  shows "\<exists>list. init_circular_list P now st (alloc_buffers P) = Some (st, list) \<and> cyclic list (map (\<lambda>k. k * gap P) [0..<elems P])
     \<and> length list = length (alloc_buffers P)"
proof -
  let ?ps = "map (\<lambda>k. k * gap P) [0..<elems P]"
  have p0: "path (2 * buf_words P) (alloc_buffers P) (map (\<lambda>k. k * gap P) [0..<1])"
    using fresh_path alloc_enough(3) sizes(3) unfolding alloc_buffers_def by simp
  obtain list where c: "circ_loop P now (of_nat (buf_words P)) (elems P - 1) 0 st (alloc_buffers P) = Some (of_nat ((elems P - 1) * gap P), st, list)"
      "path (2 * buf_words P) list ?ps" "length list = length (alloc_buffers P)"
    using circ_loop_fixed [OF assms p0 _ alloc_enough(1,2), of "elems P - 1" now st] sizes(1) by auto
  have B: "2 * buf_words P \<le> length list" using alloc_enough(1) c(3) by simp
  have lp: "last ?ps = (elems P - 1) * gap P" by (rule multiples_last [OF sizes(1)])
  have nz: "ustride P \<noteq> 0" using ustride_gap(2) stride_gap(2) by (metis mult_is_0 neq0_conv unsigned_0 zero_neq_numeral)
  have "unat (of_nat (last ?ps) :: ulong) = last ?ps" using path_last(3) [OF c(2) B] alloc_enough(2) c(3) by (simp del: of_nat_mult)
  then have "init_circular_list P now st (alloc_buffers P) = Some (st, list[last ?ps := 0])"
    using c(1) path_last(3) [OF c(2) B] nz by (simp add: init_circular_list_def words_conv(1,3) lp del: of_nat_mult)
  then show ?thesis
    using path_closed [OF c(2) B] c(3) by simp
qed

end

section \<open>Walks\<close>

lemma follow_cycle:
  assumes "cyclic list ps" "length list < 2 ^ 63" "i < length ps"
  shows "follow_list m list (of_nat (ps ! i)) = Some (of_nat (ps ! ((i + m) mod length ps)))"
  using assms(3)
proof (induction m arbitrary: i)
  case 0
  then show ?case by simp
next
  case (Suc m)
  have "ps ! i < length list" using assms(1) Suc.prems by (simp add: cyclic_def)
  moreover have "ps ! i < 2 ^ 63" using calculation assms(2) by (rule order_less_trans)
  ultimately have "rd list (unat (of_nat (ps ! i) :: ulong)) = Some (of_nat (ps ! (Suc i mod length ps)))"
    using assms(1) Suc.prems by (simp add: cyclic_def)
  moreover have "Suc i mod length ps < length ps" using Suc.prems by (intro mod_less_divisor) linarith
  moreover have "(Suc i mod length ps + m) mod length ps = (i + Suc m) mod length ps" by (simp add: mod_add_left_eq)
  ultimately show ?case using Suc.IH [of "Suc i mod length ps"] by simp
qed

lemma walk_cycle:
  assumes "cyclic list ps" "length list < 2 ^ 63"
  shows "j < length ps \<Longrightarrow> unat (latbench_count P) = i + 16 * k \<Longrightarrow> walk_loop P list i (of_nat (ps ! j))
    = (if k = 0 \<or> i + 16 * k < 2 ^ 31 then Some (of_nat (ps ! ((j + 16 * k) mod length ps))) else None)"
proof (induction k arbitrary: i j)
  case 0
  then show ?case by (subst walk_loop.simps) simp
next
  case (Suc k)
  have f: "follow_list 16 list (of_nat (ps ! j)) = Some (of_nat (ps ! ((j + 16) mod length ps)))"
    by (rule follow_cycle [OF assms Suc.prems(1)])
  have "((j + 16) mod length ps + 16 * k) mod length ps = (j + 16 * Suc k) mod length ps"
    by (simp add: mod_add_left_eq add.assoc)
  moreover have "(j + 16) mod length ps < length ps" using Suc.prems(1) by (intro mod_less_divisor) linarith
  ultimately show ?case
    using Suc.IH [of "(j + 16) mod length ps" "i + 16"] Suc.prems(2) f by (subst walk_loop.simps) auto
qed

text \<open>\<^verbatim>\<open>latbench_count\<close> as \<^verbatim>\<open>init_bench_parameters\<close> sets it.\<close>

definition counted :: "bench_params \<Rightarrow> bool" where
  "counted P \<longleftrightarrow> latbench_count P = buf_sz P div ustride P * 16"

context bench_sizes
begin

lemma counted_unat: "counted P \<Longrightarrow> unat (latbench_count P) = 0 + 16 * elems P"
proof -
  assume c: "counted P"
  have e: "unat (buf_sz P div ustride P) = elems P"
    by (simp only: unat_div ustride_gap(2) elems_def stride_gap(1))
  have "elems P * 1 \<le> elems P * gap P" using stride_gap(2) by (intro mult_le_mono2) simp
  then have "elems P < 2 ^ 59" using sizes(2,4) by (metis le_trans mult.right_neutral order_le_less_trans)
  then have "elems P * 16 < 2 ^ 64" by simp
  then show ?thesis using c e by (simp add: counted_def unat_word_ariths)
qed

lemma walk_closed:
  assumes "counted P" "cyclic list ps" "length list = length (alloc_buffers P)"
  shows "walk_circular_list P list = (if 16 * elems P < 2 ^ 31 then Some (of_nat (ps ! (16 * elems P mod length ps))) else None)"
proof -
  have "ps ! 0 = 0" "0 < length ps" using assms(2) by (auto simp: cyclic_def hd_conv_nth)
  moreover have "length list < 2 ^ 63" using assms(3) alloc_enough(2) by simp
  ultimately show ?thesis
    using walk_cycle [OF assms(2) _ _ counted_unat [OF assms(1)], of 0] sizes(1) by (simp add: walk_circular_list_def)
qed

end

lemma sensible_default: "sensible default_params"
  by (simp add: sensible_def default_params_def MiB_def KiB_def)

interpretation default_bench: bench_sizes default_params
  by unfold_locales (rule sensible_default)

text \<open>C12. The latency benchmark stays inside its memory, in either order: building the list ends, the list is one cycle
  through element 0 of at most as many elements as strides fit the buffer, all of them within the first two of the three
  buffers, and the walk follows the cycle; it ends exactly when its counter, an \<^verbatim>\<open>int\<close>, does not overflow.\<close>

theorem latency_list_closed:
  assumes "sensible P" "counted P"
  shows "\<exists>st' list ps. init_circular_list P now st (alloc_buffers P) = Some (st', list) \<and> cyclic list ps
     \<and> length ps \<le> elems P \<and> (\<forall>p \<in> set ps. p < 2 * buf_words P)
     \<and> walk_circular_list P list = (if 16 * elems P < 2 ^ 31 then Some (of_nat (ps ! (16 * elems P mod length ps))) else None)"
proof -
  have b: "bench_sizes P" using assms(1) by (rule bench_sizes.intro)
  obtain st' list ps where "init_circular_list P now st (alloc_buffers P) = Some (st', list)" "cyclic list ps" "length ps \<le> elems P"
      "\<forall>p \<in> set ps. p < 2 * buf_words P" "length list = length (alloc_buffers P)"
    using bench_sizes.list_closed [OF b, of now st] by blast
  then show ?thesis using bench_sizes.walk_closed [OF b assms(2)] by blast
qed

definition sample_bench :: bench_params where
  "sample_bench = default_params\<lparr>buf_sz := 256, random_access := True, latbench_count := 64\<rparr>"

lemma sample_bench_ok: "sensible sample_bench" "counted sample_bench" "elems sample_bench = 4" "buf_words sample_bench = 32" "gap sample_bench = 8"
  by (simp_all add: sample_bench_def sensible_def default_params_def counted_def elems_def buf_words_def gap_def ustride_def)

lemma latency_list_closed_witness:
  "\<exists>st' list ps. init_circular_list sample_bench (\<lambda>_. 7) (0, 0) (alloc_buffers sample_bench) = Some (st', list) \<and> cyclic list ps
     \<and> length ps \<le> 4 \<and> walk_circular_list sample_bench list = Some (of_nat (ps ! (64 mod length ps)))"
  using latency_list_closed [OF sample_bench_ok(1,2), of "\<lambda>_. 7" "(0, 0)"] unfolding sample_bench_ok by auto

text \<open>C31. With a fixed stride the list links every element of the buffer to the next one and the last one to the first, and the walk
  goes round sixteen times and ends where it began.\<close>

theorem latency_list_sequential:
  assumes "sensible P" "counted P" "\<not> random_access P" "16 * elems P < 2 ^ 31"
  shows "\<exists>list. init_circular_list P now st (alloc_buffers P) = Some (st, list)
     \<and> (\<forall>k < elems P. list ! (k * gap P) = of_nat (Suc k mod elems P * gap P)) \<and> walk_circular_list P list = Some 0"
proof -
  have b: "bench_sizes P" using assms(1) by (rule bench_sizes.intro)
  obtain list where l: "init_circular_list P now st (alloc_buffers P) = Some (st, list)"
      "cyclic list (map (\<lambda>k. k * gap P) [0..<elems P])" "length list = length (alloc_buffers P)"
    using bench_sizes.list_fixed [OF b assms(3), of now st] by blast
  have "0 < elems P" by (rule bench_sizes.sizes(1) [OF b])
  then have "\<forall>k < elems P. list ! (k * gap P) = of_nat (Suc k mod elems P * gap P)"
    using l(2) by (simp add: cyclic_def)
  moreover have "walk_circular_list P list = Some 0"
    using bench_sizes.walk_closed [OF b assms(2) l(2,3)] assms(4) \<open>0 < elems P\<close> by simp
  ultimately show ?thesis using l(1) by blast
qed

lemma latency_list_sequential_witness:
  "\<exists>list. init_circular_list (sample_bench\<lparr>random_access := False\<rparr>) (\<lambda>_. 7) (0, 0) (alloc_buffers (sample_bench\<lparr>random_access := False\<rparr>)) = Some ((0, 0), list)
     \<and> list ! 0 = 8 \<and> list ! 8 = 16 \<and> list ! 16 = 24 \<and> list ! 24 = 0 \<and> walk_circular_list (sample_bench\<lparr>random_access := False\<rparr>) list = Some 0"
proof -
  let ?P = "sample_bench\<lparr>random_access := False\<rparr>"
  have P: "sensible ?P" "counted ?P" "elems ?P = 4" "gap ?P = 8" "\<not> random_access ?P"
    using sample_bench_ok by (simp_all add: sensible_def counted_def elems_def gap_def ustride_def)
  obtain list where l: "init_circular_list ?P (\<lambda>_. 7) (0, 0) (alloc_buffers ?P) = Some ((0, 0), list)"
      "\<forall>k < 4. list ! (k * 8) = of_nat (Suc k mod 4 * 8)" "walk_circular_list ?P list = Some 0"
    using latency_list_sequential [OF P(1,2,5), of "\<lambda>_. 7" "(0, 0)"] unfolding P(3,4) by auto
  have "list ! 0 = 8" "list ! 8 = 16" "list ! 16 = 24" "list ! 24 = 0"
    using l(2) [rule_format, of 0] l(2) [rule_format, of 1] l(2) [rule_format, of 2] l(2) [rule_format, of 3] by simp_all
  then show ?thesis using l(1,3) by blast
qed

end
