(* ===== verification/BenchRuns.thy ===== *)
theory BenchRuns
  imports BenchList
begin

text \<open>
  What the numbers of wayca-memory-bench mean: the stream benchmarks compute what they say, the time of a benchmark is a mean
  of its runs, and the bandwidths are computed from the time of all benchmarks so far.
\<close>

section \<open>Streams\<close>

lemma fill_eq:
  assumes "i + n \<le> length buf" "\<forall>j \<in> {i..<i + n}. f j = Some (g j)"
  shows "fill n i f buf = Some (take i buf @ map g [i..<i + n] @ drop (i + n) buf)"
  using assms
proof (induction n arbitrary: i buf)
  case (Suc n)
  let ?buf = "buf[i := g i]"
  have "fill n (i + 1) f ?buf = Some (take (i + 1) ?buf @ map g [i + 1..<i + 1 + n] @ drop (i + 1 + n) ?buf)"
    by (rule Suc.IH) (use Suc.prems in auto)
  moreover have "take (i + 1) ?buf = take i buf @ [g i]" "drop (i + 1 + n) ?buf = drop (i + Suc n) buf"
    using Suc.prems(1) by (simp_all add: take_Suc_conv_app_nth)
  moreover have "[i..<i + Suc n] = i # [i + 1..<i + 1 + n]" by (simp add: upt_rec)
  ultimately show ?case using Suc.prems by simp
qed simp

definition filled :: "bench_params \<Rightarrow> int \<Rightarrow> int list \<Rightarrow> int list" where
  "filled P v buf = replicate (stream_len P) v @ drop (stream_len P) buf"

lemma fill_const:
  assumes "stream_len P \<le> length buf" "\<forall>j < stream_len P. f j = Some v"
  shows "fill (stream_len P) 0 f buf = Some (filled P v buf)"
  using fill_eq [of 0 "stream_len P" buf f "\<lambda>_. v"] assms by (simp add: filled_def map_replicate_const)

lemma filled_rd: "j < stream_len P \<Longrightarrow> rd (filled P v buf) j = Some v"
  by (simp add: filled_def rd_def nth_append)

text \<open>After \<^verbatim>\<open>init_stream_buffer\<close> the four benchmarks fill the first buffer with the sum, product or copy they are named for,
  write nothing behind it and leave the other two buffers alone.\<close>

theorem streams_computed:
  assumes "stream_len P \<le> length (buf_0 b)" "stream_len P \<le> length (buf_1 b)" "stream_len P \<le> length (buf_2 b)"
  shows "\<exists>i. init_stream_buffer P b = Some i \<and> buf_0 i = buf_0 b
     \<and> do_stream_copy P i = Some (i\<lparr>buf_0 := filled P 1 (buf_0 b)\<rparr>) \<and> do_stream_scale P i = Some (i\<lparr>buf_0 := filled P 188 (buf_0 b)\<rparr>)
     \<and> do_stream_add P i = Some (i\<lparr>buf_0 := filled P 3 (buf_0 b)\<rparr>) \<and> do_stream_triad P i = Some (i\<lparr>buf_0 := filled P 377 (buf_0 b)\<rparr>)"
proof -
  let ?i = "b\<lparr>buf_1 := filled P 1 (buf_1 b), buf_2 := filled P 2 (buf_2 b)\<rparr>"
  have "init_stream_buffer P b = Some ?i"
    using fill_const [OF assms(2), of "\<lambda>_. Some 1" 1] fill_const [OF assms(3), of "\<lambda>_. Some 2" 2]
    by (simp add: init_stream_buffer_def STREAM_BUF_INIT_1_def STREAM_BUF_INIT_2_def)
  moreover note fill = fill_const [OF assms(1)]
  have "do_stream_copy P ?i = Some (?i\<lparr>buf_0 := filled P 1 (buf_0 b)\<rparr>)"
    using fill [of "rd (filled P 1 (buf_1 b))" 1] by (simp add: do_stream_copy_def filled_rd)
  moreover have "do_stream_scale P ?i = Some (?i\<lparr>buf_0 := filled P 188 (buf_0 b)\<rparr>)"
    using fill [of "\<lambda>i. do { x \<leftarrow> rd (filled P 1 (buf_1 b)) i; Some (SCALAR * x) }" 188]
    by (simp add: do_stream_scale_def filled_rd SCALAR_def)
  moreover have "do_stream_add P ?i = Some (?i\<lparr>buf_0 := filled P 3 (buf_0 b)\<rparr>)"
    using fill [of "\<lambda>i. do { x \<leftarrow> rd (filled P 1 (buf_1 b)) i; y \<leftarrow> rd (filled P 2 (buf_2 b)) i; Some (x + y) }" 3]
    by (simp add: do_stream_add_def filled_rd)
  moreover have "do_stream_triad P ?i = Some (?i\<lparr>buf_0 := filled P 377 (buf_0 b)\<rparr>)"
    using fill [of "\<lambda>i. do { x \<leftarrow> rd (filled P 1 (buf_1 b)) i; y \<leftarrow> rd (filled P 2 (buf_2 b)) i; Some (x + SCALAR * y) }" 377]
    by (simp add: do_stream_triad_def filled_rd SCALAR_def)
  ultimately show ?thesis by auto
qed

section \<open>Times\<close>

lemma sample_total_mean:
  assumes "0 < lo" "\<forall>i. lo \<le> t i \<and> t i \<le> hi" "lo * int i \<le> tot" "tot \<le> hi * int i"
  shows "\<exists>T k. sample_total t i tot = Some (T, k) \<and> 0 < k \<and> lo * int k \<le> T \<and> T \<le> hi * int k"
  using assms(3,4)
proof (induction "nat (10 ^ 9 - tot)" arbitrary: i tot rule: less_induct)
  case less
  show ?case
  proof (cases "tot < 10 ^ 9")
    case True
    have t: "lo \<le> t i" "t i \<le> hi" using assms(2) by simp_all
    then have "nat (10 ^ 9 - (tot + t i)) < nat (10 ^ 9 - tot)" using assms(1) True by linarith
    moreover have "lo * int (i + 1) \<le> tot + t i" "tot + t i \<le> hi * int (i + 1)"
      using less.prems t by (simp_all add: distrib_left)
    ultimately show ?thesis using less.hyps True by (subst sample_total.simps) simp
  next
    case False
    have "i \<noteq> 0" using less.prems(2) False by (intro notI) simp
    then show ?thesis using less.prems False by (subst sample_total.simps) simp
  qed
qed

lemma sample_overhead_Min:
  assumes "\<forall>i < SAMPLES. ov i \<le> LONG_MAX"
  shows "sample_overhead ov = Min (ov ` {0..<SAMPLES})"
proof -
  have "foldl (\<lambda>m i. min m (ov i)) z [0..<Suc n] = min z (Min (ov ` {0..<Suc n}))" for z n
  proof (induction n)
    case (Suc n)
    have "{0..<Suc (Suc n)} = insert (Suc n) {0..<Suc n}" by auto
    then have "Min (ov ` {0..<Suc (Suc n)}) = min (ov (Suc n)) (Min (ov ` {0..<Suc n}))" by (simp add: Min_insert)
    then show ?case using Suc.IH by (simp add: min.assoc min.commute)
  qed simp
  from this [of LONG_MAX 6] have "sample_overhead ov = min LONG_MAX (Min (ov ` {0..<SAMPLES}))"
    by (simp add: sample_overhead_def SAMPLES_def)
  moreover have "Min (ov ` {0..<SAMPLES}) \<le> LONG_MAX"
    using assms by (intro order_trans [OF Min_le, of _ "ov 0"]) (auto simp: SAMPLES_def)
  ultimately show ?thesis by simp
qed

text \<open>When every run takes at least a nanosecond, measuring ends; the overhead is the least of the seven samples, and the time
  is a mean: it lies between any bounds of the times of the runs.\<close>

theorem measured_mean:
  assumes "0 < lo" "\<forall>i. lo \<le> t i \<and> t i \<le> hi" "\<forall>i < SAMPLES. ov i \<le> LONG_MAX"
  shows "\<exists>m. bench_measure ov t = Some (Min (ov ` {0..<SAMPLES}), m) \<and> lo \<le> m \<and> m \<le> hi"
proof -
  obtain T k where s: "sample_total t 0 0 = Some (T, k)" "0 < k" "lo * int k \<le> T" "T \<le> hi * int k"
    using sample_total_mean [OF assms(1,2), of 0 0] by auto
  have "0 \<le> T" using s(3) assms(1) by (meson less_imp_le mult_nonneg_nonneg of_nat_0_le_iff order_trans)
  then have "c_div T (int k) = Some (T div int k)" using s(2) by (simp add: c_div_def sdiv_nonneg)
  moreover have "lo \<le> T div int k" using zdiv_mono1 [OF s(3), of "int k"] s(2) by simp
  moreover have "T div int k \<le> hi" using zdiv_mono1 [OF s(4), of "int k"] s(2) by simp
  ultimately show ?thesis using s(1) sample_overhead_Min [OF assms(3)] by (simp add: bench_measure_def)
qed

lemma measured_mean_witness:
  "\<exists>m. bench_measure (\<lambda>i. 40 + int i) (\<lambda>_. 400000000) = Some (Min ((\<lambda>i. 40 + int i) ` {0..<SAMPLES}), m) \<and> 400000000 \<le> m \<and> m \<le> 400000000"
  by (rule measured_mean) (simp_all add: SAMPLES_def LONG_MAX_def)

section \<open>Bandwidths\<close>

lemma do_bench_frame:
  "do_bench P r = Some (t, P') \<Longrightarrow> iteration P' = iteration P \<and> buf_sz P' = buf_sz P \<and> parallel P' = parallel P"
  by (auto simp: do_bench_def Let_def split: if_splits)

lemma iterate_sum:
  assumes "\<forall>j \<in> {k..<k + n}. do_bench P (rs j) = Some (t j, P)" "\<forall>j. 0 < t j" "0 \<le> elapsed"
  shows "iterate n k rs P elapsed iter = Some (elapsed + sum t {k..<k + n}, iter + n, P)"
  using assms(1,3)
proof (induction n arbitrary: k elapsed iter)
  case (Suc n)
  have t: "0 < t k" using assms(2) by simp
  have "iterate n (k + 1) rs P (elapsed + t k) (iter + 1) = Some (elapsed + t k + sum t {k + 1..<k + 1 + n}, iter + 1 + n, P)"
    by (rule Suc.IH) (use Suc.prems t in auto)
  moreover have "sum t {k..<k + Suc n} = t k + sum t {k + 1..<k + 1 + n}"
    by (simp add: sum.atLeast_Suc_lessThan)
  ultimately show ?case using Suc.prems t by simp
qed simp

lemma iterate_first:
  assumes "do_bench P (rs 0) = Some (t 0, P')" "\<forall>j > 0. do_bench P' (rs j) = Some (t j, P')" "\<forall>j. 0 < t j" "0 < n"
  shows "iterate n 0 rs P 0 0 = Some (sum t {..<n}, n, P')"
proof -
  obtain m where n: "n = Suc m" using assms(4) by (cases n) auto
  have "iterate m 1 rs P' (t 0) 1 = Some (t 0 + sum t {1..<1 + m}, 1 + m, P')"
    by (rule iterate_sum) (use assms in \<open>auto intro: less_imp_le\<close>)
  moreover have "sum t {..<n} = t 0 + sum t {1..<1 + m}"
    by (simp add: n lessThan_atLeast0 sum.atLeast_Suc_lessThan)
  moreover have "0 < t 0" using assms(3) by simp
  ultimately show ?thesis using assms(1) by (simp add: n)
qed

text \<open>C39. The time is not reset between the stream benchmarks: whatever positive times the runs take, each bandwidth is computed from
  the time of all runs so far, those of the benchmarks before it included, and from the bytes moved by its own runs alone. \<open>t k\<close> is
  the result of run \<open>k\<close>, and only the first run may change the parameters (it fills in the CPUs).\<close>

theorem bandwidth_accumulates:
  assumes "do_bench P (rs 0) = Some (t 0, P')" "\<forall>k > 0. do_bench P' (rs k) = Some (t k, P')" "\<forall>k. 0 < t k" "0 < iteration P"
    and "N = nat (iteration P)" "moved = uint (buf_sz P) * iteration P * (parallel P - 1)"
  shows "measure_memory_bandwidth rs P = Some (0,
    [(''Stream-copy'', 2 * moved, sum t {..<N}), (''Stream-scale'', 2 * moved, sum t {..<2 * N}),
     (''Stream-add'', 3 * moved, sum t {..<3 * N}), (''Stream-triad'', 3 * moved, sum t {..<4 * N})], P')"
proof -
  have f: "iteration P' = iteration P" "buf_sz P' = buf_sz P" "parallel P' = parallel P" "0 < N"
    using do_bench_frame [OF assms(1)] assms(4,5) by simp_all
  have first: "iterate N 0 rs P 0 0 = Some (sum t {..<N}, N, P')"
    by (rule iterate_first [where t = t, OF assms(1-3) f(4)])
  have "iterate N (c * N) rs P' (sum t {..<c * N}) 0 = Some (sum t {..<Suc c * N}, N, P')" if "0 < c" for c
  proof -
    have "0 < c * N" using that f(4) by simp
    then have "0 < j" if "j \<in> {c * N..<c * N + N}" for j using that order.strict_trans2 [of 0 "c * N" j] by auto
    then have runs: "\<forall>j \<in> {c * N..<c * N + N}. do_bench P' (rs j) = Some (t j, P')"
      using assms(2) by blast
    have "iterate N (c * N) rs P' (sum t {..<c * N}) 0 = Some (sum t {..<c * N} + sum t {c * N..<c * N + N}, 0 + N, P')"
      by (rule iterate_sum [OF runs assms(3)]) (use assms(3) in \<open>auto intro!: sum_nonneg intro: less_imp_le\<close>)
    moreover have "sum t {..<c * N} + sum t {c * N..<c * N + N} = sum t {..<Suc c * N}"
      by (simp add: lessThan_atLeast0 sum.atLeastLessThan_concat add.commute)
    ultimately show ?thesis by simp
  qed
  from this [of 1] this [of 2] this [of 3] first f assms(4-6) show ?thesis
    by (simp add: measure_memory_bandwidth_def stream_benches_def eval_nat_numeral algebra_simps)
qed

definition steady_run :: bench_run where
  "steady_run = \<lparr>br_cpu = 0, br_pipe = 0, br_calloc = True, br_create = (\<lambda>_. 0), br_bound = True, br_buffers = True, br_joined = True,
     br_overhead = 5, br_total = 105\<rparr>"

definition steady_bench :: bench_params where
  "steady_bench = default_params\<lparr>buf_sz := 4096, initiator_cpu := 0, target_cpu := 0, total_cpus := 2, parallel := 2\<rparr>"

text \<open>Runs that take 100, 200, 300 and 400 nanoseconds, the first of which finds its CPUs.\<close>

lemma bandwidth_accumulates_witness:
  "measure_memory_bandwidth (\<lambda>k. steady_run\<lparr>br_total := 105 + 100 * int k\<rparr>) (steady_bench\<lparr>initiator_cpu := - 1, target_cpu := - 1\<rparr>)
     = Some (0, [(''Stream-copy'', 8192, 100), (''Stream-scale'', 8192, 300), (''Stream-add'', 12288, 600), (''Stream-triad'', 12288, 1000)],
         steady_bench)"
  using bandwidth_accumulates [of "steady_bench\<lparr>initiator_cpu := - 1, target_cpu := - 1\<rparr>"
      "\<lambda>k. steady_run\<lparr>br_total := 105 + 100 * int k\<rparr>" "\<lambda>k. 100 + 100 * int k" steady_bench 1 4096]
  by (simp add: steady_bench_def steady_run_def default_params_def do_bench_def create_bench_threads_def upt_rec lessThan_nat_numeral)

lemma streams_computed_witness:
  "\<exists>i. init_stream_buffer (steady_bench\<lparr>buf_sz := 16\<rparr>) \<lparr>buf_0 = [0, 0, 9], buf_1 = [0, 0], buf_2 = [0, 0]\<rparr> = Some i \<and> buf_0 i = [0, 0, 9]
     \<and> do_stream_copy (steady_bench\<lparr>buf_sz := 16\<rparr>) i = Some (i\<lparr>buf_0 := [1, 1, 9]\<rparr>)
     \<and> do_stream_scale (steady_bench\<lparr>buf_sz := 16\<rparr>) i = Some (i\<lparr>buf_0 := [188, 188, 9]\<rparr>)
     \<and> do_stream_add (steady_bench\<lparr>buf_sz := 16\<rparr>) i = Some (i\<lparr>buf_0 := [3, 3, 9]\<rparr>)
     \<and> do_stream_triad (steady_bench\<lparr>buf_sz := 16\<rparr>) i = Some (i\<lparr>buf_0 := [377, 377, 9]\<rparr>)"
proof -
  have n: "stream_len (steady_bench\<lparr>buf_sz := 16\<rparr>) = 2" by (simp add: stream_len_def)
  show ?thesis
    using streams_computed [of "steady_bench\<lparr>buf_sz := 16\<rparr>" "\<lparr>buf_0 = [0, 0, 9], buf_1 = [0, 0], buf_2 = [0, 0]\<rparr>"]
    by (simp add: n filled_def numeral_2_eq_2)
qed

section \<open>Options\<close>

text \<open>\<^verbatim>\<open>--latency -v\<close> prints the version and goes on to measure without the threads that the end of \<^verbatim>\<open>parse_command\<close> adds: the
  descriptions of two threads are written to an array of none.\<close>

theorem version_measures:
  assumes "init_bench_parameters e q pagesize online (default_params\<lparr>lat_bench := True\<rparr>) = Some (P, q')"
    and "br_cpu (rl 0) < total_cpus P" "br_pipe (rl 0) = 0" "br_calloc (rl 0)"
  shows "parse_command [Long_opt ''latency'', Opt CHR ''v'' []] default_params = Some (0, default_params\<lparr>lat_bench := True\<rparr>)
     \<and> bench_main e q pagesize online rl rb [Long_opt ''latency'', Opt CHR ''v'' []] = None"
proof -
  have c: "parse_command [Long_opt ''latency'', Opt CHR ''v'' []] default_params = Some (0, default_params\<lparr>lat_bench := True\<rparr>)"
    by (simp add: parse_option_def)
  have P: "initiator_cpu P = - 1" "target_cpu P = - 1" "parallel P = 0" "iteration P = 1" "lat_bench P"
    using assms(1) by (auto simp: init_bench_parameters_def default_params_def Let_def split: if_splits Option.bind_splits)
  have "do_bench P (rl 0) = None"
    using assms(2-4) P by (simp add: do_bench_def Let_def)
  then show ?thesis
    using assms(1) c P(4,5) by (simp add: bench_main_def measure_memory_latency_def)
qed

definition no_topo :: topo_env where
  "no_topo = \<lparr>te = \<lparr>topo = zero_topo, max_cores = 0, max_ccls = 0\<rparr>, te_irqs = None, te_max = 0\<rparr>"

lemma version_measures_witness:
  "parse_command [Long_opt ''latency'', Opt CHR ''v'' []] default_params = Some (0, default_params\<lparr>lat_bench := True\<rparr>)
     \<and> bench_main hotplug_env no_topo 4096 4 (\<lambda>_. steady_run) (\<lambda>_. steady_run) [Long_opt ''latency'', Opt CHR ''v'' []] = None"
proof (rule version_measures)
  have "ustride (default_params\<lparr>lat_bench := True\<rparr>) = 64" by (simp add: ustride_def default_params_def)
  then show "init_bench_parameters hotplug_env no_topo 4096 4 (default_params\<lparr>lat_bench := True\<rparr>)
      = Some (default_params\<lparr>lat_bench := True, total_cpus := 4, latbench_count := buf_sz default_params div 64 * 16\<rparr>, no_topo)"
    by (simp add: init_bench_parameters_def no_topo_def zero_topo_def wayca_sc_get_l3_size_def get_cache_size_def topo_is_valid_cpu_def
        wayca_sc_cpus_in_total_def ustride_def default_params_def)
qed (simp_all add: steady_run_def default_params_def)

text \<open>A negative stride that is a multiple of eight is accepted; as a \<^verbatim>\<open>size_t\<close> it is larger than any buffer, so the list is given
  \<open>2\<^sup>64 - 1\<close> elements.\<close>

lemma negative_stride_accepted:
  assumes "bench_stride P = - 8" "buf_sz P < - 8"
  shows "ustride P mod 8 = 0 \<and> bench_stride P \<noteq> 0 \<and> buf_sz P div ustride P - 1 = - 1"
proof -
  have u: "ustride P = - 8" using assms(1) by (simp add: ustride_def)
  have "unat (buf_sz P div ustride P) = 0"
    using assms(2) by (simp add: unat_div u word_less_nat_alt)
  then have "buf_sz P div ustride P = 0" by (simp only: unat_eq_zero)
  then show ?thesis using assms u by simp
qed

end
