(* ===== verification/BenchSync.thy ===== *)
theory BenchSync
  imports BenchRuns
begin

text \<open>
  The threads of wayca-memory-bench and the pipes they synchronise with: the main thread in \<^verbatim>\<open>do_bench\<close>, the thread that
  allocates and frees the buffers, and the threads that use them (\<^verbatim>\<open>bench_thread\<close>), in all interleavings.
\<close>

section \<open>The threads\<close>

text \<open>Where a thread is. \<open>M_start k\<close>, \<open>M_bench k\<close> and \<open>M_stop k\<close> have \<open>k\<close> signals left to send or receive; \<open>M_join i\<close> cancels and joins
  thread \<open>i\<close>. A thread in \<open>A_bind\<close> or \<open>B_bind\<close> is about to allocate the CPU set it is bound with; in \<open>A_lost\<close> or \<open>B_lost\<close> it has returned
  because it got none. A thread in \<open>A_mask\<close> is about to disable its cancellation.\<close>

datatype main_pc = M_alloc | M_start nat | M_bench nat | M_stop nat | M_join nat | M_done
datatype alloc_pc = A_bind | A_lost | A_prepare | A_ready | A_mask | A_stop | A_free | A_done
datatype bench_pc = B_bind | B_lost | B_start | B_run | B_ready | B_stop | B_done
datatype buffer_state = Unset | Failed | Prepared | Freed

text \<open>The bytes in the three pipes, and the threads.\<close>

record sync =
  ready_pipe :: nat
  start_pipe :: nat
  stop_pipe :: nat
  main_at :: main_pc
  alloc_at :: alloc_pc
  benches :: "bench_pc list"
  buffers :: buffer_state

text \<open>All threads have been created; the allocating thread and the first of the others have a CPU to be bound to.\<close>

definition sync_start :: "nat \<Rightarrow> sync" where
  "sync_start n = \<lparr>ready_pipe = 0, start_pipe = 0, stop_pipe = 0, main_at = M_alloc, alloc_at = A_bind,
     benches = (replicate n B_start)[0 := B_bind], buffers = Unset\<rparr>"

definition bench_goes :: "nat \<Rightarrow> bench_pc \<Rightarrow> sync \<Rightarrow> sync" where
  "bench_goes i b s = s\<lparr>benches := (benches s)[i := b]\<rparr>"

text \<open>One step of one thread. Reading from an empty pipe blocks. Cancellation takes effect in reads and writes of a thread that has
  not disabled it. A thread that has returned can be joined.\<close>

inductive sync_step :: "sync \<Rightarrow> sync \<Rightarrow> bool" where
  alloc_bound: "alloc_at s = A_bind \<Longrightarrow> sync_step s (s\<lparr>alloc_at := A_prepare\<rparr>)"
| alloc_lost: "alloc_at s = A_bind \<Longrightarrow> sync_step s (s\<lparr>alloc_at := A_lost\<rparr>)"
| bench_bound: "i < length (benches s) \<Longrightarrow> benches s ! i = B_bind \<Longrightarrow> sync_step s (bench_goes i B_start s)"
| bench_lost: "i < length (benches s) \<Longrightarrow> benches s ! i = B_bind \<Longrightarrow> sync_step s (bench_goes i B_lost s)"
| prepared: "alloc_at s = A_prepare \<Longrightarrow> sync_step s (s\<lparr>alloc_at := A_ready, buffers := Prepared\<rparr>)"
| failed: "alloc_at s = A_prepare \<Longrightarrow> sync_step s (s\<lparr>alloc_at := A_ready, buffers := Failed\<rparr>)"
| alloc_ready: "alloc_at s = A_ready \<Longrightarrow> sync_step s (s\<lparr>alloc_at := A_mask, ready_pipe := ready_pipe s + 1\<rparr>)"
| alloc_mask: "alloc_at s = A_mask \<Longrightarrow> sync_step s (s\<lparr>alloc_at := A_stop\<rparr>)"
| alloc_stop: "alloc_at s = A_stop \<Longrightarrow> stop_pipe s = Suc p \<Longrightarrow> sync_step s (s\<lparr>alloc_at := A_free, stop_pipe := p\<rparr>)"
| alloc_free: "alloc_at s = A_free \<Longrightarrow> sync_step s (s\<lparr>alloc_at := A_done, buffers := Freed\<rparr>)"
| bench_start: "i < length (benches s) \<Longrightarrow> benches s ! i = B_start \<Longrightarrow> start_pipe s = Suc p
    \<Longrightarrow> sync_step s (bench_goes i B_run (s\<lparr>start_pipe := p\<rparr>))"
| bench_run: "i < length (benches s) \<Longrightarrow> benches s ! i = B_run \<Longrightarrow> sync_step s (bench_goes i B_ready s)"
| bench_ready: "i < length (benches s) \<Longrightarrow> benches s ! i = B_ready
    \<Longrightarrow> sync_step s (bench_goes i B_stop (s\<lparr>ready_pipe := ready_pipe s + 1\<rparr>))"
| bench_stop: "i < length (benches s) \<Longrightarrow> benches s ! i = B_stop \<Longrightarrow> stop_pipe s = Suc p
    \<Longrightarrow> sync_step s (bench_goes i B_done (s\<lparr>stop_pipe := p\<rparr>))"
| main_alloc: "main_at s = M_alloc \<Longrightarrow> ready_pipe s = Suc p
    \<Longrightarrow> sync_step s (s\<lparr>ready_pipe := p, main_at := if buffers s = Failed then M_join 0 else M_start (length (benches s))\<rparr>)"
| main_start: "main_at s = M_start (Suc k) \<Longrightarrow> sync_step s (s\<lparr>start_pipe := start_pipe s + 1, main_at := M_start k\<rparr>)"
| main_started: "main_at s = M_start 0 \<Longrightarrow> sync_step s (s\<lparr>main_at := M_bench (length (benches s))\<rparr>)"
| main_bench: "main_at s = M_bench (Suc k) \<Longrightarrow> ready_pipe s = Suc p
    \<Longrightarrow> sync_step s (s\<lparr>ready_pipe := p, main_at := M_bench k\<rparr>)"
| main_benched: "main_at s = M_bench 0 \<Longrightarrow> sync_step s (s\<lparr>main_at := M_stop (length (benches s) + 1)\<rparr>)"
| main_stop: "main_at s = M_stop (Suc k) \<Longrightarrow> sync_step s (s\<lparr>stop_pipe := stop_pipe s + 1, main_at := M_stop k\<rparr>)"
| main_stopped: "main_at s = M_stop 0 \<Longrightarrow> sync_step s (s\<lparr>main_at := M_join 0\<rparr>)"
| join_alloc: "main_at s = M_join 0 \<Longrightarrow> alloc_at s \<in> {A_done, A_lost} \<Longrightarrow> sync_step s (s\<lparr>main_at := M_join 1\<rparr>)"
| join_bench: "main_at s = M_join (Suc i) \<Longrightarrow> i < length (benches s) \<Longrightarrow> benches s ! i \<in> {B_done, B_lost}
    \<Longrightarrow> sync_step s (s\<lparr>main_at := M_join (Suc (Suc i))\<rparr>)"
| joined: "main_at s = M_join (Suc (length (benches s))) \<Longrightarrow> sync_step s (s\<lparr>main_at := M_done\<rparr>)"
| cancel_alloc: "main_at s = M_join 0 \<Longrightarrow> alloc_at s = A_ready \<Longrightarrow> sync_step s (s\<lparr>alloc_at := A_done\<rparr>)"
| cancel_bench: "main_at s = M_join (Suc i) \<Longrightarrow> i < length (benches s) \<Longrightarrow> benches s ! i \<in> {B_start, B_ready, B_stop}
    \<Longrightarrow> sync_step s (bench_goes i B_done s)"

inductive sync_reach :: "nat \<Rightarrow> sync \<Rightarrow> bool" for n where
  start: "sync_reach n (sync_start n)"
| step: "sync_reach n s \<Longrightarrow> sync_step s t \<Longrightarrow> sync_reach n t"

section \<open>Counting\<close>

lemma count_update:
  "i < length xs \<Longrightarrow> count_list (xs[i := v]) y + (if xs ! i = y then 1 else 0) = count_list xs y + (if v = y then 1 else 0)"
proof (induction xs arbitrary: i)
  case (Cons a xs)
  show ?case
  proof (cases i)
    case (Suc j)
    then show ?thesis using Cons.IH [of j] Cons.prems by (auto split: if_splits)
  qed auto
qed simp

lemma count_pos: "i < length xs \<Longrightarrow> xs ! i = y \<Longrightarrow> 0 < count_list xs y"
  by (metis count_list_0_iff gr0I nth_mem)

lemma count_all: "count_list xs B_bind + count_list xs B_lost + count_list xs B_start + count_list xs B_run + count_list xs B_ready + count_list xs B_stop + count_list xs B_done
    = length xs"
proof (induction xs)
  case (Cons x xs)
  then show ?case by (cases x) auto
qed simp

section \<open>The invariant\<close>

text \<open>The threads that have taken no signal to start.\<close>

definition unstarted :: "sync \<Rightarrow> nat" where
  "unstarted s = count_list (benches s) B_bind + count_list (benches s) B_lost + count_list (benches s) B_start"

text \<open>The allocating thread has not been told to stop, or has; what it still takes from the pipe.\<close>

definition alloc_waits :: "sync \<Rightarrow> nat" where
  "alloc_waits s = (if alloc_at s \<in> {A_mask, A_stop} then 1 else 0)"

definition alloc_ends :: "sync \<Rightarrow> bool" where
  "alloc_ends s \<longleftrightarrow> alloc_at s \<in> {A_mask, A_stop, A_free} \<and> buffers s = Prepared \<or> alloc_at s = A_done \<and> buffers s = Freed"

definition at_alloc :: "nat \<Rightarrow> sync \<Rightarrow> bool" where
  "at_alloc n s \<longleftrightarrow> start_pipe s = 0 \<and> stop_pipe s = 0 \<and> unstarted s = n
     \<and> (alloc_at s \<in> {A_bind, A_lost, A_prepare} \<and> ready_pipe s = 0 \<and> buffers s = Unset
       \<or> alloc_at s = A_ready \<and> ready_pipe s = 0 \<and> buffers s \<in> {Failed, Prepared}
       \<or> alloc_at s \<in> {A_mask, A_stop} \<and> ready_pipe s = 1 \<and> buffers s \<in> {Failed, Prepared})"

definition at_bench :: "nat \<Rightarrow> nat \<Rightarrow> nat \<Rightarrow> sync \<Rightarrow> bool" where
  "at_bench n k m s \<longleftrightarrow> stop_pipe s = 0 \<and> alloc_at s \<in> {A_mask, A_stop} \<and> buffers s = Prepared
     \<and> unstarted s = start_pipe s + k \<and> count_list (benches s) B_done = 0
     \<and> count_list (benches s) B_stop + m = ready_pipe s + n \<and> m \<le> n"

definition at_stop :: "nat \<Rightarrow> nat \<Rightarrow> sync \<Rightarrow> bool" where
  "at_stop n k s \<longleftrightarrow> count_list (benches s) B_stop + count_list (benches s) B_done = n \<and> alloc_ends s
     \<and> stop_pipe s + k = count_list (benches s) B_stop + alloc_waits s"

definition at_join :: "nat \<Rightarrow> nat \<Rightarrow> sync \<Rightarrow> bool" where
  "at_join n i s \<longleftrightarrow> count_list (benches s) B_stop + count_list (benches s) B_done = n \<and> alloc_ends s
     \<and> count_list (benches s) B_stop + alloc_waits s \<le> stop_pipe s
     \<and> i \<le> Suc n \<and> (0 < i \<longrightarrow> alloc_at s = A_done) \<and> (\<forall>j. Suc j < i \<longrightarrow> benches s ! j = B_done)"

definition hangs :: "nat \<Rightarrow> sync \<Rightarrow> bool" where
  "hangs n s \<longleftrightarrow> buffers s = Failed \<and> alloc_at s \<in> {A_mask, A_stop} \<and> start_pipe s = 0 \<and> stop_pipe s = 0
     \<and> unstarted s = n"

definition sync_inv :: "nat \<Rightarrow> sync \<Rightarrow> bool" where
  "sync_inv n s \<longleftrightarrow> length (benches s) = n \<and> (case main_at s of
       M_alloc \<Rightarrow> at_alloc n s
     | M_start k \<Rightarrow> at_bench n k n s
     | M_bench k \<Rightarrow> at_bench n 0 k s
     | M_stop k \<Rightarrow> at_stop n k s
     | M_join i \<Rightarrow> at_join n i s \<or> i = 0 \<and> hangs n s
     | M_done \<Rightarrow> at_join n (Suc n) s)"

lemmas sync_defs = sync_inv_def unstarted_def at_alloc_def at_bench_def at_stop_def at_join_def hangs_def alloc_ends_def alloc_waits_def
  bench_goes_def

lemma count_replicate: "count_list (replicate n y) y = n"
  by (induction n) simp_all

lemma count_replicate_0: "x \<noteq> y \<Longrightarrow> count_list (replicate n x) y = 0"
  by (induction n) simp_all

lemma inv_start: "sync_inv n (sync_start n)"
proof (cases n)
  case (Suc m)
  then show ?thesis by (simp add: sync_defs sync_start_def count_replicate count_replicate_0)
qed (simp add: sync_defs sync_start_def)

lemma inv_alloc_steps:
  assumes "sync_inv n s"
  shows "alloc_at s = A_bind \<Longrightarrow> sync_inv n (s\<lparr>alloc_at := A_prepare\<rparr>)"
    and "alloc_at s = A_bind \<Longrightarrow> sync_inv n (s\<lparr>alloc_at := A_lost\<rparr>)"
    and "alloc_at s = A_prepare \<Longrightarrow> sync_inv n (s\<lparr>alloc_at := A_ready, buffers := Prepared\<rparr>)"
    and "alloc_at s = A_prepare \<Longrightarrow> sync_inv n (s\<lparr>alloc_at := A_ready, buffers := Failed\<rparr>)"
    and "alloc_at s = A_ready \<Longrightarrow> sync_inv n (s\<lparr>alloc_at := A_mask, ready_pipe := ready_pipe s + 1\<rparr>)"
    and "alloc_at s = A_mask \<Longrightarrow> sync_inv n (s\<lparr>alloc_at := A_stop\<rparr>)"
    and "alloc_at s = A_stop \<Longrightarrow> stop_pipe s = Suc p \<Longrightarrow> sync_inv n (s\<lparr>alloc_at := A_free, stop_pipe := p\<rparr>)"
    and "alloc_at s = A_free \<Longrightarrow> sync_inv n (s\<lparr>alloc_at := A_done, buffers := Freed\<rparr>)"
  using assms by (auto simp: sync_defs split: main_pc.splits)

lemma inv_main_steps:
  assumes "sync_inv n s"
  shows "main_at s = M_alloc \<Longrightarrow> ready_pipe s = Suc p
      \<Longrightarrow> sync_inv n (s\<lparr>ready_pipe := p, main_at := if buffers s = Failed then M_join 0 else M_start (length (benches s))\<rparr>)"
    and "main_at s = M_start (Suc k) \<Longrightarrow> sync_inv n (s\<lparr>start_pipe := start_pipe s + 1, main_at := M_start k\<rparr>)"
    and "main_at s = M_start 0 \<Longrightarrow> sync_inv n (s\<lparr>main_at := M_bench (length (benches s))\<rparr>)"
    and "main_at s = M_bench (Suc k) \<Longrightarrow> ready_pipe s = Suc p \<Longrightarrow> sync_inv n (s\<lparr>ready_pipe := p, main_at := M_bench k\<rparr>)"
    and "main_at s = M_bench 0 \<Longrightarrow> sync_inv n (s\<lparr>main_at := M_stop (length (benches s) + 1)\<rparr>)"
    and "main_at s = M_stop (Suc k) \<Longrightarrow> sync_inv n (s\<lparr>stop_pipe := stop_pipe s + 1, main_at := M_stop k\<rparr>)"
    and "main_at s = M_stop 0 \<Longrightarrow> sync_inv n (s\<lparr>main_at := M_join 0\<rparr>)"
    and "main_at s = M_join 0 \<Longrightarrow> alloc_at s \<in> {A_done, A_lost} \<Longrightarrow> sync_inv n (s\<lparr>main_at := M_join 1\<rparr>)"
    and "main_at s = M_join (Suc (length (benches s))) \<Longrightarrow> sync_inv n (s\<lparr>main_at := M_done\<rparr>)"
    and "main_at s = M_join 0 \<Longrightarrow> alloc_at s = A_ready \<Longrightarrow> sync_inv n (s\<lparr>alloc_at := A_done\<rparr>)"
  using assms count_all [of "benches s"] by (auto simp: sync_defs)

lemma inv_join_bench:
  assumes "sync_inv n s" "main_at s = M_join (Suc i)" "i < length (benches s)" "benches s ! i \<in> {B_done, B_lost}"
  shows "sync_inv n (s\<lparr>main_at := M_join (Suc (Suc i))\<rparr>)"
  using assms count_all [of "benches s"] count_pos [OF assms(3) refl] by (auto simp: sync_defs less_Suc_eq)

lemmas counts = count_update [where y = B_bind] count_update [where y = B_lost] count_update [where y = B_start] count_update [where y = B_run] count_update [where y = B_ready]
  count_update [where y = B_stop] count_update [where y = B_done]

lemma inv_bench_bind:
  assumes "sync_inv n s" "i < length (benches s)" "benches s ! i = B_bind"
  shows "sync_inv n (bench_goes i B_start s)" and "sync_inv n (bench_goes i B_lost s)"
  using assms counts [OF assms(2), of B_start] counts [OF assms(2), of B_lost] count_all [of "benches s"] count_pos [OF assms(2,3)]
  by (cases "main_at s"; auto simp: sync_defs)+

lemma inv_bench_start:
  assumes "sync_inv n s" "i < length (benches s)" "benches s ! i = B_start" "start_pipe s = Suc p"
  shows "sync_inv n (bench_goes i B_run (s\<lparr>start_pipe := p\<rparr>))"
  using assms counts [OF assms(2), of B_run] count_all [of "benches s"] count_pos [OF assms(2,3)]
  by (cases "main_at s") (auto simp: sync_defs)

lemma inv_bench_run:
  assumes "sync_inv n s" "i < length (benches s)" "benches s ! i = B_run"
  shows "sync_inv n (bench_goes i B_ready s)"
  using assms counts [OF assms(2), of B_ready] count_all [of "benches s"] count_pos [OF assms(2,3)]
  by (cases "main_at s") (auto simp: sync_defs)

lemma inv_bench_ready:
  assumes "sync_inv n s" "i < length (benches s)" "benches s ! i = B_ready"
  shows "sync_inv n (bench_goes i B_stop (s\<lparr>ready_pipe := ready_pipe s + 1\<rparr>))"
  using assms counts [OF assms(2), of B_stop] count_all [of "benches s"] count_pos [OF assms(2,3)]
  by (cases "main_at s") (auto simp: sync_defs)

lemma inv_bench_stop:
  assumes "sync_inv n s" "i < length (benches s)" "benches s ! i = B_stop" "stop_pipe s = Suc p"
  shows "sync_inv n (bench_goes i B_done (s\<lparr>stop_pipe := p\<rparr>))"
  using assms counts [OF assms(2), of B_done] count_all [of "benches s"] count_pos [OF assms(2,3)]
  by (cases "main_at s") (auto simp: sync_defs nth_list_update)

lemma inv_cancel_bench:
  assumes "sync_inv n s" "main_at s = M_join (Suc i)" "i < length (benches s)" "benches s ! i \<in> {B_start, B_ready, B_stop}"
  shows "sync_inv n (bench_goes i B_done s)"
  using assms counts [OF assms(3), of B_done] count_all [of "benches s"] count_pos [OF assms(3) refl]
  by (auto simp: sync_defs nth_list_update)

lemma inv_step: "sync_step s t \<Longrightarrow> sync_inv n s \<Longrightarrow> sync_inv n t"
  by (induction rule: sync_step.induct) (rule inv_alloc_steps inv_main_steps inv_bench_bind inv_join_bench inv_bench_start inv_bench_run
      inv_bench_ready inv_bench_stop inv_cancel_bench; assumption)+

lemma reach_inv: "sync_reach n s \<Longrightarrow> sync_inv n s"
  by (induction rule: sync_reach.induct) (auto intro: inv_start inv_step)

section \<open>The buffers\<close>

lemma no_count: "count_list xs y = 0 \<longleftrightarrow> y \<notin> set xs"
  by (rule count_list_0_iff)

text \<open>C10. No thread uses the buffers before they are prepared, or while or after they are freed: while a thread measures, the buffers
  are allocated and initialised, and when they have been freed every measuring thread only waits for the signal to stop.\<close>

theorem bench_buffers_safe:
  assumes "sync_reach n s"
  shows "(B_run \<in> set (benches s) \<longrightarrow> buffers s = Prepared) \<and> (buffers s = Freed \<longrightarrow> set (benches s) \<subseteq> {B_stop, B_done})"
proof -
  have inv: "sync_inv n s" by (rule reach_inv [OF assms])
  have run: "B_run \<in> set (benches s) \<Longrightarrow> 0 < count_list (benches s) B_run" by (metis no_count gr0I)
  have freed: "buffers s = Freed \<Longrightarrow> unstarted s = 0 \<and> count_list (benches s) B_run = 0 \<and> count_list (benches s) B_ready = 0"
    using inv count_all [of "benches s"] by (cases "main_at s") (auto simp: sync_defs)
  have "set (benches s) \<subseteq> {B_stop, B_done}" if "buffers s = Freed"
  proof
    fix b assume "b \<in> set (benches s)"
    then have "0 < count_list (benches s) b" by (metis no_count gr0I)
    then show "b \<in> {B_stop, B_done}" using freed [OF that] by (cases b; simp add: unstarted_def)
  qed
  moreover have "buffers s = Prepared" if "B_run \<in> set (benches s)"
    using inv count_all [of "benches s"] run [OF that] freed by (cases "main_at s") (auto simp: sync_defs)
  ultimately show ?thesis by blast
qed

section \<open>Every run ends\<close>

fun main_rank :: "nat \<Rightarrow> main_pc \<Rightarrow> nat" where
  "main_rank n M_done = 0"
| "main_rank n (M_join i) = n + 2 - i"
| "main_rank n (M_stop k) = k + n + 3"
| "main_rank n (M_bench k) = k + 2 * n + 5"
| "main_rank n (M_start k) = k + 3 * n + 6"
| "main_rank n M_alloc = 4 * n + 7"

fun alloc_rank :: "alloc_pc \<Rightarrow> nat" where
  "alloc_rank A_bind = 6" | "alloc_rank A_lost = 0" | "alloc_rank A_prepare = 5" | "alloc_rank A_ready = 4" | "alloc_rank A_mask = 3" | "alloc_rank A_stop = 2" | "alloc_rank A_free = 1"
| "alloc_rank A_done = 0"

fun bench_rank :: "bench_pc \<Rightarrow> nat" where
  "bench_rank B_bind = 5" | "bench_rank B_lost = 0" | "bench_rank B_start = 4" | "bench_rank B_run = 3" | "bench_rank B_ready = 2" | "bench_rank B_stop = 1" | "bench_rank B_done = 0"

definition sync_rank :: "sync \<Rightarrow> nat" where
  "sync_rank s = main_rank (length (benches s)) (main_at s) + alloc_rank (alloc_at s) + sum_list (map bench_rank (benches s))"

lemma rank_update: "i < length bs \<Longrightarrow> bench_rank b < bench_rank (bs ! i)
    \<Longrightarrow> sum_list (map bench_rank (bs[i := b])) < sum_list (map bench_rank bs)"
proof (induction bs arbitrary: i)
  case (Cons a bs)
  then show ?case by (cases i) auto
qed simp

lemma step_rank: "sync_step s t \<Longrightarrow> sync_rank t < sync_rank s"
proof (induction rule: sync_step.induct)
  case (cancel_bench s i)
  have "bench_rank B_done < bench_rank (benches s ! i)" using cancel_bench(3) by auto
  then show ?case using rank_update [OF cancel_bench(2)] by (simp add: sync_rank_def bench_goes_def)
qed (auto simp: sync_rank_def bench_goes_def intro!: rank_update)

text \<open>Where the threads are when none can go on.\<close>

lemma stuck_alloc:
  assumes "\<nexists>t. sync_step s t"
  shows "alloc_at s \<in> {A_lost, A_stop, A_done}" "alloc_at s = A_stop \<Longrightarrow> stop_pipe s = 0"
proof -
  show "alloc_at s \<in> {A_lost, A_stop, A_done}"
    using assms sync_step.alloc_bound sync_step.prepared sync_step.alloc_ready sync_step.alloc_mask sync_step.alloc_free
    by (cases "alloc_at s"; blast)
  show "stop_pipe s = 0" if "alloc_at s = A_stop"
    using assms sync_step.alloc_stop [OF that] by (cases "stop_pipe s") auto
qed

lemma stuck_bench:
  assumes "\<nexists>t. sync_step s t" "i < length (benches s)"
  shows "benches s ! i \<in> {B_lost, B_start, B_stop, B_done}" "benches s ! i = B_start \<Longrightarrow> start_pipe s = 0"
proof -
  show "benches s ! i \<in> {B_lost, B_start, B_stop, B_done}"
    using assms sync_step.bench_bound sync_step.bench_run sync_step.bench_ready
    by (cases "benches s ! i"; blast)
  show "start_pipe s = 0" if "benches s ! i = B_start"
    using assms(1) sync_step.bench_start [OF assms(2) that] by (cases "start_pipe s") auto
qed

lemma stuck_join:
  assumes "\<nexists>t. sync_step s t" "main_at s = M_join i" "i \<le> Suc (length (benches s))"
  shows "i = 0 \<and> alloc_at s = A_stop \<and> stop_pipe s = 0"
proof (cases i)
  case 0
  then show ?thesis using assms stuck_alloc [OF assms(1)] sync_step.join_alloc by blast
next
  case (Suc j)
  then have "j \<noteq> length (benches s)" using assms(1,2) sync_step.joined by blast
  then have "j < length (benches s)" using Suc assms(3) by simp
  then show ?thesis
    using assms(1,2) Suc stuck_bench(1) [OF assms(1)] sync_step.join_bench sync_step.cancel_bench by blast
qed

lemma stuck_waiting:
  assumes "\<nexists>t. sync_step s t" "at_bench n 0 (Suc j) s" "length (benches s) = n" "ready_pipe s = 0"
  shows "B_lost \<in> set (benches s)"
proof -
  have b: "y \<in> {B_lost, B_start, B_stop, B_done}" "y = B_start \<Longrightarrow> start_pipe s = 0" if "y \<in> set (benches s)" for y
    using that stuck_bench [OF assms(1)] by (auto simp: in_set_conv_nth)
  have none: "count_list (benches s) y = 0" if "y \<in> {B_bind, B_run, B_ready}" for y
    using that b(1) [of y] by (auto simp: no_count)
  have "0 < unstarted s"
    using assms(2-4) count_all [of "benches s"] none by (simp add: at_bench_def unstarted_def)
  then have "0 < start_pipe s" using assms(2) by (simp add: at_bench_def)
  then have "count_list (benches s) B_start = 0" using b(2) by (auto simp: no_count)
  then have "count_list (benches s) B_lost \<noteq> 0" using \<open>0 < unstarted s\<close> none by (simp add: unstarted_def)
  then show ?thesis by (simp add: no_count)
qed

lemma done_ended:
  assumes "sync_inv n s" "main_at s = M_done"
  shows "alloc_at s = A_done" "buffers s = Freed" "set (benches s) \<subseteq> {B_done}"
  using assms by (auto simp: sync_defs in_set_conv_nth)

lemma stuck_or_done:
  assumes "sync_inv n s" "\<nexists>t. sync_step s t"
  shows "main_at s = M_done \<or> main_at s = M_join 0 \<and> hangs n s \<or> main_at s = M_alloc \<and> alloc_at s = A_lost
     \<or> (\<exists>k. main_at s = M_bench k) \<and> B_lost \<in> set (benches s)"
proof (cases "main_at s")
  case M_alloc
  then show ?thesis
    using assms stuck_alloc [OF assms(2)] sync_step.main_alloc [OF M_alloc, of 0] by (auto simp: sync_defs)
next
  case (M_start k)
  then show ?thesis using assms(2) sync_step.main_start sync_step.main_started by (cases k) blast+
next
  case (M_bench k)
  then obtain j where j: "k = Suc j" using assms(2) sync_step.main_benched by (cases k) blast+
  then have "ready_pipe s = 0" using assms(2) sync_step.main_bench [of s j] M_bench by (cases "ready_pipe s") auto
  then show ?thesis using stuck_waiting [OF assms(2)] assms(1) M_bench j by (auto simp: sync_inv_def)
next
  case (M_stop k)
  then show ?thesis using assms(2) sync_step.main_stop sync_step.main_stopped by (cases k) blast+
next
  case (M_join i)
  then have "i \<le> Suc (length (benches s))" using assms(1) by (auto simp: sync_inv_def at_join_def)
  then have "i = 0" "alloc_at s = A_stop" "stop_pipe s = 0" using stuck_join [OF assms(2) M_join] by auto
  then show ?thesis using assms(1) M_join by (auto simp: sync_inv_def at_join_def alloc_waits_def)
qed simp

lemma lost_persists:
  assumes "sync_step s t"
  shows "alloc_at s = A_lost \<Longrightarrow> alloc_at t = A_lost" "B_lost \<in> set (benches s) \<Longrightarrow> B_lost \<in> set (benches t)"
proof -
  show "alloc_at s = A_lost \<Longrightarrow> alloc_at t = A_lost"
    using assms by (cases rule: sync_step.cases) (auto simp: bench_goes_def)
  have upd: "B_lost \<in> set (bs[i := b])" if "B_lost \<in> set bs" "bs ! i \<noteq> B_lost" for bs i b
    using that by (metis in_set_conv_nth length_list_update nth_list_update_neq)
  show "B_lost \<in> set (benches s) \<Longrightarrow> B_lost \<in> set (benches t)"
    using assms by (cases rule: sync_step.cases) (auto simp: bench_goes_def intro!: upd)
qed

text \<open>C11. Every run of the protocol ends: each step of any thread decreases a number that depends on the positions of the threads. When
  no thread can go on, the main thread has returned if and only if the buffers have been allocated and both bound threads
  got the CPU set to bind themselves with; and it returns only when all threads have ended and been joined. A thread that gets no CPU
  set is lost for good: it never sends the signal that the main thread waits for.\<close>

theorem bench_sync_ends:
  assumes "sync_reach n s"
  shows "(\<forall>t. sync_step s t \<longrightarrow> sync_rank t < sync_rank s)
     \<and> ((\<nexists>t. sync_step s t) \<longrightarrow>
         (main_at s = M_done \<longleftrightarrow> buffers s \<noteq> Failed \<and> alloc_at s \<noteq> A_lost \<and> B_lost \<notin> set (benches s)))
     \<and> (main_at s = M_done \<longrightarrow> alloc_at s = A_done \<and> set (benches s) \<subseteq> {B_done})
     \<and> (\<forall>t. sync_step s t \<longrightarrow> (alloc_at s = A_lost \<longrightarrow> alloc_at t = A_lost)
         \<and> (B_lost \<in> set (benches s) \<longrightarrow> B_lost \<in> set (benches t)))"
proof -
  have inv: "sync_inv n s" by (rule reach_inv [OF assms])
  have "main_at s = M_done \<longleftrightarrow> buffers s \<noteq> Failed \<and> alloc_at s \<noteq> A_lost \<and> B_lost \<notin> set (benches s)" if "\<nexists>t. sync_step s t"
    using stuck_or_done [OF inv that] done_ended [OF inv] by (auto simp: hangs_def)
  then show ?thesis using step_rank lost_persists [of s] done_ended [OF inv] by blast
qed

text \<open>C38. When the buffers cannot be allocated, the program hangs: the main thread never returns from \<^verbatim>\<open>do_bench\<close>, because it joins the
  allocating thread, which has disabled its cancellation and waits for a signal to stop that is never sent; when no thread can go on
  any more, this is the state.\<close>

theorem bench_no_memory_hangs:
  assumes "sync_reach n s" "buffers s = Failed"
  shows "main_at s \<noteq> M_done \<and> (\<forall>t. sync_step s t \<longrightarrow> buffers t = Failed)
     \<and> ((\<nexists>t. sync_step s t) \<longrightarrow> main_at s = M_join 0 \<and> alloc_at s = A_stop \<and> stop_pipe s = 0)"
proof -
  have inv: "sync_inv n s" by (rule reach_inv [OF assms(1)])
  have "main_at s \<noteq> M_done" using inv assms(2) by (auto simp: sync_defs)
  moreover have "buffers t = Failed" if "sync_step s t" for t
    using that inv assms(2) by (cases rule: sync_step.cases) (auto simp: sync_defs split: main_pc.splits)
  moreover have "main_at s = M_join 0 \<and> alloc_at s = A_stop \<and> stop_pipe s = 0" if "\<nexists>t. sync_step s t"
    using stuck_or_done [OF inv that] stuck_alloc [OF that] calculation(1) inv assms(2) by (auto simp: sync_defs)
  ultimately show ?thesis by blast
qed

section \<open>Threads that cannot be created\<close>

text \<open>When \<^verbatim>\<open>pthread_create\<close> fails, \<^verbatim>\<open>create_bench_threads\<close> cancels and joins the threads it has created, in the way that
  \<^verbatim>\<open>destroy_bench_threads\<close> does, and returns; no signal has been sent. The state has the allocating thread and the \<open>m\<close> others
  that have been created; until they are cancelled they run as they do otherwise.\<close>

definition create_failed :: "nat \<Rightarrow> sync" where
  "create_failed m = (sync_start m)\<lparr>main_at := M_join 0\<rparr>"

inductive undo_reach :: "nat \<Rightarrow> sync \<Rightarrow> bool" for m where
  failed: "undo_reach m (create_failed m)"
| step: "undo_reach m s \<Longrightarrow> sync_step s t \<Longrightarrow> undo_reach m t"

definition undo_inv :: "nat \<Rightarrow> sync \<Rightarrow> bool" where
  "undo_inv m s \<longleftrightarrow> length (benches s) = m \<and> start_pipe s = 0 \<and> stop_pipe s = 0 \<and> alloc_at s \<noteq> A_free
     \<and> set (benches s) \<subseteq> {B_bind, B_lost, B_start, B_done}
     \<and> (case main_at s of
          M_join i \<Rightarrow> i \<le> Suc m \<and> (0 < i \<longrightarrow> alloc_at s \<in> {A_done, A_lost}) \<and> (\<forall>j. Suc j < i \<longrightarrow> benches s ! j \<in> {B_done, B_lost})
        | M_done \<Rightarrow> alloc_at s \<in> {A_done, A_lost} \<and> set (benches s) \<subseteq> {B_done, B_lost}
        | _ \<Rightarrow> False)"

lemma undo_start: "undo_inv m (create_failed m)"
proof -
  have "set ((replicate m B_start)[0 := B_bind]) \<subseteq> {B_bind, B_lost, B_start, B_done}"
    using set_update_subset_insert [of "replicate m B_start" 0 B_bind] by auto
  then show ?thesis by (simp add: undo_inv_def create_failed_def sync_start_def)
qed

lemma undo_bench:
  assumes "undo_inv m s" "i < length (benches s)" "benches s ! i \<notin> {B_done, B_lost}" "b \<in> {B_lost, B_start, B_done}"
  shows "undo_inv m (bench_goes i b s)"
proof -
  have "set ((benches s)[i := b]) \<subseteq> {B_bind, B_lost, B_start, B_done}"
    using set_update_subset_insert [of "benches s" i b] assms by (auto simp: undo_inv_def)
  moreover have "\<not> set (benches s) \<subseteq> {B_done, B_lost}" using nth_mem [OF assms(2)] assms(3) by auto
  ultimately show ?thesis
    using assms by (auto simp: undo_inv_def bench_goes_def nth_list_update split: main_pc.splits)
qed

lemma undo_step: "sync_step s t \<Longrightarrow> undo_inv m s \<Longrightarrow> undo_inv m t"
proof (induction rule: sync_step.induct)
  case (joined s)
  then have "set (benches s) \<subseteq> {B_done, B_lost}" by (fastforce simp: undo_inv_def in_set_conv_nth)
  then show ?case using joined by (simp add: undo_inv_def)
next
  case (join_bench s i)
  then show ?case by (auto simp: undo_inv_def less_Suc_eq)
next
  case (bench_run i s)
  then show ?case using nth_mem [of i "benches s"] by (auto simp: undo_inv_def)
next
  case (bench_ready i s)
  then show ?case using nth_mem [of i "benches s"] by (auto simp: undo_inv_def)
next
  case (bench_bound i s)
  then show ?case by (simp add: undo_bench)
next
  case (bench_lost i s)
  then show ?case by (simp add: undo_bench)
next
  case (cancel_bench s i)
  then show ?case by (intro undo_bench) auto
qed (simp_all add: undo_inv_def split: main_pc.splits)

text \<open>Undoing the creation ends as well, with all threads ended and joined, or else it hangs: the main thread joins the
  allocating thread, which disabled its cancellation before it was cancelled and waits for a signal that nobody will send.\<close>

theorem create_failure_ends:
  assumes "undo_reach m s"
  shows "(\<forall>t. sync_step s t \<longrightarrow> sync_rank t < sync_rank s)
     \<and> ((\<nexists>t. sync_step s t) \<longrightarrow>
         main_at s = M_done \<and> alloc_at s \<in> {A_done, A_lost} \<and> set (benches s) \<subseteq> {B_done, B_lost}
         \<or> main_at s = M_join 0 \<and> alloc_at s = A_stop \<and> stop_pipe s = 0)"
proof -
  have inv: "undo_inv m s" using assms by (induction rule: undo_reach.induct) (auto intro: undo_start undo_step)
  have "main_at s = M_done \<and> alloc_at s \<in> {A_done, A_lost} \<and> set (benches s) \<subseteq> {B_done, B_lost}
      \<or> main_at s = M_join 0 \<and> alloc_at s = A_stop \<and> stop_pipe s = 0" if stuck: "\<nexists>t. sync_step s t"
  proof (cases "main_at s")
    case (M_join i)
    then show ?thesis using stuck_join [OF stuck M_join] inv by (simp add: undo_inv_def)
  qed (use inv in \<open>simp_all add: undo_inv_def\<close>)
  then show ?thesis using step_rank by blast
qed

section \<open>Runs\<close>

definition running :: sync where
  "running = \<lparr>ready_pipe = 0, start_pipe = 0, stop_pipe = 0, main_at = M_start 0, alloc_at = A_stop, benches = [B_run], buffers = Prepared\<rparr>"

lemma sync_reach_step: "sync_step s t \<Longrightarrow> t = u \<Longrightarrow> sync_reach n s \<Longrightarrow> sync_reach n u"
  using sync_reach.step by blast

lemma reach_running: "sync_reach 1 running"
proof -
  let ?a = "(sync_start 1)\<lparr>alloc_at := A_prepare\<rparr>" and ?b = "(sync_start 1)\<lparr>alloc_at := A_prepare, benches := [B_start]\<rparr>"
  let ?s1 = "?b\<lparr>alloc_at := A_ready, buffers := Prepared\<rparr>"
  let ?s2 = "?s1\<lparr>alloc_at := A_mask, ready_pipe := 1\<rparr>" and ?s3 = "?s1\<lparr>alloc_at := A_stop, ready_pipe := 1\<rparr>"
  let ?s4 = "?s3\<lparr>ready_pipe := 0, main_at := M_start 1\<rparr>" and ?s5 = "?s3\<lparr>ready_pipe := 0, start_pipe := 1, main_at := M_start 0\<rparr>"
  have a: "sync_reach 1 ?a"
    by (rule sync_reach_step [OF sync_step.alloc_bound [of "sync_start 1"] _ sync_reach.start]) (simp_all add: sync_start_def)
  have b: "sync_reach 1 ?b"
    by (rule sync_reach_step [OF sync_step.bench_bound [of 0 ?a] _ a]) (simp_all add: sync_start_def bench_goes_def)
  have 1: "sync_reach 1 ?s1"
    by (rule sync_reach_step [OF sync_step.prepared [of ?b] _ b]) (simp_all add: sync_start_def)
  have 2: "sync_reach 1 ?s2"
    by (rule sync_reach_step [OF sync_step.alloc_ready [of ?s1] _ 1]) (simp_all add: sync_start_def)
  have 3: "sync_reach 1 ?s3"
    by (rule sync_reach_step [OF sync_step.alloc_mask [of ?s2] _ 2]) (simp_all add: sync_start_def)
  have 4: "sync_reach 1 ?s4"
    by (rule sync_reach_step [OF sync_step.main_alloc [of ?s3 0] _ 3]) (simp_all add: sync_start_def)
  have 5: "sync_reach 1 ?s5"
    by (rule sync_reach_step [OF sync_step.main_start [of ?s4 0] _ 4]) (simp_all add: sync_start_def)
  show ?thesis
    by (rule sync_reach_step [OF sync_step.bench_start [of 0 ?s5 0] _ 5]) (simp_all add: sync_start_def running_def bench_goes_def)
qed

lemma bench_buffers_safe_witness: "B_run \<in> set (benches running) \<and> buffers running = Prepared"
  using bench_buffers_safe [OF reach_running] by (simp add: running_def)

text \<open>The allocating thread has got no CPU set.\<close>

definition unbound :: sync where
  "unbound = (sync_start 1)\<lparr>alloc_at := A_lost, benches := [B_start]\<rparr>"

lemma reach_unbound: "sync_reach 1 unbound"
proof -
  let ?a = "(sync_start 1)\<lparr>alloc_at := A_lost\<rparr>"
  have a: "sync_reach 1 ?a"
    by (rule sync_reach_step [OF sync_step.alloc_lost [of "sync_start 1"] _ sync_reach.start]) (simp_all add: sync_start_def)
  show ?thesis
    by (rule sync_reach_step [OF sync_step.bench_bound [of 0 ?a] _ a]) (simp_all add: sync_start_def unbound_def bench_goes_def)
qed

lemma unbound_stuck: "\<not> sync_step unbound t"
  by (auto simp: unbound_def sync_start_def elim!: sync_step.cases)

lemma bench_sync_ends_witness:
  "sync_step running (bench_goes 0 B_ready running) \<and> sync_rank (bench_goes 0 B_ready running) < sync_rank running
     \<and> (\<nexists>t. sync_step unbound t) \<and> main_at unbound \<noteq> M_done"
proof -
  have "sync_step running (bench_goes 0 B_ready running)"
    by (rule sync_step.bench_run) (simp_all add: running_def)
  moreover have "\<nexists>t. sync_step unbound t" using unbound_stuck by blast
  moreover have "alloc_at unbound = A_lost" by (simp add: unbound_def)
  ultimately show ?thesis using bench_sync_ends [OF reach_running] bench_sync_ends [OF reach_unbound] by blast
qed

definition out_of_memory :: sync where
  "out_of_memory = (sync_start 1)\<lparr>alloc_at := A_ready, buffers := Failed\<rparr>"

lemma bench_no_memory_hangs_witness:
  "sync_step out_of_memory (out_of_memory\<lparr>alloc_at := A_mask, ready_pipe := 1\<rparr>)
     \<and> buffers (out_of_memory\<lparr>alloc_at := A_mask, ready_pipe := 1\<rparr>) = Failed \<and> main_at out_of_memory \<noteq> M_done"
proof -
  let ?a = "(sync_start 1)\<lparr>alloc_at := A_prepare\<rparr>"
  have a: "sync_reach 1 ?a"
    by (rule sync_reach_step [OF sync_step.alloc_bound [of "sync_start 1"] _ sync_reach.start]) (simp_all add: sync_start_def)
  have r: "sync_reach 1 out_of_memory"
    unfolding out_of_memory_def
    by (rule sync_reach_step [OF sync_step.failed [of ?a] _ a]) (simp_all add: sync_start_def)
  have s: "sync_step out_of_memory (out_of_memory\<lparr>alloc_at := A_mask, ready_pipe := 1\<rparr>)"
    using sync_step.alloc_ready [of out_of_memory] by (simp add: out_of_memory_def sync_start_def)
  show ?thesis
    using bench_no_memory_hangs [OF r] s by (auto simp: out_of_memory_def)
qed

end
