(* ===== verification/Spec2Isabelle.thy ===== *)
theory Spec2Isabelle
  imports GroupRelease Loads ThreadpoolInv Devices Deployd Commands InfoProps BenchSync
begin

text \<open>
  \<^bold>\<open>The wayca scheduler.\<close> The program is a C library (\<^verbatim>\<open>src/lib\<close>) that reads the topology of a machine
  from sysfs, binds threads, memory and interrupts to parts of it, and arranges threads in groups
  that share CPUs; a client and a daemon (\<^verbatim>\<open>src/deployer.c\<close>, \<^verbatim>\<open>src/deployd.c\<close>) that place programs described
  in configuration files; and command line tools. This development models the library, the client, the
  daemon and the tools, and proves what makes them correct. Each theory opens with a text that says
  what it holds; this one says how they fit together.

  \<^bold>\<open>Conventions.\<close> \<^verbatim>\<open>unsigned long\<close> is \<^typ>\<open>64 word\<close> (\<open>ulong\<close>) and \<^verbatim>\<open>uint32_t\<close> is \<^typ>\<open>32 word\<close> wherever wrap-around
  matters: bit searches, parsers, attributes, counters of thread pools. \<^verbatim>\<open>int\<close> values that cannot
  leave their range are integers. A structure is a record, an array a list; a pointer to a heap object is an
  address in a map (threads, groups, tasks), a pointer into an array an index, a pointer
  into a string the rest of the string. An operation returns an option: \<open>None\<close> means that the code has no
  defined outcome there (a read or write outside an array, a NULL pointer, a division by zero) or never
  returns. Loops whose end depends on the data are partial functions into \<open>option\<close>, so \<open>None\<close> is never hidden, and
  the theorems that a function returns are stated as such. Error codes are negative integers as in
  the code. The kernel, sysfs and \<^verbatim>\<open>/proc\<close>, the sockets, memory allocation, libxml2 and \<^verbatim>\<open>getopt\<close> are parameters: their results
  are arguments, and the calls made are recorded where they are the effect.

  \<^bold>\<open>The library of lemmas.\<close> \<open>Prelude\<close> holds the error codes, C division, checked array accesses and the
  collections \<open>c_arith\<close>, \<open>bit_scan\<close> and \<open>cset\<close>. \<open>Bitops\<close> models the searches of \<^verbatim>\<open>bitops.h\<close> with their masked single-word
  paths and characterises them as minima and maxima of bit sets. \<open>Cpuset\<close> models \<^verbatim>\<open>cpu_set_t\<close>, the \<^verbatim>\<open>CPU_*\<close> macros
  and the four \<^verbatim>\<open>cpuset_find_*\<close> functions; its locale \<open>cpu_bitset\<close> is the interface all other theories use, a
  set of numbers below 1024. \<open>CString\<close> holds \<^verbatim>\<open>strtoul\<close>, \<^verbatim>\<open>strtol\<close> and \<^verbatim>\<open>cpulist_parse\<close>.

  \<^bold>\<open>Topology\<close> (\<^verbatim>\<open>topo.h\<close>, \<^verbatim>\<open>topo.c\<close>). \<open>Topo\<close> has the structures and the counting queries, \<open>TopoInit\<close> the
  construction from sysfs with every failing allocation, \<open>Devices\<close> the walk over \<^verbatim>\<open>/sys/devices\<close>, and
  \<open>TopoQuery\<close> the online status with the re-creation of the topology, the mask, identifier, cache, interrupt and device
  queries. Shown: printed CPU lists are read back, and the one list on which the parser diverges; the
  walk attaches every device exactly once to its node and the device list reports it; the interrupt
  number of a device without MSI is lost; re-creating the topology after CPU hotplug writes through NULL.

  \<^bold>\<open>Threads and groups\<close> (\<^verbatim>\<open>wayca_thread.h\<close>, \<^verbatim>\<open>group.c\<close>, \<^verbatim>\<open>threads.c\<close>). \<open>Group\<close> models \<^verbatim>\<open>group.c\<close> on two heaps of objects
  and \<open>Threads\<close> the public functions of \<^verbatim>\<open>threads.c\<close>, with the mutex of each group as a flag: locking a locked
  one has no outcome. \<open>SiblingList\<close> treats singly linked member lists in the locales \<open>sibling_list\<close> and \<open>owned_list\<close>,
  which \<open>GroupHeap\<close> interprets for the threads and the groups of a group; \<open>IdTable\<close> treats the identifier tables in the
  locale \<open>id_table\<close>, interpreted for threads, groups and thread pools. \<open>GroupHeap\<close>, \<open>GroupTree\<close> and \<open>ThreadsInv\<close> show
  that every state reachable by calls of the interface is well formed: tables, lists, back pointers and counters agree, the
  lists end, no mutex stays locked. \<open>Loads\<close> shows that the load of each CPU is exactly the sum of the
  loads of the threads that may run on it, for sequences of calls without \<^verbatim>\<open>wayca_sc_thread_set_attr\<close> on a grouped thread and
  \<^verbatim>\<open>wayca_sc_pid_detach_thread\<close>, which account wrongly (the latter is shown). \<open>GroupAssign\<close> shows that placing a thread
  succeeds on every group that satisfies the resource invariant, takes an unused CPU and keeps the invariant, and that placement
  is balanced whatever the loads are. \<open>GroupRelease\<close> shows when giving CPUs back undoes an
  assignment and what goes wrong after a roll-over.

  \<^bold>\<open>Thread pools\<close> (\<^verbatim>\<open>threads.c\<close>). \<open>Threadpool\<close> models the pool functions and, as the step relation \<open>tp_step\<close>, the
  workers' loop, the callers that queue tasks, signals, spurious wake-ups and stop, one critical section per step.
  \<open>ThreadpoolInv\<close> shows that the circular task list refines a FIFO queue (locale \<open>fifo\<close>), that in every
  interleaving tasks start in order and exactly once with exact counters, that no wake-up is lost, that all workers return
  after stop, and that destruction empties the queue.

  \<^bold>\<open>Binding\<close> (\<^verbatim>\<open>threads.c\<close>, \<^verbatim>\<open>irq.c\<close>, \<^verbatim>\<open>mem.c\<close>, \<^verbatim>\<open>managed_threads.c\<close>). \<open>Bind\<close> models \<^verbatim>\<open>list_to_mask\<close>, the functions that bind threads and
  processes, and the constructor of the thread library; \<open>Irq\<close> the affinity masks of interrupts; \<open>Mem\<close> the memory
  policies; \<open>Managed\<close> the task maps of managed threads. Shown: printed masks are read back, printed lists and maps up to
  the first range that \<^verbatim>\<open>list_to_mask\<close> refuses, a bound interrupt
  is reported on its CPU, each thread of a process is bound once, table sizes and printed masks fit,
  and four ways in which a list or a mode is misread.

  \<^bold>\<open>Programs\<close> (\<^verbatim>\<open>common.h\<close>, \<^verbatim>\<open>deployer.c\<close>, \<^verbatim>\<open>deployd.c\<close>, \<^verbatim>\<open>taskdeploy.c\<close>, \<^verbatim>\<open>irqdeploy.c\<close>, \<^verbatim>\<open>irqdump.c\<close>). \<open>Deployer\<close> models the
  configuration parser and the start of a program, \<open>Deployd\<close> the daemon's loads, placement and \<^verbatim>\<open>select\<close> loop, \<open>Commands\<close> the
  tools. Shown: a printed configuration is parsed into what it was printed from, the daemon watches
  exactly its socket and its clients, automatic placement never overcommits a cluster (but may charge one without binding the
  program), and \<^verbatim>\<open>irqdump\<close> reads back interrupt tables.

  \<^bold>\<open>Topology documents\<close> (\<^verbatim>\<open>tools/wayca-sc-info\<close>). The tool builds an XML document of the topology or reads one from a file,
  validates it and prints or writes it. \<open>XmlLib\<close> states the functions of libxml2 it calls as a record and their
  documented behaviour as the locale \<open>libxml_laws\<close>, interpreted on tables of nodes. \<open>InfoBuild\<close> models the construction of the
  document by queries of the topology, and \<open>InfoDoc\<close> shows, in the locale \<open>topo_doc\<close>, that it ends with a document whose tree of
  elements is that of the topology. \<open>InfoCheck\<close> models the DTD, the validation, printing, files, options and \<^verbatim>\<open>main\<close>.
  \<open>InfoWalk\<close> treats the walk that validation and printing share in the locale \<open>element_walk\<close> (sublocales of \<open>sound_doc\<close>), \<open>InfoFiles\<close> the
  search and the deletion of elements. \<open>InfoProps\<close> shows that the document satisfies the DTD (validity
  is defined on the tree of all nodes, so that white space inside an EMPTY element makes a document invalid), that every document that does is printed
  to its end, what is left of a document from a file and when a freed root is searched, that the whole program prints the
  topology of the machine or of a file, and when the name of the output file overflows its buffer.

  \<^bold>\<open>Memory benchmark\<close> (\<^verbatim>\<open>tools/wayca-memory-bench\<close>). \<open>MemBench\<close> models the options, the list that the latency benchmark walks, the
  streams, the measuring loops and how results are put together; \<open>BenchSync\<close> the main thread, the allocating thread and the measuring
  threads with their pipes as the step relation \<open>sync_step\<close>. \<open>BenchList\<close> shows, in the locale \<open>bench_sizes\<close>, that the list is a cycle
  within the allocated memory and with a fixed stride the cycle through all elements; \<open>BenchRuns\<close> that the streams compute what
  they are named for, that times are means, and that bandwidths are computed from accumulated times; \<open>BenchSync\<close> that buffers are
  only used between their preparation and their release, that every run ends, with all threads
  joined exactly when the buffers and the CPU sets of the bound threads could be allocated, and that it hangs otherwise.

  \<^bold>\<open>Bounds.\<close> There is no fuel. A CPU set has 16 words, as \<^verbatim>\<open>cpu_set_t\<close>; sets from \<^verbatim>\<open>CPU_ALLOC\<close> have the number of
  words the code computes. A number \<open>mem\<close> of allocations that succeed stands for the memory available to a
  construction of the topology: every failure of one allocation is covered by some number.

  \<^bold>\<open>Not modelled.\<close> Logging and debug output, and the measured tables of \<^verbatim>\<open>topo.c\<close>, which nothing reads. The freeing of single
  objects of the topology (\<^verbatim>\<open>topo_free\<close> is the reset of the structure). The calls of several threads of a
  program into the library at the same time, except for thread pools: the interface of threads and groups is a
  sequence of calls. \<^verbatim>\<open>perf.c\<close>, which runs an external program; the inside of libxml2, of which only the documented
  behaviour is assumed; the other benchmarks, the kernel module, tests and examples.
\<close>

end
